(* ===== verification/Prelude.thy ===== *)
theory Prelude
  imports Main "HOL-Library.Multiset" "HOL-Library.Char_ord" "HOL-Library.List_Lexorder"
    "HOL-Library.Product_Lexorder" "HOL-Library.Sublist"
begin

text \<open>
  Shared vocabulary of the development: Go strings as lists of bytes, the ASCII
  helpers the code takes from Go's \<open>strings\<close> package, SQL tables as lists of rows with
  the three statements the store uses on them (UPDATE, DELETE, SELECT COUNT), the row
  id SQLite hands out, and the interface of a machine that keeps an invariant.
\<close>

named_theorems row_simps \<open>rewrite rules for updated, deleted and appended rows\<close>

section \<open>Strings\<close>

type_synonym time = int \<comment> \<open>seconds since the epoch, as the store keeps them\<close>

definition ascii_lower :: "char \<Rightarrow> char" where
  "ascii_lower c = (if 65 \<le> (of_char c :: nat) \<and> (of_char c :: nat) \<le> 90
     then char_of ((of_char c :: nat) + 32) else c)"

definition lower :: "string \<Rightarrow> string" where
  "lower s = map ascii_lower s"

text \<open>
  \<open>strings.TrimSpace\<close> drops leading and trailing runes with the White_Space property. On
  bytes that is a finite list of encodings: six ASCII controls and the UTF-8 forms of
  U+0085, U+00A0, U+1680, U+2000 to U+200A, U+2028, U+2029, U+202F, U+205F and U+3000.
\<close>

definition space_seqs :: "string list" where
  "space_seqs =
     [[CHR 0x09], [CHR 0x0A], [CHR 0x0B], [CHR 0x0C], [CHR 0x0D], [CHR 0x20],
      [CHR 0xC2, CHR 0x85], [CHR 0xC2, CHR 0xA0], [CHR 0xE1, CHR 0x9A, CHR 0x80],
      [CHR 0xE2, CHR 0x80, CHR 0x80], [CHR 0xE2, CHR 0x80, CHR 0x81],
      [CHR 0xE2, CHR 0x80, CHR 0x82], [CHR 0xE2, CHR 0x80, CHR 0x83],
      [CHR 0xE2, CHR 0x80, CHR 0x84], [CHR 0xE2, CHR 0x80, CHR 0x85],
      [CHR 0xE2, CHR 0x80, CHR 0x86], [CHR 0xE2, CHR 0x80, CHR 0x87],
      [CHR 0xE2, CHR 0x80, CHR 0x88], [CHR 0xE2, CHR 0x80, CHR 0x89],
      [CHR 0xE2, CHR 0x80, CHR 0x8A], [CHR 0xE2, CHR 0x80, CHR 0xA8],
      [CHR 0xE2, CHR 0x80, CHR 0xA9], [CHR 0xE2, CHR 0x80, CHR 0xAF],
      [CHR 0xE2, CHR 0x81, CHR 0x9F], [CHR 0xE3, CHR 0x80, CHR 0x80]]"

fun strip_seq :: "string list \<Rightarrow> string \<Rightarrow> string option" where
  "strip_seq [] s = None"
| "strip_seq (p # ps) s =
     (if take (length p) s = p then Some (drop (length p) s) else strip_seq ps s)"

lemma strip_seq_length: "strip_seq ps s = Some r \<Longrightarrow> [] \<notin> set ps \<Longrightarrow> length r < length s"
proof (induction ps)
  case (Cons p ps)
  then show ?case
    by (cases "take (length p) s = p"; cases p; cases s) auto
qed simp

lemma space_seqs_nonempty: "[] \<notin> set space_seqs"
  by (simp add: space_seqs_def)

function trim_seqs :: "string list \<Rightarrow> string \<Rightarrow> string" where
  "trim_seqs ps s =
     (if [] \<in> set ps then s
      else case strip_seq ps s of None \<Rightarrow> s | Some r \<Rightarrow> trim_seqs ps r)"
  by pat_completeness auto
termination
  by (relation "measure (\<lambda>(ps, s). length s)") (auto dest: strip_seq_length)

declare trim_seqs.simps [simp del]

definition trim_left :: "string \<Rightarrow> string" where
  "trim_left s = trim_seqs space_seqs s"

definition trim_right :: "string \<Rightarrow> string" where
  "trim_right s = rev (trim_seqs (map rev space_seqs) (rev s))"

definition trim_space :: "string \<Rightarrow> string" where
  "trim_space s = trim_right (trim_left s)"

definition cut_prefix :: "string \<Rightarrow> string \<Rightarrow> string option" where
  "cut_prefix p s = (if take (length p) s = p then Some (drop (length p) s) else None)"

definition has_prefix :: "string \<Rightarrow> string \<Rightarrow> bool" where
  "has_prefix s p \<longleftrightarrow> take (length p) s = p"

definition has_suffix :: "string \<Rightarrow> string \<Rightarrow> bool" where
  "has_suffix s p \<longleftrightarrow> length p \<le> length s \<and> drop (length s - length p) s = p"

lemma cut_prefix_Some_iff: "cut_prefix p s = Some r \<longleftrightarrow> s = p @ r"
  by (auto simp: cut_prefix_def) (metis append_take_drop_id)

lemma cut_prefix_append [simp]: "cut_prefix p (p @ r) = Some r"
  by (simp add: cut_prefix_Some_iff)

lemma has_prefix_iff: "has_prefix s p \<longleftrightarrow> (\<exists>r. s = p @ r)"
  by (auto simp: has_prefix_def) (metis append_take_drop_id)

lemma has_suffix_iff: "has_suffix s p \<longleftrightarrow> (\<exists>r. s = r @ p)"
  by (auto simp: has_suffix_def) (metis append_take_drop_id)

lemma lower_append [simp]: "lower (a @ b) = lower a @ lower b"
  by (simp add: lower_def)

lemma length_lower [simp]: "length (lower s) = length s"
  by (simp add: lower_def)

text \<open>
  The width of the first rune of a string, as \<open>utf8.DecodeRune\<close> computes it: one for ASCII
  and for any byte that does not start a well-formed sequence. \<open>runes\<close> splits a string
  into its runes, \<open>rune_count\<close> counts them.
\<close>

definition byte_in :: "nat \<Rightarrow> nat \<Rightarrow> char \<Rightarrow> bool" where
  "byte_in lo hi c \<longleftrightarrow> lo \<le> (of_char c :: nat) \<and> (of_char c :: nat) \<le> hi"

fun rune_width :: "string \<Rightarrow> nat" where
  "rune_width [] = 0"
| "rune_width (c # cs) =
     (let seq = (\<lambda>lo hi n. if n \<le> length cs \<and> byte_in lo hi (hd cs)
                    \<and> list_all (byte_in 128 191) (take (n - 1) (tl cs)) then n + 1 else 1) in
      if byte_in 194 223 c then seq 128 191 1
      else if byte_in 224 224 c then seq 160 191 2
      else if byte_in 237 237 c then seq 128 159 2
      else if byte_in 225 239 c then seq 128 191 2
      else if byte_in 240 240 c then seq 144 191 3
      else if byte_in 241 243 c then seq 128 191 3
      else if byte_in 244 244 c then seq 128 143 3
      else 1)"

lemma rune_width_pos: "s \<noteq> [] \<Longrightarrow> 0 < rune_width s"
  by (cases s) (auto simp: Let_def)

lemma rune_width_le: "rune_width s \<le> length s"
  by (cases s) (auto simp: Let_def)

function runes :: "string \<Rightarrow> string list" where
  "runes s = (if s = [] then [] else take (rune_width s) s # runes (drop (rune_width s) s))"
  by pat_completeness auto
termination
  by (relation "measure length") (use rune_width_pos in \<open>auto simp: length_greater_0_conv\<close>)

declare runes.simps [simp del]

definition rune_count :: "string \<Rightarrow> nat" where
  "rune_count s = length (runes s)"

lemma concat_runes: "concat (runes s) = s"
  by (induction s rule: runes.induct) (subst runes.simps, simp)

section \<open>Tables as lists of rows\<close>

text \<open>
  A table is the list of its rows in row id order. \<open>upd_where\<close> is
  UPDATE ... SET f WHERE P, \<open>del_where\<close> is DELETE ... WHERE P and \<open>count_where\<close> is
  SELECT COUNT(*) ... WHERE P. \<open>next_id\<close> is the row id an INSERT into a table with an
  INTEGER PRIMARY KEY receives: one more than the largest one in use.
\<close>

definition upd_where :: "('r \<Rightarrow> bool) \<Rightarrow> ('r \<Rightarrow> 'r) \<Rightarrow> 'r list \<Rightarrow> 'r list" where
  "upd_where P f rs = map (\<lambda>r. if P r then f r else r) rs"

definition del_where :: "('r \<Rightarrow> bool) \<Rightarrow> 'r list \<Rightarrow> 'r list" where
  "del_where P rs = filter (\<lambda>r. \<not> P r) rs"

definition count_where :: "('r \<Rightarrow> bool) \<Rightarrow> 'r list \<Rightarrow> nat" where
  "count_where P rs = length (filter P rs)"

definition next_id :: "('r \<Rightarrow> int) \<Rightarrow> 'r list \<Rightarrow> int" where
  "next_id key rs = foldr max (map key rs) 0 + 1"

definition sql_limit :: "int \<Rightarrow> 'r list \<Rightarrow> 'r list" where
  \<comment> \<open>LIMIT n: a negative bound is no bound\<close>
  "sql_limit n rs = (if n < 0 then rs else take (nat n) rs)"

lemma foldr_max_ge: "(k::int) \<in> set ks \<Longrightarrow> k \<le> foldr max ks b"
  by (induction ks) auto

lemma next_id_fresh: "r \<in> set rs \<Longrightarrow> key r < next_id key rs"
  using foldr_max_ge [of "key r" "map key rs" 0] by (auto simp: next_id_def)

lemma next_id_notin [simp]: "next_id key rs \<notin> key ` set rs"
  using next_id_fresh [of _ rs key] by fastforce

lemma next_id_pos: "0 < next_id key rs"
proof -
  have "0 \<le> foldr max ks (0::int)" for ks
    by (induction ks) auto
  from this [of "map key rs"] show ?thesis by (simp add: next_id_def)
qed

lemma set_upd_where [row_simps]:
  "set (upd_where P f rs) = {r. \<exists>q \<in> set rs. r = (if P q then f q else q)}"
  by (auto simp: upd_where_def)

lemma set_del_where [row_simps]: "set (del_where P rs) = {r \<in> set rs. \<not> P r}"
  by (auto simp: del_where_def)

lemma map_upd_where [row_simps]:
  "(\<And>r. P r \<Longrightarrow> key (f r) = key r) \<Longrightarrow> map key (upd_where P f rs) = map key rs"
  by (auto simp: upd_where_def)

lemma image_upd_where [row_simps]:
  "(\<And>r. P r \<Longrightarrow> key (f r) = key r) \<Longrightarrow> key ` set (upd_where P f rs) = key ` set rs"
  by (metis list.set_map map_upd_where)

lemma upd_where_hit: "r \<in> set rs \<Longrightarrow> P r \<Longrightarrow> f r \<in> set (upd_where P f rs)"
  and upd_where_miss: "r \<in> set rs \<Longrightarrow> \<not> P r \<Longrightarrow> r \<in> set (upd_where P f rs)"
  by (auto simp: upd_where_def)

lemma ball_upd_where:
  "(\<And>r. P r \<Longrightarrow> Q (f r) = Q r) \<Longrightarrow> (\<forall>r \<in> set (upd_where P f rs). Q r) = (\<forall>r \<in> set rs. Q r)"
  unfolding upd_where_def by (induction rs) auto

lemma filter_upd_where:
  "(\<And>r. P r \<Longrightarrow> \<not> Q r \<and> \<not> Q (f r)) \<Longrightarrow> filter Q (upd_where P f rs) = filter Q rs"
  by (induction rs) (auto simp: upd_where_def)

lemma ball_upd_whereI:
  "(\<And>r. r \<in> set rs \<Longrightarrow> Q (if P r then f r else r)) \<Longrightarrow> \<forall>r \<in> set (upd_where P f rs). Q r"
  unfolding upd_where_def set_map by blast

lemma distinct_del_where [row_simps]:
  "distinct (map key rs) \<Longrightarrow> distinct (map key (del_where P rs))"
  by (simp add: del_where_def distinct_map_filter)

lemma del_where_append [row_simps]:
  "del_where P (xs @ ys) = del_where P xs @ del_where P ys"
  by (simp add: del_where_def)

lemma length_upd_where [row_simps]: "length (upd_where P f rs) = length rs"
  by (simp add: upd_where_def)

lemma upd_where_append [row_simps]:
  "upd_where P f (xs @ ys) = upd_where P f xs @ upd_where P f ys"
  by (simp add: upd_where_def)

lemma upd_where_Nil [row_simps]: "upd_where P f [] = []"
  by (simp add: upd_where_def)

lemma count_where_append [row_simps]:
  "count_where P (xs @ ys) = count_where P xs + count_where P ys"
  by (simp add: count_where_def)

lemma count_where_single [row_simps]: "count_where P [x] = (if P x then 1 else 0)"
  by (simp add: count_where_def)

lemma count_where_0_iff: "count_where P rs = 0 \<longleftrightarrow> (\<forall>r \<in> set rs. \<not> P r)"
  by (auto simp: count_where_def filter_empty_conv)

lemma count_where_cong:
  "(\<And>r. r \<in> set rs \<Longrightarrow> P r = Q r) \<Longrightarrow> count_where P rs = count_where Q rs"
  unfolding count_where_def by (metis filter_cong)

lemma count_where_del_where:
  "(\<And>r. r \<in> set rs \<Longrightarrow> P r \<Longrightarrow> \<not> Q r) \<Longrightarrow> count_where P (del_where Q rs) = count_where P rs"
  unfolding count_where_def del_where_def filter_filter
  by (metis (mono_tags, lifting) filter_cong)

lemma count_where_upd_where:
  "(\<And>r. r \<in> set rs \<Longrightarrow> P (if Q r then f r else r) = P r)
    \<Longrightarrow> count_where P (upd_where Q f rs) = count_where P rs"
  unfolding count_where_def upd_where_def
  by (induction rs) auto

lemma find_Some_iff_in: "find P rs = Some r \<Longrightarrow> r \<in> set rs \<and> P r"
  by (auto simp: find_Some_iff)

lemma find_None_iff_all: "find P rs = None \<longleftrightarrow> (\<forall>r \<in> set rs. \<not> P r)"
  by (auto simp: find_None_iff)

lemma distinct_map_unique:
  "distinct (map key rs) \<Longrightarrow> r \<in> set rs \<Longrightarrow> q \<in> set rs \<Longrightarrow> key r = key q \<Longrightarrow> r = q"
  by (meson distinct_map inj_onD)

section \<open>Joins\<close>

lemma concat_if_filter: "concat (map (\<lambda>r. if P r then [f r] else []) ts) = map f (filter P ts)"
  by (induction ts) auto

lemma filter_unique:
  "distinct (map key rs) \<Longrightarrow> (\<And>r. r \<in> set rs \<Longrightarrow> P r \<Longrightarrow> key r = c) \<Longrightarrow> length (filter P rs) \<le> 1"
proof (induction rs)
  case (Cons r rs)
  show ?case
  proof (cases "P r")
    case True
    have "\<not> P q" if "q \<in> set rs" for q
    proof
      assume "P q"
      then have "key q = key r" using Cons.prems(2) [of r] Cons.prems(2) [of q] True that by simp
      moreover have "key q \<in> key ` set rs" using that by (rule imageI)
      ultimately show False using Cons.prems(1) by simp
    qed
    then have "filter P rs = []" by (simp add: filter_empty_conv)
    then show ?thesis using True by simp
  qed (use Cons in simp)
qed simp

lemma length_le_1_cases: "length xs \<le> 1 \<Longrightarrow> xs = [] \<or> (\<exists>x. xs = [x])"
  by (cases xs) auto

lemma distinct_join:
  \<comment> \<open>a join in which every row on the left has at most one partner keeps the keys distinct\<close>
  assumes "distinct (map k xs)" "\<And>x. x \<in> set xs \<Longrightarrow> length (g x) \<le> 1"
    "\<And>x y. x \<in> set xs \<Longrightarrow> y \<in> set (g x) \<Longrightarrow> k' y = k x"
  shows "distinct (map k' (concat (map g xs)))"
  using assms
proof (induction xs)
  case (Cons x xs)
  have IH: "distinct (map k' (concat (map g xs)))" by (rule Cons.IH) (use Cons.prems in auto)
  have keys: "k' ` set (concat (map g xs)) \<subseteq> k ` set xs" using Cons.prems(3) by force
  have "g x = [] \<or> (\<exists>y. g x = [y])"
    using Cons.prems(2) [of x] by (intro length_le_1_cases) simp
  then show ?case
  proof
    assume "\<exists>y. g x = [y]"
    then obtain y where y: "g x = [y]" ..
    then have "k' y = k x" using Cons.prems(3) [of x y] by simp
    moreover have "k x \<notin> k ` set xs" using Cons.prems(1) by simp
    ultimately have "k' y \<notin> k' ` set (concat (map g xs))" using keys by auto
    then show ?thesis using IH y by simp
  qed (use IH in simp)
qed simp

section \<open>Machines that keep an invariant\<close>

text \<open>
  The contract of every stateful part of the program: a step function over commands,
  and an invariant each step keeps. A run is a fold of the step over a list of commands.
\<close>

locale invariant_machine =
  fixes step :: "'s \<Rightarrow> 'c \<Rightarrow> 's"
    and inv :: "'s \<Rightarrow> bool"
  assumes step_inv: "inv s \<Longrightarrow> inv (step s c)"
begin

lemma run_inv: "inv s \<Longrightarrow> inv (foldl step s cs)"
  by (induction cs arbitrary: s) (auto intro: step_inv)

lemma run_prefix_inv: "inv s \<Longrightarrow> cs = ds @ es \<Longrightarrow> inv (foldl step s ds)"
  by (rule run_inv)

end

end
