(* ===== verification/Db.thy ===== *)
theory Db
  imports Prelude
begin

text \<open>
  The SQLite schema as it stands after the eleven migrations of
  \<open>internal/store/migrations\<close>: one record per table, with the columns the code reads or
  writes, and one record \<open>db\<close> of all tables. Nullable columns are options, rows are kept
  in row id order. The theory also holds SQL's LIKE, the NOCASE collation, the errors the
  store returns, and the invariant \<open>db_ok\<close> that every store operation keeps: keys and
  UNIQUE constraints, foreign keys, the fan-out of \<open>user_entry_state\<close> and the cached
  unread counts.
\<close>

section \<open>LIKE and NOCASE\<close>

text \<open>
  SQL's LIKE: a percent sign matches any run of characters, an underscore one character,
  and ASCII letters match without regard to case. The wildcards step over whole UTF-8
  characters: a lead byte takes its continuation bytes with it.
\<close>

definition is_cont :: "char \<Rightarrow> bool" where
  "is_cont c \<longleftrightarrow> 128 \<le> (of_char c :: nat) \<and> (of_char c :: nat) < 192"

definition skip_char :: "char \<Rightarrow> string \<Rightarrow> string" where
  "skip_char c s = (if 192 \<le> (of_char c :: nat) then dropWhile is_cont s else s)"

lemma skip_char_length [termination_simp]: "length (skip_char c s) \<le> length s"
  by (simp add: skip_char_def length_dropWhile_le)

lemma skip_char_less [termination_simp]: "length (skip_char c s) < Suc (length s)"
  using skip_char_length [of c s] by simp

function like :: "string \<Rightarrow> string \<Rightarrow> bool" where
  "like [] s = (s = [])"
| "like (p # ps) s =
     (if p = CHR ''%'' then
        like ps s \<or> (case s of [] \<Rightarrow> False | c # s' \<Rightarrow> like (p # ps) (skip_char c s'))
      else if p = CHR ''_'' then
        (case s of [] \<Rightarrow> False | c # s' \<Rightarrow> like ps (skip_char c s'))
      else
        (case s of [] \<Rightarrow> False | c # s' \<Rightarrow> ascii_lower p = ascii_lower c \<and> like ps s'))"
  by pat_completeness auto
termination
  by (relation "measure (\<lambda>(ps, s). length ps + length s)")
    (auto simp: less_Suc_eq_le intro: le_trans [OF skip_char_length])

declare like.simps [simp del]

definition contains_word :: "string \<Rightarrow> string \<Rightarrow> bool" where
  \<comment> \<open>x LIKE '%' || word || '%'\<close>
  "contains_word x w = like (''%'' @ w @ ''%'') x"

definition nocase :: "string \<Rightarrow> string \<Rightarrow> bool" where
  \<comment> \<open>equality under COLLATE NOCASE\<close>
  "nocase a b \<longleftrightarrow> lower a = lower b"

section \<open>Errors\<close>

text \<open>
  The sentinel errors of the store, and \<open>ErrConstraint\<close> for any other constraint SQLite
  reports (UNIQUE, FOREIGN KEY), which the API answers with a 500. \<open>ErrEmptyWord\<close> is the
  unwrapped error of \<open>AddIgnoreWord\<close>. A failed statement rolls its transaction back, so an
  error carries no new state.
\<close>

datatype store_error =
    ErrNotFound | ErrConflict | ErrLastAdmin | ErrInvitationInvalid
  | ErrConstraint | ErrEmptyWord

section \<open>Rows\<close>

record user =
  usr_id :: int
  usr_name :: string
  usr_hash :: string
  usr_admin :: bool
  usr_disabled :: bool
  usr_embeds :: bool
  usr_created :: time
  usr_updated :: time

record session =
  ses_id :: int
  ses_token :: string
  ses_user :: int
  ses_created :: time
  ses_seen :: time
  ses_expires :: time

record api_token =
  tok_id :: int
  tok_hash :: string
  tok_user :: int
  tok_label :: string
  tok_created :: time
  tok_used :: "time option"

record invitation =
  inv_id :: int
  inv_token :: string
  inv_creator :: int
  inv_expires :: time
  inv_used_by :: "int option"
  inv_used_at :: "time option"
  inv_created :: time

record folder =
  fol_id :: int
  fol_user :: int
  fol_name :: string
  fol_sort :: int

record feed =
  fd_id :: int
  fd_url :: string
  fd_site :: "string option"
  fd_title :: string
  fd_desc :: string
  fd_favicon :: "string option"
  fd_etag :: "string option"
  fd_lastmod :: "string option"
  fd_hash :: "string option"
  fd_interval :: int
  fd_next :: time
  fd_fetched :: "time option"
  fd_success :: "time option"
  fd_status :: "int option"
  fd_errors :: int
  fd_lasterr :: "string option"
  fd_created :: time
  fd_updated :: time

record subscription =
  sub_user :: int
  sub_feed :: int
  sub_folder :: "int option"
  sub_title :: "string option"
  sub_rating :: int
  sub_unread :: nat
  sub_sort :: int
  sub_created :: time

record entry =
  ent_id :: int
  ent_feed :: int
  ent_guid :: string
  ent_url :: string
  ent_title :: string
  ent_author :: string
  ent_body :: string
  ent_hash :: string
  ent_pub :: time
  ent_upd :: time
  ent_fetched :: time
  ent_created :: time

record entry_state =
  ues_user :: int
  ues_entry :: int
  ues_feed :: int
  ues_pub :: time
  ues_created :: time
  ues_read :: "time option"
  ues_ignored :: bool

record pin =
  pin_user :: int
  pin_entry :: int
  pin_url :: string
  pin_title :: string
  pin_created :: time

record ignore_word =
  ig_id :: int
  ig_user :: int
  ig_word :: string
  ig_created :: time

record scrape_source =
  scr_id :: int
  scr_feed :: int
  scr_kind :: string
  scr_target :: string
  scr_config :: string
  scr_state :: "string option"
  scr_creator :: int
  scr_created :: time
  scr_updated :: time

record feed_fulltext =
  ff_feed :: int
  ff_creator :: int
  ff_created :: time

record feed_boilerplate =
  fb_feed :: int
  fb_state :: string
  fb_updated :: time

record db =
  users :: "user list"
  sessions :: "session list"
  api_tokens :: "api_token list"
  invitations :: "invitation list"
  folders :: "folder list"
  feeds :: "feed list"
  subs :: "subscription list"
  entries :: "entry list"
  states :: "entry_state list"
  pins :: "pin list"
  ignores :: "ignore_word list"
  scrapes :: "scrape_source list"
  fulltexts :: "feed_fulltext list"
  boilers :: "feed_boilerplate list"

definition setup_sentinel :: string where
  "setup_sentinel = ''!locked!''"

definition init_db :: "time \<Rightarrow> db" where
  \<comment> \<open>a fresh database after the migrations: the locked bootstrap admin and nothing else\<close>
  "init_db now = \<lparr>users = [\<lparr>usr_id = 1, usr_name = ''admin'', usr_hash = setup_sentinel,
      usr_admin = True, usr_disabled = False, usr_embeds = False, usr_created = now,
      usr_updated = now\<rparr>],
    sessions = [], api_tokens = [], invitations = [], folders = [], feeds = [], subs = [],
    entries = [], states = [], pins = [], ignores = [], scrapes = [], fulltexts = [],
    boilers = []\<rparr>"

section \<open>Readings of the tables\<close>

abbreviation user_ids :: "db \<Rightarrow> int set" where
  "user_ids d \<equiv> usr_id ` set (users d)"

abbreviation feed_ids :: "db \<Rightarrow> int set" where
  "feed_ids d \<equiv> fd_id ` set (feeds d)"

definition counted :: "int \<Rightarrow> int \<Rightarrow> entry_state \<Rightarrow> bool" where
  \<comment> \<open>the rows the unread count of user u on feed f counts\<close>
  "counted u f r \<longleftrightarrow> ues_user r = u \<and> ues_feed r = f \<and> ues_read r = None \<and> \<not> ues_ignored r"

definition unread_of :: "db \<Rightarrow> int \<Rightarrow> int \<Rightarrow> nat" where
  "unread_of d u f = count_where (counted u f) (states d)"

definition word_hit :: "db \<Rightarrow> int \<Rightarrow> string \<Rightarrow> string \<Rightarrow> bool" where
  \<comment> \<open>EXISTS(SELECT 1 FROM ignore_words ...): a word of user u occurs in the title or body\<close>
  "word_hit d u title body \<longleftrightarrow> list_ex (\<lambda>w. ig_user w = u \<and>
      (contains_word title (ig_word w) \<or> contains_word body (ig_word w))) (ignores d)"

definition subscribed :: "db \<Rightarrow> int \<Rightarrow> int \<Rightarrow> bool" where
  "subscribed d u f \<longleftrightarrow> list_ex (\<lambda>s. sub_user s = u \<and> sub_feed s = f) (subs d)"

end
