(* ===== verification/DbInv.thy ===== *)
theory DbInv
  imports Db
begin

text \<open>
  The invariant of the database. \<open>db_ok\<close> collects what the schema enforces (primary keys,
  UNIQUE constraints, foreign keys) and what only the code keeps: at least one enabled
  admin, a \<open>user_entry_state\<close> row for exactly the entries of the feeds a user subscribes
  to, its denormalised columns equal to those of the entry, and each subscription's
  cached unread count equal to the number of its unread, not ignored rows. The lemmas are
  frame rules: what has to be shown when an operation replaces one table.
\<close>

named_theorems db_parts \<open>the parts of the database invariant\<close>

definition fk :: "('r \<Rightarrow> 'k) \<Rightarrow> 'r list \<Rightarrow> 'k set \<Rightarrow> bool" where
  "fk key rs ks \<longleftrightarrow> (\<forall>r \<in> set rs. key r \<in> ks)"

definition users_ok :: "user list \<Rightarrow> bool" where
  "users_ok us \<longleftrightarrow> distinct (map usr_id us) \<and> distinct (map (\<lambda>u. lower (usr_name u)) us)"

definition enabled_admin :: "user \<Rightarrow> bool" where
  "enabled_admin u \<longleftrightarrow> usr_admin u \<and> \<not> usr_disabled u"

definition admin_ok :: "user list \<Rightarrow> bool" where
  "admin_ok us \<longleftrightarrow> (\<exists>u \<in> set us. enabled_admin u)"

definition creds_ok :: "db \<Rightarrow> bool" where
  "creds_ok d \<longleftrightarrow>
     distinct (map ses_id (sessions d)) \<and> distinct (map ses_token (sessions d)) \<and>
     fk ses_user (sessions d) (user_ids d) \<and>
     distinct (map tok_id (api_tokens d)) \<and> distinct (map tok_hash (api_tokens d)) \<and>
     fk tok_user (api_tokens d) (user_ids d) \<and>
     distinct (map inv_id (invitations d)) \<and> distinct (map inv_token (invitations d)) \<and>
     fk inv_creator (invitations d) (user_ids d)"

definition folders_ok :: "db \<Rightarrow> bool" where
  "folders_ok d \<longleftrightarrow> distinct (map fol_id (folders d)) \<and>
     distinct (map (\<lambda>f. (fol_user f, fol_name f)) (folders d)) \<and>
     fk fol_user (folders d) (user_ids d)"

definition feeds_ok :: "db \<Rightarrow> bool" where
  "feeds_ok d \<longleftrightarrow> distinct (map fd_id (feeds d)) \<and> distinct (map fd_url (feeds d))"

definition entries_ok :: "db \<Rightarrow> bool" where
  "entries_ok d \<longleftrightarrow> distinct (map ent_id (entries d)) \<and>
     distinct (map (\<lambda>e. (ent_feed e, ent_guid e)) (entries d)) \<and>
     fk ent_feed (entries d) (feed_ids d)"

definition subs_ok :: "db \<Rightarrow> bool" where
  "subs_ok d \<longleftrightarrow> distinct (map (\<lambda>s. (sub_user s, sub_feed s)) (subs d)) \<and>
     fk sub_user (subs d) (user_ids d) \<and> fk sub_feed (subs d) (feed_ids d) \<and>
     (\<forall>s \<in> set (subs d). \<forall>k. sub_folder s = Some k \<longrightarrow> k \<in> fol_id ` set (folders d))"

definition mirrors :: "entry_state \<Rightarrow> entry \<Rightarrow> bool" where
  \<comment> \<open>the denormalised columns of a user_entry_state row agree with its entry\<close>
  "mirrors r e \<longleftrightarrow> ent_id e = ues_entry r \<and> ent_feed e = ues_feed r \<and>
     ent_pub e = ues_pub r \<and> ent_created e = ues_created r"

definition states_ok :: "db \<Rightarrow> bool" where
  "states_ok d \<longleftrightarrow> distinct (map (\<lambda>r. (ues_user r, ues_entry r)) (states d)) \<and>
     (\<forall>r \<in> set (states d). \<exists>e \<in> set (entries d). mirrors r e)"

definition fan_out_ok :: "db \<Rightarrow> bool" where
  "fan_out_ok d \<longleftrightarrow>
     (\<forall>r \<in> set (states d). \<exists>s \<in> set (subs d). sub_user s = ues_user r \<and> sub_feed s = ues_feed r) \<and>
     (\<forall>s \<in> set (subs d). \<forall>e \<in> set (entries d). ent_feed e = sub_feed s \<longrightarrow>
        (\<exists>r \<in> set (states d). ues_user r = sub_user s \<and> ues_entry r = ent_id e))"

definition counts_ok :: "db \<Rightarrow> bool" where
  "counts_ok d \<longleftrightarrow> (\<forall>s \<in> set (subs d). sub_unread s = unread_of d (sub_user s) (sub_feed s))"

definition pins_ok :: "db \<Rightarrow> bool" where
  "pins_ok d \<longleftrightarrow> distinct (map (\<lambda>p. (pin_user p, pin_entry p)) (pins d)) \<and>
     fk pin_user (pins d) (user_ids d) \<and> fk pin_entry (pins d) (ent_id ` set (entries d))"

definition ignores_ok :: "db \<Rightarrow> bool" where
  "ignores_ok d \<longleftrightarrow> distinct (map ig_id (ignores d)) \<and>
     distinct (map (\<lambda>w. (ig_user w, ig_word w)) (ignores d)) \<and>
     fk ig_user (ignores d) (user_ids d)"

definition extras_ok :: "db \<Rightarrow> bool" where
  "extras_ok d \<longleftrightarrow>
     distinct (map scr_id (scrapes d)) \<and> distinct (map scr_feed (scrapes d)) \<and>
     fk scr_feed (scrapes d) (feed_ids d) \<and>
     distinct (map ff_feed (fulltexts d)) \<and> fk ff_feed (fulltexts d) (feed_ids d) \<and>
     fk ff_creator (fulltexts d) (user_ids d) \<and>
     distinct (map fb_feed (boilers d)) \<and> fk fb_feed (boilers d) (feed_ids d)"

definition db_ok :: "db \<Rightarrow> bool" where
  "db_ok d \<longleftrightarrow> users_ok (users d) \<and> admin_ok (users d) \<and> creds_ok d \<and> folders_ok d \<and>
     feeds_ok d \<and> entries_ok d \<and> subs_ok d \<and> states_ok d \<and> fan_out_ok d \<and> counts_ok d \<and>
     pins_ok d \<and> ignores_ok d \<and> extras_ok d"

lemmas [db_parts] = creds_ok_def folders_ok_def feeds_ok_def entries_ok_def subs_ok_def
  states_ok_def fan_out_ok_def counts_ok_def pins_ok_def ignores_ok_def extras_ok_def

lemma init_db_ok: "db_ok (init_db now)"
  by (simp add: db_ok_def db_parts users_ok_def admin_ok_def enabled_admin_def fk_def init_db_def)

section \<open>Rules for foreign keys\<close>

lemma fk_image: "fk key rs ks \<longleftrightarrow> key ` set rs \<subseteq> ks"
  by (auto simp: fk_def)

lemma fk_mono: "fk key rs ks \<Longrightarrow> ks \<subseteq> ls \<Longrightarrow> fk key rs ls"
  by (auto simp: fk_def)

lemma fk_append [simp]: "fk key (xs @ ys) ks \<longleftrightarrow> fk key xs ks \<and> fk key ys ks"
  by (auto simp: fk_def)

lemma fk_Nil [simp]: "fk key [] ks"
  by (simp add: fk_def)

lemma fk_Cons [simp]: "fk key (x # xs) ks \<longleftrightarrow> key x \<in> ks \<and> fk key xs ks"
  by (simp add: fk_def)

lemma fk_del_where [row_simps]: "fk key rs ks \<Longrightarrow> fk key (del_where P rs) ks"
  by (auto simp: fk_def set_del_where)

lemma fk_upd_where [row_simps]:
  "(\<And>r. P r \<Longrightarrow> key (f r) = key r) \<Longrightarrow> fk key (upd_where P f rs) ks = fk key rs ks"
  by (simp add: fk_image image_upd_where)

section \<open>Frame rules\<close>

text \<open>Replacing a table the other parts do not read, or read only through its keys.\<close>

lemma frame_users:
  assumes "db_ok d" "users_ok us" "admin_ok us" "user_ids d \<subseteq> usr_id ` set us"
  shows "db_ok (d\<lparr>users := us\<rparr>)"
  using assms by (auto simp: db_ok_def db_parts unread_of_def intro: fk_mono)

lemma frame_creds:
  assumes "db_ok d" "creds_ok (d\<lparr>sessions := ss, api_tokens := ts, invitations := iv\<rparr>)"
  shows "db_ok (d\<lparr>sessions := ss, api_tokens := ts, invitations := iv\<rparr>)"
  using assms by (auto simp: db_ok_def db_parts unread_of_def)

lemma frame_sessions:
  assumes "db_ok d" "creds_ok (d\<lparr>sessions := ss\<rparr>)"
  shows "db_ok (d\<lparr>sessions := ss\<rparr>)"
  using assms by (auto simp: db_ok_def db_parts unread_of_def)

lemma frame_tokens:
  assumes "db_ok d" "creds_ok (d\<lparr>api_tokens := ts\<rparr>)"
  shows "db_ok (d\<lparr>api_tokens := ts\<rparr>)"
  using assms by (auto simp: db_ok_def db_parts unread_of_def)

lemma frame_invitations:
  assumes "db_ok d" "creds_ok (d\<lparr>invitations := iv\<rparr>)"
  shows "db_ok (d\<lparr>invitations := iv\<rparr>)"
  using assms by (auto simp: db_ok_def db_parts unread_of_def)

lemma frame_folders:
  assumes "db_ok d" "folders_ok (d\<lparr>folders := fs\<rparr>)" "fol_id ` set (folders d) \<subseteq> fol_id ` set fs"
  shows "db_ok (d\<lparr>folders := fs\<rparr>)"
  using assms by (auto simp: db_ok_def db_parts unread_of_def)

lemma frame_feeds:
  assumes "db_ok d" "feeds_ok (d\<lparr>feeds := fs\<rparr>)" "feed_ids d \<subseteq> fd_id ` set fs"
  shows "db_ok (d\<lparr>feeds := fs\<rparr>)"
  using assms by (auto simp: db_ok_def db_parts unread_of_def intro: fk_mono)

lemma frame_pins:
  assumes "db_ok d" "pins_ok (d\<lparr>pins := ps\<rparr>)"
  shows "db_ok (d\<lparr>pins := ps\<rparr>)"
  using assms by (auto simp: db_ok_def db_parts unread_of_def)

lemma frame_ignores:
  assumes "db_ok d" "ignores_ok (d\<lparr>ignores := ws\<rparr>)"
  shows "db_ok (d\<lparr>ignores := ws\<rparr>)"
  using assms by (auto simp: db_ok_def db_parts unread_of_def)

lemma frame_extras:
  assumes "db_ok d" "extras_ok (d\<lparr>scrapes := sc, fulltexts := ft, boilers := bl\<rparr>)"
  shows "db_ok (d\<lparr>scrapes := sc, fulltexts := ft, boilers := bl\<rparr>)"
  using assms by (auto simp: db_ok_def db_parts unread_of_def)

lemma frame_reading:
  \<comment> \<open>the four tables of the reading state change together\<close>
  assumes "db_ok d"
    "entries_ok (d\<lparr>entries := es, subs := ss, states := ts\<rparr>)"
    "subs_ok (d\<lparr>entries := es, subs := ss, states := ts\<rparr>)"
    "states_ok (d\<lparr>entries := es, subs := ss, states := ts\<rparr>)"
    "fan_out_ok (d\<lparr>entries := es, subs := ss, states := ts\<rparr>)"
    "counts_ok (d\<lparr>entries := es, subs := ss, states := ts\<rparr>)"
    "ent_id ` set (entries d) \<subseteq> ent_id ` set es"
  shows "db_ok (d\<lparr>entries := es, subs := ss, states := ts\<rparr>)"
  using assms by (auto simp: db_ok_def db_parts intro: fk_mono)

end
