(* ===== verification/StoreUsers.thy ===== *)
theory StoreUsers
  imports DbInv
begin

text \<open>
  \<open>internal/store/users.go\<close>, \<open>sessions.go\<close>, \<open>api_tokens.go\<close> and \<open>invitations.go\<close>: accounts,
  browser sessions, API tokens and invitations. Every operation is a function of the
  database that returns an error or a result with the new database; the statements of one
  transaction are composed in order. The lemmas show that each operation keeps \<open>db_ok\<close>,
  in particular that an enabled admin always remains.
\<close>

section \<open>Users\<close>

definition get_user_by_username :: "db \<Rightarrow> string \<Rightarrow> store_error + user" where
  "get_user_by_username d name =
     (case find (\<lambda>u. nocase (usr_name u) name) (users d) of
        None \<Rightarrow> Inl ErrNotFound | Some u \<Rightarrow> Inr u)"

definition get_user_by_id :: "db \<Rightarrow> int \<Rightarrow> store_error + user" where
  "get_user_by_id d i =
     (case find (\<lambda>u. usr_id u = i) (users d) of None \<Rightarrow> Inl ErrNotFound | Some u \<Rightarrow> Inr u)"

definition is_setup_pending :: "db \<Rightarrow> int \<Rightarrow> store_error + bool" where
  "is_setup_pending d i =
     (case get_user_by_id d i of Inl e \<Rightarrow> Inl e | Inr u \<Rightarrow> Inr (usr_hash u = setup_sentinel))"

definition username_taken :: "db \<Rightarrow> (user \<Rightarrow> bool) \<Rightarrow> string \<Rightarrow> bool" where
  \<comment> \<open>UNIQUE COLLATE NOCASE on users.username, for a row outside the updated ones\<close>
  "username_taken d upd name \<longleftrightarrow> list_ex (\<lambda>u. \<not> upd u \<and> nocase (usr_name u) name) (users d)"

definition complete_setup :: "db \<Rightarrow> int \<Rightarrow> string \<Rightarrow> string \<Rightarrow> time \<Rightarrow> store_error + db" where
  "complete_setup d i name hash now =
     (let target = (\<lambda>u. usr_id u = i \<and> usr_hash u = setup_sentinel) in
      if count_where target (users d) = 0 then Inl ErrNotFound
      else if username_taken d target name then Inl ErrConstraint
      else Inr (d\<lparr>users := upd_where target
             (\<lambda>u. u\<lparr>usr_name := name, usr_hash := hash, usr_updated := now\<rparr>) (users d)\<rparr>))"

definition update_user_password :: "db \<Rightarrow> int \<Rightarrow> string \<Rightarrow> time \<Rightarrow> store_error + db" where
  "update_user_password d i hash now =
     (if count_where (\<lambda>u. usr_id u = i) (users d) = 0 then Inl ErrNotFound
      else Inr (d\<lparr>users := upd_where (\<lambda>u. usr_id u = i)
             (\<lambda>u. u\<lparr>usr_hash := hash, usr_updated := now\<rparr>) (users d)\<rparr>))"

definition set_user_embeds :: "db \<Rightarrow> int \<Rightarrow> bool \<Rightarrow> time \<Rightarrow> store_error + db" where
  "set_user_embeds d i enabled now =
     (if count_where (\<lambda>u. usr_id u = i) (users d) = 0 then Inl ErrNotFound
      else Inr (d\<lparr>users := upd_where (\<lambda>u. usr_id u = i)
             (\<lambda>u. u\<lparr>usr_embeds := enabled, usr_updated := now\<rparr>) (users d)\<rparr>))"

definition list_users :: "db \<Rightarrow> user list" where
  "list_users d = sort_key usr_id (users d)"

definition new_user :: "db \<Rightarrow> string \<Rightarrow> string \<Rightarrow> bool \<Rightarrow> time \<Rightarrow> user" where
  "new_user d name hash is_admin now =
     \<lparr>usr_id = next_id usr_id (users d), usr_name = name, usr_hash = hash, usr_admin = is_admin,
      usr_disabled = False, usr_embeds = False, usr_created = now, usr_updated = now\<rparr>"

definition create_user ::
    "db \<Rightarrow> string \<Rightarrow> string \<Rightarrow> bool \<Rightarrow> time \<Rightarrow> store_error + (user \<times> db)" where
  "create_user d name hash is_admin now =
     (if username_taken d (\<lambda>_. False) name then Inl ErrConflict
      else
        let u = new_user d name hash is_admin now; d' = d\<lparr>users := users d @ [u]\<rparr> in
        case get_user_by_id d' (usr_id u) of Inl e \<Rightarrow> Inl e | Inr v \<Rightarrow> Inr (v, d'))"

definition ensure_not_last_admin :: "db \<Rightarrow> int \<Rightarrow> store_error option" where
  "ensure_not_last_admin d i =
     (if count_where (\<lambda>u. usr_admin u \<and> \<not> usr_disabled u \<and> usr_id u \<noteq> i) (users d) = 0
      then Some ErrLastAdmin else None)"

definition set_user_admin :: "db \<Rightarrow> int \<Rightarrow> bool \<Rightarrow> time \<Rightarrow> store_error + db" where
  "set_user_admin d i is_admin now =
     (case (if is_admin then None else ensure_not_last_admin d i) of
        Some e \<Rightarrow> Inl e
      | None \<Rightarrow>
          if count_where (\<lambda>u. usr_id u = i) (users d) = 0 then Inl ErrNotFound
          else Inr (d\<lparr>users := upd_where (\<lambda>u. usr_id u = i)
                 (\<lambda>u. u\<lparr>usr_admin := is_admin, usr_updated := now\<rparr>) (users d)\<rparr>))"

definition set_user_disabled :: "db \<Rightarrow> int \<Rightarrow> bool \<Rightarrow> time \<Rightarrow> store_error + db" where
  "set_user_disabled d i dis now =
     (let guard =
        (if dis then
           case find (\<lambda>u. usr_id u = i) (users d) of
             None \<Rightarrow> Some ErrNotFound
           | Some u \<Rightarrow> if usr_admin u then ensure_not_last_admin d i else None
         else None)
      in case guard of
        Some e \<Rightarrow> Inl e
      | None \<Rightarrow>
          if count_where (\<lambda>u. usr_id u = i) (users d) = 0 then Inl ErrNotFound
          else
            let d' = d\<lparr>users := upd_where (\<lambda>u. usr_id u = i)
                   (\<lambda>u. u\<lparr>usr_disabled := dis, usr_updated := now\<rparr>) (users d)\<rparr>
            in Inr (if dis then d'\<lparr>sessions := del_where (\<lambda>s. ses_user s = i) (sessions d')\<rparr>
                    else d'))"

section \<open>Sessions\<close>

definition create_session ::
    "db \<Rightarrow> int \<Rightarrow> string \<Rightarrow> time \<Rightarrow> time \<Rightarrow> store_error + (session \<times> db)" where
  "create_session d i token now expires =
     (if i \<notin> user_ids d \<or> token \<in> ses_token ` set (sessions d) then Inl ErrConstraint
      else
        let s = \<lparr>ses_id = next_id ses_id (sessions d), ses_token = token, ses_user = i,
                 ses_created = now, ses_seen = now, ses_expires = expires\<rparr>
        in Inr (s, d\<lparr>sessions := sessions d @ [s]\<rparr>))"

definition get_session :: "db \<Rightarrow> string \<Rightarrow> store_error + (session \<times> user)" where
  "get_session d token =
     (case [(s, u). s \<leftarrow> sessions d, u \<leftarrow> users d,
              usr_id u = ses_user s \<and> ses_token s = token \<and> \<not> usr_disabled u] of
        [] \<Rightarrow> Inl ErrNotFound | su # _ \<Rightarrow> Inr su)"

definition touch_session :: "db \<Rightarrow> int \<Rightarrow> time \<Rightarrow> db" where
  "touch_session d i now =
     d\<lparr>sessions := upd_where (\<lambda>s. ses_id s = i) (\<lambda>s. s\<lparr>ses_seen := now\<rparr>) (sessions d)\<rparr>"

definition delete_session :: "db \<Rightarrow> string \<Rightarrow> db" where
  "delete_session d token = d\<lparr>sessions := del_where (\<lambda>s. ses_token s = token) (sessions d)\<rparr>"

definition delete_all_sessions :: "db \<Rightarrow> int \<Rightarrow> db" where
  "delete_all_sessions d i = d\<lparr>sessions := del_where (\<lambda>s. ses_user s = i) (sessions d)\<rparr>"

definition delete_expired_sessions :: "db \<Rightarrow> time \<Rightarrow> nat \<times> db" where
  "delete_expired_sessions d now =
     (count_where (\<lambda>s. ses_expires s < now) (sessions d),
      d\<lparr>sessions := del_where (\<lambda>s. ses_expires s < now) (sessions d)\<rparr>)"

section \<open>API tokens\<close>

definition create_api_token ::
    "db \<Rightarrow> int \<Rightarrow> string \<Rightarrow> string \<Rightarrow> time \<Rightarrow> store_error + (api_token \<times> db)" where
  "create_api_token d i label token now =
     (if i \<notin> user_ids d \<or> token \<in> tok_hash ` set (api_tokens d) then Inl ErrConstraint
      else
        let t = \<lparr>tok_id = next_id tok_id (api_tokens d), tok_hash = token, tok_user = i,
                 tok_label = label, tok_created = now, tok_used = None\<rparr>
        in Inr (t, d\<lparr>api_tokens := api_tokens d @ [t]\<rparr>))"

definition get_api_token :: "db \<Rightarrow> string \<Rightarrow> store_error + (api_token \<times> user)" where
  "get_api_token d token =
     (case [(t, u). t \<leftarrow> api_tokens d, u \<leftarrow> users d,
              usr_id u = tok_user t \<and> tok_hash t = token \<and> \<not> usr_disabled u] of
        [] \<Rightarrow> Inl ErrNotFound | tu # _ \<Rightarrow> Inr tu)"

definition list_api_tokens :: "db \<Rightarrow> int \<Rightarrow> api_token list" where
  "list_api_tokens d i =
     sort_key (\<lambda>t. - tok_created t) (filter (\<lambda>t. tok_user t = i) (api_tokens d))"

definition delete_api_token :: "db \<Rightarrow> int \<Rightarrow> int \<Rightarrow> store_error + db" where
  "delete_api_token d i tid =
     (let target = (\<lambda>t. tok_id t = tid \<and> tok_user t = i) in
      if count_where target (api_tokens d) = 0 then Inl ErrNotFound
      else Inr (d\<lparr>api_tokens := del_where target (api_tokens d)\<rparr>))"

definition touch_api_token :: "db \<Rightarrow> int \<Rightarrow> time \<Rightarrow> db" where
  "touch_api_token d tid now =
     d\<lparr>api_tokens := upd_where (\<lambda>t. tok_id t = tid) (\<lambda>t. t\<lparr>tok_used := Some now\<rparr>) (api_tokens d)\<rparr>"

section \<open>Invitations\<close>

definition create_invitation ::
    "db \<Rightarrow> int \<Rightarrow> string \<Rightarrow> time \<Rightarrow> time \<Rightarrow> store_error + (invitation \<times> db)" where
  "create_invitation d creator token expires now =
     (if creator \<notin> user_ids d \<or> token \<in> inv_token ` set (invitations d) then Inl ErrConstraint
      else
        let iv = \<lparr>inv_id = next_id inv_id (invitations d), inv_token = token, inv_creator = creator,
                  inv_expires = expires, inv_used_by = None, inv_used_at = None, inv_created = now\<rparr>
        in Inr (iv, d\<lparr>invitations := invitations d @ [iv]\<rparr>))"

definition list_invitations :: "db \<Rightarrow> invitation list" where
  "list_invitations d = sort_key (\<lambda>i. - inv_created i) (invitations d)"

definition check_invitation :: "db \<Rightarrow> string \<Rightarrow> time \<Rightarrow> store_error option" where
  "check_invitation d token now =
     (case find (\<lambda>i. inv_token i = token) (invitations d) of
        None \<Rightarrow> Some ErrNotFound
      | Some i \<Rightarrow> if inv_used_by i \<noteq> None \<or> inv_expires i < now then Some ErrInvitationInvalid
                  else None)"

definition accept_invitation ::
    "db \<Rightarrow> string \<Rightarrow> string \<Rightarrow> string \<Rightarrow> time \<Rightarrow> store_error + (user \<times> db)" where
  "accept_invitation d token name hash now =
     (case find (\<lambda>i. inv_token i = token) (invitations d) of
        None \<Rightarrow> Inl ErrNotFound
      | Some i \<Rightarrow>
          if inv_used_by i \<noteq> None \<or> inv_expires i < now then Inl ErrInvitationInvalid
          else if username_taken d (\<lambda>_. False) name then Inl ErrConflict
          else
            let u = new_user d name hash False now;
                target = (\<lambda>j. inv_id j = inv_id i \<and> inv_used_by j = None) in
            if count_where target (invitations d) = 0 then Inl ErrInvitationInvalid
            else
              let d' = d\<lparr>users := users d @ [u],
                         invitations := upd_where target
                           (\<lambda>j. j\<lparr>inv_used_by := Some (usr_id u), inv_used_at := Some now\<rparr>)
                           (invitations d)\<rparr>
              in case get_user_by_id d' (usr_id u) of Inl e \<Rightarrow> Inl e | Inr v \<Rightarrow> Inr (v, d'))"

section \<open>Every operation keeps the invariant\<close>

lemma list_ex_cong_not: "\<not> list_ex P xs \<longleftrightarrow> (\<forall>x \<in> set xs. \<not> P x)"
  by (simp add: list_ex_iff)

lemma users_ok_upd:
  "users_ok us \<Longrightarrow> (\<And>u. P u \<Longrightarrow> usr_id (f u) = usr_id u) \<Longrightarrow>
   (\<And>u. P u \<Longrightarrow> usr_name (f u) = usr_name u) \<Longrightarrow> users_ok (upd_where P f us)"
  by (simp add: users_ok_def map_upd_where)

lemma admin_ok_upd:
  "admin_ok us \<Longrightarrow> (\<And>u. u \<in> set us \<Longrightarrow> P u \<Longrightarrow> enabled_admin u \<Longrightarrow> enabled_admin (f u)) \<Longrightarrow>
   admin_ok (upd_where P f us)"
proof -
  assume "admin_ok us" and keep: "\<And>u. u \<in> set us \<Longrightarrow> P u \<Longrightarrow> enabled_admin u \<Longrightarrow> enabled_admin (f u)"
  then obtain u where "u \<in> set us" "enabled_admin u" by (auto simp: admin_ok_def)
  then have "(if P u then f u else u) \<in> set (upd_where P f us)"
    "enabled_admin (if P u then f u else u)"
    using keep by (auto simp: upd_where_def)
  then show ?thesis by (auto simp: admin_ok_def)
qed

lemma admin_ok_upd_other:
  \<comment> \<open>an enabled admin outside the updated rows\<close>
  "u \<in> set us \<Longrightarrow> enabled_admin u \<Longrightarrow> \<not> P u \<Longrightarrow> admin_ok (upd_where P f us)"
  unfolding admin_ok_def set_upd_where by auto

lemma user_ids_upd:
  "(\<And>u. P u \<Longrightarrow> usr_id (f u) = usr_id u) \<Longrightarrow> usr_id ` set (upd_where P f us) = usr_id ` set us"
  by (simp add: image_upd_where)

lemma db_ok_users: "db_ok d \<Longrightarrow> users_ok (users d)"
  and db_ok_admin: "db_ok d \<Longrightarrow> admin_ok (users d)"
  and db_ok_creds: "db_ok d \<Longrightarrow> creds_ok d"
  by (simp_all add: db_ok_def)

lemma update_users_ok:
  assumes "db_ok d" "admin_ok (upd_where P f (users d))"
    "\<And>u. P u \<Longrightarrow> usr_id (f u) = usr_id u" "\<And>u. P u \<Longrightarrow> usr_name (f u) = usr_name u"
  shows "db_ok (d\<lparr>users := upd_where P f (users d)\<rparr>)"
  using assms by (intro frame_users) (auto simp: user_ids_upd intro!: users_ok_upd db_ok_users)

lemma distinct_map_upd_one:
  \<comment> \<open>one row changes its key to one no other row has\<close>
  assumes "distinct (map key rs)" "distinct (map ident rs)"
    "\<And>r q. r \<in> set rs \<Longrightarrow> q \<in> set rs \<Longrightarrow> P r \<Longrightarrow> P q \<Longrightarrow> ident r = ident q"
    "\<And>r q. r \<in> set rs \<Longrightarrow> q \<in> set rs \<Longrightarrow> P r \<Longrightarrow> \<not> P q \<Longrightarrow> key (f r) \<noteq> key q"
  shows "distinct (map key (upd_where P f rs))"
  using assms
proof (induction rs)
  case (Cons r rs)
  have IH: "distinct (map key (upd_where P f rs))"
    by (rule Cons.IH) (use Cons.prems in auto)
  have ne: "key (if P r then f r else r) \<noteq> key (if P q then f q else q)" if "q \<in> set rs" for q
  proof -
    have r: "r \<in> set (r # rs)" and q: "q \<in> set (r # rs)" using that by auto
    have "key r \<noteq> key q" and "ident r \<noteq> ident q" using that Cons.prems(1,2) by force+
    then show ?thesis
      using Cons.prems(3) [OF r q] Cons.prems(4) [OF r q] Cons.prems(4) [OF q r] by metis
  qed
  have "key (if P r then f r else r) \<notin> key ` set (upd_where P f rs)"
  proof
    assume "key (if P r then f r else r) \<in> key ` set (upd_where P f rs)"
    then obtain q where "q \<in> set rs"
      "key (if P r then f r else r) = key (if P q then f q else q)"
      unfolding upd_where_def set_map image_image by blast
    then show False using ne by blast
  qed
  moreover have "upd_where P f (r # rs) = (if P r then f r else r) # upd_where P f rs"
    by (simp add: upd_where_def)
  ultimately show ?case using IH by simp
qed (simp add: upd_where_def)

lemma complete_setup_ok:
  assumes "db_ok d" "complete_setup d i name hash now = Inr d'"
  shows "db_ok d'"
proof -
  let ?P = "\<lambda>u. usr_id u = i \<and> usr_hash u = setup_sentinel"
  let ?f = "\<lambda>u. u\<lparr>usr_name := name, usr_hash := hash, usr_updated := now\<rparr>"
  have free: "\<not> username_taken d ?P name" and d': "d' = d\<lparr>users := upd_where ?P ?f (users d)\<rparr>"
    using assms(2) by (auto simp: complete_setup_def Let_def split: if_splits)
  have "distinct (map (\<lambda>u. lower (usr_name u)) (upd_where ?P ?f (users d)))"
    by (rule distinct_map_upd_one [where ident = usr_id])
      (use db_ok_users [OF assms(1)] free in
        \<open>auto simp: users_ok_def username_taken_def list_ex_iff nocase_def\<close>)
  then have "users_ok (upd_where ?P ?f (users d))"
    using db_ok_users [OF assms(1)] by (simp add: users_ok_def map_upd_where)
  moreover have "admin_ok (upd_where ?P ?f (users d))"
    by (rule admin_ok_upd [OF db_ok_admin [OF assms(1)]]) (simp add: enabled_admin_def)
  ultimately show ?thesis
    using assms(1) unfolding d' by (intro frame_users) (simp_all add: user_ids_upd)
qed

lemma update_user_password_ok:
  "db_ok d \<Longrightarrow> update_user_password d i hash now = Inr d' \<Longrightarrow> db_ok d'"
  by (auto simp: update_user_password_def enabled_admin_def split: if_splits
      intro!: update_users_ok admin_ok_upd db_ok_admin)

lemma set_user_embeds_ok: "db_ok d \<Longrightarrow> set_user_embeds d i b now = Inr d' \<Longrightarrow> db_ok d'"
  by (auto simp: set_user_embeds_def enabled_admin_def split: if_splits
      intro!: update_users_ok admin_ok_upd db_ok_admin)

lemma not_last_admin:
  "ensure_not_last_admin d i = None \<Longrightarrow>
   \<exists>u \<in> set (users d). enabled_admin u \<and> usr_id u \<noteq> i"
  by (auto simp: ensure_not_last_admin_def count_where_0_iff enabled_admin_def split: if_splits)

lemma set_user_admin_ok:
  assumes "db_ok d" "set_user_admin d i b now = Inr d'"
  shows "db_ok d'"
proof -
  let ?f = "\<lambda>u. u\<lparr>usr_admin := b, usr_updated := now\<rparr>"
  have d': "d' = d\<lparr>users := upd_where (\<lambda>u. usr_id u = i) ?f (users d)\<rparr>"
    and guard: "b \<or> ensure_not_last_admin d i = None"
    using assms(2) by (auto simp: set_user_admin_def split: option.splits if_splits)
  have "admin_ok (upd_where (\<lambda>u. usr_id u = i) ?f (users d))"
    using guard
  proof
    assume b
    then show ?thesis
      by (intro admin_ok_upd [OF db_ok_admin [OF assms(1)]]) (simp add: enabled_admin_def)
  qed (auto dest!: not_last_admin intro: admin_ok_upd_other)
  then show ?thesis
    unfolding d' by (intro update_users_ok assms(1)) simp_all
qed

lemma creds_ok_sessions_del:
  "creds_ok d \<Longrightarrow> creds_ok (d\<lparr>sessions := del_where P (sessions d)\<rparr>)"
  by (simp add: creds_ok_def distinct_del_where fk_del_where)

lemma delete_sessions_ok: "db_ok d \<Longrightarrow> db_ok (d\<lparr>sessions := del_where P (sessions d)\<rparr>)"
  by (intro frame_sessions creds_ok_sessions_del db_ok_creds)

lemma set_user_disabled_ok:
  assumes ok: "db_ok d" and run: "set_user_disabled d i dis now = Inr d'"
  shows "db_ok d'"
proof -
  let ?f = "\<lambda>u. u\<lparr>usr_disabled := dis, usr_updated := now\<rparr>"
  let ?us = "upd_where (\<lambda>u. usr_id u = i) ?f (users d)"
  have d': "d' = (if dis then d\<lparr>users := ?us, sessions := del_where (\<lambda>s. ses_user s = i) (sessions d)\<rparr>
      else d\<lparr>users := ?us\<rparr>)"
    using run by (auto simp: set_user_disabled_def Let_def split: option.splits if_splits)
  have "admin_ok ?us"
  proof (cases dis)
    case False
    then show ?thesis
      by (intro admin_ok_upd [OF db_ok_admin [OF ok]]) (simp add: enabled_admin_def)
  next
    case True
    then obtain u where u: "find (\<lambda>u. usr_id u = i) (users d) = Some u"
      and guard: "usr_admin u \<Longrightarrow> ensure_not_last_admin d i = None"
      using run by (auto simp: set_user_disabled_def Let_def split: option.splits if_splits)
    show ?thesis
    proof (cases "usr_admin u")
      case True
      then show ?thesis using guard by (auto dest!: not_last_admin intro: admin_ok_upd_other)
    next
      case False
      have "\<not> enabled_admin v" if "v \<in> set (users d)" "usr_id v = i" for v
      proof -
        have "v = u"
          using that find_Some_iff_in [OF u] db_ok_users [OF ok]
          by (auto simp: users_ok_def intro: distinct_map_unique [of usr_id])
        then show ?thesis using False by (simp add: enabled_admin_def)
      qed
      then show ?thesis using db_ok_admin [OF ok]
        by (intro admin_ok_upd) auto
    qed
  qed
  then have "db_ok (d\<lparr>users := ?us\<rparr>)"
    by (intro update_users_ok ok) simp_all
  then show ?thesis
    using delete_sessions_ok [of "d\<lparr>users := ?us\<rparr>" "\<lambda>s. ses_user s = i"]
    unfolding d' by (cases dis) simp_all
qed

lemma add_user_ok:
  assumes "db_ok d" "\<not> username_taken d (\<lambda>_. False) name"
  shows "db_ok (d\<lparr>users := users d @ [new_user d name hash adm now]\<rparr>)"
proof (rule frame_users)
  show "users_ok (users d @ [new_user d name hash adm now])"
    using assms next_id_notin [of usr_id "users d"] db_ok_users [OF assms(1)]
    by (auto simp: users_ok_def new_user_def username_taken_def list_ex_iff nocase_def)
  show "admin_ok (users d @ [new_user d name hash adm now])"
    using db_ok_admin [OF assms(1)] by (auto simp: admin_ok_def)
qed (use assms in auto)

lemma create_user_ok:
  "db_ok d \<Longrightarrow> create_user d name hash adm now = Inr (u, d') \<Longrightarrow> db_ok d'"
  by (auto simp: create_user_def Let_def add_user_ok split: if_splits sum.splits)

lemma create_session_ok:
  assumes "db_ok d" "create_session d i token now expires = Inr (s, d')"
  shows "db_ok d'"
  using assms next_id_notin [of ses_id "sessions d"] db_ok_creds [OF assms(1)]
  by (auto simp: create_session_def Let_def creds_ok_def split: if_splits intro!: frame_sessions)

lemma touch_session_ok: "db_ok d \<Longrightarrow> db_ok (touch_session d i now)"
  unfolding touch_session_def
  by (rule frame_sessions)
    (use db_ok_creds [of d] in \<open>simp_all add: creds_ok_def map_upd_where fk_upd_where\<close>)

lemma delete_session_ok: "db_ok d \<Longrightarrow> db_ok (delete_session d token)"
  and delete_all_sessions_ok: "db_ok d \<Longrightarrow> db_ok (delete_all_sessions d i)"
  and delete_expired_sessions_ok: "db_ok d \<Longrightarrow> db_ok (snd (delete_expired_sessions d now))"
  by (simp_all add: delete_session_def delete_all_sessions_def delete_expired_sessions_def
      delete_sessions_ok)

lemma create_api_token_ok:
  assumes "db_ok d" "create_api_token d i label token now = Inr (t, d')"
  shows "db_ok d'"
  using assms next_id_notin [of tok_id "api_tokens d"] db_ok_creds [OF assms(1)]
  by (auto simp: create_api_token_def Let_def creds_ok_def split: if_splits intro!: frame_tokens)

lemma delete_api_token_ok:
  assumes "db_ok d" "delete_api_token d i tid = Inr d'"
  shows "db_ok d'"
  using assms db_ok_creds [OF assms(1)]
  by (auto simp: delete_api_token_def Let_def creds_ok_def distinct_del_where fk_del_where
      split: if_splits intro!: frame_tokens)

lemma touch_api_token_ok: "db_ok d \<Longrightarrow> db_ok (touch_api_token d tid now)"
  unfolding touch_api_token_def
  by (rule frame_tokens)
    (use db_ok_creds [of d] in \<open>simp_all add: creds_ok_def map_upd_where fk_upd_where\<close>)

lemma create_invitation_ok:
  assumes "db_ok d" "create_invitation d i token expires now = Inr (iv, d')"
  shows "db_ok d'"
  using assms next_id_notin [of inv_id "invitations d"] db_ok_creds [OF assms(1)]
  by (auto simp: create_invitation_def Let_def creds_ok_def split: if_splits
      intro!: frame_invitations)

lemma accept_invitation_Inr:
  \<comment> \<open>what a redeemed invitation was, and the new database\<close>
  assumes "accept_invitation d token name hash now = Inr (u, d')"
  obtains i where "find (\<lambda>i. inv_token i = token) (invitations d) = Some i"
    "inv_used_by i = None" "now \<le> inv_expires i" "\<not> username_taken d (\<lambda>_. False) name"
    "d' = d\<lparr>users := users d @ [new_user d name hash False now],
       invitations := upd_where (\<lambda>j. inv_id j = inv_id i \<and> inv_used_by j = None)
         (\<lambda>j. j\<lparr>inv_used_by := Some (usr_id (new_user d name hash False now)),
               inv_used_at := Some now\<rparr>) (invitations d)\<rparr>"
    "get_user_by_id d' (usr_id (new_user d name hash False now)) = Inr u"
  using assms
  by (auto simp: accept_invitation_def Let_def split: option.splits if_splits sum.splits)

lemma accept_invitation_ok:
  assumes "db_ok d" "accept_invitation d token name hash now = Inr (u, d')"
  shows "db_ok d'"
  using assms(2)
proof (rule accept_invitation_Inr)
  fix i
  let ?d = "d\<lparr>users := users d @ [new_user d name hash False now]\<rparr>"
  let ?iv = "upd_where (\<lambda>j. inv_id j = inv_id i \<and> inv_used_by j = None)
         (\<lambda>j. j\<lparr>inv_used_by := Some (usr_id (new_user d name hash False now)),
               inv_used_at := Some now\<rparr>) (invitations d)"
  assume "\<not> username_taken d (\<lambda>_. False) name"
    and d': "d' = d\<lparr>users := users d @ [new_user d name hash False now], invitations := ?iv\<rparr>"
  then have ok: "db_ok ?d" using assms(1) by (intro add_user_ok)
  then have "db_ok (?d\<lparr>invitations := ?iv\<rparr>)"
    by (intro frame_invitations)
      (use db_ok_creds [OF ok] in \<open>simp_all add: creds_ok_def map_upd_where fk_upd_where\<close>)
  then show "db_ok d'" by (simp add: d')
qed

end
