(* ===== verification/StoreSubs.thy ===== *)
theory StoreSubs
  imports StoreUsers
begin

text \<open>
  \<open>internal/store/folders.go\<close>, \<open>subscriptions.go\<close>, \<open>pins.go\<close>, \<open>ignore_words.go\<close> and the
  unread recount of \<open>entries.go\<close>: what a user keeps about the shared feeds. Subscribing
  fans the feed's entries out into \<open>user_entry_state\<close>, unsubscribing removes those rows, and
  every operation that changes them recounts the cached unread counts it may have changed.
\<close>

section \<open>Folders\<close>

definition get_or_create_folder :: "db \<Rightarrow> int \<Rightarrow> string \<Rightarrow> store_error + (int \<times> db)" where
  "get_or_create_folder d u name =
     (case find (\<lambda>f. fol_user f = u \<and> fol_name f = name) (folders d) of
        Some f \<Rightarrow> Inr (fol_id f, d)
      | None \<Rightarrow>
          if u \<notin> user_ids d then Inl ErrConstraint
          else
            let f = \<lparr>fol_id = next_id fol_id (folders d), fol_user = u, fol_name = name, fol_sort = 0\<rparr>
            in Inr (fol_id f, d\<lparr>folders := folders d @ [f]\<rparr>))"

definition get_folder :: "db \<Rightarrow> int \<Rightarrow> int \<Rightarrow> store_error + folder" where
  "get_folder d u k =
     (case find (\<lambda>f. fol_id f = k \<and> fol_user f = u) (folders d) of
        None \<Rightarrow> Inl ErrNotFound | Some f \<Rightarrow> Inr f)"

definition list_folders :: "db \<Rightarrow> int \<Rightarrow> folder list" where
  "list_folders d u =
     sort_key (\<lambda>f. (fol_sort f, fol_name f)) (filter (\<lambda>f. fol_user f = u) (folders d))"

section \<open>Subscriptions\<close>

definition refresh_unread_count :: "int \<Rightarrow> db \<Rightarrow> db" where
  "refresh_unread_count f d =
     d\<lparr>subs := upd_where (\<lambda>s. sub_feed s = f)
                (\<lambda>s. s\<lparr>sub_unread := unread_of d (sub_user s) f\<rparr>) (subs d)\<rparr>"

definition fresh_state :: "db \<Rightarrow> int \<Rightarrow> time option \<Rightarrow> entry \<Rightarrow> entry_state" where
  \<comment> \<open>the row a fan-out inserts: created_at is the entry's, ignored is computed from the words\<close>
  "fresh_state d u read e =
     \<lparr>ues_user = u, ues_entry = ent_id e, ues_feed = ent_feed e, ues_pub = ent_pub e,
      ues_created = ent_created e, ues_read = read,
      ues_ignored = word_hit d u (ent_title e) (ent_body e)\<rparr>"

definition has_state :: "db \<Rightarrow> int \<Rightarrow> int \<Rightarrow> bool" where
  "has_state d u i \<longleftrightarrow> list_ex (\<lambda>r. ues_user r = u \<and> ues_entry r = i) (states d)"

definition fan_out_backlog :: "db \<Rightarrow> int \<Rightarrow> int \<Rightarrow> entry_state list" where
  \<comment> \<open>INSERT ... SELECT FROM entries ... ON CONFLICT DO NOTHING\<close>
  "fan_out_backlog d u f =
     map (fresh_state d u None)
       (filter (\<lambda>e. ent_feed e = f \<and> \<not> has_state d u (ent_id e)) (entries d))"

definition upsert_subscription ::
    "db \<Rightarrow> int \<Rightarrow> int \<Rightarrow> int option \<Rightarrow> string \<Rightarrow> time \<Rightarrow> store_error + db" where
  "upsert_subscription d u f folder title now =
     (if u \<notin> user_ids d \<or> f \<notin> feed_ids d
          \<or> (\<exists>k \<in> set_option folder. k \<notin> fol_id ` set (folders d)) then Inl ErrConstraint
      else
        let d1 = d\<lparr>subs :=
              (if subscribed d u f then
                 upd_where (\<lambda>s. sub_user s = u \<and> sub_feed s = f)
                   (\<lambda>s. s\<lparr>sub_folder := folder, sub_title := Some title\<rparr>) (subs d)
               else subs d @ [\<lparr>sub_user = u, sub_feed = f, sub_folder = folder,
                 sub_title = Some title, sub_rating = 0, sub_unread = 0, sub_sort = 0,
                 sub_created = now\<rparr>])\<rparr>;
            d2 = d1\<lparr>states := states d1 @ fan_out_backlog d1 u f\<rparr>
        in Inr (refresh_unread_count f d2))"

definition unsubscribe :: "db \<Rightarrow> int \<Rightarrow> int \<Rightarrow> store_error + db" where
  "unsubscribe d u f =
     (let target = (\<lambda>s. sub_user s = u \<and> sub_feed s = f) in
      if count_where target (subs d) = 0 then Inl ErrNotFound
      else Inr (d\<lparr>subs := del_where target (subs d),
                  states := del_where (\<lambda>r. ues_user r = u \<and> ues_feed r = f) (states d)\<rparr>))"

definition subscribed_feed_ids :: "db \<Rightarrow> int \<Rightarrow> int set" where
  "subscribed_feed_ids d u = sub_feed ` set (filter (\<lambda>s. sub_user s = u) (subs d))"

definition count_subscriptions :: "db \<Rightarrow> int \<Rightarrow> nat" where
  "count_subscriptions d u = count_where (\<lambda>s. sub_user s = u) (subs d)"

definition is_subscribed :: "db \<Rightarrow> int \<Rightarrow> int \<Rightarrow> bool" where
  "is_subscribed d u f = subscribed d u f"

definition list_subscriptions :: "db \<Rightarrow> int \<Rightarrow> subscription list" where
  \<comment> \<open>a NULL title is scanned as the empty string\<close>
  "list_subscriptions d u =
     map (\<lambda>s. s\<lparr>sub_title := Some (case sub_title s of None \<Rightarrow> [] | Some t \<Rightarrow> t)\<rparr>)
       (sort_key (\<lambda>s. (sub_sort s, sub_feed s)) (filter (\<lambda>s. sub_user s = u) (subs d)))"

record sub_view =
  sv_feed :: int
  sv_url :: string
  sv_kind :: string
  sv_site :: string
  sv_title :: string
  sv_folder :: "int option"
  sv_rating :: int
  sv_unread :: nat
  sv_status :: "int option"
  sv_errors :: int
  sv_lasterr :: "string option"
  sv_fetched :: "time option"
  sv_next :: time
  sv_last_entry :: "time option"
  sv_fulltext :: bool

definition scrape_prefix :: string where
  "scrape_prefix = ''pagewatch:''"

definition selector_prefix :: string where
  "selector_prefix = ''selector:''"

definition view_url :: "string \<Rightarrow> string" where
  "view_url url =
     (if like (scrape_prefix @ ''%'') url then drop (length scrape_prefix) url
      else if like (selector_prefix @ ''%'') url then drop (length selector_prefix) url
      else url)"

definition view_kind :: "string \<Rightarrow> string" where
  "view_kind url =
     (if like (scrape_prefix @ ''%'') url then ''pagewatch''
      else if like (selector_prefix @ ''%'') url then ''selector''
      else ''feed'')"

fun sql_max :: "int list \<Rightarrow> int option" where
  "sql_max [] = None"
| "sql_max (x # xs) = (case sql_max xs of None \<Rightarrow> Some x | Some y \<Rightarrow> Some (max x y))"

definition subscription_view :: "db \<Rightarrow> subscription \<Rightarrow> feed \<Rightarrow> sub_view" where
  "subscription_view d s f =
     \<lparr>sv_feed = sub_feed s, sv_url = view_url (fd_url f), sv_kind = view_kind (fd_url f),
      sv_site = (case fd_site f of None \<Rightarrow> [] | Some x \<Rightarrow> x),
      sv_title = (case sub_title s of None \<Rightarrow> fd_title f
                  | Some t \<Rightarrow> if t \<noteq> [] then t else fd_title f),
      sv_folder = sub_folder s, sv_rating = sub_rating s, sv_unread = sub_unread s,
      sv_status = fd_status f, sv_errors = fd_errors f, sv_lasterr = fd_lasterr f,
      sv_fetched = fd_fetched f, sv_next = fd_next f,
      sv_last_entry = sql_max (map ent_pub (filter (\<lambda>e. ent_feed e = sub_feed s) (entries d))),
      sv_fulltext = list_ex (\<lambda>x. ff_feed x = sub_feed s) (fulltexts d)\<rparr>"

definition sub_join_feed :: "db \<Rightarrow> int \<Rightarrow> (subscription \<times> feed) list" where
  "sub_join_feed d u =
     [(s, f). s \<leftarrow> subs d, f \<leftarrow> feeds d, fd_id f = sub_feed s \<and> sub_user s = u]"

definition get_subscription_view :: "db \<Rightarrow> int \<Rightarrow> int \<Rightarrow> store_error + sub_view" where
  "get_subscription_view d u fid =
     (case filter (\<lambda>(s, f). sub_feed s = fid) (sub_join_feed d u) of
        [] \<Rightarrow> Inl ErrNotFound | (s, f) # _ \<Rightarrow> Inr (subscription_view d s f))"

definition list_subscription_views :: "db \<Rightarrow> int \<Rightarrow> sub_view list" where
  "list_subscription_views d u =
     map (\<lambda>(s, f). subscription_view d s f)
       (sort_key (\<lambda>(s, f). (sub_sort s, sub_feed s)) (sub_join_feed d u))"

record sub_patch =
  sp_title :: "string option"
  sp_rating :: "int option"
  sp_folder :: "int option"

definition apply_patch :: "sub_patch \<Rightarrow> subscription \<Rightarrow> subscription" where
  "apply_patch p s = s\<lparr>
     sub_title := (case sp_title p of None \<Rightarrow> sub_title s | Some t \<Rightarrow> Some t),
     sub_rating := (case sp_rating p of None \<Rightarrow> sub_rating s | Some n \<Rightarrow> n),
     sub_folder := (case sp_folder p of None \<Rightarrow> sub_folder s
                    | Some k \<Rightarrow> if k = 0 then None else Some k)\<rparr>"

definition update_subscription :: "db \<Rightarrow> int \<Rightarrow> int \<Rightarrow> sub_patch \<Rightarrow> store_error + db" where
  "update_subscription d u f p =
     (let target = (\<lambda>s. sub_user s = u \<and> sub_feed s = f) in
      if sp_title p = None \<and> sp_rating p = None \<and> sp_folder p = None then Inr d
      else if count_where target (subs d) = 0 then Inl ErrNotFound
      else if (\<exists>k \<in> set_option (sp_folder p). k \<noteq> 0 \<and> k \<notin> fol_id ` set (folders d))
        then Inl ErrConstraint
      else Inr (d\<lparr>subs := upd_where target (apply_patch p) (subs d)\<rparr>))"

section \<open>Pins\<close>

definition add_pin :: "db \<Rightarrow> int \<Rightarrow> int \<Rightarrow> time \<Rightarrow> store_error + db" where
  "add_pin d u i now =
     (let rows = map (\<lambda>e. \<lparr>pin_user = u, pin_entry = ent_id e, pin_url = ent_url e,
                          pin_title = ent_title e, pin_created = now\<rparr>)
            (filter (\<lambda>e. ent_id e = i \<and> has_state d u (ent_id e)
                \<and> \<not> list_ex (\<lambda>p. pin_user p = u \<and> pin_entry p = ent_id e) (pins d)) (entries d))
      in if rows = [] \<and> \<not> has_state d u i then Inl ErrNotFound
         else Inr (d\<lparr>pins := pins d @ rows\<rparr>))"

definition remove_pin :: "db \<Rightarrow> int \<Rightarrow> int \<Rightarrow> store_error + db" where
  "remove_pin d u i =
     (let target = (\<lambda>p. pin_user p = u \<and> pin_entry p = i) in
      if count_where target (pins d) = 0 then Inl ErrNotFound
      else Inr (d\<lparr>pins := del_where target (pins d)\<rparr>))"

definition count_pins :: "db \<Rightarrow> int \<Rightarrow> nat" where
  "count_pins d u = count_where (\<lambda>p. pin_user p = u) (pins d)"

definition list_pins :: "db \<Rightarrow> int \<Rightarrow> pin list" where
  "list_pins d u = sort_key (\<lambda>p. - pin_created p) (filter (\<lambda>p. pin_user p = u) (pins d))"

definition find_entry_by_url :: "db \<Rightarrow> string \<Rightarrow> store_error + int" where
  "find_entry_by_url d url =
     (case sort_key (\<lambda>e. (- ent_pub e, - ent_id e)) (filter (\<lambda>e. ent_url e = url) (entries d)) of
        [] \<Rightarrow> Inl ErrNotFound | e # _ \<Rightarrow> Inr (ent_id e))"

section \<open>Ignore words\<close>

definition recompute_ignored :: "int \<Rightarrow> db \<Rightarrow> db" where
  "recompute_ignored u d =
     (let d1 = d\<lparr>states := upd_where (\<lambda>r. ues_user r = u)
            (\<lambda>r. r\<lparr>ues_ignored := list_ex (\<lambda>e. ent_id e = ues_entry r
               \<and> word_hit d (ues_user r) (ent_title e) (ent_body e)) (entries d)\<rparr>) (states d)\<rparr>
      in d1\<lparr>subs := upd_where (\<lambda>s. sub_user s = u)
            (\<lambda>s. s\<lparr>sub_unread := unread_of d1 (sub_user s) (sub_feed s)\<rparr>) (subs d1)\<rparr>)"

definition add_ignore_word :: "db \<Rightarrow> int \<Rightarrow> string \<Rightarrow> time \<Rightarrow> store_error + db" where
  "add_ignore_word d u raw now =
     (let word = trim_space raw in
      if word = [] then Inl ErrEmptyWord
      else if list_ex (\<lambda>w. ig_user w = u \<and> ig_word w = word) (ignores d)
        then Inr (recompute_ignored u d)
      else if u \<notin> user_ids d then Inl ErrConstraint
      else Inr (recompute_ignored u
        (d\<lparr>ignores := ignores d @ [\<lparr>ig_id = next_id ig_id (ignores d), ig_user = u,
             ig_word = word, ig_created = now\<rparr>]\<rparr>)))"

definition remove_ignore_word :: "db \<Rightarrow> int \<Rightarrow> int \<Rightarrow> store_error + db" where
  "remove_ignore_word d u i =
     (let target = (\<lambda>w. ig_id w = i \<and> ig_user w = u) in
      if count_where target (ignores d) = 0 then Inl ErrNotFound
      else Inr (recompute_ignored u (d\<lparr>ignores := del_where target (ignores d)\<rparr>)))"

definition count_ignore_words :: "db \<Rightarrow> int \<Rightarrow> nat" where
  "count_ignore_words d u = count_where (\<lambda>w. ig_user w = u) (ignores d)"

definition list_ignore_words :: "db \<Rightarrow> int \<Rightarrow> ignore_word list" where
  "list_ignore_words d u = sort_key (\<lambda>w. - ig_created w) (filter (\<lambda>w. ig_user w = u) (ignores d))"

section \<open>Every operation keeps the invariant\<close>

lemma db_ok_folders: "db_ok d \<Longrightarrow> folders_ok d"
  and db_ok_feeds: "db_ok d \<Longrightarrow> feeds_ok d"
  and db_ok_entries: "db_ok d \<Longrightarrow> entries_ok d"
  and db_ok_subs: "db_ok d \<Longrightarrow> subs_ok d"
  and db_ok_states: "db_ok d \<Longrightarrow> states_ok d"
  and db_ok_fan_out: "db_ok d \<Longrightarrow> fan_out_ok d"
  and db_ok_counts: "db_ok d \<Longrightarrow> counts_ok d"
  and db_ok_pins: "db_ok d \<Longrightarrow> pins_ok d"
  and db_ok_ignores: "db_ok d \<Longrightarrow> ignores_ok d"
  and db_ok_extras: "db_ok d \<Longrightarrow> extras_ok d"
  by (simp_all add: db_ok_def)

lemma get_or_create_folder_ok:
  assumes "db_ok d" "get_or_create_folder d u name = Inr (k, d')"
  shows "db_ok d'"
  using assms db_ok_folders [OF assms(1)] next_id_notin [of fol_id "folders d"]
  by (fastforce simp: get_or_create_folder_def Let_def folders_ok_def find_None_iff_all
      split: option.splits if_splits intro!: frame_folders)

definition same_sub :: "(subscription \<Rightarrow> subscription) \<Rightarrow> bool" where
  \<comment> \<open>an update of a subscription row that leaves its keys alone\<close>
  "same_sub f \<longleftrightarrow> (\<forall>s. sub_user (f s) = sub_user s \<and> sub_feed (f s) = sub_feed s)"

definition same_state :: "(entry_state \<Rightarrow> entry_state) \<Rightarrow> bool" where
  \<comment> \<open>an update of a user_entry_state row that only touches read_at and ignored\<close>
  "same_state g \<longleftrightarrow> (\<forall>r. ues_user (g r) = ues_user r \<and> ues_entry (g r) = ues_entry r \<and>
     ues_feed (g r) = ues_feed r \<and> ues_pub (g r) = ues_pub r \<and> ues_created (g r) = ues_created r)"

lemma distinct_map_same:
  "distinct (map key xs) \<Longrightarrow> (\<And>x. key (f x) = key x) \<Longrightarrow> distinct (map key (map f xs))"
  by (simp add: comp_def)

text \<open>
  Marking: rows of \<open>user_entry_state\<close> and subscriptions are updated in place. All that is
  left to show is that the new counts are right.
\<close>

lemma frame_marks:
  assumes ok: "db_ok d" and f: "same_sub f" and g: "same_state g"
    and folder: "\<And>s k. s \<in> set (subs d) \<Longrightarrow> sub_folder (f s) = Some k \<Longrightarrow> k \<in> fol_id ` set (folders d)"
    and count: "\<And>s. s \<in> set (subs d) \<Longrightarrow>
      sub_unread (f s) = count_where (counted (sub_user s) (sub_feed s)) (map g (states d))"
  shows "db_ok (d\<lparr>subs := map f (subs d), states := map g (states d)\<rparr>)"
proof -
  let ?d = "d\<lparr>entries := entries d, subs := map f (subs d), states := map g (states d)\<rparr>"
  note f' = f [unfolded same_sub_def, rule_format] and g' = g [unfolded same_state_def, rule_format]
  have "subs_ok ?d"
    using db_ok_subs [OF ok] folder f' by (auto simp: subs_ok_def fk_image comp_def image_image)
  moreover have "states_ok ?d"
    using db_ok_states [OF ok] g' by (auto simp: states_ok_def comp_def mirrors_def)
  moreover have "fan_out_ok ?d"
    using db_ok_fan_out [OF ok] f' g' by (fastforce simp: fan_out_ok_def)
  moreover have "counts_ok ?d"
    using count f' by (auto simp: counts_ok_def unread_of_def)
  ultimately have "db_ok ?d"
    using db_ok_entries [OF ok] by (intro frame_reading ok) (simp_all add: entries_ok_def)
  then show ?thesis by simp
qed

lemma unread_states: "unread_of (d\<lparr>states := ts\<rparr>) u f = count_where (counted u f) ts"
  by (simp add: unread_of_def)

lemma subs_states: "subs (d\<lparr>states := ts\<rparr>) = subs d"
  by simp

lemma subs_states_swap: "d\<lparr>subs := ss, states := ts\<rparr> = d\<lparr>states := ts, subs := ss\<rparr>"
  by simp

lemma counts_at:
  "db_ok d \<Longrightarrow> s \<in> set (subs d) \<Longrightarrow> sub_unread s = count_where (counted (sub_user s) (sub_feed s)) (states d)"
  using db_ok_counts by (fastforce simp: counts_ok_def unread_of_def)

lemma same_sub_if: "same_sub f \<Longrightarrow> same_sub (\<lambda>s. if P s then f s else s)"
  and same_state_if: "same_state g \<Longrightarrow> same_state (\<lambda>r. if Q r then g r else r)"
  by (simp_all add: same_sub_def same_state_def)

lemma same_state_read [simp]: "same_state (\<lambda>r. r\<lparr>ues_read := x\<rparr>)"
  and same_state_ignored [simp]: "same_state (\<lambda>r. r\<lparr>ues_ignored := c r\<rparr>)"
  and same_sub_unread [simp]: "same_sub (\<lambda>s. s\<lparr>sub_unread := n s\<rparr>)"
  by (simp_all add: same_state_def same_sub_def)

lemma states_marked_ok:
  \<comment> \<open>update rows where Q, recount the subscriptions where P, which cover every row in Q\<close>
  assumes ok: "db_ok d" and g: "same_state g"
    and cover: "\<And>s r. s \<in> set (subs d) \<Longrightarrow> r \<in> set (states d) \<Longrightarrow> Q r \<Longrightarrow>
      ues_user r = sub_user s \<Longrightarrow> ues_feed r = sub_feed s \<Longrightarrow> P s"
    and h: "\<And>s. P s \<Longrightarrow> h s = s\<lparr>sub_unread :=
      count_where (counted (sub_user s) (sub_feed s)) (upd_where Q g (states d))\<rparr>"
  shows "db_ok (d\<lparr>states := upd_where Q g (states d), subs := upd_where P h (subs d)\<rparr>)"
proof -
  let ?f = "\<lambda>s. if P s then h s else s" and ?g = "\<lambda>r. if Q r then g r else r"
  have count: "sub_unread (?f s) = count_where (counted (sub_user s) (sub_feed s)) (map ?g (states d))"
    if s: "s \<in> set (subs d)" for s
  proof (cases "P s")
    case False
    have "count_where (counted (sub_user s) (sub_feed s)) (upd_where Q g (states d)) =
        count_where (counted (sub_user s) (sub_feed s)) (states d)"
      by (rule count_where_upd_where)
        (use False cover [OF s] g in \<open>auto simp: counted_def same_state_def\<close>)
    then show ?thesis using False counts_at [OF ok s] by (simp add: upd_where_def)
  qed (simp add: h upd_where_def)
  have "same_sub ?f" by (auto simp: same_sub_def h)
  then have "db_ok (d\<lparr>subs := map ?f (subs d), states := map ?g (states d)\<rparr>)"
    using db_ok_subs [OF ok]
    by (intro frame_marks ok same_state_if g count) (auto simp: h subs_ok_def split: if_splits)
  then show ?thesis by (simp add: upd_where_def subs_states_swap)
qed

lemma recompute_ignored_ok: "db_ok d \<Longrightarrow> db_ok (recompute_ignored u d)"
  unfolding recompute_ignored_def Let_def unread_states subs_states
  by (rule states_marked_ok) simp_all

lemma ignores_del_ok: "db_ok d \<Longrightarrow> db_ok (d\<lparr>ignores := del_where P (ignores d)\<rparr>)"
  by (rule frame_ignores)
    (use db_ok_ignores [of d] in \<open>simp_all add: ignores_ok_def distinct_del_where fk_del_where\<close>)

lemma remove_ignore_word_ok: "db_ok d \<Longrightarrow> remove_ignore_word d u i = Inr d' \<Longrightarrow> db_ok d'"
  by (auto simp: remove_ignore_word_def Let_def split: if_splits
      intro!: recompute_ignored_ok ignores_del_ok)

lemma ignores_add_ok:
  assumes "db_ok d" "u \<in> user_ids d" "\<not> list_ex (\<lambda>w. ig_user w = u \<and> ig_word w = word) (ignores d)"
  shows "db_ok (d\<lparr>ignores := ignores d @ [\<lparr>ig_id = next_id ig_id (ignores d), ig_user = u,
             ig_word = word, ig_created = now\<rparr>]\<rparr>)"
  by (rule frame_ignores)
    (use assms db_ok_ignores [of d] next_id_notin [of ig_id "ignores d"] in
      \<open>auto simp: ignores_ok_def list_ex_iff\<close>)

lemma add_ignore_word_ok: "db_ok d \<Longrightarrow> add_ignore_word d u raw now = Inr d' \<Longrightarrow> db_ok d'"
  by (auto simp: add_ignore_word_def Let_def split: if_splits
      intro!: recompute_ignored_ok ignores_add_ok)

lemma remove_pin_ok: "db_ok d \<Longrightarrow> remove_pin d u i = Inr d' \<Longrightarrow> db_ok d'"
  by (auto simp: remove_pin_def Let_def split: if_splits intro!: frame_pins)
    (auto simp: pins_ok_def distinct_del_where fk_del_where dest!: db_ok_pins)

lemma state_user:
  assumes "db_ok d" "r \<in> set (states d)"
  shows "ues_user r \<in> user_ids d"
proof -
  obtain s where "s \<in> set (subs d)" "sub_user s = ues_user r"
    using db_ok_fan_out [OF assms(1)] assms(2) by (auto simp: fan_out_ok_def)
  then show ?thesis using db_ok_subs [OF assms(1)] by (metis subs_ok_def fk_def)
qed

lemma has_state_iff: "has_state d u i \<longleftrightarrow> (\<exists>r \<in> set (states d). ues_user r = u \<and> ues_entry r = i)"
  by (simp add: has_state_def list_ex_iff)

lemma add_pin_ok:
  assumes ok: "db_ok d" and run: "add_pin d u i now = Inr d'"
  shows "db_ok d'"
proof -
  define rows where "rows = map (\<lambda>e. \<lparr>pin_user = u, pin_entry = ent_id e, pin_url = ent_url e,
                          pin_title = ent_title e, pin_created = now\<rparr>)
            (filter (\<lambda>e. ent_id e = i \<and> has_state d u (ent_id e)
                \<and> \<not> list_ex (\<lambda>p. pin_user p = u \<and> pin_entry p = ent_id e) (pins d)) (entries d))"
  have d': "d' = d\<lparr>pins := pins d @ rows\<rparr>"
    using run by (auto simp: add_pin_def Let_def rows_def split: if_splits)
  have "distinct (map ent_id (entries d))" using db_ok_entries [OF ok] by (simp add: entries_ok_def)
  then have "distinct (map (\<lambda>p. (pin_user p, pin_entry p)) rows)"
    unfolding rows_def by (simp add: comp_def distinct_map inj_on_def)
  then have "distinct (map (\<lambda>p. (pin_user p, pin_entry p)) (pins d @ rows))"
    using db_ok_pins [OF ok] by (auto simp: pins_ok_def rows_def list_ex_iff)
  moreover have "fk pin_user rows (user_ids d)"
    using state_user [OF ok] by (auto simp: fk_def rows_def has_state_iff)
  moreover have "fk pin_entry rows (ent_id ` set (entries d))"
    by (auto simp: fk_def rows_def)
  ultimately show ?thesis
    unfolding d' using db_ok_pins [OF ok] by (intro frame_pins ok) (simp add: pins_ok_def)
qed

lemma update_subscription_ok:
  assumes ok: "db_ok d" and run: "update_subscription d u f p = Inr d'"
  shows "db_ok d'"
proof -
  let ?P = "\<lambda>s. sub_user s = u \<and> sub_feed s = f"
  let ?f = "\<lambda>s. if ?P s then apply_patch p s else s"
  consider "d' = d" | "d' = d\<lparr>subs := upd_where ?P (apply_patch p) (subs d)\<rparr>"
    "\<forall>k \<in> set_option (sp_folder p). k = 0 \<or> k \<in> fol_id ` set (folders d)"
    using run by (force simp: update_subscription_def Let_def split: if_splits)
  then show ?thesis
  proof cases
    case 2
    have "db_ok (d\<lparr>subs := map ?f (subs d), states := map (\<lambda>r. r) (states d)\<rparr>)"
    proof (rule frame_marks [OF ok])
      show "sub_folder (?f s) = Some k \<Longrightarrow> k \<in> fol_id ` set (folders d)" if "s \<in> set (subs d)" for s k
        using that 2(2) db_ok_subs [OF ok]
        by (auto simp: apply_patch_def subs_ok_def split: if_splits option.splits)
      show "sub_unread (?f s) = count_where (counted (sub_user s) (sub_feed s)) (map (\<lambda>r. r) (states d))"
        if "s \<in> set (subs d)" for s
        using counts_at [OF ok that] by (simp add: apply_patch_def)
    qed (simp_all add: same_sub_def same_state_def apply_patch_def)
    then show ?thesis by (simp add: 2(1) upd_where_def)
  qed (use ok in simp)
qed

lemma state_feed:
  \<comment> \<open>a row's feed column is its entry's feed\<close>
  assumes "db_ok d" "r \<in> set (states d)" "e \<in> set (entries d)" "ues_entry r = ent_id e"
  shows "ues_feed r = ent_feed e"
proof -
  obtain e' where "e' \<in> set (entries d)" "mirrors r e'"
    using assms db_ok_states by (fastforce simp: states_ok_def)
  then show ?thesis
    using assms db_ok_entries [of d] distinct_map_unique [of ent_id "entries d" e e']
    by (auto simp: mirrors_def entries_ok_def)
qed

lemma state_sub:
  \<comment> \<open>every row belongs to a subscription\<close>
  assumes "db_ok d" "r \<in> set (states d)"
  obtains s where "s \<in> set (subs d)" "sub_user s = ues_user r" "sub_feed s = ues_feed r"
  using db_ok_fan_out [OF assms(1)] assms(2) by (auto simp: fan_out_ok_def)

lemma sub_state:
  \<comment> \<open>every entry of a subscribed feed has a row\<close>
  assumes "db_ok d" "s \<in> set (subs d)" "e \<in> set (entries d)" "ent_feed e = sub_feed s"
  obtains r where "r \<in> set (states d)" "ues_user r = sub_user s" "ues_entry r = ent_id e"
  using db_ok_fan_out [OF assms(1)] assms(2-) unfolding fan_out_ok_def by blast

lemma fan_out_keys:
  "fan_out_ok d \<longleftrightarrow>
     (\<lambda>r. (ues_user r, ues_feed r)) ` set (states d) \<subseteq> (\<lambda>s. (sub_user s, sub_feed s)) ` set (subs d) \<and>
     (\<forall>(u, f) \<in> (\<lambda>s. (sub_user s, sub_feed s)) ` set (subs d). \<forall>e \<in> set (entries d). ent_feed e = f \<longrightarrow>
        (u, ent_id e) \<in> (\<lambda>r. (ues_user r, ues_entry r)) ` set (states d))"
  unfolding fan_out_ok_def image_subset_iff image_iff Ball_def Bex_def split_paired_All by force

lemma unsubscribe_ok:
  assumes ok: "db_ok d" and run: "unsubscribe d u f = Inr d'"
  shows "db_ok d'"
proof -
  let ?ss = "del_where (\<lambda>s. sub_user s = u \<and> sub_feed s = f) (subs d)"
  let ?ts = "del_where (\<lambda>r. ues_user r = u \<and> ues_feed r = f) (states d)"
  let ?d = "d\<lparr>entries := entries d, subs := ?ss, states := ?ts\<rparr>"
  have d': "d' = d\<lparr>subs := ?ss, states := ?ts\<rparr>"
    using run by (auto simp: unsubscribe_def Let_def split: if_splits)
  have "subs_ok ?d"
    using db_ok_subs [OF ok] by (auto simp: subs_ok_def distinct_del_where fk_del_where set_del_where)
  moreover have "states_ok ?d"
    using db_ok_states [OF ok] by (simp add: states_ok_def distinct_del_where set_del_where)
  moreover have "fan_out_ok ?d"
  proof -
    have "\<exists>r \<in> set ?ts. ues_user r = sub_user s \<and> ues_entry r = ent_id e"
      if s: "s \<in> set ?ss" and e: "e \<in> set (entries d)" "ent_feed e = sub_feed s" for s e
    proof -
      have s': "s \<in> set (subs d)" using s by (simp add: set_del_where)
      obtain r where r: "r \<in> set (states d)" "ues_user r = sub_user s" "ues_entry r = ent_id e"
        using sub_state [OF ok s' e] .
      then have "ues_feed r = sub_feed s"
        using state_feed [OF ok r(1) e(1)] e(2) by simp
      then show ?thesis using r s by (auto simp: set_del_where)
    qed
    moreover have "\<exists>s \<in> set ?ss. sub_user s = ues_user r \<and> sub_feed s = ues_feed r"
      if r: "r \<in> set ?ts" for r
    proof -
      have r': "r \<in> set (states d)" using r by (simp add: set_del_where)
      show ?thesis by (rule state_sub [OF ok r']) (use r in \<open>auto simp: set_del_where\<close>)
    qed
    ultimately show ?thesis by (simp add: fan_out_ok_def)
  qed
  moreover have "counts_ok ?d"
    using counts_at [OF ok]
    by (auto simp: counts_ok_def unread_of_def set_del_where counted_def
        intro!: count_where_del_where [symmetric])
  ultimately have "db_ok ?d"
    using db_ok_entries [OF ok] by (intro frame_reading ok) (simp_all add: entries_ok_def)
  then show ?thesis by (simp add: d')
qed

lemma refresh_counts:
  "counts_ok (refresh_unread_count f d) \<longleftrightarrow>
   (\<forall>s \<in> set (subs d). sub_feed s \<noteq> f \<longrightarrow> sub_unread s = unread_of d (sub_user s) (sub_feed s))"
  by (auto simp: counts_ok_def refresh_unread_count_def set_upd_where unread_of_def)

lemma refresh_frame [simp]:
  "users (refresh_unread_count f d) = users d" "folders (refresh_unread_count f d) = folders d"
  "feeds (refresh_unread_count f d) = feeds d" "entries (refresh_unread_count f d) = entries d"
  "states (refresh_unread_count f d) = states d" "pins (refresh_unread_count f d) = pins d"
  "ignores (refresh_unread_count f d) = ignores d" "scrapes (refresh_unread_count f d) = scrapes d"
  "sessions (refresh_unread_count f d) = sessions d" "invitations (refresh_unread_count f d) = invitations d"
  "api_tokens (refresh_unread_count f d) = api_tokens d"
  "fulltexts (refresh_unread_count f d) = fulltexts d" "boilers (refresh_unread_count f d) = boilers d"
  by (simp_all add: refresh_unread_count_def)

lemma refresh_subs:
  "subs (refresh_unread_count f d) = upd_where (\<lambda>s. sub_feed s = f)
                (\<lambda>s. s\<lparr>sub_unread := unread_of d (sub_user s) f\<rparr>) (subs d)"
  by (simp add: refresh_unread_count_def)

lemma refresh_parts:
  "subs_ok (refresh_unread_count f d) = subs_ok d"
  "fan_out_ok (refresh_unread_count f d) = fan_out_ok d"
  "states_ok (refresh_unread_count f d) = states_ok d"
  "entries_ok (refresh_unread_count f d) = entries_ok d"
  by (simp_all add: subs_ok_def states_ok_def entries_ok_def refresh_subs
      map_upd_where fk_upd_where ball_upd_where fan_out_keys image_upd_where)

lemma refresh_other_parts:
  "creds_ok (refresh_unread_count f d) = creds_ok d"
  "folders_ok (refresh_unread_count f d) = folders_ok d"
  "feeds_ok (refresh_unread_count f d) = feeds_ok d"
  "pins_ok (refresh_unread_count f d) = pins_ok d"
  "ignores_ok (refresh_unread_count f d) = ignores_ok d"
  "extras_ok (refresh_unread_count f d) = extras_ok d"
  by (simp_all add: creds_ok_def folders_ok_def feeds_ok_def pins_ok_def ignores_ok_def extras_ok_def)

lemma refresh_ok: "db_ok d \<Longrightarrow> db_ok (refresh_unread_count f d)"
  by (simp add: db_ok_def refresh_parts refresh_other_parts refresh_counts)
    (simp add: counts_ok_def)

text \<open>
  Inserting rows into the reading state: the parts of the invariant that hold before the
  recount of feed f are enough.
\<close>

lemma refresh_establishes:
  assumes "users_ok (users d)" "admin_ok (users d)" "creds_ok d" "folders_ok d" "feeds_ok d"
    "entries_ok d" "subs_ok d" "states_ok d" "fan_out_ok d" "pins_ok d" "ignores_ok d" "extras_ok d"
    "\<And>s. s \<in> set (subs d) \<Longrightarrow> sub_feed s \<noteq> f \<Longrightarrow> sub_unread s = unread_of d (sub_user s) (sub_feed s)"
  shows "db_ok (refresh_unread_count f d)"
  using assms by (simp add: db_ok_def refresh_parts refresh_other_parts refresh_counts)

lemma fan_out_backlog_subs [simp]: "fan_out_backlog (d\<lparr>subs := ss\<rparr>) u f = fan_out_backlog d u f"
  by (simp add: fan_out_backlog_def has_state_def fresh_state_def word_hit_def cong: map_cong)

lemma set_backlog:
  "r \<in> set (fan_out_backlog d u f) \<longleftrightarrow>
   (\<exists>e \<in> set (entries d). ent_feed e = f \<and> \<not> has_state d u (ent_id e) \<and> r = fresh_state d u None e)"
  by (auto simp: fan_out_backlog_def)

lemma fresh_state_simps [simp]:
  "ues_user (fresh_state d u x e) = u" "ues_entry (fresh_state d u x e) = ent_id e"
  "ues_feed (fresh_state d u x e) = ent_feed e" "ues_read (fresh_state d u x e) = x"
  "mirrors (fresh_state d u x e) e"
  by (simp_all add: fresh_state_def mirrors_def)

lemma backlog_cols: "r \<in> set (fan_out_backlog d u f) \<Longrightarrow> ues_user r = u \<and> ues_feed r = f"
  unfolding set_backlog by (elim bexE conjE) (simp only: fresh_state_simps)

lemma backlog_states_ok:
  assumes ok: "db_ok d"
  shows "states_ok (d\<lparr>states := states d @ fan_out_backlog d u f\<rparr>)"
proof -
  have "distinct (map ent_id (entries d))"
    using db_ok_entries [OF ok] by (simp add: entries_ok_def)
  then have "distinct (map (\<lambda>r. (ues_user r, ues_entry r)) (fan_out_backlog d u f))"
    by (simp add: fan_out_backlog_def comp_def distinct_map inj_on_def)
  moreover have "(ues_user r, ues_entry r) \<noteq> (ues_user q, ues_entry q)"
    if "r \<in> set (states d)" "q \<in> set (fan_out_backlog d u f)" for r q
    using that by (auto simp: set_backlog has_state_iff)
  ultimately show ?thesis
    using db_ok_states [OF ok] unfolding states_ok_def
    by (auto simp: set_backlog) (metis fresh_state_simps(5))
qed

lemma upsert_sub_rows:
  \<comment> \<open>the subscription rows after the upsert: one key more, the other feeds' rows as they were\<close>
  assumes "ss = (if subscribed d u f then
                 upd_where (\<lambda>s. sub_user s = u \<and> sub_feed s = f)
                   (\<lambda>s. s\<lparr>sub_folder := folder, sub_title := Some title\<rparr>) (subs d)
               else subs d @ [new])"
    "sub_user new = u" "sub_feed new = f" "sub_folder new = folder"
  shows "(\<lambda>s. (sub_user s, sub_feed s)) ` set ss =
           insert (u, f) ((\<lambda>s. (sub_user s, sub_feed s)) ` set (subs d))"
    and "distinct (map (\<lambda>s. (sub_user s, sub_feed s)) (subs d)) \<Longrightarrow>
         distinct (map (\<lambda>s. (sub_user s, sub_feed s)) ss)"
    and "s \<in> set ss \<Longrightarrow> sub_feed s \<noteq> f \<Longrightarrow> s \<in> set (subs d)"
    and "s \<in> set ss \<Longrightarrow> s \<in> set (subs d) \<or> sub_folder s = folder"
proof -
  let ?key = "\<lambda>s. (sub_user s, sub_feed s)"
  have sub: "subscribed d u f \<longleftrightarrow> (u, f) \<in> ?key ` set (subs d)"
    by (auto simp: subscribed_def list_ex_iff image_iff)
  show "?key ` set ss = insert (u, f) (?key ` set (subs d))"
    using assms sub by (cases "subscribed d u f") (simp_all add: image_upd_where insert_absorb)
  show "distinct (map ?key (subs d)) \<Longrightarrow> distinct (map ?key ss)"
    using assms sub by (cases "subscribed d u f") (simp_all add: map_upd_where)
  show "s \<in> set ss \<Longrightarrow> sub_feed s \<noteq> f \<Longrightarrow> s \<in> set (subs d)"
    and "s \<in> set ss \<Longrightarrow> s \<in> set (subs d) \<or> sub_folder s = folder"
    using assms by (auto simp: upd_where_def split: if_splits)
qed

lemma upsert_subscription_ok:
  assumes ok: "db_ok d" and run: "upsert_subscription d u f folder title now = Inr d'"
  shows "db_ok d'"
proof -
  define new where "new = \<lparr>sub_user = u, sub_feed = f, sub_folder = folder,
                 sub_title = Some title, sub_rating = 0, sub_unread = 0, sub_sort = 0,
                 sub_created = now\<rparr>"
  define ss where "ss = (if subscribed d u f then
                 upd_where (\<lambda>s. sub_user s = u \<and> sub_feed s = f)
                   (\<lambda>s. s\<lparr>sub_folder := folder, sub_title := Some title\<rparr>) (subs d)
               else subs d @ [new])"
  let ?ts = "states d @ fan_out_backlog d u f"
  let ?d = "d\<lparr>subs := ss, states := ?ts\<rparr>"
  let ?keys = "\<lambda>ss. (\<lambda>s. (sub_user s, sub_feed s)) ` set ss"
  have d': "d' = refresh_unread_count f ?d" and fks: "u \<in> user_ids d" "f \<in> feed_ids d"
      "\<forall>k \<in> set_option folder. k \<in> fol_id ` set (folders d)"
    using run by (auto simp: upsert_subscription_def Let_def ss_def new_def split: if_splits)
  note rows = upsert_sub_rows [OF ss_def]
  have keys: "?keys ss = insert (u, f) (?keys (subs d))"
    by (rule rows) (simp_all add: new_def)
  have users: "sub_user s \<in> user_ids d" "sub_feed s \<in> feed_ids d" if "s \<in> set ss" for s
  proof -
    have "(sub_user s, sub_feed s) \<in> insert (u, f) (?keys (subs d))" using that keys by blast
    then show "sub_user s \<in> user_ids d" "sub_feed s \<in> feed_ids d"
      using fks db_ok_subs [OF ok] by (auto simp: subs_ok_def fk_def)
  qed
  have folder: "sub_folder s = Some k \<Longrightarrow> k \<in> fol_id ` set (folders d)" if "s \<in> set ss" for s k
    using rows(4) [OF _ _ _ that] fks(3) db_ok_subs [OF ok] by (auto simp: new_def subs_ok_def)
  have subs: "subs_ok ?d"
    using rows(2) db_ok_subs [OF ok] users folder by (simp add: subs_ok_def fk_def new_def)
  have "fan_out_ok ?d"
    unfolding fan_out_ok_def
  proof (intro conjI ballI impI)
    fix r
    assume "r \<in> set (states ?d)"
    then have "(ues_user r, ues_feed r) \<in> ?keys ss"
      using db_ok_fan_out [OF ok] unfolding keys fan_out_keys by (auto simp: set_backlog)
    then show "\<exists>s \<in> set (subs ?d). sub_user s = ues_user r \<and> sub_feed s = ues_feed r"
      by auto
  next
    fix s e
    assume s: "s \<in> set (subs ?d)" and e: "e \<in> set (entries ?d)" "ent_feed e = sub_feed s"
    have key: "(sub_user s, sub_feed s) \<in> insert (u, f) (?keys (subs d))" using s keys by auto
    show "\<exists>r \<in> set (states ?d). ues_user r = sub_user s \<and> ues_entry r = ent_id e"
    proof (cases "has_state d (sub_user s) (ent_id e)")
      case False
      then have "(sub_user s, sub_feed s) \<notin> ?keys (subs d)"
        using sub_state [OF ok] e by (auto simp: has_state_iff) metis
      then have "fresh_state d (sub_user s) None e \<in> set (fan_out_backlog d u f)"
        using key e False by (auto simp: set_backlog)
      then show ?thesis by (intro bexI [of _ "fresh_state d (sub_user s) None e"]) simp_all
    qed (auto simp: has_state_iff)
  qed
  moreover have "states_ok ?d"
    using backlog_states_ok [OF ok, of u f] by (simp add: states_ok_def)
  moreover have "sub_unread s = unread_of ?d (sub_user s) (sub_feed s)"
    if s: "s \<in> set ss" "sub_feed s \<noteq> f" for s
  proof -
    have "count_where (counted (sub_user s) (sub_feed s)) (fan_out_backlog d u f) = 0"
      using s by (auto simp: count_where_0_iff set_backlog counted_def)
    then show ?thesis
      using counts_at [OF ok rows(3) [OF _ _ _ s]]
      by (simp add: unread_of_def count_where_append new_def)
  qed
  ultimately show ?thesis
    using ok subs unfolding d'
    by (intro refresh_establishes) (simp_all add: db_ok_def creds_ok_def folders_ok_def feeds_ok_def
        entries_ok_def pins_ok_def ignores_ok_def extras_ok_def)
qed

end
