(* ===== verification/StoreEntries.thy ===== *)
theory StoreEntries
  imports StoreSubs
begin

text \<open>
  \<open>internal/store/entries.go\<close>: writing a feed's parsed entries with their fan-out, reading
  them page by page, and marking them read. The cursor of a page is ordered newest first,
  so ORDER BY is a sort by cursor and "resume after" is a comparison of cursors; the
  lemmas show that the pages partition the list and that every write keeps \<open>db_ok\<close>.
\<close>

section \<open>Writing entries\<close>

record entry_input =
  in_guid :: string
  in_url :: string
  in_title :: string
  in_author :: string
  in_body :: string
  in_hash :: string
  in_pub :: time
  in_upd :: time
  in_missing :: bool

definition first_date_missing :: "entry_input list \<Rightarrow> string" where
  "first_date_missing es = (case find in_missing es of None \<Rightarrow> [] | Some e \<Rightarrow> in_guid e)"

definition new_entry :: "db \<Rightarrow> int \<Rightarrow> time \<Rightarrow> entry_input \<Rightarrow> entry" where
  "new_entry d f now e =
     \<lparr>ent_id = next_id ent_id (entries d), ent_feed = f, ent_guid = in_guid e, ent_url = in_url e,
      ent_title = in_title e, ent_author = in_author e, ent_body = in_body e, ent_hash = in_hash e,
      ent_pub = in_pub e, ent_upd = in_upd e, ent_fetched = now, ent_created = now\<rparr>"

definition fan_out_entry :: "db \<Rightarrow> int \<Rightarrow> time option \<Rightarrow> entry \<Rightarrow> entry_state list" where
  "fan_out_entry d f read e =
     map (\<lambda>s. fresh_state d (sub_user s) read e) (filter (\<lambda>s. sub_feed s = f) (subs d))"

definition upsert_entry ::
    "string \<Rightarrow> int \<Rightarrow> time \<Rightarrow> entry_input \<Rightarrow> db \<Rightarrow> store_error + (bool \<times> db)" where
  \<comment> \<open>the body of the loop; the flag tells whether a row was inserted\<close>
  "upsert_entry first f now e d =
     (let read = (if in_missing e \<and> in_guid e \<noteq> first then Some now else None);
          same = (\<lambda>x. ent_feed x = f \<and> ent_guid x = in_guid e) in
      if list_ex same (entries d) then
        Inr (False, d\<lparr>entries := upd_where same
          (\<lambda>x. x\<lparr>ent_url := in_url e, ent_title := in_title e, ent_author := in_author e,
                ent_body := in_body e, ent_hash := in_hash e, ent_upd := in_upd e,
                ent_fetched := now\<rparr>) (entries d)\<rparr>)
      else if f \<notin> feed_ids d then Inl ErrConstraint
      else
        let x = new_entry d f now e; d1 = d\<lparr>entries := entries d @ [x]\<rparr>;
            rows = fan_out_entry d1 f read x in
        if list_ex (\<lambda>r. has_state d1 (ues_user r) (ues_entry r)) rows then Inl ErrConstraint
        else Inr (True, d1\<lparr>states := states d1 @ rows\<rparr>))"

fun upsert_loop ::
    "string \<Rightarrow> int \<Rightarrow> time \<Rightarrow> entry_input list \<Rightarrow> nat \<Rightarrow> db \<Rightarrow> store_error + (nat \<times> db)" where
  "upsert_loop first f now [] n d = Inr (n, d)"
| "upsert_loop first f now (e # es) n d =
     (case upsert_entry first f now e d of
        Inl err \<Rightarrow> Inl err
      | Inr (fresh, d') \<Rightarrow> upsert_loop first f now es (if fresh then n + 1 else n) d')"

definition upsert_entries ::
    "db \<Rightarrow> int \<Rightarrow> entry_input list \<Rightarrow> time \<Rightarrow> store_error + (nat \<times> db)" where
  "upsert_entries d f es now =
     (if es = [] then Inr (0, d)
      else case upsert_loop (first_date_missing es) f now es 0 d of
        Inl err \<Rightarrow> Inl err
      | Inr (n, d') \<Rightarrow> Inr (n, if n > 0 then refresh_unread_count f d' else d'))"

definition existing_entry_guids :: "db \<Rightarrow> int \<Rightarrow> string list \<Rightarrow> string set" where
  "existing_entry_guids d f guids =
     (if guids = [] then {}
      else ent_guid ` set (filter (\<lambda>x. ent_feed x = f \<and> ent_guid x \<in> set guids) (entries d)))"

definition count_entries :: "db \<Rightarrow> int \<Rightarrow> nat" where
  "count_entries d f = count_where (\<lambda>x. ent_feed x = f) (entries d)"

section \<open>Reading pages of entries\<close>

datatype entry_cursor = EntryCursor (cur_pub: time) (cur_id: int)

text \<open>Newest first: a cursor is smaller when it comes earlier in the list.\<close>

instantiation entry_cursor :: linorder
begin

definition less_entry_cursor :: "entry_cursor \<Rightarrow> entry_cursor \<Rightarrow> bool" where
  "a < b \<longleftrightarrow> cur_pub b < cur_pub a \<or> (cur_pub b = cur_pub a \<and> cur_id b < cur_id a)"

definition less_eq_entry_cursor :: "entry_cursor \<Rightarrow> entry_cursor \<Rightarrow> bool" where
  "a \<le> b \<longleftrightarrow> a < b \<or> a = (b :: entry_cursor)"

instance
proof
  fix a b c :: entry_cursor
  show "a < b \<longleftrightarrow> a \<le> b \<and> \<not> b \<le> a" and "a \<le> a"
    and "a \<le> b \<Longrightarrow> b \<le> c \<Longrightarrow> a \<le> c" and "a \<le> b \<Longrightarrow> b \<le> a \<Longrightarrow> a = b" and "a \<le> b \<or> b \<le> a"
    by (cases a; cases b; cases c; auto simp: less_entry_cursor_def less_eq_entry_cursor_def)+
qed

end

record entry_row =
  er_id :: int
  er_feed :: int
  er_guid :: string
  er_url :: string
  er_title :: string
  er_author :: string
  er_body :: string
  er_pub :: time
  er_upd :: time
  er_fetched :: time
  er_read :: "time option"
  er_pinned :: bool

definition row_of :: "db \<Rightarrow> int \<Rightarrow> entry \<Rightarrow> entry_state \<Rightarrow> entry_row" where
  "row_of d u e r =
     \<lparr>er_id = ent_id e, er_feed = ent_feed e, er_guid = ent_guid e, er_url = ent_url e,
      er_title = ent_title e, er_author = ent_author e, er_body = ent_body e, er_pub = ent_pub e,
      er_upd = ent_upd e, er_fetched = ent_fetched e, er_read = ues_read r,
      er_pinned = list_ex (\<lambda>p. pin_entry p = ent_id e \<and> pin_user p = u) (pins d)\<rparr>"

definition cursor_of :: "entry_row \<Rightarrow> entry_cursor" where
  "cursor_of x = EntryCursor (er_pub x) (er_id x)"

definition page :: "int \<Rightarrow> entry_cursor option \<Rightarrow> entry_row list \<Rightarrow> entry_row list" where
  \<comment> \<open>the cursor condition, ORDER BY published_at DESC, id DESC and LIMIT\<close>
  "page limit c xs =
     sql_limit limit (sort_key cursor_of
       (case c of None \<Rightarrow> xs | Some k \<Rightarrow> filter (\<lambda>x. k < cursor_of x) xs))"

definition entries_join :: "db \<Rightarrow> int \<Rightarrow> (entry \<times> entry_state) list" where
  \<comment> \<open>entries JOIN user_entry_state of user u, without the ignored rows\<close>
  "entries_join d u = [(e, r). e \<leftarrow> entries d, r \<leftarrow> states d,
     ues_entry r = ent_id e \<and> ues_user r = u \<and> \<not> ues_ignored r]"

definition list_entries ::
    "db \<Rightarrow> int \<Rightarrow> int \<Rightarrow> bool \<Rightarrow> int \<Rightarrow> entry_cursor option \<Rightarrow> entry_row list" where
  "list_entries d u f unread_only limit c =
     page limit c (map (\<lambda>(e, r). row_of d u e r)
       (filter (\<lambda>(e, r). ent_feed e = f \<and> (unread_only \<longrightarrow> ues_read r = None)) (entries_join d u)))"

definition list_group_entries ::
    "db \<Rightarrow> int \<Rightarrow> (subscription \<Rightarrow> entry \<Rightarrow> bool) \<Rightarrow> bool \<Rightarrow> int \<Rightarrow> entry_cursor option \<Rightarrow> entry_row list" where
  "list_group_entries d u sub_where unread_only limit c =
     page limit c [row_of d u e r. (e, r) \<leftarrow> entries_join d u, s \<leftarrow> subs d,
       sub_feed s = ent_feed e \<and> sub_user s = u \<and> sub_where s e \<and> (unread_only \<longrightarrow> ues_read r = None)]"

definition list_entries_by_folder ::
    "db \<Rightarrow> int \<Rightarrow> int option \<Rightarrow> bool \<Rightarrow> int \<Rightarrow> entry_cursor option \<Rightarrow> entry_row list" where
  "list_entries_by_folder d u folder unread_only limit c =
     (case folder of
        None \<Rightarrow> list_group_entries d u (\<lambda>s e. sub_folder s = None) unread_only limit c
      | Some k \<Rightarrow> list_group_entries d u (\<lambda>s e. sub_folder s = Some k) unread_only limit c)"

definition list_entries_by_rating ::
    "db \<Rightarrow> int \<Rightarrow> int \<Rightarrow> bool \<Rightarrow> int \<Rightarrow> entry_cursor option \<Rightarrow> entry_row list" where
  "list_entries_by_rating d u rating unread_only limit c =
     list_group_entries d u (\<lambda>s e. sub_rating s = rating) unread_only limit c"

definition list_today_entries ::
    "db \<Rightarrow> int \<Rightarrow> time \<Rightarrow> int \<Rightarrow> entry_cursor option \<Rightarrow> entry_row list" where
  "list_today_entries d u since limit c =
     list_group_entries d u (\<lambda>s e. since \<le> ent_created e) True limit c"

definition count_today_unread :: "db \<Rightarrow> int \<Rightarrow> time \<Rightarrow> nat" where
  "count_today_unread d u since =
     count_where (\<lambda>r. ues_user r = u \<and> \<not> ues_ignored r \<and> ues_read r = None
       \<and> since \<le> ues_created r) (states d)"

definition search_entries ::
    "(string \<Rightarrow> string \<Rightarrow> string \<Rightarrow> bool) \<Rightarrow> db \<Rightarrow> int \<Rightarrow> string \<Rightarrow> int \<Rightarrow> entry_cursor option \<Rightarrow> entry_row list" where
  \<comment> \<open>fts phrase title body: SQLite's trigram MATCH, for queries of three runes or more\<close>
  "search_entries fts d u query limit c =
     list_group_entries d u
       (\<lambda>s e. if rune_count query < 3
              then contains_word (ent_title e) query \<or> contains_word (ent_body e) query
              else fts query (ent_title e) (ent_body e)) False limit c"

section \<open>Marking entries read\<close>

definition mark_where :: "(entry_state \<Rightarrow> bool) \<Rightarrow> time \<Rightarrow> db \<Rightarrow> nat \<times> db" where
  \<comment> \<open>find the feeds touched, set read_at on the unread rows, recount those feeds\<close>
  "mark_where target now d =
     (let hit = (\<lambda>r. target r \<and> ues_read r = None);
          feed_ids = remdups (map ues_feed (filter hit (states d)));
          d1 = d\<lparr>states := upd_where hit (\<lambda>r. r\<lparr>ues_read := Some now\<rparr>) (states d)\<rparr>
      in (count_where hit (states d), fold refresh_unread_count feed_ids d1))"

definition mark_entries_read :: "db \<Rightarrow> int \<Rightarrow> int list \<Rightarrow> time \<Rightarrow> nat \<times> db" where
  "mark_entries_read d u ids now =
     (if ids = [] then (0, d) else mark_where (\<lambda>r. ues_user r = u \<and> ues_entry r \<in> set ids) now d)"

definition mark_all_entries_read :: "db \<Rightarrow> int \<Rightarrow> time \<Rightarrow> nat \<times> db" where
  "mark_all_entries_read d u now = mark_where (\<lambda>r. ues_user r = u) now d"

definition mark_feed_read_before :: "db \<Rightarrow> int \<Rightarrow> int \<Rightarrow> time \<Rightarrow> time \<Rightarrow> nat \<times> db" where
  "mark_feed_read_before d u f before now =
     (let hit = (\<lambda>r. ues_user r = u \<and> ues_feed r = f \<and> ues_read r = None
            \<and> (before \<le> 0 \<or> ues_pub r \<le> before));
          affected = count_where hit (states d);
          d1 = d\<lparr>states := upd_where hit (\<lambda>r. r\<lparr>ues_read := Some now\<rparr>) (states d)\<rparr>
      in (affected, if affected > 0 then refresh_unread_count f d1 else d1))"

section \<open>The invariant up to the counts of some feeds\<close>

text \<open>
  Inside a transaction the cached counts of the feeds it touches may be out of date.
  \<open>db_ok_but F\<close> is the invariant with the counts of the feeds in F left open; a recount
  closes one feed.
\<close>

definition db_ok_but :: "int set \<Rightarrow> db \<Rightarrow> bool" where
  "db_ok_but F d \<longleftrightarrow> users_ok (users d) \<and> admin_ok (users d) \<and> creds_ok d \<and> folders_ok d \<and>
     feeds_ok d \<and> entries_ok d \<and> subs_ok d \<and> states_ok d \<and> fan_out_ok d \<and> pins_ok d \<and>
     ignores_ok d \<and> extras_ok d \<and>
     (\<forall>s \<in> set (subs d). sub_feed s \<notin> F \<longrightarrow> sub_unread s = unread_of d (sub_user s) (sub_feed s))"

lemma db_ok_but_empty: "db_ok_but {} d = db_ok d"
  by (auto simp: db_ok_but_def db_ok_def counts_ok_def)

lemma db_ok_but_mono: "db_ok_but F d \<Longrightarrow> F \<subseteq> G \<Longrightarrow> db_ok_but G d"
  by (auto simp: db_ok_but_def)

lemma db_ok_imp_but: "db_ok d \<Longrightarrow> db_ok_but F d"
  using db_ok_but_mono [of "{}" d F] by (simp add: db_ok_but_empty)

lemma refresh_but:
  assumes "db_ok_but F d"
  shows "db_ok_but (F - {f}) (refresh_unread_count f d)"
proof -
  have "unread_of (refresh_unread_count f d) u x = unread_of d u x" for u x
    by (simp add: unread_of_def)
  then show ?thesis
    using assms
    by (auto simp: db_ok_but_def refresh_parts refresh_other_parts refresh_subs upd_where_def)
qed

lemma fold_refresh_but:
  "db_ok_but F d \<Longrightarrow> db_ok_but (F - set fs) (fold refresh_unread_count fs d)"
proof (induction fs arbitrary: F d)
  case (Cons f fs)
  have "db_ok_but (F - {f} - set fs) (fold refresh_unread_count fs (refresh_unread_count f d))"
    by (rule Cons.IH) (rule refresh_but, rule Cons.prems)
  then show ?case by (simp add: Diff_insert2 [symmetric])
qed simp

lemma marked_but:
  assumes ok: "db_ok d" and g: "same_state g"
    and F: "\<And>r. r \<in> set (states d) \<Longrightarrow> Q r \<Longrightarrow> ues_feed r \<in> F"
  shows "db_ok_but F (d\<lparr>states := upd_where Q g (states d)\<rparr>)"
proof -
  let ?h = "\<lambda>s. s\<lparr>sub_unread := count_where (counted (sub_user s) (sub_feed s)) (upd_where Q g (states d))\<rparr>"
  let ?d = "d\<lparr>states := upd_where Q g (states d), subs := upd_where (\<lambda>s. sub_feed s \<in> F) ?h (subs d)\<rparr>"
  have 1: "db_ok ?d"
    by (rule states_marked_ok [OF ok g]) (metis F, rule refl)
  have "subs_ok (d\<lparr>states := upd_where Q g (states d)\<rparr>)"
    using db_ok_subs [OF ok] by (simp add: subs_ok_def)
  moreover have "fan_out_ok (d\<lparr>states := upd_where Q g (states d)\<rparr>)"
    using db_ok_fan_out [OF 1] unfolding fan_out_keys by (simp add: image_upd_where)
  moreover have "sub_unread s = unread_of (d\<lparr>states := upd_where Q g (states d)\<rparr>) (sub_user s) (sub_feed s)"
    if "s \<in> set (subs d)" "sub_feed s \<notin> F" for s
  proof -
    have "s \<in> set (subs ?d)" using that by (auto simp: set_upd_where)
    then show ?thesis using counts_at [OF 1] by (simp add: unread_of_def)
  qed
  ultimately show ?thesis
    using 1 by (auto simp: db_ok_but_def db_ok_def creds_ok_def folders_ok_def feeds_ok_def
        entries_ok_def states_ok_def pins_ok_def ignores_ok_def extras_ok_def)
qed

lemma mark_where_ok: "db_ok d \<Longrightarrow> db_ok (snd (mark_where target now d))"
proof -
  assume ok: "db_ok d"
  let ?hit = "\<lambda>r. target r \<and> ues_read r = None"
  let ?fs = "remdups (map ues_feed (filter ?hit (states d)))"
  have "db_ok_but (set ?fs) (d\<lparr>states := upd_where ?hit (\<lambda>r. r\<lparr>ues_read := Some now\<rparr>) (states d)\<rparr>)"
    by (rule marked_but [OF ok]) auto
  then have "db_ok_but (set ?fs - set ?fs) (fold refresh_unread_count ?fs
      (d\<lparr>states := upd_where ?hit (\<lambda>r. r\<lparr>ues_read := Some now\<rparr>) (states d)\<rparr>))"
    by (rule fold_refresh_but)
  then show ?thesis by (simp add: mark_where_def Let_def db_ok_but_empty)
qed

lemma mark_entries_read_ok: "db_ok d \<Longrightarrow> db_ok (snd (mark_entries_read d u ids now))"
  and mark_all_entries_read_ok: "db_ok d \<Longrightarrow> db_ok (snd (mark_all_entries_read d u now))"
  by (simp_all add: mark_entries_read_def mark_all_entries_read_def mark_where_ok)

lemma upd_where_none: "(\<And>r. r \<in> set rs \<Longrightarrow> \<not> P r) \<Longrightarrow> upd_where P f rs = rs"
  by (auto simp: upd_where_def intro: map_idI)

lemma mark_feed_read_before_ok:
  assumes ok: "db_ok d"
  shows "db_ok (snd (mark_feed_read_before d u f before now))"
proof -
  let ?hit = "\<lambda>r. ues_user r = u \<and> ues_feed r = f \<and> ues_read r = None \<and> (before \<le> 0 \<or> ues_pub r \<le> before)"
  let ?d = "d\<lparr>states := upd_where ?hit (\<lambda>r. r\<lparr>ues_read := Some now\<rparr>) (states d)\<rparr>"
  have "db_ok_but {f} ?d"
    by (rule marked_but [OF ok]) auto
  then have "db_ok_but ({f} - {f}) (refresh_unread_count f ?d)" by (rule refresh_but)
  moreover have "?d = d" if "count_where ?hit (states d) = 0"
    using that by (simp add: count_where_0_iff upd_where_none)
  ultimately show ?thesis
    using ok by (auto simp: mark_feed_read_before_def Let_def db_ok_but_empty)
qed

section \<open>Writing keeps the invariant\<close>

lemma entry_update_but:
  \<comment> \<open>an update of entry columns nothing else copies\<close>
  assumes "db_ok_but F d"
    "\<And>x. ent_id (g x) = ent_id x \<and> ent_feed (g x) = ent_feed x \<and> ent_guid (g x) = ent_guid x
       \<and> ent_pub (g x) = ent_pub x \<and> ent_created (g x) = ent_created x"
  shows "db_ok_but F (d\<lparr>entries := upd_where P g (entries d)\<rparr>)"
proof -
  let ?d = "d\<lparr>entries := upd_where P g (entries d)\<rparr>"
  note ok = assms(1) [unfolded db_ok_but_def]
  have "entries_ok ?d"
    using ok assms(2) by (simp add: entries_ok_def map_upd_where fk_upd_where)
  moreover have "states_ok ?d"
  proof -
    have "\<exists>e \<in> set (entries ?d). mirrors r e" if r: "r \<in> set (states d)" for r
    proof -
      obtain e where "e \<in> set (entries d)" "mirrors r e" using ok r by (auto simp: states_ok_def)
      then show ?thesis
        using assms(2) by (intro bexI [of _ "if P e then g e else e"]) (auto simp: mirrors_def set_upd_where)
    qed
    then show ?thesis using ok by (simp add: states_ok_def)
  qed
  moreover have "fan_out_ok ?d"
    using ok assms(2) by (simp add: fan_out_ok_def ball_upd_where)
  ultimately show ?thesis
    using ok assms(2) by (simp add: db_ok_but_def creds_ok_def folders_ok_def feeds_ok_def subs_ok_def
        pins_ok_def ignores_ok_def extras_ok_def unread_of_def image_upd_where)
qed

lemma fan_out_entry_rows:
  assumes x: "ent_feed x = f"
  shows "r \<in> set (fan_out_entry d f read x) \<longleftrightarrow>
      (\<exists>s \<in> set (subs d). sub_feed s = f \<and> r = fresh_state d (sub_user s) read x)"
    and "distinct (map (\<lambda>s. (sub_user s, sub_feed s)) (subs d)) \<Longrightarrow>
      distinct (map (\<lambda>r. (ues_user r, ues_entry r)) (fan_out_entry d f read x))"
  by (auto simp: fan_out_entry_def comp_def distinct_map inj_on_def)

lemma insert_entry_but:
  fixes now :: time and read :: "time option"
  assumes ok: "db_ok_but F d" and f: "f \<in> F" "f \<in> feed_ids d"
    and new: "\<not> list_ex (\<lambda>y. ent_feed y = f \<and> ent_guid y = in_guid e) (entries d)"
  defines "x \<equiv> new_entry d f now e"
  defines "d1 \<equiv> d\<lparr>entries := entries d @ [x]\<rparr>"
  shows "db_ok_but F (d1\<lparr>states := states d1 @ fan_out_entry d1 f read x\<rparr>)"
proof -
  let ?rows = "fan_out_entry d1 f read x"
  let ?d = "d1\<lparr>states := states d1 @ ?rows\<rparr>"
  note ok' = ok [unfolded db_ok_but_def]
  have sd: "states d1 = states d" "subs d1 = subs d" "entries d1 = entries d @ [x]"
    "feeds d1 = feeds d" by (simp_all add: d1_def)
  have x: "ent_feed x = f" "ent_id x \<notin> ent_id ` set (entries d)" "ent_guid x = in_guid e"
    using next_id_notin [of ent_id "entries d"] by (simp_all add: x_def new_entry_def)
  note rows = fan_out_entry_rows [OF x(1), where d = d1 and read = read]
  have old: "ues_entry r \<in> ent_id ` set (entries d)" if r: "r \<in> set (states d)" for r
  proof -
    obtain y where "y \<in> set (entries d)" "mirrors r y" using ok' r by (auto simp: states_ok_def)
    then show ?thesis by (metis mirrors_def imageI)
  qed
  have "entries_ok ?d"
    using ok' x f new by (auto simp: entries_ok_def sd list_ex_iff)
  moreover have "states_ok ?d"
    unfolding states_ok_def
  proof (intro conjI ballI)
    have "distinct (map (\<lambda>r. (ues_user r, ues_entry r)) ?rows)"
      using rows(2) ok' by (simp add: sd subs_ok_def)
    moreover have "(ues_user r, ues_entry r) \<noteq> (ues_user q, ues_entry q)"
      if "r \<in> set (states d)" "q \<in> set ?rows" for r q
      using that old [of r] x(2) by (auto simp: rows)
    ultimately show "distinct (map (\<lambda>r. (ues_user r, ues_entry r)) (states ?d))"
      using ok' by (auto simp: states_ok_def sd)
  next
    fix r
    assume "r \<in> set (states ?d)"
    then consider "r \<in> set (states d)" | "mirrors r x" by (auto simp: sd rows)
    then show "\<exists>e \<in> set (entries ?d). mirrors r e"
      using ok' by cases (auto simp: sd states_ok_def)
  qed
  moreover have "fan_out_ok ?d"
    unfolding fan_out_ok_def
  proof (intro conjI ballI impI)
    fix r
    assume "r \<in> set (states ?d)"
    then show "\<exists>s \<in> set (subs ?d). sub_user s = ues_user r \<and> sub_feed s = ues_feed r"
      using ok' x(1) by (auto simp: sd rows fan_out_ok_def)
  next
    fix s y
    assume s: "s \<in> set (subs ?d)" and y: "y \<in> set (entries ?d)" "ent_feed y = sub_feed s"
    show "\<exists>r \<in> set (states ?d). ues_user r = sub_user s \<and> ues_entry r = ent_id y"
    proof (cases "y = x")
      case True
      then have "fresh_state d1 (sub_user s) read x \<in> set ?rows"
        unfolding rows using s y x(1) by (auto simp: sd)
      then show ?thesis using True
        by (intro bexI [of _ "fresh_state d1 (sub_user s) read x"]) simp_all
    next
      case False
      then have "\<exists>r \<in> set (states d). ues_user r = sub_user s \<and> ues_entry r = ent_id y"
        using ok' s y unfolding fan_out_ok_def by (simp add: sd)
      then show ?thesis by (auto simp: sd)
    qed
  qed
  moreover have "sub_unread s = unread_of ?d (sub_user s) (sub_feed s)"
    if s: "s \<in> set (subs d)" "sub_feed s \<notin> F" for s
  proof -
    have "count_where (counted (sub_user s) (sub_feed s)) ?rows = 0"
      unfolding count_where_0_iff
    proof
      fix r
      assume "r \<in> set ?rows"
      then have "ues_feed r = f" using x(1) unfolding rows by auto
      then show "\<not> counted (sub_user s) (sub_feed s) r" using s f(1) by (auto simp: counted_def)
    qed
    then show ?thesis using ok' s by (simp add: unread_of_def count_where_append sd)
  qed
  ultimately show ?thesis
    using ok' by (simp add: db_ok_but_def creds_ok_def folders_ok_def feeds_ok_def subs_ok_def
        pins_ok_def ignores_ok_def extras_ok_def d1_def)
      (auto intro: fk_mono)
qed

lemma upsert_entry_but:
  assumes "db_ok_but F d" "upsert_entry first f now e d = Inr (fresh, d')" "fresh \<Longrightarrow> f \<in> F"
  shows "db_ok_but F d'"
  using assms by (auto simp: upsert_entry_def Let_def split: if_splits
      intro!: insert_entry_but [simplified] entry_update_but)

lemma upsert_loop_ok:
  \<comment> \<open>only an inserted row can make a cached count stale\<close>
  "db_ok_but (if n > 0 then {f} else {}) d \<Longrightarrow> upsert_loop first f now es n d = Inr (m, d')
   \<Longrightarrow> db_ok_but (if m > 0 then {f} else {}) d'"
proof (induction es arbitrary: n d)
  case (Cons e es)
  obtain fresh d1 where step: "upsert_entry first f now e d = Inr (fresh, d1)"
    and rest: "upsert_loop first f now es (if fresh then n + 1 else n) d1 = Inr (m, d')"
    using Cons.prems(2) by (auto split: sum.splits)
  have "db_ok_but (if (if fresh then n + 1 else n) > 0 then {f} else {}) d"
    by (rule db_ok_but_mono [OF Cons.prems(1)]) auto
  then have "db_ok_but (if (if fresh then n + 1 else n) > 0 then {f} else {}) d1"
    by (rule upsert_entry_but [OF _ step]) auto
  then show ?case by (rule Cons.IH [OF _ rest])
qed simp

lemma upsert_entries_ok:
  assumes "db_ok d" "upsert_entries d f es now = Inr (n, d')"
  shows "db_ok d'"
proof (cases "es = []")
  case False
  then obtain d1 where loop: "upsert_loop (first_date_missing es) f now es 0 d = Inr (n, d1)"
    and d': "d' = (if n > 0 then refresh_unread_count f d1 else d1)"
    using assms(2) by (auto simp: upsert_entries_def split: sum.splits)
  have "db_ok_but (if n > 0 then {f} else {}) d1"
    by (rule upsert_loop_ok [OF _ loop]) (simp add: db_ok_but_empty assms(1))
  then show ?thesis
    using refresh_but [of "{f}" d1 f] by (auto simp: d' db_ok_but_empty split: if_splits)
qed (use assms in \<open>simp add: upsert_entries_def\<close>)

section \<open>Pages partition the list\<close>

lemma entries_join_eq:
  "entries_join d u = concat (map (\<lambda>e. map (Pair e) (filter (\<lambda>r. ues_entry r = ent_id e
     \<and> ues_user r = u \<and> \<not> ues_ignored r) (states d))) (entries d))"
  by (simp add: entries_join_def concat_if_filter)

lemma entries_join_distinct:
  assumes "db_ok d"
  shows "distinct (map (ent_id \<circ> fst) (entries_join d u))"
  unfolding entries_join_eq
proof (rule distinct_join [where k = ent_id])
  show "distinct (map ent_id (entries d))" using db_ok_entries [OF assms] by (simp add: entries_ok_def)
  show "length (map (Pair e) (filter (\<lambda>r. ues_entry r = ent_id e \<and> ues_user r = u \<and> \<not> ues_ignored r)
      (states d))) \<le> 1" for e
    unfolding length_map
    by (rule filter_unique [where key = "\<lambda>r. (ues_user r, ues_entry r)"])
      (use db_ok_states [OF assms] in \<open>auto simp: states_ok_def\<close>)
qed auto

lemma cursor_of_row: "cursor_of (row_of d u e r) = EntryCursor (ent_pub e) (ent_id e)"
  by (simp add: cursor_of_def row_of_def)

lemma distinct_cursors:
  "distinct (map er_id xs) \<Longrightarrow> distinct (map cursor_of xs)"
  by (auto simp: distinct_map inj_on_def cursor_of_def)

lemma er_id_row: "er_id (row_of d u e r) = ent_id e"
  by (simp add: row_of_def)

definition list_rows :: "db \<Rightarrow> int \<Rightarrow> int \<Rightarrow> bool \<Rightarrow> entry_row list" where
  \<comment> \<open>the rows of list_entries before the cursor, the order and the limit\<close>
  "list_rows d u f unread_only = map (\<lambda>(e, r). row_of d u e r)
       (filter (\<lambda>(e, r). ent_feed e = f \<and> (unread_only \<longrightarrow> ues_read r = None)) (entries_join d u))"

definition group_rows :: "db \<Rightarrow> int \<Rightarrow> (subscription \<Rightarrow> entry \<Rightarrow> bool) \<Rightarrow> bool \<Rightarrow> entry_row list" where
  "group_rows d u sub_where unread_only = [row_of d u e r. (e, r) \<leftarrow> entries_join d u, s \<leftarrow> subs d,
       sub_feed s = ent_feed e \<and> sub_user s = u \<and> sub_where s e \<and> (unread_only \<longrightarrow> ues_read r = None)]"

lemma list_entries_page: "list_entries d u f b n c = page n c (list_rows d u f b)"
  by (simp add: list_entries_def list_rows_def)

lemma list_group_entries_page: "list_group_entries d u w b n c = page n c (group_rows d u w b)"
  by (simp add: list_group_entries_def group_rows_def)

lemma list_rows_distinct:
  assumes "db_ok d"
  shows "distinct (map er_id (list_rows d u f b))"
proof -
  have "map er_id (list_rows d u f b) = map (ent_id \<circ> fst)
      (filter (\<lambda>(e, r). ent_feed e = f \<and> (b \<longrightarrow> ues_read r = None)) (entries_join d u))"
    by (simp add: list_rows_def er_id_row case_prod_beta)
  then show ?thesis using entries_join_distinct [OF assms] by (simp only: distinct_map_filter)
qed

lemma group_rows_distinct:
  assumes "db_ok d"
  shows "distinct (map er_id (group_rows d u w b))"
proof -
  have "group_rows d u w b = concat (map (\<lambda>(e, r). map (\<lambda>s. row_of d u e r)
      (filter (\<lambda>s. sub_feed s = ent_feed e \<and> sub_user s = u \<and> w s e \<and> (b \<longrightarrow> ues_read r = None))
        (subs d))) (entries_join d u))"
    by (simp add: group_rows_def concat_if_filter case_prod_beta)
  moreover have "distinct (map er_id \<dots>)"
  proof (rule distinct_join [where k = "ent_id \<circ> fst"])
    fix x
    show "length (case x of (e, r) \<Rightarrow> map (\<lambda>s. row_of d u e r)
      (filter (\<lambda>s. sub_feed s = ent_feed e \<and> sub_user s = u \<and> w s e \<and> (b \<longrightarrow> ues_read r = None))
        (subs d))) \<le> 1"
      unfolding case_prod_beta length_map
      by (rule filter_unique [where key = "\<lambda>s. (sub_user s, sub_feed s)"])
        (use db_ok_subs [OF assms] in \<open>auto simp: subs_ok_def\<close>)
  qed (use entries_join_distinct [OF assms] in \<open>auto simp: er_id_row\<close>)
  ultimately show ?thesis by simp
qed

lemma sorted_cut:
  \<comment> \<open>in a list strictly sorted by key, the elements after y are those with a larger key\<close>
  assumes "sorted (map key (as @ y # bs))" "distinct (map key (as @ y # bs))"
  shows "filter (\<lambda>x. key y < key x) (as @ y # bs) = bs"
proof -
  have "\<not> key y < key x" if "x \<in> set as" for x
    using assms(1) that by (auto simp: sorted_append not_less)
  moreover have "key y < key x" if "x \<in> set bs" for x
    using assms that by (auto simp: sorted_append less_le)
  ultimately show ?thesis by (simp add: filter_empty_conv filter_id_conv)
qed

lemma page_resume:
  assumes "distinct (map er_id xs)" "page (- 1) None xs = as @ y # bs"
  shows "page n (Some (cursor_of y)) xs = sql_limit n bs"
proof -
  let ?L = "sort_key cursor_of xs"
  have L: "?L = as @ y # bs" using assms(2) by (simp add: page_def sql_limit_def)
  have "distinct (map cursor_of ?L)"
    using distinct_cursors [OF assms(1)] by (simp add: distinct_map)
  moreover have "sorted (map cursor_of ?L)" by simp
  ultimately have "filter (\<lambda>x. cursor_of y < cursor_of x) ?L = bs"
    unfolding L by (intro sorted_cut)
  then show ?thesis by (simp add: page_def filter_sort)
qed

lemma page_first: "0 \<le> n \<Longrightarrow> page n None xs = take (nat n) (page (- 1) None xs)"
  by (simp add: page_def sql_limit_def)

lemma set_page_all: "set (page (- 1) None xs) = set xs"
  by (simp add: page_def sql_limit_def)

end
