(* ===== verification/StoreFeeds.thy ===== *)
theory StoreFeeds
  imports StoreEntries
begin

text \<open>
  \<open>internal/store/feeds.go\<close>, \<open>gc.go\<close>, \<open>scrape_sources.go\<close>, \<open>feed_fulltext.go\<close>,
  \<open>feed_boilerplate.go\<close> and \<open>stats.go\<close>: the shared feeds, the crawl schedule kept in their
  rows, garbage collection with its cascades, and the per-feed scrape and fulltext rows.
  The random jitter of \<open>UpsertFeed\<close> and Go's \<open>%q\<close> quoting are arguments.
\<close>

section \<open>Feeds\<close>

definition default_interval :: "int \<Rightarrow> int" where
  "default_interval n = (if n \<le> 0 then 1800 else n)"

definition upsert_feed ::
    "db \<Rightarrow> string \<Rightarrow> string \<Rightarrow> string \<Rightarrow> int \<Rightarrow> int \<Rightarrow> time \<Rightarrow> int \<times> db" where
  "upsert_feed d url site title interval jitter now =
     (let interval = default_interval interval in
      case find (\<lambda>f. fd_url f = url) (feeds d) of
        Some f \<Rightarrow> (fd_id f, d\<lparr>feeds := upd_where (\<lambda>f. fd_url f = url)
          (\<lambda>f. f\<lparr>fd_site := (if site \<noteq> [] then Some site else fd_site f),
                fd_title := (if fd_title f = [] then title else fd_title f),
                fd_updated := now\<rparr>) (feeds d)\<rparr>)
      | None \<Rightarrow>
          let i = next_id fd_id (feeds d) in
          (i, d\<lparr>feeds := feeds d @ [\<lparr>fd_id = i, fd_url = url, fd_site = Some site, fd_title = title,
             fd_desc = [], fd_favicon = None, fd_etag = None, fd_lastmod = None, fd_hash = None,
             fd_interval = interval, fd_next = now + jitter, fd_fetched = None, fd_success = None,
             fd_status = None, fd_errors = 0, fd_lasterr = None, fd_created = now,
             fd_updated = now\<rparr>]\<rparr>))"

definition get_feed :: "db \<Rightarrow> int \<Rightarrow> store_error + feed" where
  "get_feed d i = (case find (\<lambda>f. fd_id f = i) (feeds d) of None \<Rightarrow> Inl ErrNotFound | Some f \<Rightarrow> Inr f)"

definition list_feeds :: "db \<Rightarrow> feed list" where
  "list_feeds d = sort_key fd_id (feeds d)"

definition due :: "db \<Rightarrow> time \<Rightarrow> feed \<Rightarrow> bool" where
  "due d now f \<longleftrightarrow> fd_next f \<le> now \<and> fd_errors f < 20 \<and> list_ex (\<lambda>s. sub_feed s = fd_id f) (subs d)"

definition list_due_feeds :: "db \<Rightarrow> time \<Rightarrow> int \<Rightarrow> feed list" where
  "list_due_feeds d now limit = sql_limit limit (sort_key fd_next (filter (due d now) (feeds d)))"

definition claim_due_feeds :: "db \<Rightarrow> time \<Rightarrow> int \<Rightarrow> feed list \<times> db" where
  "claim_due_feeds d now limit =
     (let ids = map fd_id (sql_limit limit (sort_key fd_next (filter (due d now) (feeds d))));
          claim = (\<lambda>f. f\<lparr>fd_next := now + fd_interval f\<rparr>)
      in (map claim (filter (\<lambda>f. fd_id f \<in> set ids) (feeds d)),
          d\<lparr>feeds := upd_where (\<lambda>f. fd_id f \<in> set ids) claim (feeds d)\<rparr>))"

record feed_update =
  fu_title :: string
  fu_site :: string
  fu_url :: "string option"
  fu_etag :: "string option"
  fu_lastmod :: "string option"
  fu_hash :: "string option"
  fu_interval :: int
  fu_next :: time
  fu_status :: int
  fu_success :: bool
  fu_gone :: bool
  fu_lasterr :: "string option"

definition coalesce :: "'a option \<Rightarrow> 'a option \<Rightarrow> 'a option" where
  "coalesce a b = (case a of None \<Rightarrow> b | Some x \<Rightarrow> Some x)"

definition apply_fetch :: "feed_update \<Rightarrow> time \<Rightarrow> feed \<Rightarrow> feed" where
  "apply_fetch u now f = f\<lparr>
     fd_title := (if fd_title f = [] then fu_title u else fd_title f),
     fd_site := (if fd_site f = None \<or> fd_site f = Some []
                 then (if fu_site u = [] then None else Some (fu_site u)) else fd_site f),
     fd_url := (case fu_url u of None \<Rightarrow> fd_url f | Some x \<Rightarrow> x),
     fd_etag := coalesce (fu_etag u) (fd_etag f),
     fd_lastmod := coalesce (fu_lastmod u) (fd_lastmod f),
     fd_hash := coalesce (fu_hash u) (fd_hash f),
     fd_interval := fu_interval u,
     fd_next := fu_next u,
     fd_fetched := Some now,
     fd_success := (if \<not> fu_gone u \<and> fu_success u then Some now else fd_success f),
     fd_status := Some (fu_status u),
     fd_errors := (if fu_gone u then 20 else if fu_success u then 0 else fd_errors f + 1),
     fd_lasterr := fu_lasterr u,
     fd_updated := now\<rparr>"

definition exec_update_feed :: "db \<Rightarrow> int \<Rightarrow> feed_update \<Rightarrow> time \<Rightarrow> store_error + db" where
  "exec_update_feed d i u now =
     (if list_ex (\<lambda>f. fd_id f = i) (feeds d) \<and>
         list_ex (\<lambda>f. fd_id f \<noteq> i \<and> Some (fd_url f) = fu_url u) (feeds d)
      then Inl ErrConstraint
      else Inr (d\<lparr>feeds := upd_where (\<lambda>f. fd_id f = i) (apply_fetch u now) (feeds d)\<rparr>))"

definition conflict_message :: "(string \<Rightarrow> string) \<Rightarrow> string \<Rightarrow> string" where
  "conflict_message quote url = ''permanent redirect target '' @ quote url
     @ '' already used by another feed; feed_url left unchanged''"

definition update_feed_after_fetch ::
    "(string \<Rightarrow> string) \<Rightarrow> db \<Rightarrow> int \<Rightarrow> feed_update \<Rightarrow> time \<Rightarrow> store_error + db" where
  "update_feed_after_fetch quote d i u now =
     (case (exec_update_feed d i u now, fu_url u) of
        (Inl ErrConstraint, Some url) \<Rightarrow>
          exec_update_feed d i
            (u\<lparr>fu_url := None, fu_lasterr := Some (conflict_message quote url)\<rparr>) now
      | (res, _) \<Rightarrow> res)"

section \<open>Garbage collection\<close>

definition delete_entries_and_refresh :: "(entry \<Rightarrow> bool) \<Rightarrow> db \<Rightarrow> nat \<times> db" where
  \<comment> \<open>DELETE FROM entries ... RETURNING feed_id, with its cascades, then the recounts\<close>
  "delete_entries_and_refresh P d =
     (let gone = filter P (entries d); ids = map ent_id gone;
          d1 = d\<lparr>entries := del_where P (entries d),
                 states := del_where (\<lambda>r. ues_entry r \<in> set ids) (states d),
                 pins := del_where (\<lambda>p. pin_entry p \<in> set ids) (pins d)\<rparr>
      in (length gone, fold refresh_unread_count (remdups (map ent_feed gone)) d1))"

definition old_and_read :: "db \<Rightarrow> time \<Rightarrow> entry \<Rightarrow> bool" where
  "old_and_read d before e \<longleftrightarrow> ent_fetched e < before
     \<and> \<not> list_ex (\<lambda>r. ues_entry r = ent_id e \<and> ues_read r = None) (states d)
     \<and> \<not> list_ex (\<lambda>p. pin_entry p = ent_id e) (pins d)"

definition delete_old_read_entries :: "db \<Rightarrow> time \<Rightarrow> nat \<times> db" where
  "delete_old_read_entries d before = delete_entries_and_refresh (old_and_read d before) d"

definition entry_key :: "entry \<Rightarrow> entry_cursor" where
  "entry_key e = EntryCursor (ent_pub e) (ent_id e)"

definition row_number :: "db \<Rightarrow> entry \<Rightarrow> nat" where
  \<comment> \<open>ROW_NUMBER() OVER (PARTITION BY feed_id ORDER BY published_at DESC, id DESC)\<close>
  "row_number d e =
     count_where (\<lambda>x. ent_feed x = ent_feed e \<and> entry_key x < entry_key e) (entries d) + 1"

definition trim_excess_entries :: "db \<Rightarrow> int \<Rightarrow> nat \<times> db" where
  "trim_excess_entries d limit =
     delete_entries_and_refresh
       (\<lambda>e. int (row_number d e) > limit \<and> \<not> list_ex (\<lambda>p. pin_entry p = ent_id e) (pins d)) d"

definition orphan :: "db \<Rightarrow> time \<Rightarrow> feed \<Rightarrow> bool" where
  "orphan d before f \<longleftrightarrow> \<not> list_ex (\<lambda>s. sub_feed s = fd_id f) (subs d)
     \<and> (case fd_fetched f of None \<Rightarrow> fd_created f | Some t \<Rightarrow> t) < before"

definition delete_orphan_feeds :: "db \<Rightarrow> time \<Rightarrow> nat \<times> db" where
  "delete_orphan_feeds d before =
     (let gone = map fd_id (filter (orphan d before) (feeds d));
          ents = map ent_id (filter (\<lambda>e. ent_feed e \<in> set gone) (entries d))
      in (length gone,
          d\<lparr>feeds := del_where (\<lambda>f. fd_id f \<in> set gone) (feeds d),
            subs := del_where (\<lambda>s. sub_feed s \<in> set gone) (subs d),
            entries := del_where (\<lambda>e. ent_feed e \<in> set gone) (entries d),
            states := del_where (\<lambda>r. ues_entry r \<in> set ents) (states d),
            pins := del_where (\<lambda>p. pin_entry p \<in> set ents) (pins d),
            scrapes := del_where (\<lambda>s. scr_feed s \<in> set gone) (scrapes d),
            fulltexts := del_where (\<lambda>x. ff_feed x \<in> set gone) (fulltexts d),
            boilers := del_where (\<lambda>x. fb_feed x \<in> set gone) (boilers d)\<rparr>))"

section \<open>Scrape sources, fulltext and boilerplate rows\<close>

definition create_scrape_source ::
    "db \<Rightarrow> int \<Rightarrow> int \<Rightarrow> string \<Rightarrow> string \<Rightarrow> string \<Rightarrow> time \<Rightarrow> store_error + (int \<times> db)" where
  "create_scrape_source d creator f kind target config now =
     (if f \<notin> feed_ids d \<or> f \<in> scr_feed ` set (scrapes d) then Inl ErrConstraint
      else
        let i = next_id scr_id (scrapes d) in
        Inr (i, d\<lparr>scrapes := scrapes d @ [\<lparr>scr_id = i, scr_feed = f, scr_kind = kind,
          scr_target = target, scr_config = (if config = [] then ''{}'' else config),
          scr_state = None, scr_creator = creator, scr_created = now, scr_updated = now\<rparr>]\<rparr>))"

definition count_scrape_sources :: "db \<Rightarrow> int \<Rightarrow> nat" where
  "count_scrape_sources d u = count_where (\<lambda>s. scr_creator s = u) (scrapes d)"

definition get_scrape_source :: "db \<Rightarrow> int \<Rightarrow> store_error + scrape_source" where
  "get_scrape_source d i =
     (case find (\<lambda>s. scr_id s = i) (scrapes d) of None \<Rightarrow> Inl ErrNotFound | Some s \<Rightarrow> Inr s)"

definition get_scrape_source_by_feed :: "db \<Rightarrow> int \<Rightarrow> store_error + scrape_source" where
  "get_scrape_source_by_feed d f =
     (case find (\<lambda>s. scr_feed s = f) (scrapes d) of None \<Rightarrow> Inl ErrNotFound | Some s \<Rightarrow> Inr s)"

definition list_scrape_sources :: "db \<Rightarrow> scrape_source list" where
  "list_scrape_sources d = sort_key scr_id (scrapes d)"

definition update_scrapes ::
    "(scrape_source \<Rightarrow> bool) \<Rightarrow> (scrape_source \<Rightarrow> scrape_source) \<Rightarrow> db \<Rightarrow> store_error + db" where
  \<comment> \<open>UPDATE scrape_sources ... WHERE P, and ErrNotFound when no row matched\<close>
  "update_scrapes P f d =
     (if count_where P (scrapes d) = 0 then Inl ErrNotFound
      else Inr (d\<lparr>scrapes := upd_where P f (scrapes d)\<rparr>))"

definition update_scrape_source_config :: "db \<Rightarrow> int \<Rightarrow> string \<Rightarrow> time \<Rightarrow> store_error + db" where
  "update_scrape_source_config d i config now =
     update_scrapes (\<lambda>s. scr_id s = i) (\<lambda>s. s\<lparr>scr_config := config, scr_updated := now\<rparr>) d"

definition update_scrape_source_target :: "db \<Rightarrow> int \<Rightarrow> string \<Rightarrow> time \<Rightarrow> store_error + db" where
  "update_scrape_source_target d f url now =
     update_scrapes (\<lambda>s. scr_feed s = f) (\<lambda>s. s\<lparr>scr_target := url, scr_updated := now\<rparr>) d"

definition update_scrape_source_state :: "db \<Rightarrow> int \<Rightarrow> string \<Rightarrow> time \<Rightarrow> store_error + db" where
  "update_scrape_source_state d f st now =
     update_scrapes (\<lambda>s. scr_feed s = f) (\<lambda>s. s\<lparr>scr_state := Some st, scr_updated := now\<rparr>) d"

definition enable_feed_fulltext :: "db \<Rightarrow> int \<Rightarrow> int \<Rightarrow> time \<Rightarrow> store_error + db" where
  "enable_feed_fulltext d f creator now =
     (if list_ex (\<lambda>x. ff_feed x = f) (fulltexts d) then Inr d
      else if f \<notin> feed_ids d \<or> creator \<notin> user_ids d then Inl ErrConstraint
      else Inr (d\<lparr>fulltexts := fulltexts d @ [\<lparr>ff_feed = f, ff_creator = creator, ff_created = now\<rparr>]\<rparr>))"

definition disable_feed_fulltext :: "db \<Rightarrow> int \<Rightarrow> db" where
  "disable_feed_fulltext d f =
     d\<lparr>fulltexts := del_where (\<lambda>x. ff_feed x = f) (fulltexts d),
       boilers := del_where (\<lambda>x. fb_feed x = f) (boilers d)\<rparr>"

definition get_feed_fulltext :: "db \<Rightarrow> int \<Rightarrow> store_error + feed_fulltext" where
  "get_feed_fulltext d f =
     (case find (\<lambda>x. ff_feed x = f) (fulltexts d) of None \<Rightarrow> Inl ErrNotFound | Some x \<Rightarrow> Inr x)"

definition get_feed_boilerplate :: "db \<Rightarrow> int \<Rightarrow> store_error + string" where
  "get_feed_boilerplate d f =
     (case find (\<lambda>x. fb_feed x = f) (boilers d) of
        None \<Rightarrow> Inl ErrNotFound | Some x \<Rightarrow> Inr (fb_state x))"

definition put_feed_boilerplate :: "db \<Rightarrow> int \<Rightarrow> string \<Rightarrow> time \<Rightarrow> store_error + db" where
  "put_feed_boilerplate d f st now =
     (if list_ex (\<lambda>x. fb_feed x = f) (boilers d) then
        Inr (d\<lparr>boilers := upd_where (\<lambda>x. fb_feed x = f)
               (\<lambda>x. x\<lparr>fb_state := st, fb_updated := now\<rparr>) (boilers d)\<rparr>)
      else if f \<notin> feed_ids d then Inl ErrConstraint
      else Inr (d\<lparr>boilers := boilers d @ [\<lparr>fb_feed = f, fb_state = st, fb_updated = now\<rparr>]\<rparr>))"

definition delete_feed_boilerplate :: "db \<Rightarrow> int \<Rightarrow> db" where
  "delete_feed_boilerplate d f = d\<lparr>boilers := del_where (\<lambda>x. fb_feed x = f) (boilers d)\<rparr>"

section \<open>Stats\<close>

record stats =
  st_feeds :: nat
  st_erroring :: nat
  st_unread :: nat
  st_queue :: nat
  st_size :: int
  st_erroring_feeds :: "sub_view list"

definition get_stats :: "int \<Rightarrow> int \<Rightarrow> db \<Rightarrow> int \<Rightarrow> time \<Rightarrow> stats" where
  \<comment> \<open>page_count and page_size are what the two PRAGMAs answer\<close>
  "get_stats page_count page_size d u now =
     \<lparr>st_feeds = count_where (\<lambda>s. sub_user s = u) (subs d),
      st_erroring = count_where (\<lambda>(s, f). fd_errors f > 0) (sub_join_feed d u),
      st_unread = sum_list (map sub_unread (filter (\<lambda>s. sub_user s = u) (subs d))),
      st_queue = count_where (\<lambda>f. fd_next f \<le> now \<and> fd_errors f < 20) (feeds d),
      st_size = page_count * page_size,
      st_erroring_feeds = filter (\<lambda>v. sv_errors v > 0) (list_subscription_views d u)\<rparr>"

section \<open>Every operation keeps the invariant\<close>

lemma feeds_update_ok:
  assumes "db_ok d" "distinct (map fd_url (upd_where P f (feeds d)))"
    "\<And>x. P x \<Longrightarrow> fd_id (f x) = fd_id x"
  shows "db_ok (d\<lparr>feeds := upd_where P f (feeds d)\<rparr>)"
  by (rule frame_feeds)
    (use assms db_ok_feeds [OF assms(1)] in \<open>simp_all add: feeds_ok_def map_upd_where image_upd_where\<close>)

lemma upsert_feed_ok:
  assumes ok: "db_ok d"
  shows "db_ok (snd (upsert_feed d url site title interval jitter now))"
proof (cases "find (\<lambda>f. fd_url f = url) (feeds d)")
  case None
  then have "url \<notin> fd_url ` set (feeds d)" by (auto simp: find_None_iff_all)
  then show ?thesis
    using None ok db_ok_feeds [OF ok] next_id_notin [of fd_id "feeds d"]
    by (auto simp: upsert_feed_def Let_def feeds_ok_def intro!: frame_feeds)
next
  case (Some f)
  then show ?thesis
    using db_ok_feeds [OF ok]
    by (auto simp: upsert_feed_def Let_def feeds_ok_def map_upd_where intro!: feeds_update_ok ok)
qed

lemma claim_due_feeds_ok: "db_ok d \<Longrightarrow> db_ok (snd (claim_due_feeds d now limit))"
  using db_ok_feeds [of d]
  by (auto simp: claim_due_feeds_def Let_def feeds_ok_def map_upd_where intro!: feeds_update_ok)

lemma apply_fetch_simps [simp]:
  "fd_id (apply_fetch u now f) = fd_id f"
  "fd_url (apply_fetch u now f) = (case fu_url u of None \<Rightarrow> fd_url f | Some x \<Rightarrow> x)"
  by (simp_all add: apply_fetch_def)

lemma exec_update_feed_ok:
  assumes ok: "db_ok d" and run: "exec_update_feed d i u now = Inr d'"
  shows "db_ok d'"
proof -
  have d': "d' = d\<lparr>feeds := upd_where (\<lambda>f. fd_id f = i) (apply_fetch u now) (feeds d)\<rparr>"
    using run by (auto simp: exec_update_feed_def split: if_splits)
  have "distinct (map fd_url (upd_where (\<lambda>f. fd_id f = i) (apply_fetch u now) (feeds d)))"
  proof (cases "fu_url u")
    case None
    then show ?thesis using db_ok_feeds [OF ok] by (simp add: feeds_ok_def map_upd_where)
  next
    case (Some url)
    show ?thesis
      by (rule distinct_map_upd_one [where ident = fd_id])
        (use db_ok_feeds [OF ok] Some run in
          \<open>auto simp: feeds_ok_def exec_update_feed_def list_ex_iff split: if_splits\<close>)
  qed
  then show ?thesis unfolding d' by (intro feeds_update_ok ok) simp_all
qed

lemma exec_update_feed_no_url: "fu_url u = None \<Longrightarrow> exec_update_feed d i u now \<noteq> Inl e"
  by (auto simp: exec_update_feed_def list_ex_iff)

lemma update_feed_after_fetch_ok:
  "db_ok d \<Longrightarrow> update_feed_after_fetch quote d i u now = Inr d' \<Longrightarrow> db_ok d'"
  by (auto simp: update_feed_after_fetch_def exec_update_feed_ok
      split: sum.splits option.splits store_error.splits)

lemma delete_entries_ok:
  assumes ok: "db_ok d"
  shows "db_ok (snd (delete_entries_and_refresh P d))"
proof -
  define gone where "gone = filter P (entries d)"
  let ?ids = "set (map ent_id gone)"
  define d1 where "d1 = d\<lparr>entries := del_where P (entries d),
                 states := del_where (\<lambda>r. ues_entry r \<in> ?ids) (states d),
                 pins := del_where (\<lambda>p. pin_entry p \<in> ?ids) (pins d)\<rparr>"
  have ids: "ent_id e \<in> ?ids \<longleftrightarrow> P e" if e: "e \<in> set (entries d)" for e
    using e db_ok_entries [OF ok] distinct_map_unique [of ent_id "entries d" e]
    by (auto simp: gone_def entries_ok_def)
  have "entries_ok d1"
    using db_ok_entries [OF ok] by (simp add: entries_ok_def d1_def distinct_del_where fk_del_where)
  moreover have "states_ok d1"
    using db_ok_states [OF ok] ids
    by (auto simp: states_ok_def d1_def distinct_del_where set_del_where mirrors_def)
      (metis mirrors_def)
  moreover have "fan_out_ok d1"
    unfolding fan_out_ok_def
  proof (intro conjI ballI impI)
    fix r
    assume "r \<in> set (states d1)"
    then show "\<exists>s \<in> set (subs d1). sub_user s = ues_user r \<and> sub_feed s = ues_feed r"
      using db_ok_fan_out [OF ok] by (auto simp: d1_def set_del_where fan_out_ok_def)
  next
    fix s e
    assume s: "s \<in> set (subs d1)" and e: "e \<in> set (entries d1)" "ent_feed e = sub_feed s"
    have "s \<in> set (subs d)" "e \<in> set (entries d)" using s e by (simp_all add: d1_def set_del_where)
    then obtain r where r: "r \<in> set (states d)" "ues_user r = sub_user s" "ues_entry r = ent_id e"
      using sub_state [OF ok] e(2) by blast
    then show "\<exists>r \<in> set (states d1). ues_user r = sub_user s \<and> ues_entry r = ent_id e"
      using e(1) ids [of e] by (intro bexI [of _ r]) (auto simp: d1_def set_del_where)
  qed
  moreover have "pins_ok d1"
    using db_ok_pins [OF ok] by (fastforce simp: pins_ok_def d1_def distinct_del_where fk_del_where
        fk_def set_del_where gone_def)
  moreover have "sub_unread s = unread_of d1 (sub_user s) (sub_feed s)"
    if s: "s \<in> set (subs d)" "sub_feed s \<notin> ent_feed ` set gone" for s
  proof -
    have "count_where (counted (sub_user s) (sub_feed s)) (states d1)
        = count_where (counted (sub_user s) (sub_feed s)) (states d)"
      unfolding d1_def db.simps
    proof (simp, rule count_where_del_where)
      fix r
      assume r: "r \<in> set (states d)" "counted (sub_user s) (sub_feed s) r"
      show "ues_entry r \<notin> ent_id ` set gone"
      proof
        assume "ues_entry r \<in> ent_id ` set gone"
        then obtain e where "e \<in> set gone" "ues_entry r = ent_id e" by auto
        then have "ues_feed r \<in> ent_feed ` set gone"
          using state_feed [OF ok r(1)] by (auto simp: gone_def)
        then show False using r s by (auto simp: counted_def)
      qed
    qed
    then show ?thesis using counts_at [OF ok s(1)] by (simp add: unread_of_def)
  qed
  ultimately have "db_ok_but (ent_feed ` set gone) d1"
    using ok by (simp add: db_ok_but_def db_ok_def creds_ok_def folders_ok_def feeds_ok_def subs_ok_def
        ignores_ok_def extras_ok_def d1_def)
  then have "db_ok_but (ent_feed ` set gone - set (remdups (map ent_feed gone)))
      (fold refresh_unread_count (remdups (map ent_feed gone)) d1)"
    by (rule fold_refresh_but)
  then show ?thesis
    by (simp add: delete_entries_and_refresh_def Let_def db_ok_but_empty d1_def gone_def)
qed

lemma delete_old_read_entries_ok: "db_ok d \<Longrightarrow> db_ok (snd (delete_old_read_entries d before))"
  and trim_excess_entries_ok: "db_ok d \<Longrightarrow> db_ok (snd (trim_excess_entries d limit))"
  by (simp_all add: delete_old_read_entries_def trim_excess_entries_def delete_entries_ok)

lemma orphan_no_subs: "orphan d before f \<Longrightarrow> s \<in> set (subs d) \<Longrightarrow> sub_feed s \<noteq> fd_id f"
  by (auto simp: orphan_def list_ex_iff)

lemma fk_del_pair:
  \<comment> \<open>rows whose parent is deleted go with it\<close>
  "fk key rs (pk ` set ps) \<Longrightarrow> (\<And>p. p \<in> set ps \<Longrightarrow> Q p \<Longrightarrow> pk p \<in> G) \<Longrightarrow>
   fk key (del_where (\<lambda>r. key r \<in> G) rs) (pk ` set (del_where Q ps))"
  by (fastforce simp: fk_def set_del_where)

lemma orphan_entry_ids:
  assumes "db_ok d" "e \<in> set (entries d)"
  shows "ent_id e \<in> set (map ent_id (filter (\<lambda>e. ent_feed e \<in> G) (entries d))) \<longleftrightarrow> ent_feed e \<in> G"
  using assms db_ok_entries [OF assms(1)] distinct_map_unique [of ent_id "entries d" e]
  by (auto simp: entries_ok_def)

text \<open>Nobody's subscriptions or reading state refer to a feed without subscribers.\<close>

lemma orphan_rows:
  fixes before :: time
  assumes ok: "db_ok d"
  defines "G \<equiv> set (map fd_id (filter (orphan d before) (feeds d)))"
  defines "E \<equiv> set (map ent_id (filter (\<lambda>e. ent_feed e \<in> G) (entries d)))"
  shows "s \<in> set (subs d) \<Longrightarrow> sub_feed s \<notin> G" and "r \<in> set (states d) \<Longrightarrow> ues_entry r \<notin> E"
proof -
  show subs_G: "sub_feed s \<notin> G" if "s \<in> set (subs d)" for s
    using orphan_no_subs [OF _ that] by (auto simp: G_def)
  assume r: "r \<in> set (states d)"
  obtain e where "e \<in> set (entries d)" "mirrors r e"
    using r db_ok_states [OF ok] by (auto simp: states_ok_def)
  moreover obtain s where "s \<in> set (subs d)" "sub_feed s = ues_feed r" using state_sub [OF ok r] .
  ultimately show "ues_entry r \<notin> E"
    using orphan_entry_ids [OF ok, of e G] subs_G unfolding E_def mirrors_def by force
qed

lemma orphan_frame:
  assumes ok: "db_ok d"
  shows "subs (snd (delete_orphan_feeds d before)) = subs d"
    and "states (snd (delete_orphan_feeds d before)) = states d"
  using orphan_rows [OF ok, of _ before]
  by (simp_all add: delete_orphan_feeds_def Let_def del_where_def filter_id_conv)

lemma delete_orphan_feeds_ok:
  assumes ok: "db_ok d"
  shows "db_ok (snd (delete_orphan_feeds d before))"
proof -
  define G where "G = set (map fd_id (filter (orphan d before) (feeds d)))"
  define E where "E = set (map ent_id (filter (\<lambda>e. ent_feed e \<in> G) (entries d)))"
  define d' where "d' = snd (delete_orphan_feeds d before)"
  have subs_G: "sub_feed s \<notin> G" if "s \<in> set (subs d)" for s
    using orphan_rows(1) [OF ok that] by (simp add: G_def)
  have rows_E: "ues_entry r \<notin> E" if "r \<in> set (states d)" for r
    using orphan_rows(2) [OF ok that] by (simp add: G_def E_def)
  have E_iff: "ent_id e \<in> E \<longleftrightarrow> ent_feed e \<in> G" if "e \<in> set (entries d)" for e
    unfolding E_def by (rule orphan_entry_ids [OF ok that])
  have subs: "subs d' = subs d" and states: "states d' = states d"
    by (simp_all add: d'_def orphan_frame [OF ok])
  have rest: "users d' = users d" "folders d' = folders d" "ignores d' = ignores d"
    "sessions d' = sessions d" "api_tokens d' = api_tokens d" "invitations d' = invitations d"
    "feeds d' = del_where (\<lambda>f. fd_id f \<in> G) (feeds d)"
    "entries d' = del_where (\<lambda>e. ent_feed e \<in> G) (entries d)"
    "pins d' = del_where (\<lambda>p. pin_entry p \<in> E) (pins d)"
    "scrapes d' = del_where (\<lambda>s. scr_feed s \<in> G) (scrapes d)"
    "fulltexts d' = del_where (\<lambda>x. ff_feed x \<in> G) (fulltexts d)"
    "boilers d' = del_where (\<lambda>x. fb_feed x \<in> G) (boilers d)"
    by (simp_all add: d'_def delete_orphan_feeds_def Let_def G_def E_def)
  have "entries_ok d'"
    using db_ok_entries [OF ok] by (simp add: entries_ok_def rest distinct_del_where fk_del_pair)
  moreover have "feeds_ok d'"
    using db_ok_feeds [OF ok] by (simp add: feeds_ok_def rest distinct_del_where)
  moreover have "subs_ok d'"
  proof -
    have "sub_feed s \<in> fd_id ` set (feeds d')" if s: "s \<in> set (subs d)" for s
    proof -
      have "sub_feed s \<in> feed_ids d"
        using db_ok_subs [OF ok] s unfolding subs_ok_def fk_def by blast
      then obtain f where "f \<in> set (feeds d)" "sub_feed s = fd_id f" by blast
      then show ?thesis
        using subs_G [OF s] by (intro image_eqI [of _ _ f]) (simp_all add: rest set_del_where)
    qed
    then show ?thesis
      using db_ok_subs [OF ok] by (simp add: subs_ok_def subs rest(1,2) fk_def)
  qed
  moreover have "states_ok d'"
    unfolding states_ok_def states rest
  proof (intro conjI ballI)
    show "distinct (map (\<lambda>r. (ues_user r, ues_entry r)) (states d))"
      using db_ok_states [OF ok] by (simp add: states_ok_def)
    fix r assume r: "r \<in> set (states d)"
    then obtain e where e: "e \<in> set (entries d)" "mirrors r e"
      using db_ok_states [OF ok] by (auto simp: states_ok_def)
    then show "\<exists>e \<in> set (del_where (\<lambda>e. ent_feed e \<in> G) (entries d)). mirrors r e"
      using rows_E [OF r] E_iff [OF e(1)] by (intro bexI [of _ e]) (auto simp: set_del_where mirrors_def)
  qed
  moreover have "fan_out_ok d'"
    using db_ok_fan_out [OF ok] by (simp add: fan_out_ok_def subs states rest set_del_where)
  moreover have "pins_ok d'"
    using db_ok_pins [OF ok] E_iff
    by (simp add: pins_ok_def rest distinct_del_where fk_del_where fk_del_pair)
  moreover have "extras_ok d'"
    using db_ok_extras [OF ok]
    by (simp add: extras_ok_def rest distinct_del_where fk_del_where fk_del_pair)
  moreover have "counts_ok d'"
    using db_ok_counts [OF ok] by (simp add: counts_ok_def subs states unread_of_def)
  ultimately have "db_ok d'"
    using ok by (simp add: db_ok_def rest creds_ok_def folders_ok_def ignores_ok_def)
  then show ?thesis by (simp add: d'_def)
qed

lemma frame_scrapes:
  assumes "db_ok d" "distinct (map scr_id sc)" "distinct (map scr_feed sc)" "fk scr_feed sc (feed_ids d)"
  shows "db_ok (d\<lparr>scrapes := sc\<rparr>)"
  using frame_extras [OF assms(1), where sc = sc and ft = "fulltexts d" and bl = "boilers d"] assms db_ok_extras [OF assms(1)]
  by (simp add: extras_ok_def)

lemma frame_boilers:
  assumes "db_ok d" "distinct (map fb_feed bl)" "fk fb_feed bl (feed_ids d)"
  shows "db_ok (d\<lparr>boilers := bl\<rparr>)"
  using frame_extras [OF assms(1), where sc = "scrapes d" and ft = "fulltexts d" and bl = bl] assms db_ok_extras [OF assms(1)]
  by (simp add: extras_ok_def)

lemma create_scrape_source_ok:
  "db_ok d \<Longrightarrow> create_scrape_source d creator f kind target config now = Inr (i, d') \<Longrightarrow> db_ok d'"
  using db_ok_extras [of d] next_id_notin [of scr_id "scrapes d"]
  by (auto simp: create_scrape_source_def Let_def extras_ok_def split: if_splits intro!: frame_scrapes)

lemma update_scrapes_ok:
  assumes "db_ok d" "\<And>s. scr_id (f s) = scr_id s \<and> scr_feed (f s) = scr_feed s"
    "update_scrapes P f d = Inr d'"
  shows "db_ok d'"
  using assms db_ok_extras [OF assms(1)]
  by (auto simp: update_scrapes_def extras_ok_def map_upd_where fk_upd_where split: if_splits
      intro!: frame_scrapes)

lemma update_scrape_source_ok:
  "db_ok d \<Longrightarrow> update_scrape_source_config d i config now = Inr d' \<Longrightarrow> db_ok d'"
  "db_ok d \<Longrightarrow> update_scrape_source_target d f url now = Inr d' \<Longrightarrow> db_ok d'"
  "db_ok d \<Longrightarrow> update_scrape_source_state d f st now = Inr d' \<Longrightarrow> db_ok d'"
  by (auto simp: update_scrape_source_config_def update_scrape_source_target_def
      update_scrape_source_state_def elim!: update_scrapes_ok [rotated 2])

lemma enable_feed_fulltext_ok:
  assumes "db_ok d" "enable_feed_fulltext d f creator now = Inr d'"
  shows "db_ok d'"
  using assms db_ok_extras [OF assms(1)]
    frame_extras [OF assms(1), where sc = "scrapes d" and bl = "boilers d"
      and ft = "fulltexts d @ [\<lparr>ff_feed = f, ff_creator = creator, ff_created = now\<rparr>]"]
  by (simp add: enable_feed_fulltext_def extras_ok_def list_ex_iff image_iff split: if_splits)
    metis

lemma disable_feed_fulltext_ok: "db_ok d \<Longrightarrow> db_ok (disable_feed_fulltext d f)"
  using db_ok_extras [of d]
    frame_extras [of d, where sc = "scrapes d" and ft = "del_where (\<lambda>x. ff_feed x = f) (fulltexts d)"
      and bl = "del_where (\<lambda>x. fb_feed x = f) (boilers d)"]
  by (simp add: disable_feed_fulltext_def extras_ok_def distinct_del_where fk_del_where)

lemma put_feed_boilerplate_ok:
  assumes "db_ok d" "put_feed_boilerplate d f st now = Inr d'"
  shows "db_ok d'"
proof -
  have old: "distinct (map fb_feed (boilers d))" "fk fb_feed (boilers d) (feed_ids d)"
    using db_ok_extras [OF assms(1)] by (simp_all add: extras_ok_def)
  show ?thesis
  proof (cases "list_ex (\<lambda>x. fb_feed x = f) (boilers d)")
    case True
    then show ?thesis
      using assms old by (auto simp: put_feed_boilerplate_def map_upd_where fk_upd_where
          intro!: frame_boilers)
  next
    case False
    then have "f \<notin> fb_feed ` set (boilers d)" by (auto simp: list_ex_iff)
    then show ?thesis
      using False assms old by (auto simp: put_feed_boilerplate_def split: if_splits
          intro!: frame_boilers)
  qed
qed

lemma delete_feed_boilerplate_ok: "db_ok d \<Longrightarrow> db_ok (delete_feed_boilerplate d f)"
  using db_ok_extras [of d]
  by (auto simp: delete_feed_boilerplate_def extras_ok_def distinct_del_where fk_del_where
      intro!: frame_boilers)

end
