(* ===== verification/StoreLaws.thy ===== *)
theory StoreLaws
  imports StoreOps
begin

text \<open>
  What the store promises its callers, over any sequence of calls: unread badges that
  agree with the unread list, pages that partition a list, invitations that work once,
  disabled accounts that stay out, pins only for subscribers, garbage collection that
  keeps what it should.
\<close>

section \<open>Frames\<close>

text \<open>The reading and crawling commands leave the account tables alone.\<close>

definition same_accounts :: "db \<Rightarrow> db \<Rightarrow> bool" where
  "same_accounts d d' \<longleftrightarrow> users d' = users d \<and> sessions d' = sessions d
     \<and> api_tokens d' = api_tokens d \<and> invitations d' = invitations d"

lemma fold_refresh_frame [simp]:
  "users (fold refresh_unread_count fs d) = users d"
  "sessions (fold refresh_unread_count fs d) = sessions d"
  "api_tokens (fold refresh_unread_count fs d) = api_tokens d"
  "invitations (fold refresh_unread_count fs d) = invitations d"
  "entries (fold refresh_unread_count fs d) = entries d"
  "states (fold refresh_unread_count fs d) = states d"
  "pins (fold refresh_unread_count fs d) = pins d"
  "feeds (fold refresh_unread_count fs d) = feeds d"
  "ignores (fold refresh_unread_count fs d) = ignores d"
  by (induction fs arbitrary: d) simp_all

lemma upsert_loop_accounts:
  "upsert_loop first f now es n d = Inr (m, d') \<Longrightarrow> same_accounts d d'"
proof (induction es arbitrary: n d)
  case (Cons e es)
  obtain fresh d1 where step: "upsert_entry first f now e d = Inr (fresh, d1)"
    and rest: "upsert_loop first f now es (if fresh then n + 1 else n) d1 = Inr (m, d')"
    using Cons.prems by (auto split: sum.splits)
  have "same_accounts d d1"
    using step by (auto simp: upsert_entry_def Let_def same_accounts_def split: if_splits)
  then show ?case using Cons.IH [OF rest] by (simp add: same_accounts_def)
qed (simp add: same_accounts_def)

lemma same_accounts_refl [simp]: "same_accounts d d"
  by (simp add: same_accounts_def)

lemma keep_same: "(\<And>d'. r = Inr d' \<Longrightarrow> same_accounts d d') \<Longrightarrow> same_accounts d (keep d r)"
  by (cases r) (simp_all add: keep_def)

lemma keep_snd_same: "(\<And>x d'. r = Inr (x, d') \<Longrightarrow> same_accounts d d') \<Longrightarrow> same_accounts d (keep_snd d r)"
  by (cases r) (simp_all add: keep_snd_def split: prod.splits)

lemma recompute_accounts: "same_accounts d (recompute_ignored u d)"
  by (simp add: recompute_ignored_def Let_def same_accounts_def)

lemma mark_accounts: "same_accounts d (snd (mark_where P now d))"
  by (simp add: mark_where_def Let_def same_accounts_def)

lemma reading_ops_accounts:
  "get_or_create_folder d u name = Inr (k, d') \<Longrightarrow> same_accounts d d'"
  "upsert_subscription d u f folder title now = Inr d' \<Longrightarrow> same_accounts d d'"
  "unsubscribe d u f = Inr d' \<Longrightarrow> same_accounts d d'"
  "update_subscription d u f p = Inr d' \<Longrightarrow> same_accounts d d'"
  "add_pin d u i now = Inr d' \<Longrightarrow> same_accounts d d'"
  "remove_pin d u i = Inr d' \<Longrightarrow> same_accounts d d'"
  by (auto simp: get_or_create_folder_def upsert_subscription_def unsubscribe_def
      update_subscription_def add_pin_def remove_pin_def Let_def same_accounts_def
      split: if_splits option.splits)

lemma marking_accounts:
  "same_accounts d (snd (mark_entries_read d u ids now))"
  "same_accounts d (snd (mark_all_entries_read d u now))"
  "same_accounts d (snd (mark_feed_read_before d u f before now))"
  by (simp_all add: mark_entries_read_def mark_all_entries_read_def mark_accounts)
    (simp add: mark_feed_read_before_def Let_def same_accounts_def)

lemma ignore_accounts:
  "add_ignore_word d u word now = Inr d' \<Longrightarrow> same_accounts d d'"
  "remove_ignore_word d u i = Inr d' \<Longrightarrow> same_accounts d d'"
  by (auto simp: add_ignore_word_def remove_ignore_word_def recompute_ignored_def Let_def
      same_accounts_def split: if_splits)

lemma upsert_entries_accounts:
  "upsert_entries d f es now = Inr (n, d') \<Longrightarrow> same_accounts d d'"
  using upsert_loop_accounts [of "first_date_missing es" f now es 0 d n]
  by (auto simp: upsert_entries_def same_accounts_def split: if_splits sum.splits)

lemma reading_exec_accounts: "same_accounts d (reading_exec d op)"
  by (cases op) (auto intro!: keep_same keep_snd_same
      intro: reading_ops_accounts marking_accounts ignore_accounts upsert_entries_accounts)

lemma crawl_ops_accounts:
  "same_accounts d (snd (upsert_feed d url site title interval jitter now))"
  "same_accounts d (snd (claim_due_feeds d now limit))"
  "same_accounts d (snd (delete_entries_and_refresh P d))"
  "same_accounts d (snd (delete_orphan_feeds d before))"
  "same_accounts d (disable_feed_fulltext d f)"
  "same_accounts d (delete_feed_boilerplate d f)"
  by (simp_all add: upsert_feed_def claim_due_feeds_def delete_entries_and_refresh_def
      delete_orphan_feeds_def disable_feed_fulltext_def delete_feed_boilerplate_def Let_def
      same_accounts_def split: option.split)

lemma crawl_results_accounts:
  "exec_update_feed d i u now = Inr d' \<Longrightarrow> same_accounts d d'"
  "create_scrape_source d c f kind target config now = Inr (i, d') \<Longrightarrow> same_accounts d d'"
  "update_scrapes P g d = Inr d' \<Longrightarrow> same_accounts d d'"
  "enable_feed_fulltext d f c now = Inr d' \<Longrightarrow> same_accounts d d'"
  "put_feed_boilerplate d f st now = Inr d' \<Longrightarrow> same_accounts d d'"
  by (auto simp: exec_update_feed_def create_scrape_source_def update_scrapes_def
      enable_feed_fulltext_def put_feed_boilerplate_def Let_def same_accounts_def split: if_splits)

lemma update_feed_accounts:
  "update_feed_after_fetch q d i u now = Inr d' \<Longrightarrow> same_accounts d d'"
  by (auto simp: update_feed_after_fetch_def intro: crawl_results_accounts
      split: sum.splits option.splits store_error.splits)

lemma crawl_exec_accounts: "same_accounts d (crawl_exec q d op)"
  by (cases op) (auto simp: delete_old_read_entries_def trim_excess_entries_def
      update_scrape_source_config_def update_scrape_source_target_def update_scrape_source_state_def
      intro!: keep_same keep_snd_same
      intro: crawl_ops_accounts crawl_results_accounts update_feed_accounts)

section \<open>A sample run\<close>

text \<open>
  A short history used as concrete input by the theorems below: a second user, a feed both
  subscribe to, three entries without dates, a pin.
\<close>

definition no_quote :: "string \<Rightarrow> string" where
  "no_quote s = s"

definition sample_entry :: "string \<Rightarrow> time \<Rightarrow> bool \<Rightarrow> entry_input" where
  "sample_entry guid pub missing = \<lparr>in_guid = guid, in_url = guid, in_title = guid, in_author = [],
     in_body = [], in_hash = [], in_pub = pub, in_upd = pub, in_missing = missing\<rparr>"

definition sample_ops :: "store_op list" where
  "sample_ops =
     [Account (CreateUser ''bob'' ''h'' False 5),
      Crawl (UpsertFeed ''f'' ''s'' ''t'' 60 0 5),
      Reading (UpsertSubscription 1 1 None [] 6),
      Reading (UpsertSubscription 2 1 None [] 7),
      Reading (UpsertEntries 1 [sample_entry ''a'' 8 True, sample_entry ''b'' 8 True,
                                sample_entry ''c'' 9 False] 8),
      Reading (AddPin 2 1 9)]"

definition sample_db :: db where
  "sample_db = store_run no_quote 0 sample_ops"

lemma sample_ok: "db_ok sample_db"
  by (simp add: sample_db_def store_run_ok)

section \<open>The invariant and the unread badges\<close>

text \<open>
  After any sequence of store calls on a freshly migrated database the invariant holds:
  keys and foreign keys, an enabled admin, one \<open>user_entry_state\<close> row for each entry of
  each subscribed feed and no other, denormalised columns that agree with the entry, and
  cached unread counts equal to the number of unread, not ignored rows.
\<close>

theorem store_invariant: "db_ok (store_run q now ops)"
  by (rule store_run_ok)

lemma distinct_states: "db_ok d \<Longrightarrow> distinct (states d)"
  using db_ok_states [of d] by (simp add: states_ok_def distinct_map)

lemma join_states:
  assumes ok: "db_ok d"
  shows "distinct (map snd (entries_join d u))"
    and "r \<in> snd ` set (entries_join d u) \<longleftrightarrow> r \<in> set (states d) \<and> ues_user r = u \<and> \<not> ues_ignored r"
proof -
  have "distinct (map (ues_entry \<circ> snd) (entries_join d u))"
  proof -
    have "map (ues_entry \<circ> snd) (entries_join d u) = map (ent_id \<circ> fst) (entries_join d u)"
      by (rule map_cong) (auto simp: entries_join_eq)
    then show ?thesis using entries_join_distinct [OF ok, of u] by (simp only:)
  qed
  then show "distinct (map snd (entries_join d u))"
    by (metis distinct_map map_map)
  show "r \<in> snd ` set (entries_join d u) \<longleftrightarrow> r \<in> set (states d) \<and> ues_user r = u \<and> \<not> ues_ignored r"
    using db_ok_states [OF ok] by (force simp: entries_join_eq states_ok_def mirrors_def image_iff)
qed

lemma join_feed:
  "db_ok d \<Longrightarrow> (e, r) \<in> set (entries_join d u) \<Longrightarrow> ues_feed r = ent_feed e"
  by (auto simp: entries_join_eq intro: state_feed)

lemma unread_list_length:
  assumes ok: "db_ok d"
  shows "length (list_rows d u f True) = unread_of d u f"
proof -
  let ?P = "\<lambda>(e, r). ent_feed e = f \<and> ues_read r = None"
  have "length (list_rows d u f True) = length (map snd (filter ?P (entries_join d u)))"
    by (simp add: list_rows_def)
  also have "\<dots> = card (set (map snd (filter ?P (entries_join d u))))"
    by (rule distinct_card [symmetric]) (rule distinct_map_filter, rule join_states(1) [OF ok])
  also have "set (map snd (filter ?P (entries_join d u))) = snd ` set (filter ?P (entries_join d u))"
    by (rule set_map)
  also have "snd ` set (filter ?P (entries_join d u)) = {r \<in> set (states d). counted u f r}"
  proof (intro equalityI subsetI)
    fix r assume "r \<in> snd ` set (filter ?P (entries_join d u))"
    then obtain e where er: "(e, r) \<in> set (entries_join d u)" "ent_feed e = f" "ues_read r = None"
      by auto
    have "r \<in> snd ` set (entries_join d u)" using er(1) by force
    then have "r \<in> set (states d) \<and> ues_user r = u \<and> \<not> ues_ignored r" 
      using join_states(2) [OF ok] by blast
    then show "r \<in> {r \<in> set (states d). counted u f r}"
      using er join_feed [OF ok er(1)] by (simp add: counted_def)
  next
    fix r assume r: "r \<in> {r \<in> set (states d). counted u f r}"
    then have "r \<in> snd ` set (entries_join d u)" by (simp add: join_states(2) [OF ok] counted_def)
    then obtain e where er: "(e, r) \<in> set (entries_join d u)" by auto
    then have "(e, r) \<in> set (filter ?P (entries_join d u))"
      using r join_feed [OF ok er] by (simp add: counted_def)
    then show "r \<in> snd ` set (filter ?P (entries_join d u))" by force
  qed
  also have "card \<dots> = unread_of d u f"
    using distinct_card [of "filter (counted u f) (states d)"] distinct_states [OF ok]
    by (simp add: unread_of_def count_where_def)
  finally show ?thesis .
qed

lemma length_page_all [simp]: "length (page (- 1) None xs) = length xs"
  by (simp add: page_def sql_limit_def)

text \<open>
  C17. In every reachable database the unread badge of a subscription equals the number of
  entries that listing that feed's unread entries returns.
\<close>

theorem badge_is_unread_list:
  assumes "s \<in> set (subs (store_run q now ops))"
  shows "sub_unread s
    = length (list_entries (store_run q now ops) (sub_user s) (sub_feed s) True (- 1) None)"
  using counts_at [OF store_run_ok assms] unread_list_length [OF store_run_ok]
  by (simp add: list_entries_page unread_of_def)

theorem badge_is_unread_list_witness:
  "map (\<lambda>s. (sub_user s, sub_unread s)) (subs sample_db) = [(1, 2), (2, 2)] \<and>
   length (list_entries sample_db 2 1 True (- 1) None) = 2"
proof -
  have subs: "map (\<lambda>s. (sub_user s, sub_feed s, sub_unread s)) (subs sample_db) = [(1, 1, 2), (2, 1, 2)]"
    by code_simp
  then obtain r s where rs: "subs sample_db = [r, s]" and s: "sub_user s = 2" "sub_feed s = 1" "sub_unread s = 2"
    by (auto simp: map_eq_Cons_conv)
  have "sub_unread s = length (list_entries sample_db 2 1 True (- 1) None)"
    using badge_is_unread_list [of s no_quote 0 sample_ops] rs s by (simp add: sample_db_def)
  then show ?thesis using subs s by (auto simp: map_eq_Cons_conv)
qed

section \<open>Accounts along a run\<close>

text \<open>A predicate on the account tables alone survives the other commands.\<close>

lemma accounts_step:
  assumes "\<And>d op. P d \<Longrightarrow> db_ok d \<Longrightarrow> allowed op \<Longrightarrow> P (account_exec d op)"
    and "\<And>d d'. P d \<Longrightarrow> same_accounts d d' \<Longrightarrow> P d'"
    and "P d" "db_ok d" "\<And>op. Account op \<in> set ops \<Longrightarrow> allowed op"
  shows "P (foldl (store_exec q) d ops)"
  using assms(3-5)
proof (induction ops arbitrary: d)
  case (Cons op ops)
  have "P (store_exec q d op)"
  proof (cases op)
    case (Account a)
    then show ?thesis using assms(1) Cons.prems by simp
  next
    case (Reading a)
    then show ?thesis using assms(2) [OF Cons.prems(1) reading_exec_accounts] by simp
  next
    case (Crawl a)
    then show ?thesis using assms(2) [OF Cons.prems(1) crawl_exec_accounts] by simp
  qed
  then show ?case using Cons store_exec_ok by simp
qed simp

definition redeemed :: "string \<Rightarrow> db \<Rightarrow> bool" where
  "redeemed token d \<longleftrightarrow> (\<exists>i \<in> set (invitations d). inv_token i = token \<and> inv_used_by i \<noteq> None)"

lemma redeemed_same: "redeemed token d \<Longrightarrow> same_accounts d d' \<Longrightarrow> redeemed token d'"
  by (simp add: redeemed_def same_accounts_def)

lemma keep_redeemed:
  "redeemed t d \<Longrightarrow> (\<And>d'. r = Inr d' \<Longrightarrow> redeemed t d') \<Longrightarrow> redeemed t (keep d r)"
  "redeemed t d \<Longrightarrow> (\<And>x d'. r' = Inr (x, d') \<Longrightarrow> redeemed t d') \<Longrightarrow> redeemed t (keep_snd d r')"
  by (cases r; simp add: keep_def) (cases r'; simp add: keep_snd_def split: prod.splits)

lemma redeemed_invitations:
  "redeemed token d \<Longrightarrow> set (invitations d) \<subseteq> set (invitations d') \<Longrightarrow> redeemed token d'"
  by (auto simp: redeemed_def)

lemma accept_keeps_redeemed:
  assumes "redeemed t d" "accept_invitation d token name hash now = Inr (u, d')"
  shows "redeemed t d'"
  using assms(2)
proof (rule accept_invitation_Inr)
  fix i
  assume d': "d' = d\<lparr>users := users d @ [new_user d name hash False now],
       invitations := upd_where (\<lambda>j. inv_id j = inv_id i \<and> inv_used_by j = None)
         (\<lambda>j. j\<lparr>inv_used_by := Some (usr_id (new_user d name hash False now)),
               inv_used_at := Some now\<rparr>) (invitations d)\<rparr>"
  obtain j where "j \<in> set (invitations d)" "inv_token j = t" "inv_used_by j \<noteq> None"
    using assms(1) by (auto simp: redeemed_def)
  then show ?thesis unfolding redeemed_def d'
    by (intro bexI [of _ j]) (auto intro!: upd_where_miss)
qed

lemma account_exec_redeemed: "redeemed t d \<Longrightarrow> redeemed t (account_exec d op)"
proof (cases op)
  case (AcceptInvitation token name hash now)
  assume "redeemed t d"
  then show ?thesis
    by (auto simp: AcceptInvitation intro: keep_redeemed accept_keeps_redeemed)
qed (auto simp: complete_setup_def update_user_password_def set_user_embeds_def create_user_def
    set_user_admin_def set_user_disabled_def create_session_def touch_session_def delete_session_def
    delete_all_sessions_def delete_expired_sessions_def create_api_token_def delete_api_token_def
    touch_api_token_def create_invitation_def Let_def
    split: if_splits option.splits sum.splits
    intro!: keep_redeemed elim: redeemed_invitations)

lemma redeemed_refused:
  assumes "db_ok d" "redeemed token d"
  shows "accept_invitation d token name hash now = Inl ErrInvitationInvalid"
proof -
  obtain j where j: "j \<in> set (invitations d)" "inv_token j = token" "inv_used_by j \<noteq> None"
    using assms(2) by (auto simp: redeemed_def)
  obtain i where i: "find (\<lambda>i. inv_token i = token) (invitations d) = Some i"
    using j by (cases "find (\<lambda>i. inv_token i = token) (invitations d)") (auto simp: find_None_iff_all)
  then have "i = j"
    using j find_Some_iff_in [OF i] db_ok_creds [OF assms(1)]
      distinct_map_unique [of inv_token "invitations d" i j] by (auto simp: creds_ok_def)
  then show ?thesis using i j by (auto simp: accept_invitation_def)
qed

lemma accept_redeems:
  assumes "accept_invitation d token name hash now = Inr (u, d')"
  shows "redeemed token d'"
  using assms
proof (rule accept_invitation_Inr)
  fix i
  assume i: "find (\<lambda>i. inv_token i = token) (invitations d) = Some i" "inv_used_by i = None"
    and d': "d' = d\<lparr>users := users d @ [new_user d name hash False now],
       invitations := upd_where (\<lambda>j. inv_id j = inv_id i \<and> inv_used_by j = None)
         (\<lambda>j. j\<lparr>inv_used_by := Some (usr_id (new_user d name hash False now)),
               inv_used_at := Some now\<rparr>) (invitations d)\<rparr>"
  let ?f = "\<lambda>j. j\<lparr>inv_used_by := Some (usr_id (new_user d name hash False now)), inv_used_at := Some now\<rparr>"
  have "?f i \<in> set (invitations d')" "inv_token (?f i) = token"
    unfolding d' using find_Some_iff_in [OF i(1)] i(2) by (auto intro!: upd_where_hit)
  then show ?thesis unfolding redeemed_def by (intro bexI [of _ "?f i"]) simp_all
qed

text \<open>
  C20. An invitation works once: after it has been accepted, accepting the same token fails
  as invalid, after any further sequence of store calls, for any name and at any time.
\<close>

theorem invitation_works_once:
  assumes "db_ok d" "accept_invitation d token name hash now = Inr (u, d')"
  shows "accept_invitation (foldl (store_exec q) d' ops) token name' hash' now' = Inl ErrInvitationInvalid"
proof (rule redeemed_refused)
  have ok: "db_ok d'" using assms by (rule accept_invitation_ok)
  then show "db_ok (foldl (store_exec q) d' ops)" by (rule store.run_inv)
  show "redeemed token (foldl (store_exec q) d' ops)"
    by (rule accounts_step [where allowed = "\<lambda>_. True"])
      (auto intro: account_exec_redeemed redeemed_same accept_redeems [OF assms(2)] ok)
qed

theorem invitation_works_once_witness:
  "\<exists>u d'. accept_invitation (store_exec no_quote sample_db (Account (CreateInvitation 1 ''tok'' 50 10)))
       ''tok'' ''carol'' ''h'' 20 = Inr (u, d') \<and> usr_name u = ''carol'' \<and>
     accept_invitation (foldl (store_exec no_quote) d' [Account (CreateInvitation 1 ''tok'' 50 30)])
       ''tok'' ''dave'' ''h'' 30 = Inl ErrInvitationInvalid"
proof -
  let ?d = "store_exec no_quote sample_db (Account (CreateInvitation 1 ''tok'' 50 10))"
  have "case accept_invitation ?d ''tok'' ''carol'' ''h'' 20 of Inr (u, d') \<Rightarrow> usr_name u = ''carol'' | Inl _ \<Rightarrow> False"
    by code_simp
  then obtain u d' where run: "accept_invitation ?d ''tok'' ''carol'' ''h'' 20 = Inr (u, d')" "usr_name u = ''carol''"
    by (auto split: sum.splits)
  have "db_ok ?d" by (rule store_exec_ok) (rule sample_ok)
  then show ?thesis using run invitation_works_once [OF _ run(1)] by blast
qed

definition locked :: "int \<Rightarrow> db \<Rightarrow> bool" where
  "locked i d \<longleftrightarrow> i \<in> user_ids d \<and> (\<forall>u \<in> set (users d). usr_id u = i \<longrightarrow> usr_disabled u)"

lemma locked_same: "locked i d \<Longrightarrow> same_accounts d d' \<Longrightarrow> locked i d'"
  by (simp add: locked_def same_accounts_def)

lemma locked_users: "locked i d \<Longrightarrow> users d' = users d \<Longrightarrow> locked i d'"
  by (simp add: locked_def)

lemma locked_upd:
  assumes "locked i d" "users d' = upd_where P f (users d)"
    "\<And>u. P u \<Longrightarrow> usr_id (f u) = usr_id u"
    "\<And>u. P u \<Longrightarrow> usr_disabled u \<Longrightarrow> usr_id u = i \<Longrightarrow> usr_disabled (f u)"
  shows "locked i d'"
proof -
  have "user_ids d' = user_ids d" using assms(2,3) by (simp add: user_ids_upd)
  moreover have "usr_disabled u" if "u \<in> set (users d')" "usr_id u = i" for u
    using that assms(1,3,4) unfolding assms(2) set_upd_where locked_def
    by (auto split: if_splits)
  ultimately show ?thesis using assms(1) by (simp add: locked_def)
qed

lemma locked_new:
  assumes "locked i d" "users d' = users d @ [new_user d name hash adm now]"
  shows "locked i d'"
  using assms next_id_fresh [of _ "users d" usr_id] by (fastforce simp: locked_def new_user_def)

lemma keep_locked:
  "locked i d \<Longrightarrow> (\<And>d'. r = Inr d' \<Longrightarrow> locked i d') \<Longrightarrow> locked i (keep d r)"
  "locked i d \<Longrightarrow> (\<And>x d'. r' = Inr (x, d') \<Longrightarrow> locked i d') \<Longrightarrow> locked i (keep_snd d r')"
  by (cases r; simp add: keep_def) (cases r'; simp add: keep_snd_def split: prod.splits)

lemma user_ops_locked:
  "locked i d \<Longrightarrow> complete_setup d j name hash now = Inr d' \<Longrightarrow> locked i d'"
  "locked i d \<Longrightarrow> update_user_password d j hash now = Inr d' \<Longrightarrow> locked i d'"
  "locked i d \<Longrightarrow> set_user_embeds d j b now = Inr d' \<Longrightarrow> locked i d'"
  "locked i d \<Longrightarrow> set_user_admin d j b now = Inr d' \<Longrightarrow> locked i d'"
  by (auto simp: complete_setup_def update_user_password_def set_user_embeds_def set_user_admin_def
      Let_def split: if_splits option.splits elim!: locked_upd)

lemma create_user_locked:
  assumes "locked i d" "create_user d name hash adm now = Inr (u, d')"
  shows "locked i d'"
  by (rule locked_new [OF assms(1)])
    (use assms(2) in \<open>auto simp: create_user_def Let_def split: if_splits sum.splits\<close>)

lemma accept_invitation_locked:
  assumes "locked i d" "accept_invitation d token name hash now = Inr (u, d')"
  shows "locked i d'"
  by (rule accept_invitation_Inr [OF assms(2)], rule locked_new [OF assms(1)]) simp

lemma set_user_disabled_locked:
  assumes "locked i d" "set_user_disabled d j b now = Inr d'" "j = i \<Longrightarrow> b"
  shows "locked i d'"
proof -
  have "users d' = upd_where (\<lambda>u. usr_id u = j) (\<lambda>u. u\<lparr>usr_disabled := b, usr_updated := now\<rparr>) (users d)"
    using assms(2) by (auto simp: set_user_disabled_def Let_def split: option.splits if_splits)
  then show ?thesis by (rule locked_upd [OF assms(1)]) (use assms(3) in auto)
qed

lemma credential_ops_users:
  "users (touch_session d j now) = users d" "users (delete_session d token) = users d"
  "users (delete_all_sessions d j) = users d" "users (snd (delete_expired_sessions d now)) = users d"
  "users (touch_api_token d j now) = users d"
  by (simp_all add: touch_session_def delete_session_def delete_all_sessions_def
      delete_expired_sessions_def touch_api_token_def)

lemma credential_results_users:
  "create_session d j token now expires = Inr (s, d') \<Longrightarrow> users d' = users d"
  "create_api_token d j label token now = Inr (t, d') \<Longrightarrow> users d' = users d"
  "delete_api_token d j tid = Inr d' \<Longrightarrow> users d' = users d"
  "create_invitation d j token expires now = Inr (v, d') \<Longrightarrow> users d' = users d"
  by (auto simp: create_session_def create_api_token_def delete_api_token_def
      create_invitation_def Let_def split: if_splits)

lemma keep_users:
  "(\<And>d'. r = Inr d' \<Longrightarrow> users d' = users d) \<Longrightarrow> users (keep d r) = users d"
  "(\<And>x d'. r' = Inr (x, d') \<Longrightarrow> users d' = users d) \<Longrightarrow> users (keep_snd d r') = users d"
  by (cases r; hypsubst_thin; simp only: keep_def sum.case; blast)
    (cases r'; hypsubst_thin; simp only: keep_snd_def sum.case split: prod.splits; blast)

lemma account_exec_locked:
  assumes "locked i d" "\<And>now. op \<noteq> SetUserDisabled i False now"
  shows "locked i (account_exec d op)"
proof (cases op)
  case (SetUserDisabled j b now)
  then have "j = i \<Longrightarrow> b" using assms(2) by (cases b) auto
  then show ?thesis
    using assms(1) by (simp add: SetUserDisabled) (rule keep_locked(1), assumption,
        erule (1) set_user_disabled_locked, simp)
next
  case (CompleteSetup j name hash now)
  then show ?thesis using assms(1) by (auto intro!: keep_locked elim: user_ops_locked)
next
  case (UpdateUserPassword j hash now)
  then show ?thesis using assms(1) by (auto intro!: keep_locked elim: user_ops_locked)
next
  case (SetUserEmbeds j b now)
  then show ?thesis using assms(1) by (auto intro!: keep_locked elim: user_ops_locked)
next
  case (SetUserAdmin j b now)
  then show ?thesis using assms(1) by (auto intro!: keep_locked elim: user_ops_locked)
next
  case (CreateUser name hash adm now)
  then show ?thesis using assms(1) by (auto intro!: keep_locked elim: create_user_locked)
next
  case (AcceptInvitation token name hash now)
  then show ?thesis using assms(1) by (auto intro!: keep_locked elim: accept_invitation_locked)
qed (auto intro!: locked_users [OF assms(1)] keep_users
    simp: credential_ops_users dest: credential_results_users)

lemma disabling_locks:
  assumes "set_user_disabled d i True now = Inr d'"
  shows "locked i d'"
proof -
  let ?f = "\<lambda>u. u\<lparr>usr_disabled := True, usr_updated := now\<rparr>"
  have users: "users d' = upd_where (\<lambda>u. usr_id u = i) ?f (users d)"
    and hit: "count_where (\<lambda>u. usr_id u = i) (users d) \<noteq> 0"
    using assms by (auto simp: set_user_disabled_def Let_def split: option.splits if_splits)
  have "i \<in> user_ids d" using hit by (auto simp: count_where_0_iff)
  then have "i \<in> user_ids d'" by (simp add: users user_ids_upd)
  moreover have "\<forall>u \<in> set (users d'). usr_id u = i \<longrightarrow> usr_disabled u"
    unfolding users by (rule ball_upd_whereI) simp
  ultimately show ?thesis by (simp add: locked_def)
qed

lemma first_of_list: "(case xs of [] \<Rightarrow> Inl e | x # _ \<Rightarrow> Inr x) = Inr y \<Longrightarrow> y \<in> set xs"
  by (cases xs) simp_all

lemma get_session_Inr:
  "get_session d token = Inr (s, u) \<Longrightarrow>
   s \<in> set (sessions d) \<and> u \<in> set (users d) \<and> usr_id u = ses_user s \<and> ses_token s = token \<and> \<not> usr_disabled u"
proof -
  let ?xs = "[(s, u). s \<leftarrow> sessions d, u \<leftarrow> users d,
              usr_id u = ses_user s \<and> ses_token s = token \<and> \<not> usr_disabled u]"
  assume "get_session d token = Inr (s, u)"
  then have "(s, u) \<in> set ?xs"
    unfolding get_session_def by (rule first_of_list)
  then show ?thesis unfolding concat_if_filter by auto
qed

lemma get_api_token_Inr:
  "get_api_token d token = Inr (t, u) \<Longrightarrow> u \<in> set (users d) \<and> \<not> usr_disabled u"
proof -
  let ?xs = "[(t, u). t \<leftarrow> api_tokens d, u \<leftarrow> users d,
              usr_id u = tok_user t \<and> tok_hash t = token \<and> \<not> usr_disabled u]"
  assume "get_api_token d token = Inr (t, u)"
  then have "(t, u) \<in> set ?xs"
    unfolding get_api_token_def by (rule first_of_list)
  then show ?thesis unfolding concat_if_filter by auto
qed

text \<open>
  Disabling an account locks it out: after any further sequence of store calls that
  does not enable it again, no session token and no API token, old or new, authenticates
  as that user.
\<close>

theorem disabled_stays_out:
  assumes "db_ok d" "set_user_disabled d i True now = Inr d'"
    and "\<And>t. Account (SetUserDisabled i False t) \<notin> set ops"
  shows "(\<forall>s u. get_session (foldl (store_exec q) d' ops) token = Inr (s, u) \<longrightarrow> usr_id u \<noteq> i) \<and>
    (\<forall>a u. get_api_token (foldl (store_exec q) d' ops) token = Inr (a, u) \<longrightarrow> usr_id u \<noteq> i)"
proof -
  have "locked i (foldl (store_exec q) d' ops)"
  proof (rule accounts_step [where allowed = "\<lambda>op. \<forall>t. op \<noteq> SetUserDisabled i False t"])
    show "locked i d'" using assms(2) by (rule disabling_locks)
    show "db_ok d'" using assms(1,2) by (rule set_user_disabled_ok)
    show "\<forall>t. op \<noteq> SetUserDisabled i False t" if "Account op \<in> set ops" for op
      using that assms(3) by blast
  qed (auto intro: account_exec_locked locked_same)
  then show ?thesis
    by (auto simp: locked_def dest!: get_session_Inr get_api_token_Inr)
qed

theorem disabled_stays_out_witness:
  "\<exists>d' s u. set_user_disabled (store_exec no_quote sample_db (Account (CreateSession 2 ''x'' 10 90)))
       2 True 11 = Inr d' \<and>
     get_session (foldl (store_exec no_quote) d' [Account (CreateSession 1 ''y'' 12 90),
       Account (CreateSession 2 ''z'' 12 90)]) ''y'' = Inr (s, u) \<and> usr_id u \<noteq> 2"
proof -
  let ?d = "store_exec no_quote sample_db (Account (CreateSession 2 ''x'' 10 90))"
  let ?ops = "[Account (CreateSession 1 ''y'' 12 90), Account (CreateSession 2 ''z'' 12 90)]"
  have run: "case set_user_disabled ?d 2 True 11 of Inl _ \<Rightarrow> False
      | Inr d' \<Rightarrow> (case get_session (foldl (store_exec no_quote) d' ?ops) ''y'' of Inl _ \<Rightarrow> False | Inr _ \<Rightarrow> True)"
    by code_simp
  then obtain d' where d': "set_user_disabled ?d 2 True 11 = Inr d'"
    and "case get_session (foldl (store_exec no_quote) d' ?ops) ''y'' of Inl _ \<Rightarrow> False | Inr _ \<Rightarrow> True"
    by (auto split: sum.splits)
  then obtain s u where su: "get_session (foldl (store_exec no_quote) d' ?ops) ''y'' = Inr (s, u)"
    by (cases "get_session (foldl (store_exec no_quote) d' ?ops) ''y''") auto
  have "db_ok ?d" by (rule store_exec_ok) (rule sample_ok)
  then have "usr_id u \<noteq> 2" using disabled_stays_out [OF _ d', of ?ops no_quote] su by auto
  then show ?thesis using d' su by blast
qed

end
