(* ===== verification/ReadingLaws.thy ===== *)
theory ReadingLaws
  imports StoreLaws
begin

text \<open>
  What the reading side of the store promises: lists that can be paged through, marking
  that empties them, subscriptions that come and go without a trace, pins and ignore
  words, the first-crawl rule for feeds without dates, and the crawl schedule.
\<close>

section \<open>Pages\<close>

text \<open>
  Paging through a feed's entries loses and repeats nothing: if the whole list, newest
  first, is \<open>as @ y # bs\<close>, then the page that resumes after y is the first n entries of bs,
  and the first page is the first n entries of the whole list.
\<close>

theorem list_entries_pages:
  assumes "db_ok d" "list_entries d u f unread (- 1) None = as @ y # bs" "0 \<le> n"
  shows "list_entries d u f unread n (Some (cursor_of y)) = take (nat n) bs \<and>
         list_entries d u f unread n None = take (nat n) (as @ y # bs)"
  using assms page_resume [OF list_rows_distinct [OF assms(1)], of u f unread as y bs n]
    page_first [of n "list_rows d u f unread"]
  by (simp add: list_entries_page sql_limit_def)

theorem list_entries_pages_witness:
  "map er_guid (list_entries sample_db 2 1 False (- 1) None) = [''c'', ''b'', ''a''] \<and>
   map er_guid (list_entries sample_db 2 1 False 1
     (Some (cursor_of (hd (list_entries sample_db 2 1 False (- 1) None))))) = [''b'']"
proof -
  have all: "map er_guid (list_entries sample_db 2 1 False (- 1) None) = [''c'', ''b'', ''a'']"
    by code_simp
  then obtain x y z where xyz: "list_entries sample_db 2 1 False (- 1) None = [] @ x # [y, z]"
    "er_guid y = ''b''"
    by (auto simp: map_eq_Cons_conv)
  show ?thesis
    using list_entries_pages [OF sample_ok xyz(1), of 1] all xyz by simp
qed

text \<open>
  The same holds for every list over several feeds: a folder, a rating, today's
  entries, a search.
\<close>

theorem list_group_entries_pages:
  assumes "db_ok d" "list_group_entries d u w unread (- 1) None = as @ y # bs" "0 \<le> n"
  shows "list_group_entries d u w unread n (Some (cursor_of y)) = take (nat n) bs \<and>
         list_group_entries d u w unread n None = take (nat n) (as @ y # bs)"
  using assms page_resume [OF group_rows_distinct [OF assms(1)], of u w unread as y bs n]
    page_first [of n "group_rows d u w unread"]
  by (simp add: list_group_entries_page sql_limit_def)

theorem list_group_entries_pages_witness:
  "map er_guid (list_entries_by_rating sample_db 1 0 True (- 1) None) = [''c'', ''a''] \<and>
   map er_guid (list_entries_by_rating sample_db 1 0 True 5
     (Some (cursor_of (hd (list_entries_by_rating sample_db 1 0 True (- 1) None))))) = [''a'']"
proof -
  have all: "map er_guid (list_entries_by_rating sample_db 1 0 True (- 1) None) = [''c'', ''a'']"
    by code_simp
  then obtain x y where xy: "list_group_entries sample_db 1 (\<lambda>s e. sub_rating s = 0) True (- 1) None = [] @ x # [y]"
    "er_guid y = ''a''"
    by (auto simp: map_eq_Cons_conv list_entries_by_rating_def)
  show ?thesis
    using list_group_entries_pages [OF sample_ok xy(1), of 5] all xy
    by (simp add: list_entries_by_rating_def)
qed

section \<open>Marking\<close>

lemma snd_mark_where_states:
  "states (snd (mark_where P now d)) =
     upd_where (\<lambda>r. P r \<and> ues_read r = None) (\<lambda>r. r\<lparr>ues_read := Some now\<rparr>) (states d)"
  by (simp add: mark_where_def Let_def)

text \<open>
  Marking everything read reports as many entries as the user had unread, leaves that
  user no unread row and a zero badge on every feed, and changes no row of another user.
\<close>

theorem mark_all_reads_everything:
  assumes "db_ok d" "mark_all_entries_read d u now = (n, d')"
  shows "n = count_where (\<lambda>r. ues_user r = u \<and> ues_read r = None) (states d) \<and>
    (\<forall>s \<in> set (subs d'). sub_user s = u \<longrightarrow> sub_unread s = 0) \<and>
    list_entries d' u f True (- 1) None = [] \<and>
    filter (\<lambda>r. ues_user r \<noteq> u) (states d') = filter (\<lambda>r. ues_user r \<noteq> u) (states d)"
proof (intro conjI)
  have d': "d' = snd (mark_where (\<lambda>r. ues_user r = u) now d)"
    using assms(2) by (simp add: mark_all_entries_read_def)
  have ok: "db_ok d'" unfolding d' by (rule mark_where_ok) (rule assms(1))
  have unread: "unread_of d' u f = 0" for f
    unfolding unread_of_def d' snd_mark_where_states count_where_0_iff
    by (rule ball_upd_whereI) (simp add: counted_def)
  show "n = count_where (\<lambda>r. ues_user r = u \<and> ues_read r = None) (states d)"
    using assms(2) by (simp add: mark_all_entries_read_def mark_where_def Let_def)
  show "\<forall>s \<in> set (subs d'). sub_user s = u \<longrightarrow> sub_unread s = 0"
    using counts_at [OF ok] unread by (auto simp: unread_of_def)
  show "list_entries d' u f True (- 1) None = []"
    using unread_list_length [OF ok, of u f] unread [of f]
    by (simp add: list_entries_page page_def sql_limit_def)
  show "filter (\<lambda>r. ues_user r \<noteq> u) (states d') = filter (\<lambda>r. ues_user r \<noteq> u) (states d)"
    unfolding d' snd_mark_where_states by (rule filter_upd_where) simp
qed

theorem mark_all_reads_everything_witness:
  "fst (mark_all_entries_read sample_db 2 20) = 2 \<and>
   list_entries (snd (mark_all_entries_read sample_db 2 20)) 2 1 True (- 1) None = []"
proof -
  have "fst (mark_all_entries_read sample_db 2 20) = 2" by code_simp
  then show ?thesis
    using mark_all_reads_everything [OF sample_ok, of 2 20 _ _ 1]
    by (metis prod.collapse)
qed

section \<open>Subscriptions and pins\<close>

text \<open>
  A pin needs a subscription: pinning an entry succeeds exactly when the entry exists
  and the user subscribes to its feed; otherwise the answer is the same not-found error
  whether or not the entry exists.
\<close>

theorem add_pin_needs_subscription:
  assumes "db_ok d"
  shows "(\<exists>d'. add_pin d u i now = Inr d') \<longleftrightarrow>
           (\<exists>e \<in> set (entries d). ent_id e = i \<and> is_subscribed d u (ent_feed e))"
    (is "?pins \<longleftrightarrow> ?sub")
proof -
  have "?pins \<longleftrightarrow> has_state d u i"
    by (auto simp: add_pin_def Let_def filter_empty_conv)
  also have "\<dots> \<longleftrightarrow> ?sub"
  proof
    assume "has_state d u i"
    then obtain r where r: "r \<in> set (states d)" "ues_user r = u" "ues_entry r = i"
      by (auto simp: has_state_iff)
    then obtain e where "e \<in> set (entries d)" "mirrors r e"
      using db_ok_states [OF assms] by (auto simp: states_ok_def)
    moreover obtain s where "s \<in> set (subs d)" "sub_user s = u" "sub_feed s = ues_feed r"
      using state_sub [OF assms r(1)] r(2) by metis
    ultimately show ?sub
      using r by (intro bexI [of _ e]) (auto simp: is_subscribed_def subscribed_def list_ex_iff mirrors_def)
  next
    assume ?sub
    then obtain e s where e: "e \<in> set (entries d)" "ent_id e = i"
      and s: "s \<in> set (subs d)" "sub_user s = u" "ent_feed e = sub_feed s"
      by (auto simp: is_subscribed_def subscribed_def list_ex_iff)
    obtain r where "r \<in> set (states d)" "ues_user r = sub_user s" "ues_entry r = ent_id e"
      using sub_state [OF assms s(1) e(1) s(3)] .
    then show "has_state d u i" using e s by (auto simp: has_state_iff)
  qed
  finally show ?thesis .
qed

theorem add_pin_needs_subscription_witness:
  "(\<exists>d'. add_pin sample_db 1 3 5 = Inr d') \<and> \<not> (\<exists>d'. add_pin sample_db 1 4 5 = Inr d')"
proof -
  have "\<exists>e \<in> set (entries sample_db). ent_id e = 3 \<and> is_subscribed sample_db 1 (ent_feed e)"
    and "\<not> (\<exists>e \<in> set (entries sample_db). ent_id e = 4 \<and> is_subscribed sample_db 1 (ent_feed e))"
    by code_simp+
  then show ?thesis using add_pin_needs_subscription [OF sample_ok] by metis
qed

lemma backlog_rows:
  assumes ok: "db_ok d" and "\<not> is_subscribed d u f" "r \<in> set (states d)"
  shows "\<not> (ues_user r = u \<and> ues_feed r = f)"
proof
  assume "ues_user r = u \<and> ues_feed r = f"
  moreover obtain s where "s \<in> set (subs d)" "sub_user s = ues_user r" "sub_feed s = ues_feed r"
    using state_sub [OF ok assms(3)] .
  ultimately show False using assms(2) by (auto simp: is_subscribed_def subscribed_def list_ex_iff)
qed

text \<open>
  Subscribing and unsubscribing again leaves no trace: the subscriptions and the
  reading state of everybody are what they were before.
\<close>

theorem subscribe_unsubscribe:
  assumes ok: "db_ok d" and new: "\<not> is_subscribed d u f"
    and sub: "upsert_subscription d u f folder title now = Inr d1"
  shows "\<exists>d2. unsubscribe d1 u f = Inr d2 \<and> subs d2 = subs d \<and> states d2 = states d"
proof -
  let ?new = "\<lparr>sub_user = u, sub_feed = f, sub_folder = folder, sub_title = Some title,
     sub_rating = 0, sub_unread = 0, sub_sort = 0, sub_created = now\<rparr>"
  let ?s = "\<lambda>s. sub_user s = u \<and> sub_feed s = f" and ?r = "\<lambda>r. ues_user r = u \<and> ues_feed r = f"
  have no: "\<not> ?s s" if "s \<in> set (subs d)" for s
    using new that by (auto simp: is_subscribed_def subscribed_def list_ex_iff)
  have d1: "d1 = refresh_unread_count f (d\<lparr>subs := subs d @ [?new], states := states d @ fan_out_backlog d u f\<rparr>)"
    using sub new by (auto simp: upsert_subscription_def is_subscribed_def Let_def split: if_splits)
  have counts: "unread_of (d\<lparr>subs := subs d @ [?new], states := states d @ fan_out_backlog d u f\<rparr>) (sub_user s) f
      = sub_unread s" if s: "s \<in> set (subs d)" "sub_feed s = f" for s
  proof -
    have "sub_user s \<noteq> u" using no [OF s(1)] s(2) by auto
    then have "count_where (counted (sub_user s) f) (fan_out_backlog d u f) = 0"
      unfolding count_where_0_iff counted_def by (metis backlog_cols)
    then show ?thesis using counts_at [OF ok s(1)] s(2) by (simp add: unread_of_def count_where_append)
  qed
  have "map (\<lambda>s. if sub_feed s = f then s\<lparr>sub_unread := unread_of (d\<lparr>subs := subs d @ [?new],
      states := states d @ fan_out_backlog d u f\<rparr>) (sub_user s) f\<rparr> else s) (subs d) = subs d"
    using counts by (intro map_idI) simp
  then have subs1: "subs d1 = subs d @ [?new\<lparr>sub_unread := unread_of (d\<lparr>subs := subs d @ [?new],
      states := states d @ fan_out_backlog d u f\<rparr>) u f\<rparr>]"
    unfolding d1 refresh_subs by (simp add: upd_where_def)
  have states1: "states d1 = states d @ fan_out_backlog d u f" by (simp add: d1)
  have "del_where ?s (subs d1) = subs d"
    unfolding subs1 using no by (simp add: del_where_def filter_id_conv)
  moreover have "del_where ?r (states d1) = states d"
    unfolding states1 using backlog_rows [OF ok new]
    by (auto simp: del_where_def filter_id_conv filter_empty_conv dest: backlog_cols)
  moreover have "count_where ?s (subs d1) \<noteq> 0" unfolding subs1 by (simp add: count_where_def)
  ultimately show ?thesis by (simp add: unsubscribe_def Let_def)
qed

theorem subscribe_unsubscribe_witness:
  "\<exists>d d1 d2. \<not> is_subscribed d 2 1 \<and> upsert_subscription d 2 1 None ''x'' 30 = Inr d1 \<and>
     count_where (\<lambda>r. ues_user r = 2) (states d1) = 3 \<and>
     unsubscribe d1 2 1 = Inr d2 \<and> states d2 = states d"
proof -
  let ?d = "store_exec no_quote sample_db (Reading (Unsubscribe 2 1))"
  have run: "\<not> is_subscribed ?d 2 1" and
    "case upsert_subscription ?d 2 1 None ''x'' 30 of Inl _ \<Rightarrow> False
     | Inr d1 \<Rightarrow> count_where (\<lambda>r. ues_user r = 2) (states d1) = 3"
    by code_simp+
  then obtain d1 where d1: "upsert_subscription ?d 2 1 None ''x'' 30 = Inr d1"
    "count_where (\<lambda>r. ues_user r = 2) (states d1) = 3"
    by (cases "upsert_subscription ?d 2 1 None ''x'' 30") simp_all
  have "db_ok ?d" by (rule store_exec_ok) (rule sample_ok)
  then show ?thesis using subscribe_unsubscribe [OF _ run(1) d1(1)] run(1) d1 by blast
qed

section \<open>Ignore words\<close>

definition flags_fresh :: "db \<Rightarrow> int \<Rightarrow> bool" where
  \<comment> \<open>every row of the user is ignored exactly when a word of that user hits its entry\<close>
  "flags_fresh d u \<longleftrightarrow> (\<forall>r \<in> set (states d). \<forall>e \<in> set (entries d).
     ues_user r = u \<and> ues_entry r = ent_id e \<longrightarrow>
     ues_ignored r = word_hit d u (ent_title e) (ent_body e))"

lemma word_hit_cong: "ignores d' = ignores d \<Longrightarrow> word_hit d' u t b = word_hit d u t b"
  by (simp add: word_hit_def)

lemma recompute_fresh:
  assumes ok: "db_ok d"
  shows "flags_fresh (recompute_ignored u d) u"
proof -
  have same: "entries (recompute_ignored u d) = entries d" "ignores (recompute_ignored u d) = ignores d"
    by (simp_all add: recompute_ignored_def Let_def)
  have hit: "list_ex (\<lambda>x. ent_id x = ent_id e \<and> word_hit d u (ent_title x) (ent_body x)) (entries d)
      = word_hit d u (ent_title e) (ent_body e)" if e: "e \<in> set (entries d)" for e
    using e db_ok_entries [OF ok] distinct_map_unique [of ent_id "entries d" _ e]
    unfolding entries_ok_def list_ex_iff by blast
  have states: "states (recompute_ignored u d) = upd_where (\<lambda>r. ues_user r = u)
            (\<lambda>r. r\<lparr>ues_ignored := list_ex (\<lambda>e. ent_id e = ues_entry r
               \<and> word_hit d (ues_user r) (ent_title e) (ent_body e)) (entries d)\<rparr>) (states d)"
    by (simp add: recompute_ignored_def Let_def)
  show ?thesis
    unfolding flags_fresh_def same word_hit_cong [OF same(2)] states
    by (rule ball_upd_whereI) (use hit in auto)
qed

text \<open>
  Adding or removing an ignore word re-evaluates every row of that user: afterwards
  an entry is hidden exactly when one of the user's words occurs in its title or body.
\<close>

theorem ignore_words_apply:
  assumes "db_ok d"
    "add_ignore_word d u raw now = Inr d' \<or> remove_ignore_word d u i = Inr d'"
  shows "flags_fresh d' u"
proof -
  obtain d0 where "d' = recompute_ignored u d0" "db_ok d0"
    using assms
    by (auto simp: add_ignore_word_def remove_ignore_word_def Let_def split: if_splits
        intro: ignores_del_ok ignores_add_ok)
  then show ?thesis using recompute_fresh by simp
qed

theorem ignore_words_apply_witness:
  "\<exists>d'. add_ignore_word sample_db 2 '' c '' 30 = Inr d' \<and> flags_fresh d' 2 \<and>
     map ues_ignored (filter (\<lambda>r. ues_user r = 2) (states d')) = [False, False, True]"
proof -
  have "case add_ignore_word sample_db 2 '' c '' 30 of Inl _ \<Rightarrow> False
    | Inr d' \<Rightarrow> map ues_ignored (filter (\<lambda>r. ues_user r = 2) (states d')) = [False, False, True]"
    by code_simp
  then obtain d' where d': "add_ignore_word sample_db 2 '' c '' 30 = Inr d'"
    "map ues_ignored (filter (\<lambda>r. ues_user r = 2) (states d')) = [False, False, True]"
    by (cases "add_ignore_word sample_db 2 '' c '' 30") simp_all
  have "flags_fresh d' 2" by (rule ignore_words_apply [OF sample_ok disjI1, OF d'(1)])
  then show ?thesis by (intro exI [of _ d'] conjI d')
qed

definition stale_ops :: "store_op list" where
  \<comment> \<open>an ignore word, an entry that does not contain it, then a fetch that changes its title\<close>
  "stale_ops = sample_ops @ [Reading (AddIgnoreWord 2 ''ad'' 10),
     Reading (UpsertEntries 1 [(sample_entry ''b'' 8 False)\<lparr>in_title := ''an ad''\<rparr>] 20)]"

text \<open>
  A fetch that changes the title or body of a known entry does not re-evaluate the
  ignored flag: there is a run after which an entry that contains an ignore word of the
  user is still listed as unread.
\<close>

theorem update_keeps_stale_flag:
  "\<not> flags_fresh (store_run no_quote 0 stale_ops) 2 \<and>
   ''an ad'' \<in> set (map er_title (list_entries (store_run no_quote 0 stale_ops) 2 1 False (- 1) None)) \<and>
   word_hit (store_run no_quote 0 stale_ops) 2 ''an ad'' []"
proof -
  have "\<not> flags_fresh (store_run no_quote 0 stale_ops) 2" by code_simp
  moreover have "list_ex (\<lambda>t. t = ''an ad'')
      (map er_title (list_entries (store_run no_quote 0 stale_ops) 2 1 False (- 1) None))"
    by code_simp
  moreover have "word_hit (store_run no_quote 0 stale_ops) 2 ''an ad'' []" by code_simp
  ultimately show ?thesis by (simp add: list_ex_iff)
qed

section \<open>Feeds without dates\<close>

text \<open>The rows a batch inserts for a user, read or unread.\<close>

definition batch_ok :: "entry_input list \<Rightarrow> bool" where
  \<comment> \<open>a feed without dates: distinct guids, no item with a date\<close>
  "batch_ok es \<longleftrightarrow> distinct (map in_guid es) \<and> (\<forall>e \<in> set es. in_missing e)"

lemma loop_reads_rest:
  \<comment> \<open>after the topmost item, every new item of a dateless batch is inserted read\<close>
  assumes "\<forall>e \<in> set es. in_missing e \<and> in_guid e \<noteq> first"
    and "upsert_loop first f now es n d = Inr (m, d')"
  shows "filter (\<lambda>r. ues_read r = None) (states d') = filter (\<lambda>r. ues_read r = None) (states d)"
  using assms
proof (induction es arbitrary: n d)
  case (Cons e es)
  obtain fresh d1 where step: "upsert_entry first f now e d = Inr (fresh, d1)"
    and rest: "upsert_loop first f now es (if fresh then n + 1 else n) d1 = Inr (m, d')"
    using Cons.prems(2) by (auto split: sum.splits)
  have "filter (\<lambda>r. ues_read r = None) (states d1) = filter (\<lambda>r. ues_read r = None) (states d)"
    using step Cons.prems(1)
    by (auto simp: upsert_entry_def Let_def fan_out_entry_def filter_empty_conv split: if_splits)
  then show ?case using Cons.IH [OF _ rest] Cons.prems(1) by simp
qed simp

text \<open>
  The first crawl of a feed without dates: of a batch of new items the topmost one is
  inserted unread for every subscriber and all others are inserted read, so each
  subscriber gets exactly one more unread row however long the backlog is.
\<close>

theorem dateless_backlog_one_unread:
  assumes ok: "db_ok d" and batch: "batch_ok (e # es)"
    and new: "\<forall>x \<in> set (entries d). ent_feed x = f \<longrightarrow> ent_guid x \<noteq> in_guid e"
    and run: "upsert_entries d f (e # es) now = Inr (n, d')"
  shows "filter (\<lambda>r. ues_read r = None) (states d') =
           filter (\<lambda>r. ues_read r = None) (states d) @
           map (\<lambda>s. fresh_state d (sub_user s) None (new_entry d f now e))
             (filter (\<lambda>s. sub_feed s = f) (subs d))"
proof -
  let ?first = "in_guid e"
  have first: "first_date_missing (e # es) = ?first"
    using batch by (simp add: first_date_missing_def batch_ok_def)
  obtain d2 where loop: "upsert_loop ?first f now (e # es) 0 d = Inr (n, d2)"
    and d': "states d' = states d2"
    using run unfolding upsert_entries_def first
    by (auto split: sum.splits if_splits)
  obtain fresh d1 where step: "upsert_entry ?first f now e d = Inr (fresh, d1)"
    and rest: "upsert_loop ?first f now es (if fresh then 0 + 1 else 0) d1 = Inr (n, d2)"
    using loop by (auto split: sum.splits)
  have "\<not> list_ex (\<lambda>x. ent_feed x = f \<and> ent_guid x = in_guid e) (entries d)"
    using new by (auto simp: list_ex_iff)
  then have "states d1 = states d @ map (\<lambda>s. fresh_state d (sub_user s) None (new_entry d f now e))
      (filter (\<lambda>s. sub_feed s = f) (subs d))"
    using step
    by (auto simp: upsert_entry_def Let_def fan_out_entry_def fresh_state_def word_hit_def split: if_splits)
  moreover have "filter (\<lambda>r. ues_read r = None) (states d2) = filter (\<lambda>r. ues_read r = None) (states d1)"
    by (rule loop_reads_rest [OF _ rest]) (use batch in \<open>auto simp: batch_ok_def image_iff\<close>)
  ultimately show ?thesis by (simp add: d' comp_def filter_map)
qed

theorem dateless_backlog_one_unread_witness:
  "case upsert_entries sample_db 1 (map (\<lambda>g. sample_entry g 40 True) [''x'', ''y'', ''z'']) 40 of
     Inl _ \<Rightarrow> False
   | Inr (n, d') \<Rightarrow> n = 3 \<and> length (filter (\<lambda>r. ues_read r = None) (states d')) = 4 + 2"
proof -
  let ?e = "sample_entry ''x'' 40 True" and ?es = "map (\<lambda>g. sample_entry g 40 True) [''y'', ''z'']"
  have run: "case upsert_entries sample_db 1 (?e # ?es) 40 of Inl _ \<Rightarrow> False | Inr (n, d') \<Rightarrow> n = 3"
    and batch: "batch_ok (?e # ?es)"
    and new: "\<forall>x \<in> set (entries sample_db). ent_feed x = 1 \<longrightarrow> ent_guid x \<noteq> in_guid ?e"
    and old: "length (filter (\<lambda>r. ues_read r = None) (states sample_db)) = 4"
    "length (filter (\<lambda>s. sub_feed s = 1) (subs sample_db)) = 2"
    by code_simp+
  then obtain d' where d': "upsert_entries sample_db 1 (?e # ?es) 40 = Inr (3, d')"
    by (cases "upsert_entries sample_db 1 (?e # ?es) 40") auto
  have "length (filter (\<lambda>r. ues_read r = None) (states d')) = 4 + 2"
    using dateless_backlog_one_unread [OF sample_ok batch new d'] old by simp
  then show ?thesis using d' by simp
qed

end
