(* ===== verification/FeedLaws.thy ===== *)
theory FeedLaws
  imports StoreLaws
begin

text \<open>
  What the crawling side of the store promises: a claimed feed is not claimed again before
  its interval is over, a fetch result can always be recorded, and garbage collection
  deletes what its rules say and nothing a user still needs.
\<close>

section \<open>The crawl schedule\<close>

lemma claim_due_unfold:
  "claim_due_feeds d now limit = (map (\<lambda>f. f\<lparr>fd_next := now + fd_interval f\<rparr>)
     (filter (\<lambda>f. fd_id f \<in> fd_id ` set (list_due_feeds d now limit)) (feeds d)),
   d\<lparr>feeds := upd_where (\<lambda>f. fd_id f \<in> fd_id ` set (list_due_feeds d now limit))
     (\<lambda>f. f\<lparr>fd_next := now + fd_interval f\<rparr>) (feeds d)\<rparr>)"
  by (simp add: claim_due_feeds_def list_due_feeds_def Let_def)

lemma set_sql_limit: "set (sql_limit n xs) \<subseteq> set xs"
  by (auto simp: sql_limit_def dest: in_set_takeD)

text \<open>
  A tick claims only due feeds with a subscriber, and no feed is handed out twice
  while its interval runs: a second claim at any time before the first claim's time plus
  the feed's interval does not return it.
\<close>

theorem claim_excludes_reclaim:
  assumes "db_ok d" "claim_due_feeds d now limit = (fs, d')" "f \<in> set fs"
    and "now' < now + fd_interval f"
  shows "(\<exists>s \<in> set (subs d). sub_feed s = fd_id f) \<and>
    fd_id f \<notin> fd_id ` set (fst (claim_due_feeds d' now' limit'))"
proof
  let ?ids = "fd_id ` set (list_due_feeds d now limit)"
  let ?claim = "\<lambda>f. f\<lparr>fd_next := now + fd_interval f\<rparr>"
  have fs: "fs = map ?claim (filter (\<lambda>f. fd_id f \<in> ?ids) (feeds d))"
    and d': "d' = d\<lparr>feeds := upd_where (\<lambda>f. fd_id f \<in> ?ids) ?claim (feeds d)\<rparr>"
    using assms(2) by (simp_all add: claim_due_unfold)
  obtain g where g: "g \<in> set (feeds d)" "fd_id g \<in> ?ids" "f = ?claim g" using assms(3) by (auto simp: fs)
  then obtain h where "h \<in> set (list_due_feeds d now limit)" "fd_id h = fd_id f" by auto
  then have "due d now h" "fd_id h = fd_id f"
    using set_sql_limit by (fastforce simp: list_due_feeds_def)+
  then show "\<exists>s \<in> set (subs d). sub_feed s = fd_id f"
    by (auto simp: due_def list_ex_iff)
  have f: "f \<in> set (feeds d')" unfolding d' g(3) using g(1,2) by (auto intro: upd_where_hit)
  have uniq: "x = f" if "x \<in> set (feeds d')" "fd_id x = fd_id f" for x
    using that f assms(1) claim_due_feeds_ok [OF assms(1), of now limit] assms(2)
      distinct_map_unique [of fd_id "feeds d'" x f] by (auto simp: db_ok_def feeds_ok_def)
  show "fd_id f \<notin> fd_id ` set (fst (claim_due_feeds d' now' limit'))"
  proof
    assume "fd_id f \<in> fd_id ` set (fst (claim_due_feeds d' now' limit'))"
    then obtain x where "x \<in> set (list_due_feeds d' now' limit')" "fd_id x = fd_id f"
      by (auto simp: claim_due_unfold)
    then have "x \<in> set (feeds d')" "due d' now' x"
      using set_sql_limit by (fastforce simp: list_due_feeds_def)+
    then have "fd_next f \<le> now'" using uniq \<open>fd_id x = fd_id f\<close> by (auto simp: due_def)
    then show False using assms(4) g(3) by simp
  qed
qed

theorem claim_excludes_reclaim_witness:
  "map fd_url (fst (claim_due_feeds sample_db 70 8)) = [''f''] \<and>
   1 \<notin> fd_id ` set (fst (claim_due_feeds (snd (claim_due_feeds sample_db 70 8)) 129 8))"
proof -
  have urls: "map (\<lambda>f. (fd_url f, fd_id f, fd_interval f)) (fst (claim_due_feeds sample_db 70 8)) = [(''f'', 1, 60)]"
    by code_simp
  then obtain f where f: "fst (claim_due_feeds sample_db 70 8) = [f]" "fd_id f = 1" "fd_interval f = 60"
    by auto
  have "fd_id f \<notin> fd_id ` set (fst (claim_due_feeds (snd (claim_due_feeds sample_db 70 8)) 129 8))"
    using claim_excludes_reclaim [OF sample_ok prod.collapse [symmetric], of f 70 8 129 8] f by simp
  then show ?thesis using urls f by auto
qed

section \<open>Recording a fetch\<close>

text \<open>
  Recording a fetch always succeeds. If the permanent redirect target belongs to
  another feed, the URL is kept and the error text says so, while the rest of the update
  is applied; otherwise the row becomes exactly the update. No other feed changes.
\<close>

theorem update_after_fetch_total:
  assumes "f \<in> set (feeds d)" "fd_id f = i"
  shows "\<exists>d'. update_feed_after_fetch quote d i u now = Inr d' \<and>
    filter (\<lambda>g. fd_id g \<noteq> i) (feeds d') = filter (\<lambda>g. fd_id g \<noteq> i) (feeds d) \<and>
    (if \<exists>g \<in> set (feeds d). fd_id g \<noteq> i \<and> Some (fd_url g) = fu_url u
     then apply_fetch (u\<lparr>fu_url := None, fu_lasterr := Some (conflict_message quote (the (fu_url u)))\<rparr>) now f
     else apply_fetch u now f) \<in> set (feeds d')"
proof (cases "\<exists>g \<in> set (feeds d). fd_id g \<noteq> i \<and> Some (fd_url g) = fu_url u")
  case True
  then obtain url where url: "fu_url u = Some url" by force
  let ?u = "u\<lparr>fu_url := None, fu_lasterr := Some (conflict_message quote url)\<rparr>"
  have "update_feed_after_fetch quote d i u now =
      Inr (d\<lparr>feeds := upd_where (\<lambda>f. fd_id f = i) (apply_fetch ?u now) (feeds d)\<rparr>)"
    using True assms url by (auto simp: update_feed_after_fetch_def exec_update_feed_def list_ex_iff)
  then show ?thesis
    using True assms url by (auto simp: filter_upd_where intro: upd_where_hit)
next
  case False
  then have "update_feed_after_fetch quote d i u now =
      Inr (d\<lparr>feeds := upd_where (\<lambda>f. fd_id f = i) (apply_fetch u now) (feeds d)\<rparr>)"
    by (auto simp: update_feed_after_fetch_def exec_update_feed_def list_ex_iff split: option.splits)
  then show ?thesis
    using False assms by (auto simp: filter_upd_where intro: upd_where_hit)
qed

definition sample_update :: feed_update where
  "sample_update = \<lparr>fu_title = ''T'', fu_site = [], fu_url = Some ''g'', fu_etag = None,
     fu_lastmod = None, fu_hash = None, fu_interval = 90, fu_next = 200, fu_status = 200,
     fu_success = True, fu_gone = False, fu_lasterr = None\<rparr>"

theorem update_after_fetch_total_witness:
  "\<exists>f \<in> set (feeds sample_db). fd_id f = 1 \<and> (\<exists>d'. update_feed_after_fetch no_quote
     (store_exec no_quote sample_db (Crawl (UpsertFeed ''g'' [] [] 60 0 9))) 1 sample_update 100 = Inr d' \<and>
     ''f'' \<in> fd_url ` set (feeds d'))"
proof -
  let ?d = "store_exec no_quote sample_db (Crawl (UpsertFeed ''g'' [] [] 60 0 9))"
  have "map (\<lambda>f. (fd_id f, fd_url f)) (feeds sample_db) = [(1, ''f'')]" by code_simp
  then obtain f where f: "f \<in> set (feeds sample_db)" "fd_id f = 1" "fd_url f = ''f''"
    by (auto simp: map_eq_Cons_conv)
  have "map (\<lambda>f. (fd_id f, fd_url f)) (feeds ?d) = [(1, ''f''), (2, ''g'')]"
    and "list_all (\<lambda>f. f \<in> set (feeds ?d)) (feeds sample_db)" by code_simp+
  then have fd: "f \<in> set (feeds ?d)"
    and conflict: "\<exists>g \<in> set (feeds ?d). fd_id g \<noteq> 1 \<and> Some (fd_url g) = fu_url sample_update"
    using f(1) by (auto simp: list_all_iff map_eq_Cons_conv sample_update_def)
  obtain d' where d': "update_feed_after_fetch no_quote ?d 1 sample_update 100 = Inr d'"
    "apply_fetch (sample_update\<lparr>fu_url := None, fu_lasterr := Some (conflict_message no_quote ''g'')\<rparr>) 100 f
       \<in> set (feeds d')"
    using update_after_fetch_total [OF fd f(2), of no_quote sample_update 100] conflict
    by (auto simp: sample_update_def)
  then have "fd_url (apply_fetch (sample_update\<lparr>fu_url := None,
      fu_lasterr := Some (conflict_message no_quote ''g'')\<rparr>) 100 f) \<in> fd_url ` set (feeds d')"
    by blast
  then show ?thesis using d'(1) f by auto
qed

section \<open>Garbage collection\<close>

definition pinned :: "db \<Rightarrow> entry \<Rightarrow> bool" where
  "pinned d e \<longleftrightarrow> list_ex (\<lambda>p. pin_entry p = ent_id e) (pins d)"

lemma delete_entries_entries:
  "entries (snd (delete_entries_and_refresh P d)) = filter (\<lambda>e. \<not> P e) (entries d)"
  by (simp add: delete_entries_and_refresh_def Let_def del_where_def)

lemma count_where_strict:
  assumes "\<And>x. x \<in> set xs \<Longrightarrow> P x \<Longrightarrow> Q x" "y \<in> set xs" "Q y" "\<not> P y"
  shows "count_where P xs < count_where Q xs"
proof -
  have "filter P xs = filter P (filter Q xs)"
    unfolding filter_filter by (rule filter_cong) (use assms(1) in auto)
  moreover have "length (filter P (filter Q xs)) < length (filter Q xs)"
    by (rule length_filter_less [of y]) (use assms in auto)
  ultimately show ?thesis by (simp add: count_where_def)
qed

lemma row_number_less:
  assumes "e \<in> set (entries d)" "ent_feed e' = ent_feed e" "entry_key e < entry_key e'"
  shows "row_number d e < row_number d e'"
  unfolding row_number_def add_less_cancel_right
  by (rule count_where_strict [where y = e]) (use assms in auto)

lemma row_number_inj:
  assumes "db_ok d" "e \<in> set (entries d)" "e' \<in> set (entries d)" "ent_feed e' = ent_feed e"
    "row_number d e = row_number d e'"
  shows "e = e'"
proof -
  have "entry_key e = entry_key e'"
    using assms(2-5) row_number_less [of e d e'] row_number_less [of e' d e]
    by (cases "entry_key e" "entry_key e'" rule: linorder_cases) auto
  then show ?thesis
    using assms db_ok_entries [OF assms(1)] distinct_map_unique [of ent_id "entries d" e e']
    by (simp add: entry_key_def entries_ok_def)
qed

lemma row_number_bound:
  assumes ok: "db_ok d"
  shows "count_where (\<lambda>e. ent_feed e = f \<and> row_number d e \<le> n) (entries d) \<le> n"
proof -
  let ?xs = "filter (\<lambda>e. ent_feed e = f \<and> row_number d e \<le> n) (entries d)"
  have "distinct (entries d)" using db_ok_entries [OF ok] by (simp add: entries_ok_def distinct_map)
  then have "distinct (map (row_number d) ?xs)"
    unfolding distinct_map using row_number_inj [OF ok] by (auto simp: inj_on_def)
  then have "length ?xs = card (set (map (row_number d) ?xs))"
    by (simp only: distinct_card length_map)
  also have "\<dots> \<le> card {1..n}"
    by (rule card_mono) (auto simp: row_number_def)
  finally show ?thesis by (simp add: count_where_def)
qed

text \<open>
  The per-feed cap is hard: after trimming to n entries every feed has at most n
  entries that are not pinned, pinned entries are all still there, and an entry that was
  deleted is older than every unpinned entry of its feed that was kept.
\<close>

theorem trim_is_hard_cap:
  assumes ok: "db_ok d" and trim: "trim_excess_entries d (int n) = (k, d')"
  shows "count_where (\<lambda>e. ent_feed e = f \<and> \<not> pinned d e) (entries d') \<le> n \<and>
    (\<forall>e \<in> set (entries d). pinned d e \<longrightarrow> e \<in> set (entries d')) \<and>
    (\<forall>e \<in> set (entries d). \<forall>e' \<in> set (entries d'). e \<notin> set (entries d') \<and> \<not> pinned d e' \<and>
       ent_feed e' = ent_feed e \<longrightarrow> entry_key e' < entry_key e)"
proof (intro conjI ballI impI)
  have es: "entries d' = filter (\<lambda>e. \<not> (int (row_number d e) > int n \<and> \<not> pinned d e)) (entries d)"
    using delete_entries_entries [of "\<lambda>e. int (row_number d e) > int n \<and> \<not> pinned d e" d] trim
    by (simp add: trim_excess_entries_def pinned_def)
  have "filter (\<lambda>e. ent_feed e = f \<and> \<not> pinned d e) (entries d')
      = filter (\<lambda>e. \<not> pinned d e) (filter (\<lambda>e. ent_feed e = f \<and> row_number d e \<le> n) (entries d))"
    unfolding es filter_filter by (rule filter_cong) auto
  then show "count_where (\<lambda>e. ent_feed e = f \<and> \<not> pinned d e) (entries d') \<le> n"
    using row_number_bound [OF ok, of f n] unfolding count_where_def
    by (simp only: le_trans [OF length_filter_le])
  show "e \<in> set (entries d')" if "e \<in> set (entries d)" "pinned d e" for e
    using that by (simp add: es)
  fix e e'
  assume e: "e \<in> set (entries d)" and e': "e' \<in> set (entries d')"
    and "e \<notin> set (entries d') \<and> \<not> pinned d e' \<and> ent_feed e' = ent_feed e"
  then have "row_number d e' \<le> n" "n < row_number d e" "e' \<in> set (entries d)" "ent_feed e' = ent_feed e"
    by (auto simp: es)
  then have "\<not> entry_key e < entry_key e'" "entry_key e \<noteq> entry_key e'"
    using row_number_less [OF e, of e'] by (auto simp: row_number_def)
  then show "entry_key e' < entry_key e" by (simp add: not_less_iff_gr_or_eq)
qed

theorem trim_is_hard_cap_witness:
  "map ent_guid (entries (snd (trim_excess_entries sample_db 0))) = [''a''] \<and>
   count_where (\<lambda>e. ent_feed e = 1 \<and> \<not> pinned sample_db e) (entries (snd (trim_excess_entries sample_db 0))) = 0"
proof -
  have "map ent_guid (entries (snd (trim_excess_entries sample_db 0))) = [''a'']" by code_simp
  then show ?thesis
    using trim_is_hard_cap [OF sample_ok, of 0 _ _ 1] by (metis le_zero_eq of_nat_0 prod.collapse)
qed

lemma refresh_id: "counts_ok d \<Longrightarrow> refresh_unread_count f d = d"
  unfolding refresh_unread_count_def upd_where_def
  by (subst map_idI) (auto simp: counts_ok_def)

lemma fold_refresh_id: "counts_ok d \<Longrightarrow> fold refresh_unread_count fs d = d"
  by (induction fs) (simp_all add: refresh_id)

text \<open>
  Deleting old read entries changes no badge and loses nothing anyone still needs:
  exactly the entries fetched before the limit, unread by nobody and pinned by nobody are
  deleted, and every subscription keeps its unread count.
\<close>

theorem delete_old_keeps_badges:
  assumes ok: "db_ok d" and run: "delete_old_read_entries d before = (k, d')"
  shows "entries d' = filter (\<lambda>e. \<not> old_and_read d before e) (entries d) \<and> subs d' = subs d \<and> pins d' = pins d \<and>
    filter (\<lambda>r. ues_read r = None) (states d') = filter (\<lambda>r. ues_read r = None) (states d)"
proof -
  let ?gone = "filter (old_and_read d before) (entries d)"
  let ?ids = "set (map ent_id ?gone)"
  define d1 where "d1 = d\<lparr>entries := del_where (old_and_read d before) (entries d),
                 states := del_where (\<lambda>r. ues_entry r \<in> ?ids) (states d),
                 pins := del_where (\<lambda>p. pin_entry p \<in> ?ids) (pins d)\<rparr>"
  have read: "ues_entry r \<notin> ?ids" if "r \<in> set (states d)" "ues_read r = None" for r
    using that by (auto simp: old_and_read_def list_ex_iff)
  have "unread_of d1 u f = unread_of d u f" for u f
    unfolding unread_of_def d1_def
    by (simp, rule count_where_del_where) (use read in \<open>auto simp: counted_def\<close>)
  then have "counts_ok d1" using db_ok_counts [OF ok] by (simp add: counts_ok_def d1_def)
  then have d': "d' = d1"
    using run by (simp add: delete_old_read_entries_def delete_entries_and_refresh_def Let_def
        d1_def fold_refresh_id)
  have "pins d1 = pins d"
    by (auto simp: d1_def del_where_def filter_id_conv old_and_read_def list_ex_iff)
  moreover have "filter (\<lambda>r. ues_read r = None) (states d1) = filter (\<lambda>r. ues_read r = None) (states d)"
    unfolding d1_def del_where_def by (simp, rule filter_cong) (use read in auto)
  ultimately show ?thesis unfolding d' by (simp add: d1_def del_where_def)
qed

theorem delete_old_keeps_badges_witness:
  "map ent_guid (entries (snd (delete_old_read_entries (snd (mark_all_entries_read
       (snd (mark_all_entries_read sample_db 1 20)) 2 20)) 30))) = [''a''] \<and>
   subs (snd (delete_old_read_entries sample_db 30)) = subs sample_db"
proof -
  have "map ent_guid (entries (snd (delete_old_read_entries (snd (mark_all_entries_read
       (snd (mark_all_entries_read sample_db 1 20)) 2 20)) 30))) = [''a'']" by code_simp
  then show ?thesis using delete_old_keeps_badges [OF sample_ok prod.collapse [symmetric], of 30] by blast
qed

text \<open>
  Reaping orphaned feeds touches no subscriber: no subscription and no reading state
  changes, exactly the feeds without a subscriber and without recent activity go. What
  does go with them are the pins users still hold on their entries.
\<close>

theorem orphan_gc_spares_subscribers:
  assumes ok: "db_ok d" and run: "delete_orphan_feeds d before = (k, d')"
  shows "subs d' = subs d \<and> states d' = states d \<and>
    feeds d' = filter (\<lambda>f. \<not> orphan d before f) (feeds d) \<and>
    pins d' = filter (\<lambda>p. \<forall>e \<in> set (entries d). \<forall>f \<in> set (feeds d).
      ent_id e = pin_entry p \<and> fd_id f = ent_feed e \<longrightarrow> \<not> orphan d before f) (pins d)"
proof -
  let ?G = "set (map fd_id (filter (orphan d before) (feeds d)))"
  have d': "d' = snd (delete_orphan_feeds d before)" using run by simp
  have G: "fd_id f \<in> ?G \<longleftrightarrow> orphan d before f" if "f \<in> set (feeds d)" for f
    using that db_ok_feeds [OF ok] distinct_map_unique [of fd_id "feeds d" f]
    by (auto simp: feeds_ok_def)
  have "feeds d' = filter (\<lambda>f. \<not> orphan d before f) (feeds d)"
    unfolding d' delete_orphan_feeds_def Let_def
    by (simp add: del_where_def, rule filter_cong) (use G in auto)
  moreover have gone: "pin_entry p \<in> set (map ent_id (filter (\<lambda>e. ent_feed e \<in> ?G) (entries d))) \<longleftrightarrow>
      (\<exists>e \<in> set (entries d). \<exists>f \<in> set (feeds d).
      ent_id e = pin_entry p \<and> fd_id f = ent_feed e \<and> orphan d before f)" for p
    by (simp add: image_iff Bex_def conj_ac) metis
  have kept: "pin_entry p \<notin> set (map ent_id (filter (\<lambda>e. ent_feed e \<in> ?G) (entries d))) \<longleftrightarrow>
      (\<forall>e \<in> set (entries d). \<forall>f \<in> set (feeds d).
      ent_id e = pin_entry p \<and> fd_id f = ent_feed e \<longrightarrow> \<not> orphan d before f)" for p
    unfolding gone by blast
  have "pins d' = filter (\<lambda>p. pin_entry p \<notin> set (map ent_id (filter (\<lambda>e. ent_feed e \<in> ?G) (entries d)))) (pins d)"
    unfolding d' delete_orphan_feeds_def Let_def by (simp add: del_where_def)
  then have "pins d' = filter (\<lambda>p. \<forall>e \<in> set (entries d). \<forall>f \<in> set (feeds d).
      ent_id e = pin_entry p \<and> fd_id f = ent_feed e \<longrightarrow> \<not> orphan d before f) (pins d)"
    by (simp only: kept)
  ultimately show ?thesis using orphan_frame [OF ok] by (simp add: d')
qed

theorem orphan_gc_spares_subscribers_witness:
  "length (pins (foldl (store_exec no_quote) sample_db
       [Reading (Unsubscribe 1 1), Reading (Unsubscribe 2 1)])) = 1 \<and>
   pins (snd (delete_orphan_feeds (foldl (store_exec no_quote) sample_db
       [Reading (Unsubscribe 1 1), Reading (Unsubscribe 2 1)]) 900)) = []"
proof -
  let ?d = "foldl (store_exec no_quote) sample_db [Reading (Unsubscribe 1 1), Reading (Unsubscribe 2 1)]"
  have len: "length (pins ?d) = 1" by code_simp
  have ok: "db_ok ?d" by (rule store.run_inv) (rule sample_ok)
  have gone: "list_all (\<lambda>p. list_ex (\<lambda>e. list_ex (\<lambda>f.
      ent_id e = pin_entry p \<and> fd_id f = ent_feed e \<and> orphan ?d 900 f) (feeds ?d)) (entries ?d)) (pins ?d)"
    by code_simp
  have "pins (snd (delete_orphan_feeds ?d 900)) = filter (\<lambda>p. \<forall>e \<in> set (entries ?d). \<forall>f \<in> set (feeds ?d).
      ent_id e = pin_entry p \<and> fd_id f = ent_feed e \<longrightarrow> \<not> orphan ?d 900 f) (pins ?d)"
    using orphan_gc_spares_subscribers [OF ok prod.collapse [symmetric], of 900] by blast
  also have "\<dots> = []" using gone unfolding filter_empty_conv list_all_iff list_ex_iff by blast
  finally show ?thesis using len by blast
qed

end
