(* ===== verification/Limits.thy ===== *)
theory Limits
  imports Prelude
begin

text \<open>
  The in-memory limiters: \<open>internal/auth/ratelimit.go\<close> (login backoff per account, fixed
  window per address), \<open>internal/auth/action_limiter.go\<close> (fixed window per key) and the
  single-use token store of \<open>internal/inspect/tokens.go\<close>. Times and durations are
  nanoseconds; each method is a function of the limiter and the time its clock shows. A
  clock that never runs backwards is the only assumption on time.
\<close>

type_synonym nanos = int

abbreviation second :: nanos where
  "second \<equiv> 1000000000"

section \<open>Login limiter\<close>

record account_state =
  acc_failures :: nat
  acc_next :: nanos

record ip_state =
  ip_start :: nanos
  ip_count :: nat

record login_limiter =
  ll_accounts :: "string \<rightharpoonup> account_state"
  ll_ips :: "string \<rightharpoonup> ip_state"
  ll_ip_limit :: int
  ll_ip_window :: nanos
  ll_max_back :: nanos

definition new_login_limiter :: "int \<Rightarrow> nanos \<Rightarrow> login_limiter" where
  "new_login_limiter limit window =
     \<lparr>ll_accounts = Map.empty, ll_ips = Map.empty, ll_ip_limit = limit, ll_ip_window = window,
      ll_max_back = 15 * 60 * second\<rparr>"

definition roll_ip :: "nanos \<Rightarrow> nanos \<Rightarrow> ip_state \<Rightarrow> ip_state" where
  \<comment> \<open>start a new window when the old one is over\<close>
  "roll_ip window now i = (if now - ip_start i > window then \<lparr>ip_start = now, ip_count = 0\<rparr> else i)"

definition login_allow :: "login_limiter \<Rightarrow> string \<Rightarrow> string \<Rightarrow> nanos \<Rightarrow> bool \<times> login_limiter" where
  "login_allow l username ip now =
     (let (blocked, l) =
        (case ll_ips l ip of
           None \<Rightarrow> (False, l)
         | Some i \<Rightarrow>
             let i = roll_ip (ll_ip_window l) now i
             in (int (ip_count i) \<ge> ll_ip_limit l, l\<lparr>ll_ips := (ll_ips l)(ip \<mapsto> i)\<rparr>))
      in if blocked then (False, l)
         else case ll_accounts l username of
           None \<Rightarrow> (True, l)
         | Some acc \<Rightarrow> (\<not> now < acc_next acc, l))"

definition backoff_for :: "nanos \<Rightarrow> nat \<Rightarrow> nanos" where
  "backoff_for max_back failures = min (2 ^ min failures 20 * second) max_back"

definition record_failure :: "login_limiter \<Rightarrow> string \<Rightarrow> string \<Rightarrow> nanos \<Rightarrow> login_limiter" where
  "record_failure l username ip now =
     (let i = (case ll_ips l ip of None \<Rightarrow> \<lparr>ip_start = now, ip_count = 0\<rparr> | Some i \<Rightarrow> i);
          i = roll_ip (ll_ip_window l) now i;
          i = i\<lparr>ip_count := ip_count i + 1\<rparr>;
          n = (case ll_accounts l username of None \<Rightarrow> 0 | Some acc \<Rightarrow> acc_failures acc) + 1;
          acc = \<lparr>acc_failures = n, acc_next = now + backoff_for (ll_max_back l) n\<rparr>
      in l\<lparr>ll_ips := (ll_ips l)(ip \<mapsto> i), ll_accounts := (ll_accounts l)(username \<mapsto> acc)\<rparr>)"

definition record_success :: "login_limiter \<Rightarrow> string \<Rightarrow> login_limiter" where
  "record_success l username = l\<lparr>ll_accounts := (ll_accounts l)(username := None)\<rparr>"

section \<open>Action limiter\<close>

record fixed_window =
  fw_start :: nanos
  fw_count :: nat

record action_limiter =
  al_windows :: "string \<rightharpoonup> fixed_window"
  al_limit :: int
  al_window :: nanos

definition new_action_limiter :: "int \<Rightarrow> nanos \<Rightarrow> action_limiter" where
  "new_action_limiter limit window =
     \<lparr>al_windows = Map.empty, al_limit = limit, al_window = window\<rparr>"

definition action_allow :: "action_limiter \<Rightarrow> string \<Rightarrow> nanos \<Rightarrow> bool \<times> action_limiter" where
  "action_allow l key now =
     (if al_limit l \<le> 0 then (True, l)
      else
        let w = (case al_windows l key of None \<Rightarrow> \<lparr>fw_start = now, fw_count = 0\<rparr> | Some w \<Rightarrow> w);
            w = (if now - fw_start w > al_window l then \<lparr>fw_start = now, fw_count = 0\<rparr> else w)
        in if int (fw_count w) \<ge> al_limit l then (False, l\<lparr>al_windows := (al_windows l)(key \<mapsto> w)\<rparr>)
           else (True, l\<lparr>al_windows := (al_windows l)(key \<mapsto> w\<lparr>fw_count := fw_count w + 1\<rparr>)\<rparr>))"

section \<open>Inspect tokens\<close>

definition inspect_ttl :: nanos where
  "inspect_ttl = 5 * 60 * second"

record 'e inspect_entry =
  ie_html :: string
  ie_elements :: "'e list"
  ie_user :: int
  ie_expire :: nanos

type_synonym 'e token_store = "string \<rightharpoonup> 'e inspect_entry"

definition sweep :: "'e token_store \<Rightarrow> nanos \<Rightarrow> 'e token_store" where
  "sweep s now = (\<lambda>k. case s k of None \<Rightarrow> None | Some e \<Rightarrow> if ie_expire e < now then None else Some e)"

definition issue_token ::
    "'e token_store \<Rightarrow> string \<Rightarrow> int \<Rightarrow> string \<Rightarrow> 'e list \<Rightarrow> nanos \<Rightarrow> 'e token_store" where
  \<comment> \<open>raw is the token auth.GenerateToken drew\<close>
  "issue_token s raw u html els now =
     (sweep s now)(raw \<mapsto> \<lparr>ie_html = html, ie_elements = els, ie_user = u, ie_expire = now + inspect_ttl\<rparr>)"

definition consume_token ::
    "'e token_store \<Rightarrow> string \<Rightarrow> nanos \<Rightarrow> 'e inspect_entry option \<times> 'e token_store" where
  "consume_token s token now =
     (let s = sweep s now; found = s token; s' = s(token := None) in
      case found of
        None \<Rightarrow> (None, s')
      | Some e \<Rightarrow> if ie_expire e < now then (None, s') else (Some e, s'))"

section \<open>A fixed window lets through at most twice its limit\<close>

text \<open>
  The machine of one action limiter: its state is the limiter, the clock and the accepted
  calls so far; a command is a key and the time that passed since the last call.
\<close>

type_synonym action_run = "action_limiter \<times> nanos \<times> (string \<times> nanos) list"

definition action_step :: "action_run \<Rightarrow> string \<times> nat \<Rightarrow> action_run" where
  "action_step st c =
     (case (st, c) of ((l, now, h), (key, dt)) \<Rightarrow>
        let (ok, l') = action_allow l key (now + int dt)
        in (l', now + int dt, if ok then h @ [(key, now + int dt)] else h))"

definition calls_in :: "string \<Rightarrow> nanos \<Rightarrow> nanos \<Rightarrow> (string \<times> nanos) list \<Rightarrow> nat" where
  "calls_in key a b h = count_where (\<lambda>(k, t). k = key \<and> a \<le> t \<and> t \<le> b) h"

definition key_inv :: "int \<Rightarrow> nanos \<Rightarrow> string \<Rightarrow> action_run \<Rightarrow> bool" where
  \<comment> \<open>the current window holds its calls, and no interval of its length holds more than two windows' worth\<close>
  "key_inv limit window key st \<longleftrightarrow>
     (case st of (l, now, h) \<Rightarrow>
        al_limit l = limit \<and> al_window l = window \<and>
        (\<forall>(k, t) \<in> set h. k = key \<longrightarrow> t \<le> now) \<and>
        (case al_windows l key of
           None \<Rightarrow> \<forall>(k, t) \<in> set h. k \<noteq> key
         | Some w \<Rightarrow>
             fw_start w \<le> now \<and>
             (\<forall>(k, t) \<in> set h. k = key \<longrightarrow> t \<le> fw_start w + window) \<and>
             int (fw_count w) \<le> limit \<and>
             calls_in key (fw_start w) (fw_start w + window) h = fw_count w \<and>
             int (calls_in key (fw_start w - window) (fw_start w - 1) h) \<le> limit \<and>
             (\<forall>a. a + window < fw_start w \<longrightarrow> int (calls_in key a (a + window) h) \<le> 2 * limit)))"

lemma calls_in_append: "calls_in key a b (h @ h') = calls_in key a b h + calls_in key a b h'"
  by (simp add: calls_in_def count_where_append)

lemma calls_in_single: "calls_in key a b [(k, t)] = (if k = key \<and> a \<le> t \<and> t \<le> b then 1 else 0)"
  by (simp add: calls_in_def count_where_single)

lemma calls_in_mono:
  "(\<And>t. (key, t) \<in> set h \<Longrightarrow> a \<le> t \<Longrightarrow> t \<le> b \<Longrightarrow> a' \<le> t \<and> t \<le> b') \<Longrightarrow>
   calls_in key a b h \<le> calls_in key a' b' h"
  unfolding calls_in_def count_where_def by (induction h) fastforce+

lemma calls_in_split:
  "calls_in key a b h \<le> calls_in key a (s - 1) h + calls_in key s b h"
  unfolding calls_in_def count_where_def by (induction h) auto

lemma key_inv_bound:
  \<comment> \<open>the invariant bounds every interval of the window's length\<close>
  assumes "key_inv limit window key (l, now, h)" "0 \<le> window" "0 \<le> limit"
  shows "int (calls_in key a (a + window) h) \<le> 2 * limit"
proof (cases "al_windows l key")
  case None
  then have "calls_in key a (a + window) h = 0"
    using assms(1) by (auto simp: key_inv_def calls_in_def count_where_0_iff)
  then show ?thesis using assms(3) by simp
next
  case (Some w)
  note inv = assms(1) [unfolded key_inv_def, simplified Some prod.case option.case]
  show ?thesis
  proof (cases "a + window < fw_start w")
    case False
    have "calls_in key a (a + window) h
        \<le> calls_in key a (fw_start w - 1) h + calls_in key (fw_start w) (a + window) h"
      by (rule calls_in_split)
    moreover have "calls_in key a (fw_start w - 1) h \<le> calls_in key (fw_start w - window) (fw_start w - 1) h"
      by (rule calls_in_mono) (use False in auto)
    moreover have "calls_in key (fw_start w) (a + window) h \<le> calls_in key (fw_start w) (fw_start w + window) h"
      by (rule calls_in_mono) (use inv in auto)
    ultimately show ?thesis using inv by linarith
  qed (use inv in auto)
qed

text \<open>Rolling a window over keeps the invariant at the later time.\<close>

definition roll_window :: "nanos \<Rightarrow> nanos \<Rightarrow> fixed_window option \<Rightarrow> fixed_window" where
  "roll_window window now w =
     (let w = (case w of None \<Rightarrow> \<lparr>fw_start = now, fw_count = 0\<rparr> | Some w \<Rightarrow> w)
      in if now - fw_start w > window then \<lparr>fw_start = now, fw_count = 0\<rparr> else w)"

lemma action_allow_roll:
  assumes "0 < al_limit l"
  shows "action_allow l key now =
    (let w = roll_window (al_window l) now (al_windows l key) in
     if int (fw_count w) \<ge> al_limit l then (False, l\<lparr>al_windows := (al_windows l)(key \<mapsto> w)\<rparr>)
     else (True, l\<lparr>al_windows := (al_windows l)(key \<mapsto> w\<lparr>fw_count := fw_count w + 1\<rparr>)\<rparr>))"
  using assms by (simp add: action_allow_def roll_window_def Let_def)

lemma calls_in_none: "(\<And>t. (key, t) \<in> set h \<Longrightarrow> \<not> (a \<le> t \<and> t \<le> b)) \<Longrightarrow> calls_in key a b h = 0"
  by (auto simp: calls_in_def count_where_0_iff)

lemma key_inv_later:
  "key_inv limit window key (l, now, h) \<Longrightarrow> now \<le> now' \<Longrightarrow> key_inv limit window key (l, now', h)"
  by (fastforce simp: key_inv_def split: option.splits)

lemma key_inv_roll:
  assumes inv: "key_inv limit window key (l, now, h)" and w: "0 \<le> window" "0 \<le> limit"
  shows "key_inv limit window key
    (l\<lparr>al_windows := (al_windows l)(key \<mapsto> roll_window window now (al_windows l key))\<rparr>, now, h)"
proof (cases "al_windows l key")
  case None
  then have "\<And>t. (key, t) \<notin> set h" using inv by (auto simp: key_inv_def)
  then have "calls_in key a b h = 0" for a b by (intro calls_in_none) auto
  then show ?thesis
    using inv None w by (auto simp: key_inv_def roll_window_def Let_def)
next
  case (Some v)
  note old = inv [unfolded key_inv_def, simplified Some prod.case option.case]
  show ?thesis
  proof (cases "now - fw_start v > window")
    case False
    then have "roll_window window now (al_windows l key) = v" by (simp add: roll_window_def Some)
    then show ?thesis using old by (simp add: key_inv_def)
  next
    case True
    then have roll: "roll_window window now (al_windows l key) = \<lparr>fw_start = now, fw_count = 0\<rparr>"
      by (simp add: roll_window_def Some)
    have "calls_in key now (now + window) h = 0"
      by (rule calls_in_none) (use old True in fastforce)
    moreover have "calls_in key (now - window) (now - 1) h
        \<le> calls_in key (fw_start v) (fw_start v + window) h"
      by (rule calls_in_mono) (use old True in fastforce)
    moreover have "int (calls_in key a (a + window) h) \<le> 2 * limit" for a
      by (rule key_inv_bound [OF inv w])
    moreover have "\<forall>(k, t) \<in> set h. k = key \<longrightarrow> t \<le> now + window" using old w True by fastforce
    ultimately show ?thesis
      using old w unfolding roll by (simp add: key_inv_def)
  qed
qed

lemma key_inv_count:
  \<comment> \<open>one more call in the current window\<close>
  assumes inv: "key_inv limit window key (l, now, h)" and w: "al_windows l key = Some v"
    "int (fw_count v) < limit" "now \<le> fw_start v + window"
  shows "key_inv limit window key
    (l\<lparr>al_windows := (al_windows l)(key \<mapsto> v\<lparr>fw_count := fw_count v + 1\<rparr>)\<rparr>, now, h @ [(key, now)])"
proof -
  note old = inv [unfolded key_inv_def, simplified w(1) prod.case option.case]
  have "int (calls_in key a (a + window) (h @ [(key, now)])) \<le> 2 * limit" if "a + window < fw_start v" for a
    using old that by (simp add: calls_in_append calls_in_single)
  then show ?thesis using old w by (auto simp: key_inv_def calls_in_append calls_in_single)
qed

lemma roll_window_now:
  "0 \<le> window \<Longrightarrow> now \<le> fw_start (roll_window window now w) + window"
  by (auto simp: roll_window_def Let_def split: option.split)

lemma action_step_inv:
  assumes lim: "0 < limit" and win: "0 \<le> window" and inv: "key_inv limit window key st"
  shows "key_inv limit window key (action_step st c)"
proof -
  obtain l now h where st: "st = (l, now, h)" by (cases st)
  obtain k dt where c: "c = (k, dt)" by (cases c)
  let ?now = "now + int dt"
  have later: "key_inv limit window key (l, ?now, h)"
    using inv key_inv_later [of limit window key l now h ?now] by (simp add: st)
  have l: "al_limit l = limit" "al_window l = window" using later by (simp_all add: key_inv_def)
  let ?w = "roll_window window ?now (al_windows l k)"
  let ?l = "l\<lparr>al_windows := (al_windows l)(k \<mapsto> ?w)\<rparr>"
  have step: "action_step st c =
      (if int (fw_count ?w) \<ge> limit then (?l, ?now, h)
       else (l\<lparr>al_windows := (al_windows l)(k \<mapsto> ?w\<lparr>fw_count := fw_count ?w + 1\<rparr>)\<rparr>, ?now, h @ [(k, ?now)]))"
    using action_allow_roll [of l k ?now] lim by (simp add: action_step_def st c l Let_def)
  show ?thesis
  proof (cases "k = key")
    case True
    have rolled: "key_inv limit window key (?l, ?now, h)"
      using key_inv_roll [OF later win] lim True by simp
    have "key_inv limit window key (?l\<lparr>al_windows := (al_windows ?l)(key \<mapsto> ?w\<lparr>fw_count := fw_count ?w + 1\<rparr>)\<rparr>,
        ?now, h @ [(key, ?now)])" if "int (fw_count ?w) < limit"
      by (rule key_inv_count [OF rolled _ that roll_window_now [OF win]]) (simp add: True)
    then show ?thesis using rolled True by (simp add: step)
  next
    case False
    then show ?thesis
      using later
      by (auto simp: step key_inv_def calls_in_append calls_in_single split: option.splits)
  qed
qed

text \<open>
  The limiter as an invariant machine: a limiter with a non-positive limit lets everything
  through and has no bound to keep.
\<close>

definition limiter_inv :: "int \<Rightarrow> nanos \<Rightarrow> action_run \<Rightarrow> bool" where
  "limiter_inv limit window st \<longleftrightarrow> (0 < limit \<and> 0 \<le> window \<longrightarrow> (\<forall>key. key_inv limit window key st))"

interpretation action: invariant_machine action_step "limiter_inv limit window"
  by unfold_locales (simp add: limiter_inv_def action_step_inv)

lemma limiter_init: "limiter_inv limit window (new_action_limiter limit window, t0, [])"
  by (simp add: limiter_inv_def key_inv_def new_action_limiter_def)

text \<open>
  An action limiter lets a key through at most twice its limit in any interval as long
  as its window, whatever the other keys do: the interval can straddle two windows, but
  never three.
\<close>

theorem action_limiter_bound:
  assumes "0 < limit" "0 \<le> window"
    "foldl action_step (new_action_limiter limit window, t0, []) cs = (l, now, h)"
  shows "int (calls_in key a (a + window) h) \<le> 2 * limit"
proof -
  have "limiter_inv limit window (l, now, h)"
    using action.run_inv [OF limiter_init, of limit window t0 cs] assms(3) by simp
  then show ?thesis using assms(1,2) 
    by (intro key_inv_bound [of limit window key l now h]) (simp_all add: limiter_inv_def)
qed

theorem action_limiter_bound_witness:
  "snd (snd (foldl action_step (new_action_limiter 2 10, 0, [])
     [(''k'', 0), (''k'', 10), (''k'', 0), (''k'', 1), (''k'', 1), (''k'', 1)]))
     = [(''k'', 0), (''k'', 10), (''k'', 11), (''k'', 12)] \<and>
   int (calls_in ''k'' 10 (10 + 10) [(''k'', 0), (''k'', 10), (''k'', 11), (''k'', 12)]) \<le> 2 * 2"
proof -
  let ?cs = "[(''k'', 0), (''k'', 10), (''k'', 0), (''k'', 1), (''k'', 1), (''k'', 1)]"
  have h: "snd (snd (foldl action_step (new_action_limiter 2 10, 0, []) ?cs))
     = [(''k'', 0), (''k'', 10), (''k'', 11), (''k'', 12)]"
    by code_simp
  obtain l now h' where run: "foldl action_step (new_action_limiter 2 10, 0, []) ?cs = (l, now, h')"
    by (rule prod_cases3)
  have "int (calls_in ''k'' 10 (10 + 10) h') \<le> 2 * 2"
    by (rule action_limiter_bound [OF _ _ run]) simp_all
  then show ?thesis using h unfolding run by simp
qed

section \<open>Login backoff\<close>

text \<open>The machine of the login limiter, with the outcomes handleAuthLogin reports to it.\<close>

datatype login_event = Attempt string string | Failed string string | Succeeded string

fun login_step :: "login_limiter \<times> nanos \<Rightarrow> login_event \<times> nat \<Rightarrow> login_limiter \<times> nanos" where
  "login_step (l, now) (Attempt u ip, dt) = (snd (login_allow l u ip (now + int dt)), now + int dt)"
| "login_step (l, now) (Failed u ip, dt) = (record_failure l u ip (now + int dt), now + int dt)"
| "login_step (l, now) (Succeeded u, dt) = (record_success l u, now + int dt)"

definition backoff_inv :: "nanos \<Rightarrow> login_limiter \<times> nanos \<Rightarrow> bool" where
  \<comment> \<open>no account is made to wait longer than the cap\<close>
  "backoff_inv cap st \<longleftrightarrow> (case st of (l, now) \<Rightarrow> ll_max_back l = cap \<and>
     (\<forall>u acc. ll_accounts l u = Some acc \<longrightarrow> acc_next acc \<le> now + cap))"

lemma login_allow_accounts [simp]:
  "ll_accounts (snd (login_allow l u ip now)) = ll_accounts l"
  "ll_max_back (snd (login_allow l u ip now)) = ll_max_back l"
  by (auto simp: login_allow_def Let_def split: option.split)

lemma login_step_inv: "backoff_inv cap st \<Longrightarrow> backoff_inv cap (login_step st c)"
proof -
  assume inv: "backoff_inv cap st"
  obtain l now where st: "st = (l, now)" by (cases st)
  obtain e dt where c: "c = (e, dt)" by (cases c)
  have old: "ll_max_back l = cap" "\<And>u acc. ll_accounts l u = Some acc \<Longrightarrow> acc_next acc \<le> now + cap"
    using inv by (auto simp: backoff_inv_def st)
  have later: "\<And>u acc. ll_accounts l u = Some acc \<Longrightarrow> acc_next acc \<le> now + int dt + cap"
    using old(2) by fastforce
  show ?thesis
    using old(1) later by (cases e)
      (auto simp: st c backoff_inv_def record_failure_def record_success_def backoff_for_def Let_def)
qed

interpretation login: invariant_machine login_step "backoff_inv cap"
  by unfold_locales (rule login_step_inv)

text \<open>
  The login backoff never becomes a lockout: whatever failures anybody has provoked,
  fifteen minutes after the last event an attempt for any account is let through from an
  address the limiter has not counted.
\<close>

theorem login_never_locks_out:
  assumes "foldl login_step (new_login_limiter limit window, t0) es = (l, now)"
    and "ll_ips l ip = None" "now + 15 * 60 * second \<le> t"
  shows "fst (login_allow l u ip t)"
proof -
  have "backoff_inv (15 * 60 * second) (l, now)"
    using login.run_inv [of "15 * 60 * second" "(new_login_limiter limit window, t0)" es] assms(1)
    by (simp add: backoff_inv_def new_login_limiter_def)
  then have "ll_accounts l u = Some acc \<Longrightarrow> acc_next acc \<le> t" for acc
    using assms(3) by (fastforce simp: backoff_inv_def)
  then show ?thesis using assms(2) by (auto simp: login_allow_def split: option.split)
qed

theorem login_never_locks_out_witness:
  "fst (login_allow (fst (foldl login_step (new_login_limiter 10 (60 * second), 0)
     (replicate 12 (Failed ''bob'' ''1.2.3.4'', 1)))) ''bob'' ''5.6.7.8'' (12 + 15 * 60 * second))"
proof -
  let ?es = "replicate 12 (Failed ''bob'' ''1.2.3.4'', 1)"
  have now: "snd (foldl login_step (new_login_limiter 10 (60 * second), 0) ?es) = 12"
    and ips: "ll_ips (fst (foldl login_step (new_login_limiter 10 (60 * second), 0) ?es)) ''5.6.7.8'' = None"
    by code_simp+
  obtain l t where run: "foldl login_step (new_login_limiter 10 (60 * second), 0) ?es = (l, t)"
    by (rule prod.exhaust)
  have "fst (login_allow l ''bob'' ''5.6.7.8'' (12 + 15 * 60 * second))"
    by (rule login_never_locks_out [OF run]) (use now ips run in simp_all)
  then show ?thesis using run by simp
qed

definition fail_times :: "nat \<Rightarrow> string \<Rightarrow> string \<Rightarrow> nanos \<Rightarrow> login_limiter \<Rightarrow> login_limiter" where
  "fail_times n u ip t l = ((\<lambda>l. record_failure l u ip t) ^^ n) l"

lemma fail_times_account:
  assumes "ll_accounts l u = None"
  shows "0 < n \<Longrightarrow> ll_accounts (fail_times n u ip t l) u =
     Some \<lparr>acc_failures = n, acc_next = t + backoff_for (ll_max_back l) n\<rparr> \<and>
     ll_max_back (fail_times n u ip t l) = ll_max_back l"
proof (induction n)
  case (Suc n)
  show ?case
  proof (cases n)
    case 0
    then show ?thesis using assms by (simp add: fail_times_def record_failure_def Let_def)
  next
    case (Suc m)
    then show ?thesis using Suc.IH by (simp add: fail_times_def record_failure_def Let_def)
  qed
qed simp

text \<open>
  The backoff doubles: after n consecutive failures an attempt is refused for exactly
  2 to the n seconds (for n up to 20), capped at fifteen minutes, and then let through.
  The first failure thus costs two seconds where the comment on \<open>LoginLimiter\<close> says one.
\<close>

theorem backoff_doubles:
  assumes "ll_accounts l u = None" "ll_max_back l = 15 * 60 * second" "0 < n" "ll_ips (fail_times n u ip t l) ip' = None"
  shows "fst (login_allow (fail_times n u ip t l) u ip' now) \<longleftrightarrow>
    t + (if n < 10 then 2 ^ n * second else 15 * 60 * second) \<le> now"
proof -
  have "backoff_for (15 * 60 * second) n = (if n < 10 then 2 ^ n * second else 15 * 60 * second)"
  proof (cases "n < 10")
    case True
    then have "(2::int) ^ n \<le> 2 ^ 9" by (intro power_increasing) auto
    then show ?thesis using True by (simp add: backoff_for_def)
  next
    case False
    then have "(2::int) ^ 10 \<le> 2 ^ min n 20" by (intro power_increasing) auto
    then show ?thesis using False by (simp add: backoff_for_def)
  qed
  then show ?thesis
    using fail_times_account [OF assms(1,3), of ip t] assms(2,4)
    by (auto simp: login_allow_def not_less)
qed

theorem backoff_doubles_witness:
  "\<not> fst (login_allow (fail_times 1 ''bob'' ''a'' 0 (new_login_limiter 10 (60 * second))) ''bob'' ''b'' 1500000000) \<and>
   fst (login_allow (fail_times 1 ''bob'' ''a'' 0 (new_login_limiter 10 (60 * second))) ''bob'' ''b'' 2000000000)"
proof -
  have "ll_ips (fail_times 1 ''bob'' ''a'' 0 (new_login_limiter 10 (60 * second))) ''b'' = None"
    by (simp add: fail_times_def record_failure_def new_login_limiter_def Let_def)
  then show ?thesis
    using backoff_doubles [of "new_login_limiter 10 (60 * second)" "''bob''" 1 "''a''" 0 "''b''"]
    by (simp add: new_login_limiter_def)
qed

section \<open>Inspect tokens are used at most once\<close>

datatype 'e token_op = IssueToken string int string "'e list" | ConsumeToken string

fun token_step :: "'e token_store \<times> nanos \<Rightarrow> 'e token_op \<times> nat \<Rightarrow> 'e token_store \<times> nanos" where
  "token_step (s, now) (IssueToken raw u html els, dt) =
     (issue_token s raw u html els (now + int dt), now + int dt)"
| "token_step (s, now) (ConsumeToken tok, dt) = (snd (consume_token s tok (now + int dt)), now + int dt)"

definition spent :: "string \<Rightarrow> 'e token_store \<times> nanos \<Rightarrow> bool" where
  "spent tok st \<longleftrightarrow> fst st tok = None"

lemma spent_step:
  assumes "spent tok st" "\<And>u html els. fst c \<noteq> IssueToken tok u html els"
  shows "spent tok (token_step st c)"
proof -
  obtain s now where st: "st = (s, now)" by (cases st)
  obtain op dt where c: "c = (op, dt)" by (cases c)
  show ?thesis
    using assms by (cases op)
      (auto simp: st c spent_def issue_token_def consume_token_def sweep_def Let_def split: option.splits)
qed

text \<open>
  An inspect token can be read at most once: after an attempt to consume it, whether
  it succeeded or not, every later attempt fails, as long as the generator does not draw
  the same token again; and a token is refused from five minutes after it was issued on.
\<close>

theorem token_single_use:
  assumes "consume_token s tok now = (r, s')"
    and "\<And>c u html els. c \<in> set cs \<Longrightarrow> fst c \<noteq> IssueToken tok u html els"
  shows "fst (consume_token (fst (foldl token_step (s', now) cs)) tok later) = None \<and>
    (\<forall>u html els t. now + inspect_ttl < t \<longrightarrow>
       fst (consume_token (issue_token s tok u html els now) tok t) = None)"
proof -
  have "spent tok (s', now)"
    using assms(1) by (auto simp: spent_def consume_token_def Let_def split: option.splits if_splits)
  then have "spent tok (foldl token_step (s', now) cs)"
    using assms(2)
  proof (induction cs arbitrary: s' now)
    case (Cons c cs)
    have "spent tok (token_step (s', now) c)"
      by (rule spent_step) (use Cons.prems in auto)
    then show ?case using Cons.IH [of "fst (token_step (s', now) c)" "snd (token_step (s', now) c)"] Cons.prems
      by simp
  qed simp
  then show ?thesis
    by (auto simp: spent_def consume_token_def issue_token_def sweep_def Let_def)
qed

theorem token_single_use_witness:
  "fst (consume_token (issue_token Map.empty ''t'' 1 ''h'' [0 :: nat] 0) ''t'' inspect_ttl) \<noteq> None \<and>
   fst (consume_token (fst (foldl token_step
     (snd (consume_token (issue_token Map.empty ''t'' 1 ''h'' [0 :: nat] 0) ''t'' inspect_ttl), inspect_ttl)
     [(IssueToken ''u'' 1 ''h'' [], 0)])) ''t'' inspect_ttl) = None"
proof -
  let ?s = "issue_token Map.empty ''t'' 1 ''h'' [0 :: nat] 0"
  have "fst (consume_token ?s ''t'' inspect_ttl) \<noteq> None"
    by (simp add: consume_token_def issue_token_def sweep_def inspect_ttl_def Let_def)
  then show ?thesis
    using token_single_use [of ?s "''t''" inspect_ttl _ _ "[(IssueToken ''u'' 1 ''h'' [], 0)]" inspect_ttl]
    by (cases "consume_token ?s ''t'' inspect_ttl") auto
qed

end
