(* ===== verification/Robots.thy ===== *)
theory Robots
  imports Prelude
begin

text \<open>
  \<open>internal/crawler/robots.go\<close>: parsing robots.txt, choosing the group for our user agent,
  matching a path against its rules, and the per-host cache. URL parsing and the fetch of
  the file itself are arguments. Case mapping is that of ASCII letters. The pattern
  matcher is compared with a reference semantics of the pattern language, \<open>glob\<close>.
\<close>

section \<open>String functions of Go\<close>

fun split_on :: "char \<Rightarrow> string \<Rightarrow> string list" where
  \<comment> \<open>strings.Split with a one-byte separator\<close>
  "split_on c [] = [[]]"
| "split_on c (x # xs) =
     (if x = c then [] # split_on c xs
      else case split_on c xs of [] \<Rightarrow> [[x]] | y # ys \<Rightarrow> (x # y) # ys)"

definition cut_at :: "char \<Rightarrow> string \<Rightarrow> (string \<times> string) option" where
  \<comment> \<open>IndexByte and the two slices around the index\<close>
  "cut_at c s = (if c \<in> set s then Some (takeWhile (\<lambda>x. x \<noteq> c) s, tl (dropWhile (\<lambda>x. x \<noteq> c) s)) else None)"

fun str_index :: "string \<Rightarrow> string \<Rightarrow> nat option" where
  \<comment> \<open>strings.Index\<close>
  "str_index [] sub = (if sub = [] then Some 0 else None)"
| "str_index (c # s) sub = (if has_prefix (c # s) sub then Some 0 else map_option Suc (str_index s sub))"

section \<open>Parsing\<close>

record robots_rule =
  rr_disallow :: bool
  rr_pattern :: string

record robots_group =
  rg_agents :: "string list"
  rg_rules :: "robots_rule list"

definition product_token :: "string \<Rightarrow> string" where
  "product_token ua = takeWhile (\<lambda>c. c \<noteq> CHR ''/'' \<and> c \<noteq> CHR '' '') ua"

definition upd_last :: "('a \<Rightarrow> 'a) \<Rightarrow> 'a list \<Rightarrow> 'a list" where
  \<comment> \<open>the group the pointer current refers to is always the last one\<close>
  "upd_last f xs = (if xs = [] then [] else butlast xs @ [f (last xs)])"

definition add_rule :: "bool \<Rightarrow> string \<Rightarrow> robots_group list \<times> bool \<Rightarrow> robots_group list \<times> bool" where
  "add_rule disallow val st =
     (case st of (groups, started) \<Rightarrow>
        if groups = [] then (groups, started)
        else (if val \<noteq> []
              then upd_last (\<lambda>g. g\<lparr>rg_rules := rg_rules g @ [\<lparr>rr_disallow = disallow, rr_pattern = val\<rparr>]\<rparr>) groups
              else groups, True))"

definition robots_line :: "robots_group list \<times> bool \<Rightarrow> string \<Rightarrow> robots_group list \<times> bool" where
  "robots_line st raw =
     (case st of (groups, started) \<Rightarrow>
        let line = trim_space (takeWhile (\<lambda>c. c \<noteq> CHR ''#'') raw) in
        if line = [] then st
        else case cut_at (CHR '':'') line of
          None \<Rightarrow> st
        | Some (k, v) \<Rightarrow>
            let key = lower (trim_space k); val = trim_space v in
            if key = ''user-agent'' then
              (let (groups, started) = (if groups = [] \<or> started
                     then (groups @ [\<lparr>rg_agents = [], rg_rules = []\<rparr>], False) else (groups, started))
               in (upd_last (\<lambda>g. g\<lparr>rg_agents := rg_agents g @ [lower val]\<rparr>) groups, started))
            else if key = ''disallow'' then add_rule True val st
            else if key = ''allow'' then add_rule False val st
            else st)"

definition parse_robots_txt :: "string \<Rightarrow> robots_group list" where
  "parse_robots_txt body = fst (foldl robots_line ([], False) (split_on (CHR 0x0A) body))"

definition select_group :: "robots_group list \<Rightarrow> string \<Rightarrow> robots_group option" where
  "select_group groups ua =
     (case find (\<lambda>g. lower ua \<in> set (rg_agents g)) groups of
        Some g \<Rightarrow> Some g
      | None \<Rightarrow> find (\<lambda>g. ''*'' \<in> set (rg_agents g)) groups)"

section \<open>Matching\<close>

fun match_segs :: "bool \<Rightarrow> string list \<Rightarrow> string \<Rightarrow> string option" where
  \<comment> \<open>the loop over the segments: the flag is i = 0, the string is path[pos:]\<close>
  "match_segs first [] rest = Some rest"
| "match_segs first (seg # segs) rest =
     (if seg = [] then match_segs False segs rest
      else case str_index rest seg of
        None \<Rightarrow> None
      | Some idx \<Rightarrow>
          if first \<and> idx \<noteq> 0 then None
          else match_segs False segs (drop (idx + length seg) rest))"

definition path_matches :: "string \<Rightarrow> string \<Rightarrow> bool" where
  "path_matches pattern path =
     (let anchored = has_suffix pattern ''$''; p = (if anchored then butlast pattern else pattern) in
      if p = [] then \<not> anchored \<or> path = []
      else case match_segs True (split_on (CHR ''*'') p) path of
        None \<Rightarrow> False
      | Some rest \<Rightarrow> if anchored then rest = [] else True)"

definition match_step :: "string \<Rightarrow> int \<times> bool \<Rightarrow> robots_rule \<Rightarrow> int \<times> bool" where
  "match_step path st r =
     (case st of (best_len, best_disallow) \<Rightarrow>
        if \<not> path_matches (rr_pattern r) path then st
        else if int (length (rr_pattern r)) > best_len
          then (int (length (rr_pattern r)), rr_disallow r) else st)"

definition match_rules :: "robots_rule list \<Rightarrow> string \<Rightarrow> bool" where
  "match_rules rules path =
     (case foldl (match_step path) (- 1, False) rules of (best_len, best_disallow) \<Rightarrow>
        if best_len < 0 then True else \<not> best_disallow)"

section \<open>The cache\<close>

record parsed_url =
  pu_scheme :: string
  pu_host :: string
  pu_path :: string \<comment> \<open>EscapedPath\<close>

record robots_entry =
  re_rules :: "robots_rule list" \<comment> \<open>nil and empty both mean no restriction\<close>
  re_expires :: int

type_synonym robots_cache = "string \<rightharpoonup> robots_entry"

definition robots_ttl :: int where
  "robots_ttl = 24 * 60 * 60 * 1000000000"

definition fetch_robots_rules ::
    "(string \<Rightarrow> (int \<times> string) option) \<Rightarrow> string \<Rightarrow> string \<Rightarrow> robots_rule list" where
  \<comment> \<open>fetch answers the status code and the body, or None for an error\<close>
  "fetch_robots_rules fetch ua host_key =
     (case fetch (host_key @ ''/robots.txt'') of
        None \<Rightarrow> []
      | Some (status, body) \<Rightarrow>
          if status \<noteq> 200 then []
          else case select_group (parse_robots_txt body) (product_token ua) of
            None \<Rightarrow> [] | Some g \<Rightarrow> rg_rules g)"

definition get_rules ::
    "(string \<Rightarrow> (int \<times> string) option) \<Rightarrow> string \<Rightarrow> string \<Rightarrow> int \<Rightarrow> robots_cache \<Rightarrow> robots_rule list \<times> robots_cache" where
  "get_rules fetch ua host_key now c =
     (let miss = (let rules = fetch_robots_rules fetch ua host_key
                  in (rules, c(host_key \<mapsto> \<lparr>re_rules = rules, re_expires = now + robots_ttl\<rparr>)))
      in case c host_key of
           Some e \<Rightarrow> if now < re_expires e then (re_rules e, c) else miss
         | None \<Rightarrow> miss)"

definition robots_allowed ::
    "(string \<Rightarrow> parsed_url option) \<Rightarrow> (string \<Rightarrow> (int \<times> string) option) \<Rightarrow> string \<Rightarrow> string \<Rightarrow> int
      \<Rightarrow> robots_cache \<Rightarrow> bool \<times> robots_cache" where
  "robots_allowed parse fetch ua url now c =
     (case parse url of
        None \<Rightarrow> (True, c)
      | Some u \<Rightarrow>
          if pu_scheme u \<noteq> ''http'' \<and> pu_scheme u \<noteq> ''https'' then (True, c)
          else
            let (rules, c') = get_rules fetch ua (pu_scheme u @ ''://'' @ pu_host u) now c
            in (if rules = [] then True else match_rules rules (pu_path u), c'))"

section \<open>The pattern language\<close>

text \<open>
  The reference: a star stands for any sequence, every other character for itself, and the
  pattern must match the whole string. An unanchored pattern is one with a star at its end.
\<close>

fun glob :: "string \<Rightarrow> string \<Rightarrow> bool" where
  "glob [] s = (s = [])"
| "glob (c # p) s =
     (if c = CHR ''*'' then glob p s \<or> (case s of [] \<Rightarrow> False | x # s' \<Rightarrow> glob (c # p) s')
      else (case s of [] \<Rightarrow> False | x # s' \<Rightarrow> x = c \<and> glob p s'))"

definition robots_spec :: "string \<Rightarrow> string \<Rightarrow> bool" where
  "robots_spec pattern path =
     (if has_suffix pattern ''$'' then glob (butlast pattern) path else glob (pattern @ ''*'') path)"

lemma glob_star_iff: "glob (CHR ''*'' # p) s \<longleftrightarrow> (\<exists>w r. s = w @ r \<and> glob p r)"
proof (induction s)
  case (Cons x s)
  show ?case
  proof
    assume "glob (CHR ''*'' # p) (x # s)"
    then consider "glob p (x # s)" | "glob (CHR ''*'' # p) s" by auto
    then show "\<exists>w r. x # s = w @ r \<and> glob p r"
    proof cases
      case 2
      then obtain w r where "s = w @ r" "glob p r" using Cons.IH by blast
      then have "x # s = (x # w) @ r" by simp
      then show ?thesis using \<open>glob p r\<close> by blast
    qed (use append_Nil in blast)
  next
    assume "\<exists>w r. x # s = w @ r \<and> glob p r"
    then obtain w r where wr: "x # s = w @ r" "glob p r" by blast
    show "glob (CHR ''*'' # p) (x # s)"
    proof (cases w)
      case (Cons y ys)
      then have "s = ys @ r" using wr(1) by simp
      then show ?thesis using Cons.IH wr(2) by auto
    qed (use wr in auto)
  qed
qed auto

lemma glob_literal:
  "CHR ''*'' \<notin> set lit \<Longrightarrow> glob (lit @ p) s \<longleftrightarrow> (\<exists>r. s = lit @ r \<and> glob p r)"
proof (induction lit arbitrary: s)
  case (Cons c lit)
  then show ?case by (cases s) auto
qed simp

fun any_segs :: "string list \<Rightarrow> string \<Rightarrow> bool" where
  \<comment> \<open>the segments occur in this order without overlap\<close>
  "any_segs [] s = True"
| "any_segs (seg # segs) s = (\<exists>w r. s = w @ seg @ r \<and> any_segs segs r)"

lemma any_segs_suffix: "any_segs segs r \<Longrightarrow> any_segs segs (w @ r)"
proof (cases segs)
  case (Cons seg segs')
  assume "any_segs segs r"
  then obtain v t where "r = v @ seg @ t" "any_segs segs' t" using Cons by auto
  then have "w @ r = (w @ v) @ seg @ t" by simp
  then show ?thesis
    unfolding Cons any_segs.simps using \<open>any_segs segs' t\<close> by (intro exI [of _ "w @ v"] exI [of _ t] conjI)
qed simp

lemma any_segs_empty: "any_segs ([] # segs) s = any_segs segs s"
  using any_segs_suffix by auto

lemma str_index_Some:
  "str_index s sub = Some i \<Longrightarrow> \<exists>w. length w = i \<and> s = w @ sub @ drop (i + length sub) s"
proof (induction s arbitrary: i)
  case (Cons c s)
  show ?case
  proof (cases "has_prefix (c # s) sub")
    case True
    then show ?thesis using Cons.prems by (auto simp: has_prefix_iff)
  next
    case False
    then obtain j where j: "str_index s sub = Some j" "i = Suc j" using Cons.prems by auto
    then obtain w where "length w = j" "s = w @ sub @ drop (j + length sub) s" using Cons.IH by blast
    then show ?thesis using j by (intro exI [of _ "c # w"]) simp
  qed
qed (auto split: if_splits)

lemma str_index_leftmost:
  "\<exists>i. str_index (w @ sub @ r) sub = Some i \<and> i \<le> length w"
proof (induction w)
  case Nil
  show ?case
  proof (cases "sub @ r")
    case (Cons c t)
    moreover have "has_prefix (sub @ r) sub" by (simp add: has_prefix_def)
    ultimately show ?thesis by simp
  qed simp
qed auto

lemma match_segs_any: "match_segs False segs s \<noteq> None \<longleftrightarrow> any_segs segs s"
proof (induction segs arbitrary: s)
  case (Cons seg segs)
  show ?case
  proof (cases "seg = []")
    case False
    show ?thesis
    proof
      assume "match_segs False (seg # segs) s \<noteq> None"
      then obtain i where i: "str_index s seg = Some i"
        "match_segs False segs (drop (i + length seg) s) \<noteq> None"
        using False by (auto split: option.splits)
      then show "any_segs (seg # segs) s" using str_index_Some [OF i(1)] Cons.IH by auto
    next
      assume "any_segs (seg # segs) s"
      then obtain w r where wr: "s = w @ seg @ r" "any_segs segs r" by auto
      then obtain i where i: "str_index s seg = Some i" "i \<le> length w"
        using str_index_leftmost by blast
      have "drop (i + length seg) s = drop (i + length seg) (w @ seg) @ r" using wr i by simp
      then have "any_segs segs (drop (i + length seg) s)" using any_segs_suffix wr(2) by simp
      then show "match_segs False (seg # segs) s \<noteq> None" using i False Cons.IH by simp
    qed
  qed (use Cons.IH any_segs_empty in auto)
qed simp

text \<open>The reference semantics of a pattern, read off its segments.\<close>

lemma split_on_nonempty: "split_on c s \<noteq> []"
  by (induction s) (auto split: list.splits)

lemma split_on_cons:
  "split_on c (x # xs) =
     (if x = c then [] # split_on c xs else (x # hd (split_on c xs)) # tl (split_on c xs))"
  using split_on_nonempty [of c xs] by (auto split: list.splits)

lemma glob_split:
  "glob (p @ ''*'') s \<longleftrightarrow>
     (\<exists>r. s = hd (split_on (CHR ''*'') p) @ r \<and> any_segs (tl (split_on (CHR ''*'') p)) r)"
proof (induction p arbitrary: s)
  case Nil
  show ?case using glob_star_iff [of "[]" s] by auto
next
  case (Cons c p)
  show ?case
  proof (cases "c = CHR ''*''")
    case True
    have segs: "split_on (CHR ''*'') p = hd (split_on (CHR ''*'') p) # tl (split_on (CHR ''*'') p)"
      using split_on_nonempty by (metis list.collapse)
    have "glob ((c # p) @ ''*'') s \<longleftrightarrow> (\<exists>w r. s = w @ r \<and> glob (p @ ''*'') r)"
      unfolding True append_Cons by (rule glob_star_iff)
    also have "\<dots> \<longleftrightarrow> any_segs (split_on (CHR ''*'') p) s"
      by (subst segs) (auto simp: Cons.IH)
    finally show ?thesis using True by simp
  next
    case False
    then show ?thesis by (cases s) (auto simp: Cons.IH split_on_cons simp del: split_on.simps)
  qed
qed

lemma match_segs_first:
  "match_segs True (seg # segs) s \<noteq> None \<longleftrightarrow> (\<exists>r. s = seg @ r \<and> any_segs segs r)"
proof (cases "seg = []")
  case False
  show ?thesis
  proof
    assume "match_segs True (seg # segs) s \<noteq> None"
    then have "str_index s seg = Some 0" "match_segs False segs (drop (length seg) s) \<noteq> None"
      using False by (auto split: option.splits if_splits)
    then show "\<exists>r. s = seg @ r \<and> any_segs segs r"
      using str_index_Some [of s seg 0] match_segs_any by auto
  next
    assume "\<exists>r. s = seg @ r \<and> any_segs segs r"
    then obtain r where r: "s = seg @ r" "any_segs segs r" by blast
    then have "str_index s seg = Some 0" using str_index_leftmost [of "[]" seg r] by simp
    then show "match_segs True (seg # segs) s \<noteq> None" using r False match_segs_any [of segs r] by simp
  qed
qed (use match_segs_any [of segs s] in simp)

lemma match_segs_glob: "match_segs True (split_on (CHR ''*'') p) s \<noteq> None \<longleftrightarrow> glob (p @ ''*'') s"
proof -
  have segs: "split_on (CHR ''*'') p = hd (split_on (CHR ''*'') p) # tl (split_on (CHR ''*'') p)"
    using split_on_nonempty by (metis list.collapse)
  show ?thesis by (subst segs) (simp only: match_segs_first glob_split)
qed

lemma glob_nil_star: "glob ''*'' s"
  using glob_star_iff [of "[]" s] by auto

text \<open>
  C37. An unanchored pattern (no trailing dollar sign) is matched exactly as the pattern language
  says: searching each segment at its leftmost position loses no match.
\<close>

theorem unanchored_is_glob:
  assumes "\<not> has_suffix pattern ''$''"
  shows "path_matches pattern path \<longleftrightarrow> robots_spec pattern path"
proof (cases "pattern = []")
  case True
  then show ?thesis using assms glob_nil_star by (simp add: path_matches_def robots_spec_def Let_def)
next
  case False
  then show ?thesis
    using assms match_segs_glob [of pattern path]
    by (auto simp: path_matches_def robots_spec_def Let_def split: option.splits)
qed

theorem unanchored_is_glob_witness:
  "path_matches ''/a*b'' ''/axxbc'' \<and> robots_spec ''/a*b'' ''/axxbc''"
proof -
  have "\<not> has_suffix ''/a*b'' ''$''" by code_simp
  note iff = unanchored_is_glob [OF this, of "''/axxbc''"]
  have "path_matches ''/a*b'' ''/axxbc''" by code_simp
  from this iffD1 [OF iff this] show ?thesis by (rule conjI)
qed

text \<open>
  With a trailing dollar sign the matcher is sound, and exact when the pattern has no star. With
  a star it can miss a match, because the last segment is searched at its leftmost
  position and not at the end of the path.
\<close>

fun end_segs :: "string list \<Rightarrow> string \<Rightarrow> bool" where
  \<comment> \<open>the segments occur in this order without overlap and nothing follows the last one\<close>
  "end_segs [] s = (s = [])"
| "end_segs (seg # segs) s = (\<exists>w r. s = w @ seg @ r \<and> end_segs segs r)"

lemma glob_split_end:
  "glob p s \<longleftrightarrow>
     (\<exists>r. s = hd (split_on (CHR ''*'') p) @ r \<and> end_segs (tl (split_on (CHR ''*'') p)) r)"
proof (induction p arbitrary: s)
  case (Cons c p)
  show ?case
  proof (cases "c = CHR ''*''")
    case True
    have segs: "split_on (CHR ''*'') p = hd (split_on (CHR ''*'') p) # tl (split_on (CHR ''*'') p)"
      using split_on_nonempty by (metis list.collapse)
    have "glob (c # p) s \<longleftrightarrow> (\<exists>w r. s = w @ r \<and> glob p r)"
      unfolding True by (rule glob_star_iff)
    also have "\<dots> \<longleftrightarrow> end_segs (split_on (CHR ''*'') p) s"
      by (subst segs) (auto simp: Cons.IH)
    finally show ?thesis using True by simp
  next
    case False
    then show ?thesis by (cases s) (auto simp: Cons.IH split_on_cons simp del: split_on.simps)
  qed
qed simp

lemma match_segs_end: "match_segs False segs s = Some [] \<Longrightarrow> end_segs segs s"
proof (induction segs arbitrary: s)
  case (Cons seg segs)
  show ?case
  proof (cases "seg = []")
    case True
    then have "end_segs segs s" using Cons by simp
    then show ?thesis unfolding True end_segs.simps by (intro exI [of _ "[]"] exI [of _ s]) simp
  next
    case False
    then obtain i where i: "str_index s seg = Some i"
      "match_segs False segs (drop (i + length seg) s) = Some []"
      using Cons.prems by (auto split: option.splits)
    show ?thesis using str_index_Some [OF i(1)] Cons.IH [OF i(2)] by auto
  qed
qed simp

lemma match_segs_first_end:
  assumes "match_segs True (seg # segs) s = Some []"
  shows "\<exists>r. s = seg @ r \<and> end_segs segs r"
proof (cases "seg = []")
  case False
  then have "str_index s seg = Some 0" "match_segs False segs (drop (length seg) s) = Some []"
    using assms by (auto split: option.splits if_splits)
  then show ?thesis using str_index_Some [of s seg 0] match_segs_end by auto
qed (use assms match_segs_end in auto)

text \<open>
  An anchored pattern never matches a path outside its language: whenever the matcher says yes
  the reference semantics agrees.
\<close>

theorem anchored_sound:
  assumes "path_matches pattern path"
  shows "robots_spec pattern path"
proof (cases "has_suffix pattern ''$''")
  case True
  define p where "p = butlast pattern"
  have segs: "split_on (CHR ''*'') p = hd (split_on (CHR ''*'') p) # tl (split_on (CHR ''*'') p)"
    using split_on_nonempty by (metis list.collapse)
  have "glob p path"
  proof (cases "p = []")
    case False
    then have "match_segs True (split_on (CHR ''*'') p) path = Some []"
      using assms True by (auto simp: path_matches_def p_def Let_def split: option.splits)
    then have "match_segs True (hd (split_on (CHR ''*'') p) # tl (split_on (CHR ''*'') p)) path = Some []"
      using segs by simp
    then show ?thesis unfolding glob_split_end by (rule match_segs_first_end)
  qed (use assms True in \<open>simp add: path_matches_def p_def Let_def\<close>)
  then show ?thesis using True by (simp add: robots_spec_def p_def)
next
  case False
  then show ?thesis using assms match_segs_glob [of pattern path] glob_nil_star
    by (cases "pattern = []") (auto simp: path_matches_def robots_spec_def Let_def split: option.splits)
qed

theorem anchored_sound_witness: "robots_spec ''/a*b$'' ''/axxb''"
proof (rule anchored_sound)
  show "path_matches ''/a*b$'' ''/axxb''" by code_simp
qed

text \<open>
  The converse fails for anchored patterns with a star: these two paths are in the language
  of their pattern and are not matched, so a Disallow rule of that form does not apply to them.
\<close>

theorem anchored_misses:
  "robots_spec ''/*.php$'' ''/a.php/b.php'' \<and> \<not> path_matches ''/*.php$'' ''/a.php/b.php''
    \<and> robots_spec ''/foo*$'' ''/foobar'' \<and> \<not> path_matches ''/foo*$'' ''/foobar''
    \<and> match_rules [\<lparr>rr_disallow = True, rr_pattern = ''/*.php$''\<rparr>] ''/a.php/b.php''"
  by (intro conjI; code_simp)

section \<open>The longest match\<close>

definition first_max :: "robots_rule list \<Rightarrow> robots_rule option" where
  \<comment> \<open>the first rule that no rule of the list is longer than\<close>
  "first_max ms = find (\<lambda>r. \<forall>q \<in> set ms. length (rr_pattern q) \<le> length (rr_pattern r)) ms"

definition longest_match :: "robots_rule list \<Rightarrow> string \<Rightarrow> robots_rule option" where
  "longest_match rules path = first_max (filter (\<lambda>r. path_matches (rr_pattern r) path) rules)"

lemma first_max_None: "first_max ms = None \<longleftrightarrow> ms = []"
proof
  assume none: "first_max ms = None"
  show "ms = []"
  proof (rule ccontr)
    assume ne: "ms \<noteq> []"
    let ?m = "Max ((\<lambda>r. length (rr_pattern r)) ` set ms)"
    have "?m \<in> (\<lambda>r. length (rr_pattern r)) ` set ms" using ne by (intro Max_in) auto
    then obtain r where r: "r \<in> set ms" "length (rr_pattern r) = ?m" by auto
    moreover have "length (rr_pattern q) \<le> ?m" if "q \<in> set ms" for q using that by (intro Max_ge) auto
    ultimately show False using none unfolding first_max_def find_None_iff by fastforce
  qed
qed (simp add: first_max_def)

lemma first_max_Some:
  "first_max ms = Some b \<Longrightarrow> b \<in> set ms \<and> (\<forall>q \<in> set ms. length (rr_pattern q) \<le> length (rr_pattern b))"
  unfolding first_max_def by (drule find_Some_iff_in) simp

lemma find_append: "find P (xs @ ys) = (case find P xs of None \<Rightarrow> find P ys | Some x \<Rightarrow> Some x)"
  by (induction xs) auto

lemma find_cong_in: "(\<And>x. x \<in> set xs \<Longrightarrow> P x = Q x) \<Longrightarrow> find P xs = find Q xs"
  by (induction xs) auto

lemma first_max_snoc:
  "first_max (ms @ [r]) =
     (case first_max ms of
        None \<Rightarrow> Some r
      | Some b \<Rightarrow> if length (rr_pattern b) < length (rr_pattern r) then Some r else Some b)"
proof (cases "first_max ms")
  case None
  then show ?thesis by (simp add: first_max_None) (simp add: first_max_def)
next
  case (Some b)
  let ?P = "\<lambda>ms r. \<forall>q \<in> set ms. length (rr_pattern q) \<le> length (rr_pattern r)"
  note b = first_max_Some [OF Some]
  show ?thesis
  proof (cases "length (rr_pattern b) < length (rr_pattern r)")
    case True
    have "find (?P (ms @ [r])) ms = None"
      using b True unfolding find_None_iff by fastforce
    moreover have "?P (ms @ [r]) r" using b True by fastforce
    ultimately show ?thesis using Some True unfolding first_max_def find_append by simp
  next
    case False
    have "find (?P (ms @ [r])) ms = find (?P ms) ms"
      by (rule find_cong_in) (use b False in fastforce)
    then show ?thesis using Some False unfolding first_max_def find_append by simp
  qed
qed

lemma foldl_match_step:
  "foldl (match_step path) (- 1, False) rules =
     (case longest_match rules path of
        None \<Rightarrow> (- 1, False)
      | Some b \<Rightarrow> (int (length (rr_pattern b)), rr_disallow b))"
proof (induction rules rule: rev_induct)
  case Nil
  then show ?case by (simp add: longest_match_def first_max_def)
next
  case (snoc r rules)
  then show ?case
    by (auto simp: match_step_def longest_match_def first_max_snoc split: option.splits)
qed

text \<open>
  The loop over the rules decides by the longest matching pattern, the first one among equals,
  and allows the path when no pattern matches.
\<close>

theorem match_rules_longest:
  "match_rules rules path =
     (case longest_match rules path of None \<Rightarrow> True | Some r \<Rightarrow> \<not> rr_disallow r)"
  by (simp add: match_rules_def foldl_match_step split: option.splits)

section \<open>The cache\<close>

lemma get_rules_miss:
  "c key = None \<Longrightarrow>
     get_rules fetch ua key now c =
       (fetch_robots_rules fetch ua key,
        c(key \<mapsto> \<lparr>re_rules = fetch_robots_rules fetch ua key, re_expires = now + robots_ttl\<rparr>))"
  by (simp add: get_rules_def Let_def)

lemma get_rules_hit:
  "c key = Some e \<Longrightarrow> now < re_expires e \<Longrightarrow> get_rules fetch ua key now c = (re_rules e, c)"
  by (simp add: get_rules_def Let_def)

text \<open>
  The rules learned for a host are used unchanged for 24 hours: any later request to the host
  in that time decides by them, whatever the host would answer by then, and
  leaves the cache as it is. An error or a status other than 200 is cached in the same
  way, as no restriction.
\<close>

theorem robots_cached_for_a_day:
  assumes "get_rules fetch ua key now c = (rules, c')" "c key = None"
    and "now \<le> later" "later < now + robots_ttl"
  shows "get_rules fetch' ua' key later c' = (rules, c')
     \<and> ((case fetch (key @ ''/robots.txt'') of None \<Rightarrow> True | Some (status, body) \<Rightarrow> status \<noteq> 200)
        \<longrightarrow> rules = [])"
proof -
  have "rules = fetch_robots_rules fetch ua key"
    "c' = c(key \<mapsto> \<lparr>re_rules = rules, re_expires = now + robots_ttl\<rparr>)"
    using assms(1) get_rules_miss [of c key fetch ua now, OF assms(2)] by auto
  then show ?thesis using assms(4) get_rules_hit [of c' key]
    by (auto simp: fetch_robots_rules_def split: option.splits)
qed

definition sample_robots :: "string \<Rightarrow> (int \<times> string) option" where
  "sample_robots url =
     (if url = ''https://a.jp/robots.txt'' then
        Some (200, ''User-agent: *'' @ [CHR 0x0A] @ ''Disallow: /private'' @ [CHR 0x0A] @ ''Allow: /private/ok'')
      else None)"

theorem robots_cached_for_a_day_witness:
  "\<exists>rules c. get_rules sample_robots ''feedla/0.1'' ''https://a.jp'' 5 Map.empty = (rules, c)
     \<and> length rules = 2
     \<and> get_rules (\<lambda>_. None) ''feedla/0.2'' ''https://a.jp'' 86400 c = (rules, c)"
proof -
  obtain rules c where get: "get_rules sample_robots ''feedla/0.1'' ''https://a.jp'' 5 Map.empty = (rules, c)"
    by (rule prod.exhaust)
  have "length (fst (get_rules sample_robots ''feedla/0.1'' ''https://a.jp'' 5 Map.empty)) = 2"
    by code_simp
  then have len: "length rules = 2" by (simp add: get)
  have "get_rules (\<lambda>_. None) ''feedla/0.2'' ''https://a.jp'' 86400 c = (rules, c)"
    using robots_cached_for_a_day [OF get, of 86400 "\<lambda>_. None" "''feedla/0.2''"]
    by (simp add: robots_ttl_def)
  with get len show ?thesis by (intro exI [of _ rules] exI [of _ c] conjI)
qed

text \<open>
  A longer Allow inside a disallowed directory wins; the group of our own product token is
  preferred to the wildcard group.
\<close>

lemma robots_allowed_samples:
  "match_rules (fetch_robots_rules sample_robots ''feedla/0.1'' ''https://a.jp'') ''/private/ok/1''"
  "\<not> match_rules (fetch_robots_rules sample_robots ''feedla/0.1'' ''https://a.jp'') ''/private/x''"
  by code_simp+

end
