(* ===== verification/Backoff.thy ===== *)
theory Backoff
  imports Prelude
begin

text \<open>
  \<open>internal/crawler/backoff.go\<close>: how the interval between two fetches of a feed adapts.
  Durations are int64 nanoseconds, kept as integers: the shift and the sum of the error path wrap
  as Go's do (\<open>wrap64\<close>), and the product with 0.7 or 1.3 is the IEEE double one,
  rounded to 53 significant bits, ties to even (\<open>round53\<close>), then truncated. The jitter, a
  random number below one minute, is an argument.
\<close>

section \<open>Machine arithmetic\<close>

definition wrap64 :: "int \<Rightarrow> int" where
  \<comment> \<open>the int64 value of an integer\<close>
  "wrap64 x = (x + 2 ^ 63) mod 2 ^ 64 - 2 ^ 63"

lemma wrap64_id: "- (2 ^ 63) \<le> x \<Longrightarrow> x < 2 ^ 63 \<Longrightarrow> wrap64 x = x"
  by (simp add: wrap64_def)

lemma wrap64_range: "- (2 ^ 63) \<le> wrap64 x \<and> wrap64 x < 2 ^ 63"
  using pos_mod_bound [of "2 ^ 64 :: int" "x + 2 ^ 63"] pos_mod_sign [of "2 ^ 64 :: int" "x + 2 ^ 63"]
  unfolding wrap64_def by simp

function halvings :: "int \<Rightarrow> nat" where
  \<comment> \<open>how many low bits do not fit into the 53 of a double\<close>
  "halvings n = (if n < 2 ^ 53 then 0 else Suc (halvings (n div 2)))"
  by pat_completeness auto
termination
  by (relation "measure nat") auto

declare halvings.simps [simp del]

definition round53 :: "int \<Rightarrow> int" where
  \<comment> \<open>the double nearest to a natural number, ties to even\<close>
  "round53 n =
     (let k = halvings n; q = n div 2 ^ k; r = n mod 2 ^ k in
      (q + of_bool (2 ^ k < 2 * r \<or> (2 ^ k = 2 * r \<and> odd q))) * 2 ^ k)"

lemma halvings_small: "n < 2 ^ 53 \<Longrightarrow> halvings n = 0"
  by (simp add: halvings.simps)

lemma halvings_le: "0 < halvings n \<Longrightarrow> 2 ^ 52 * 2 ^ halvings n \<le> n"
proof (induction n rule: halvings.induct)
  case (1 n)
  then have n: "\<not> n < 2 ^ 53" by (auto simp: halvings_small)
  then have h: "halvings n = Suc (halvings (n div 2))" by (subst halvings.simps) simp
  show ?case
  proof (cases "halvings (n div 2) = 0")
    case True
    then show ?thesis using n h by simp
  next
    case False
    then have "2 ^ 52 * 2 ^ halvings (n div 2) \<le> n div 2" using 1 n by simp
    then have "2 ^ 52 * 2 ^ halvings (n div 2) * 2 \<le> n" by linarith
    then show ?thesis using h by (simp add: mult.assoc mult.commute)
  qed
qed

lemma round53_exact: "n < 2 ^ 53 \<Longrightarrow> round53 n = n"
  by (simp add: round53_def halvings_small)

lemma round53_error:
  assumes "0 \<le> n"
  shows "2 ^ 53 * \<bar>round53 n - n\<bar> \<le> n"
proof (cases "halvings n = 0")
  case True
  then show ?thesis using assms by (simp add: round53_def)
next
  case False
  define K q r where "K = (2::int) ^ halvings n" and "q = n div K" and "r = n mod K"
  have n: "n = q * K + r" by (simp add: q_def r_def)
  have r: "0 \<le> r" "r < K" by (simp_all add: r_def K_def)
  have "round53 n = q * K + (if K < 2 * r \<or> (K = 2 * r \<and> odd q) then K else 0)"
    unfolding round53_def Let_def K_def [symmetric] q_def [symmetric] r_def [symmetric]
    by (simp add: distrib_right)
  then have "2 * \<bar>round53 n - n\<bar> \<le> K" using n r by (auto simp: abs_if)
  moreover have "2 ^ 52 * K \<le> n" using halvings_le [of n] False by (simp add: K_def)
  ultimately show ?thesis by simp
qed

definition go_scale :: "int \<Rightarrow> int \<Rightarrow> nat \<Rightarrow> int" where
  \<comment> \<open>time.Duration(float64(d) * f) for the double f = m / 2 ^ e\<close>
  "go_scale d m e = sgn d * (round53 (round53 \<bar>d\<bar> * m) div 2 ^ e)"

section \<open>The intervals\<close>

definition ns_sec :: int where
  "ns_sec = 1000000000"

definition default_min_interval :: int where
  "default_min_interval = 10 * 60 * ns_sec"

definition default_max_interval :: int where
  "default_max_interval = 12 * 3600 * ns_sec"

definition max_err_interval :: int where
  "max_err_interval = 24 * 3600 * ns_sec"

definition clamp_duration :: "int \<Rightarrow> int \<Rightarrow> int \<Rightarrow> int" where
  "clamp_duration d lo hi = (if d < lo then lo else if hi < d then hi else d)"

definition next_interval_on_success :: "int \<Rightarrow> bool \<Rightarrow> int \<Rightarrow> int \<Rightarrow> int" where
  "next_interval_on_success current new_entries min_i max_i =
     (let current = (if current \<le> 0 then min_i else current) in
      clamp_duration
        (if new_entries then go_scale current 6305039478318694 53 \<comment> \<open>the double 0.7\<close>
         else go_scale current 5854679515581645 52) \<comment> \<open>the double 1.3\<close>
        min_i max_i)"

definition next_interval_on_error :: "int \<Rightarrow> int \<Rightarrow> int \<Rightarrow> int \<Rightarrow> int \<Rightarrow> int" where
  "next_interval_on_error jitter current error_count_after retry_after min_i =
     (if 0 < retry_after then clamp_duration retry_after 0 max_err_interval
      else
        let current = (if current \<le> 0 then min_i else current);
            shift = (if 8 < error_count_after then 8 else if error_count_after < 0 then 0 else error_count_after);
            backoff = wrap64 (current * 2 ^ nat shift)
        in clamp_duration (wrap64 (backoff + jitter)) min_i max_err_interval)"

lemma clamp_bounds: "lo \<le> hi \<Longrightarrow> lo \<le> clamp_duration d lo hi \<and> clamp_duration d lo hi \<le> hi"
  by (simp add: clamp_duration_def)

lemma clamp_mono: "a \<le> b \<Longrightarrow> lo \<le> hi \<Longrightarrow> clamp_duration a lo hi \<le> clamp_duration b lo hi"
  by (simp add: clamp_duration_def)

lemma clamp_id: "lo \<le> d \<Longrightarrow> d \<le> hi \<Longrightarrow> clamp_duration d lo hi = d"
  by (simp add: clamp_duration_def)

lemma go_scale_shrink:
  assumes "0 < d" "d < 2 ^ 53"
  shows "\<bar>10 * go_scale d 6305039478318694 53 - 7 * d\<bar> \<le> 20"
proof -
  let ?P = "d * 6305039478318694"
  let ?R = "round53 ?P"
  have err: "2 ^ 53 * \<bar>?R - ?P\<bar> \<le> ?P" using assms by (intro round53_error) simp
  have "?P \<le> 2 ^ 53 * 6305039478318694" using assms by simp
  then have close: "\<bar>?R - ?P\<bar> \<le> 6305039478318694" using err by simp
  have val: "go_scale d 6305039478318694 53 = ?R div 2 ^ 53"
    using assms by (simp add: go_scale_def round53_exact)
  have "2 ^ 53 * (?R div 2 ^ 53) \<le> ?R" "?R < 2 ^ 53 * (?R div 2 ^ 53) + 2 ^ 53"
    by (simp_all add: algebra_simps)
  then show ?thesis unfolding val using close assms by simp
qed

lemma go_scale_grow:
  assumes "0 < d" "d < 2 ^ 53"
  shows "\<bar>10 * go_scale d 5854679515581645 52 - 13 * d\<bar> \<le> 30"
proof -
  let ?P = "d * 5854679515581645"
  let ?R = "round53 ?P"
  have err: "2 ^ 53 * \<bar>?R - ?P\<bar> \<le> ?P" using assms by (intro round53_error) simp
  have "?P \<le> 2 ^ 53 * 5854679515581645" using assms by simp
  then have close: "\<bar>?R - ?P\<bar> \<le> 5854679515581645" using err by simp
  have val: "go_scale d 5854679515581645 52 = ?R div 2 ^ 52"
    using assms by (simp add: go_scale_def round53_exact)
  have "2 ^ 52 * (?R div 2 ^ 52) \<le> ?R" "?R < 2 ^ 52 * (?R div 2 ^ 52) + 2 ^ 52"
    by (simp_all add: algebra_simps)
  then show ?thesis unfolding val using close assms by simp
qed

text \<open>
  The interval after a successful fetch stays within the configured bounds. Where the double
  arithmetic is exact enough (intervals below 2 to the 53 nanoseconds, 104 days) new
  entries never lengthen it, a fetch without any never shortens it, and short of the bounds
  it is 0.7 or 1.3 times the old one to within three nanoseconds.
\<close>

theorem success_adapts:
  assumes "ns_sec \<le> min_i" "min_i \<le> current" "current \<le> max_i" "max_i < 2 ^ 53"
  defines "shorter \<equiv> next_interval_on_success current True min_i max_i"
    and "longer \<equiv> next_interval_on_success current False min_i max_i"
  shows "min_i \<le> shorter \<and> shorter \<le> current \<and> current \<le> longer \<and> longer \<le> max_i
     \<and> (shorter = min_i \<or> \<bar>10 * shorter - 7 * current\<bar> \<le> 20)
     \<and> (longer = max_i \<or> \<bar>10 * longer - 13 * current\<bar> \<le> 30)"
proof -
  have d: "0 < current" "current < 2 ^ 53" "100 \<le> current" using assms by (simp_all add: ns_sec_def)
  have s: "shorter = clamp_duration (go_scale current 6305039478318694 53) min_i max_i"
    using d by (simp add: shorter_def next_interval_on_success_def)
  have l: "longer = clamp_duration (go_scale current 5854679515581645 52) min_i max_i"
    using d by (simp add: longer_def next_interval_on_success_def)
  show ?thesis
    using go_scale_shrink [OF d(1,2)] go_scale_grow [OF d(1,2)] d assms(2,3)
    unfolding s l clamp_duration_def by auto
qed

theorem success_adapts_witness:
  "next_interval_on_success (3600 * ns_sec) True default_min_interval default_max_interval \<le> 3600 * ns_sec
    \<and> 3600 * ns_sec \<le> next_interval_on_success (3600 * ns_sec) False default_min_interval default_max_interval"
  using success_adapts [of default_min_interval "3600 * ns_sec" default_max_interval]
  by (simp add: default_min_interval_def default_max_interval_def ns_sec_def)

lemma success_interval_samples:
  "next_interval_on_success (3600 * ns_sec) True default_min_interval default_max_interval = 2520 * ns_sec"
  "next_interval_on_success (3600 * ns_sec) False default_min_interval default_max_interval = 4680 * ns_sec"
  "next_interval_on_success 0 False default_min_interval default_max_interval = 780 * ns_sec"
  by code_simp+

section \<open>The error path\<close>

lemma next_error_exact:
  assumes "0 < current" "current \<le> max_err_interval" "0 \<le> jitter" "jitter < 60 * ns_sec" "0 \<le> n"
  shows "next_interval_on_error jitter current n 0 min_i =
    clamp_duration (current * 2 ^ nat (min n 8) + jitter) min_i max_err_interval"
proof -
  define f :: int where "f = 2 ^ nat (min n 8)"
  have "f \<le> 2 ^ 8" unfolding f_def by (rule power_increasing) auto
  moreover have "0 < f" by (simp add: f_def)
  moreover have "current * f \<le> max_err_interval * 2 ^ 8"
    by (intro mult_mono) (use assms calculation in auto)
  ultimately have "0 < current * f" "current * f \<le> 86400000000000 * 256"
    using assms by (auto simp: max_err_interval_def ns_sec_def)
  then have "wrap64 (current * f) = current * f" "wrap64 (current * f + jitter) = current * f + jitter"
    using assms by (simp_all add: wrap64_id ns_sec_def)
  moreover have "(if 8 < n then 8 else if n < 0 then 0 else n) = min n 8" using assms by auto
  ultimately show ?thesis
    using assms unfolding next_interval_on_error_def f_def Let_def by simp
qed

lemma error_bounds:
  assumes "0 < min_i" "min_i \<le> max_err_interval"
  shows "min_i \<le> next_interval_on_error jitter current n 0 min_i"
    "next_interval_on_error jitter current n 0 min_i \<le> max_err_interval"
  using assms by (auto simp: next_interval_on_error_def Let_def clamp_duration_def)

lemma error_at_least:
  assumes "0 < min_i" "min_i \<le> max_err_interval" "0 \<le> jitter" "jitter < 60 * ns_sec" "0 \<le> n"
    "0 < current" "current \<le> max_err_interval"
  shows "min max_err_interval (current * 2 ^ nat (min n 8)) \<le> next_interval_on_error jitter current n 0 min_i"
  unfolding next_error_exact [OF assms(6,7,3,4,5)] using assms by (simp add: clamp_duration_def)

text \<open>
  Without a Retry-After the interval after an error lies between the configured minimum and 24
  hours, whatever was stored before (a stored interval large enough to overflow the shift
  included); for a stored interval of at most 24 hours it is the doubled one: no
  overflow occurs.
\<close>

theorem error_backoff_bounds:
  fixes current :: int
  assumes "0 < min_i" "min_i \<le> max_err_interval" "0 \<le> jitter" "jitter < 60 * ns_sec" "0 \<le> n"
  defines "i \<equiv> next_interval_on_error jitter current n 0 min_i"
  shows "min_i \<le> i \<and> i \<le> max_err_interval
     \<and> (0 < current \<and> current \<le> max_err_interval \<longrightarrow>
          min max_err_interval (current * 2 ^ nat (min n 8)) \<le> i)"
  unfolding i_def
  by (intro conjI impI error_bounds error_at_least) (use assms in auto)

theorem error_backoff_bounds_witness:
  "next_interval_on_error 7 (600 * ns_sec) 3 0 default_min_interval = 4800 * ns_sec + 7
    \<and> 4800 * ns_sec \<le> next_interval_on_error 7 (600 * ns_sec) 3 0 default_min_interval"
proof -
  have "min max_err_interval (600 * ns_sec * 2 ^ nat (min 3 8))
      \<le> next_interval_on_error 7 (600 * ns_sec) 3 0 default_min_interval"
    using error_backoff_bounds [of default_min_interval 7 3 "600 * ns_sec"]
    by (simp add: default_min_interval_def max_err_interval_def ns_sec_def)
  moreover have "next_interval_on_error 7 (600 * ns_sec) 3 0 default_min_interval = 4800 * ns_sec + 7"
    by code_simp
  ultimately show ?thesis by (simp add: max_err_interval_def ns_sec_def)
qed

text \<open>
  The interval is stored on the feed, in whole seconds, and is the base of the next one, so
  consecutive failures compound: \<open>failures\<close> follows the stored interval through a list of them,
  each with its jitter.
\<close>

fun failures :: "int \<Rightarrow> int list \<Rightarrow> int \<Rightarrow> int \<Rightarrow> int" where
  "failures min_i [] errs stored = stored"
| "failures min_i (j # js) errs stored =
     failures min_i js (errs + 1)
       (next_interval_on_error j (stored * ns_sec) (errs + 1) 0 min_i div ns_sec)"

definition designed_backoff :: "int \<Rightarrow> nat \<Rightarrow> int" where
  \<comment> \<open>docs/DESIGN.md: base * 2 ^ min(error_count, 8), at most 24 hours\<close>
  "designed_backoff base n = min 86400 (base * 2 ^ min n 8)"

lemma error_step_secs:
  assumes "0 < s" "s \<le> 86400" "0 < min_i" "min_i \<le> max_err_interval" "0 \<le> j" "j < 60 * ns_sec" "0 \<le> n"
  defines "t \<equiv> next_interval_on_error j (s * ns_sec) n 0 min_i div ns_sec"
  shows "min 86400 (s * 2 ^ nat (min n 8)) \<le> t \<and> t \<le> 86400"
proof -
  have cur: "0 < s * ns_sec" "s * ns_sec \<le> max_err_interval"
    using assms by (simp_all add: ns_sec_def max_err_interval_def)
  have "min 86400 (s * 2 ^ nat (min n 8)) * ns_sec
      = min max_err_interval (s * ns_sec * 2 ^ nat (min n 8))"
    by (auto simp: min_def max_err_interval_def ns_sec_def)
  then have lo: "min 86400 (s * 2 ^ nat (min n 8)) * ns_sec
      \<le> next_interval_on_error j (s * ns_sec) n 0 min_i" using error_at_least [OF assms(3-7) cur] by simp
  have "next_interval_on_error j (s * ns_sec) n 0 min_i \<le> 86400 * ns_sec"
    using error_bounds(2) [OF assms(3,4)] by (simp add: max_err_interval_def ns_sec_def)
  then have "t \<le> 86400" unfolding t_def by (simp add: ns_sec_def)
  moreover have "min 86400 (s * 2 ^ nat (min n 8)) \<le> t"
    unfolding t_def using lo zdiv_mono1 [OF lo, of ns_sec] by (simp add: ns_sec_def)
  ultimately show ?thesis by simp
qed

lemma failures_at_least:
  assumes "0 < min_i" "min_i \<le> max_err_interval"
  shows "0 < s \<Longrightarrow> s \<le> 86400 \<Longrightarrow> (\<And>j. j \<in> set js \<Longrightarrow> 0 \<le> j \<and> j < 60 * ns_sec)
    \<Longrightarrow> c + length js \<le> 8
    \<Longrightarrow> min 86400 (s * 2 ^ (\<Sum>k\<leftarrow>[c..<c + length js]. Suc k)) \<le> failures min_i js (int c) s
      \<and> failures min_i js (int c) s \<le> 86400"
proof (induction js arbitrary: c s)
  case (Cons j js)
  define t where "t = next_interval_on_error j (s * ns_sec) (int (Suc c)) 0 min_i div ns_sec"
  have step: "min 86400 (s * 2 ^ Suc c) \<le> t" "t \<le> 86400"
    using error_step_secs [of s min_i j "int (Suc c)"] Cons.prems assms
    unfolding t_def by (auto simp: nat_add_distrib)
  have "0 < min 86400 (s * 2 ^ Suc c)" using Cons.prems(1) by simp
  then have "0 < t" using step by linarith
  then have IH: "min 86400 (t * 2 ^ (\<Sum>k\<leftarrow>[Suc c..<Suc c + length js]. Suc k))
      \<le> failures min_i js (int (Suc c)) t \<and> failures min_i js (int (Suc c)) t \<le> 86400"
    using Cons.prems step by (intro Cons.IH) auto
  define e where "e = (\<Sum>k\<leftarrow>[Suc c..<Suc c + length js]. Suc k)"
  have ups: "(\<Sum>k\<leftarrow>[c..<c + length (j # js)]. Suc k) = Suc c + e"
    by (simp add: upt_conv_Cons e_def del: upt_Suc)
  have one: "(1::int) \<le> 2 ^ e" by simp
  have "min 86400 (s * 2 ^ (Suc c + e)) \<le> min 86400 (t * 2 ^ e)"
  proof (cases "86400 \<le> s * 2 ^ Suc c")
    case True
    then have "86400 * 1 \<le> t * 2 ^ e" using step one by (intro mult_mono) auto
    then show ?thesis by simp
  next
    case False
    then have "s * 2 ^ Suc c * 2 ^ e \<le> t * 2 ^ e" using step by (intro mult_right_mono) auto
    then show ?thesis by (simp add: power_add mult.assoc min_le_iff_disj)
  qed
  with IH have "min 86400 (s * 2 ^ (Suc c + e)) \<le> failures min_i js (int (Suc c)) t"
    "failures min_i js (int (Suc c)) t \<le> 86400" unfolding e_def by linarith+
  moreover have "failures min_i (j # js) (int c) s = failures min_i js (int (Suc c)) t"
    by (simp add: t_def add.commute)
  ultimately show ?case unfolding ups by simp
qed simp

text \<open>
  C38. Because the stored interval is the base, the n-th consecutive failure (n at most eight) puts
  the interval at or above the starting one times 2 to the power 1 + 2 + ... + n, up to the
  cap of 24 hours, and not at 2 to the power n as the design document says: a feed fetched
  every ten minutes is at 80 instead of 40 minutes after two failures, and at the cap after
  four.
\<close>

theorem failures_compound:
  assumes "0 < min_i" "min_i \<le> max_err_interval" "0 < s" "s \<le> 86400"
    and "\<And>j. j \<in> set js \<Longrightarrow> 0 \<le> j \<and> j < 60 * ns_sec" "length js \<le> 8"
  shows "min 86400 (s * 2 ^ (length js * (length js + 1) div 2)) \<le> failures min_i js 0 s
    \<and> failures min_i js 0 s \<le> 86400
    \<and> failures default_min_interval [0, 0] 0 600 = 4800 \<and> designed_backoff 600 2 = 2400
    \<and> failures default_min_interval [0, 0, 0, 0] 0 600 = 86400 \<and> designed_backoff 600 4 = 9600"
proof -
  have "(\<Sum>k\<leftarrow>[0..<n]. Suc k) = n * (n + 1) div 2" for n
    by (induction n) auto
  then have "min 86400 (s * 2 ^ (length js * (length js + 1) div 2)) \<le> failures min_i js 0 s
    \<and> failures min_i js 0 s \<le> 86400"
    using failures_at_least [of min_i s js 0] assms by simp
  moreover have "failures default_min_interval [0, 0] 0 600 = 4800" by code_simp
  moreover have "designed_backoff 600 2 = 2400" by code_simp
  moreover have "failures default_min_interval [0, 0, 0, 0] 0 600 = 86400" by code_simp
  moreover have "designed_backoff 600 4 = 9600" by code_simp
  ultimately show ?thesis by (elim conjE) (intro conjI)
qed

theorem failures_compound_witness:
  "min 86400 (600 * 2 ^ 3) \<le> failures default_min_interval [5, 59] 0 600"
proof -
  have "0 < default_min_interval" "default_min_interval \<le> max_err_interval"
    "\<And>j. j \<in> set [5, 59] \<Longrightarrow> 0 \<le> j \<and> j < 60 * ns_sec"
    by (auto simp: default_min_interval_def max_err_interval_def ns_sec_def)
  from failures_compound [of default_min_interval 600 "[5, 59]", OF this(1,2) _ _ this(3)]
  show ?thesis by (simp del: failures.simps)
qed

text \<open>
  A Retry-After header always wins, also where it is shorter than the minimum interval: a
  server that answers 503 with Retry-After: 1 is asked again after one second.
\<close>

theorem retry_after_wins:
  assumes "0 < retry_after"
  shows "next_interval_on_error jitter current n retry_after min_i = min retry_after max_err_interval
    \<and> next_interval_on_error 0 (600 * ns_sec) 1 ns_sec default_min_interval = ns_sec
    \<and> ns_sec < default_min_interval"
  using assms by (auto simp: next_interval_on_error_def clamp_duration_def min_def
      max_err_interval_def default_min_interval_def ns_sec_def)

theorem retry_after_wins_witness:
  "next_interval_on_error 3 (600 * ns_sec) 1 (120 * ns_sec) default_min_interval = 120 * ns_sec"
  using retry_after_wins [of "120 * ns_sec" 3 "600 * ns_sec" 1 default_min_interval]
  by (simp add: ns_sec_def max_err_interval_def)

text \<open>
  A stored interval of some 417 days makes the shift by eight overflow; the sum is then
  negative and the interval is the minimum: the feed is asked more often the more it fails.
\<close>

lemma backoff_overflow_sample:
  "next_interval_on_error 0 (36028797018963968) 8 0 default_min_interval = default_min_interval"
  by code_simp

end
