(* ===== verification/Dialer.thy ===== *)
theory Dialer
  imports Prelude "HOL-Library.Word"
begin

unbundle bit_operations_syntax

text \<open>
  \<open>internal/crawler/dialer.go\<close>: the addresses a fetch may not connect to. An address is a
  list of bytes, as \<open>net.IP\<close> is a slice of them, four or sixteen long; the predicates of
  package net it uses are written out. Splitting the dial address and \<open>net.ParseIP\<close>
  are not modelled: the hook takes their result.
\<close>

type_synonym ip = "8 word list"

section \<open>Package net\<close>

definition ip_to4 :: "ip \<Rightarrow> ip option" where
  "ip_to4 ip =
     (if length ip = 4 then Some ip
      else if length ip = 16 \<and> take 10 ip = replicate 10 0 \<and> ip ! 10 = 0xff \<and> ip ! 11 = 0xff
        then Some (drop 12 ip) else None)"

definition v4_in_v6 :: "ip \<Rightarrow> ip" where
  "v4_in_v6 v4 = replicate 10 0 @ [0xff, 0xff] @ v4"

definition ip_to16 :: "ip \<Rightarrow> ip option" where
  "ip_to16 ip =
     (if length ip = 4 then Some (v4_in_v6 ip) else if length ip = 16 then Some ip else None)"

definition ip_equal :: "ip \<Rightarrow> ip \<Rightarrow> bool" where
  "ip_equal x y =
     (if length x = length y then x = y
      else if length x = 4 \<and> length y = 16 then y = v4_in_v6 x
      else if length x = 16 \<and> length y = 4 then x = v4_in_v6 y
      else False)"

definition is_loopback :: "ip \<Rightarrow> bool" where
  "is_loopback ip =
     (case ip_to4 ip of Some v4 \<Rightarrow> v4 ! 0 = 127 | None \<Rightarrow> ip_equal ip (replicate 15 0 @ [1]))"

definition is_private :: "ip \<Rightarrow> bool" where
  "is_private ip =
     (case ip_to4 ip of
        Some v4 \<Rightarrow> v4 ! 0 = 10 \<or> (v4 ! 0 = 172 \<and> v4 ! 1 AND 0xf0 = 16) \<or> (v4 ! 0 = 192 \<and> v4 ! 1 = 168)
      | None \<Rightarrow> length ip = 16 \<and> ip ! 0 AND 0xfe = 0xfc)"

definition is_link_local_unicast :: "ip \<Rightarrow> bool" where
  "is_link_local_unicast ip =
     (case ip_to4 ip of
        Some v4 \<Rightarrow> v4 ! 0 = 169 \<and> v4 ! 1 = 254
      | None \<Rightarrow> length ip = 16 \<and> ip ! 0 = 0xfe \<and> ip ! 1 AND 0xc0 = 0x80)"

definition is_link_local_multicast :: "ip \<Rightarrow> bool" where
  "is_link_local_multicast ip =
     (case ip_to4 ip of
        Some v4 \<Rightarrow> v4 ! 0 = 224 \<and> v4 ! 1 = 0 \<and> v4 ! 2 = 0
      | None \<Rightarrow> length ip = 16 \<and> ip ! 0 = 0xff \<and> ip ! 1 AND 0x0f = 0x02)"

definition is_multicast :: "ip \<Rightarrow> bool" where
  "is_multicast ip =
     (case ip_to4 ip of
        Some v4 \<Rightarrow> v4 ! 0 AND 0xf0 = 0xe0
      | None \<Rightarrow> length ip = 16 \<and> ip ! 0 = 0xff)"

definition is_unspecified :: "ip \<Rightarrow> bool" where
  "is_unspecified ip = (ip_equal ip (v4_in_v6 [0, 0, 0, 0]) \<or> ip_equal ip (replicate 16 0))"

definition net_contains :: "ip \<Rightarrow> nat \<Rightarrow> ip \<Rightarrow> bool" where
  \<comment> \<open>IPNet.Contains for a sixteen-byte network with a mask of whole bytes\<close>
  "net_contains net bytes ip =
     (let ip = (case ip_to4 ip of Some v4 \<Rightarrow> v4 | None \<Rightarrow> ip) in
      length ip = length net \<and> take bytes ip = take bytes net)"

section \<open>The dialer\<close>

definition is_cgnat :: "ip \<Rightarrow> bool" where
  "is_cgnat ip =
     (case ip_to4 ip of None \<Rightarrow> False | Some v4 \<Rightarrow> v4 ! 0 = 100 \<and> v4 ! 1 AND 0xc0 = 0x40)"

definition is_this_network :: "ip \<Rightarrow> bool" where
  "is_this_network ip = (case ip_to4 ip of None \<Rightarrow> False | Some v4 \<Rightarrow> v4 ! 0 = 0)"

definition nat64_net :: ip where
  "nat64_net = [0x00, 0x64, 0xff, 0x9b] @ replicate 12 0"

definition six_to_four_net :: ip where
  "six_to_four_net = [0x20, 0x02] @ replicate 14 0"

definition is_deprecated_v4_compatible :: "ip \<Rightarrow> bool" where
  "is_deprecated_v4_compatible ip16 = list_all (\<lambda>b. b = 0) (take 12 ip16)"

definition embedded_v4 :: "ip \<Rightarrow> ip option" where
  "embedded_v4 ip =
     (case ip_to16 ip of
        None \<Rightarrow> None
      | Some ip16 \<Rightarrow>
          if ip_to4 ip16 \<noteq> None then None
          else if net_contains nat64_net 12 ip16 then Some (drop 12 ip16)
          else if net_contains six_to_four_net 2 ip16 then Some (take 4 (drop 2 ip16))
          else if is_deprecated_v4_compatible ip16 then Some (drop 12 ip16)
          else None)"

definition blocked_directly :: "ip \<Rightarrow> bool" where
  "blocked_directly ip \<longleftrightarrow>
     is_loopback ip \<or> is_private ip \<or> is_link_local_unicast ip \<or> is_link_local_multicast ip
      \<or> is_unspecified ip \<or> is_multicast ip \<or> is_cgnat ip \<or> is_this_network ip"

lemma ip_to4_v6: "length v4 = 4 \<Longrightarrow> ip_to4 (v4_in_v6 v4) = Some v4"
  by (simp add: ip_to4_def v4_in_v6_def nth_append)

lemma embedded_v4_length: "embedded_v4 ip = Some v4 \<Longrightarrow> length ip = 16 \<and> length v4 = 4"
  by (auto simp: embedded_v4_def ip_to16_def ip_to4_v6 split: option.splits if_splits)

function is_blocked_ip :: "ip \<Rightarrow> bool" where
  "is_blocked_ip ip =
     (if blocked_directly ip then True
      else case embedded_v4 ip of Some v4 \<Rightarrow> is_blocked_ip v4 | None \<Rightarrow> False)"
  by pat_completeness auto
termination
  by (relation "measure length") (auto dest: embedded_v4_length)

declare is_blocked_ip.simps [simp del]

datatype dial_error = Bad_Address | Blocked_Address

definition dial_control :: "string option \<Rightarrow> (string \<Rightarrow> ip option) \<Rightarrow> dial_error option" where
  \<comment> \<open>the Control hook: host is the one SplitHostPort found, None when it failed\<close>
  "dial_control host parse_ip =
     (case host of
        None \<Rightarrow> Some Bad_Address
      | Some h \<Rightarrow> (case parse_ip h of
          None \<Rightarrow> Some Blocked_Address
        | Some ip \<Rightarrow> if is_blocked_ip ip then Some Blocked_Address else None))"

section \<open>Which addresses are blocked\<close>

definition v4_number :: "ip \<Rightarrow> nat" where
  "v4_number v4 = foldl (\<lambda>n b. n * 256 + unat b) 0 v4"

definition blocked_ranges :: "((nat \<times> nat \<times> nat \<times> nat) \<times> nat) list" where
  \<comment> \<open>in CIDR notation\<close>
  "blocked_ranges =
     [((0, 0, 0, 0), 8), ((10, 0, 0, 0), 8), ((100, 64, 0, 0), 10), ((127, 0, 0, 0), 8),
      ((169, 254, 0, 0), 16), ((172, 16, 0, 0), 12), ((192, 168, 0, 0), 16), ((224, 0, 0, 0), 4)]"

definition in_cidr :: "nat \<Rightarrow> (nat \<times> nat \<times> nat \<times> nat) \<times> nat \<Rightarrow> bool" where
  "in_cidr n r =
     (case r of ((a, b, c, d), len) \<Rightarrow>
        n div 2 ^ (32 - len) = (((a * 256 + b) * 256 + c) * 256 + d) div 2 ^ (32 - len))"

lemma and_high_bits: "(x :: nat) AND push_bit k (mask m) = push_bit k (take_bit m (drop_bit k x))"
  by (rule bit_eqI) (auto simp: bit_simps)

lemma byte_high_bits:
  fixes b :: "8 word"
  shows "unat b AND 240 = unat b div 16 * 16" "unat b AND 192 = unat b div 64 * 64"
proof -
  have lt: "unat b < 256" using unsigned_less [of b] by simp
  have "unat b AND push_bit 4 (mask 4) = unat b div 16 * 16"
    unfolding and_high_bits unfolding push_bit_eq_mult drop_bit_eq_div take_bit_eq_mod using lt by simp
  moreover have "unat b AND push_bit 6 (mask 2) = unat b div 64 * 64"
    unfolding and_high_bits unfolding push_bit_eq_mult drop_bit_eq_div take_bit_eq_mod using lt by simp
  ultimately show "unat b AND 240 = unat b div 16 * 16" "unat b AND 192 = unat b div 64 * 64"
    by (simp_all add: mask_eq_exp_minus_1 push_bit_eq_mult)
qed

lemma byte_masks:
  fixes b :: "8 word"
  shows "b AND 0xf0 = 16 \<longleftrightarrow> unat b div 16 = 1" "b AND 0xf0 = 0xe0 \<longleftrightarrow> unat b div 16 = 14"
    "b AND 0xc0 = 0x40 \<longleftrightarrow> unat b div 64 = 1"
  using byte_high_bits [of b] by (simp_all add: word_unat_eq_iff unsigned_and_eq)

lemma list4: "length xs = 4 \<Longrightarrow> \<exists>a b c d. xs = [a, b, c, d]"
  by (auto simp: numeral_eq_Suc length_Suc_conv)

lemma embedded_v4_of_v4: "length v4 = 4 \<Longrightarrow> embedded_v4 v4 = None"
  by (simp add: embedded_v4_def ip_to16_def ip_to4_v6)

lemma v4_parts:
  fixes a b c d :: "8 word"
  defines "n \<equiv> v4_number [a, b, c, d]"
  shows "n div 2 ^ 24 = unat a" "n div 2 ^ 22 = unat a * 4 + unat b div 64"
    "n div 2 ^ 20 = unat a * 16 + unat b div 16" "n div 2 ^ 16 = unat a * 256 + unat b"
    "n div 2 ^ 28 = unat a div 16"
proof -
  have lt: "unat b < 256" "unat c < 256" "unat d < 256"
    using unsigned_less [of b] unsigned_less [of c] unsigned_less [of d] by simp_all
  have step: "(x * 256 + y) div 256 = x" if "y < 256" for x y :: nat using that by simp
  have n16: "n div 2 ^ 16 = unat a * 256 + unat b"
  proof -
    have n: "n = ((unat a * 256 + unat b) * 256 + unat c) * 256 + unat d"
      by (simp add: n_def v4_number_def)
    have "n div 2 ^ 16 = n div 256 div 256" by (simp add: div_mult2_eq [symmetric])
    also have "\<dots> = unat a * 256 + unat b" unfolding n step [OF lt(3)] step [OF lt(2)] ..
    finally show ?thesis .
  qed
  have split: "n div 2 ^ (16 + k) = (unat a * 256 + unat b) div 2 ^ k" for k
    by (simp add: power_add div_mult2_eq n16 [symmetric])
  have shift: "(x * (k * m) + y) div m = x * k + y div m" if "0 < m" for x y k m :: nat
    using that by (simp only: mult.assoc [symmetric] add.commute [of _ y] div_mult_self1)
  have a: "(unat a * 256 + unat b) div 2 ^ 8 = unat a"
    using shift [of 256 "unat a" 1 "unat b"] lt(1) by simp
  have "(unat a * 256 + unat b) div 2 ^ 6 = unat a * 4 + unat b div 64"
    using shift [of 64 "unat a" 4 "unat b"] by simp
  moreover have "(unat a * 256 + unat b) div 2 ^ 4 = unat a * 16 + unat b div 16"
    using shift [of 16 "unat a" 16 "unat b"] by simp
  moreover have "(unat a * 256 + unat b) div 2 ^ 12 = unat a div 16"
    using div_mult2_eq [of "unat a * 256 + unat b" "2 ^ 8" "2 ^ 4"] unfolding a by simp
  ultimately show "n div 2 ^ 24 = unat a" "n div 2 ^ 22 = unat a * 4 + unat b div 64"
    "n div 2 ^ 20 = unat a * 16 + unat b div 16" "n div 2 ^ 28 = unat a div 16"
    using split [of 8] split [of 6] split [of 4] split [of 12] a
    by (simp_all only: add_num_simps numeral_plus_numeral)
  show "n div 2 ^ 16 = unat a * 256 + unat b" by (rule n16)
qed

lemma digits_eq:
  fixes x y k l m :: nat
  assumes "y < m" "l < m"
  shows "x * m + y = k * m + l \<longleftrightarrow> x = k \<and> y = l"
proof
  assume eq: "x * m + y = k * m + l"
  have "(x * m + y) div m = x" "(k * m + l) div m = k" using assms by simp_all
  with eq show "x = k \<and> y = l" by simp
qed simp

lemma v4_in_v6_nonzero: "v4_in_v6 v \<noteq> replicate 16 0"
proof
  assume "v4_in_v6 v = replicate 16 0"
  then have "v4_in_v6 v ! 10 = replicate 16 0 ! 10" by simp
  then show False by (simp add: v4_in_v6_def nth_append)
qed

lemma is_unspecified_v4: "is_unspecified [a, b, c, d] \<longleftrightarrow> [a, b, c, d] = [0, 0, 0, 0]"
  using v4_in_v6_nonzero [of "[a, b, c, d]"]
  by (auto simp: is_unspecified_def ip_equal_def v4_in_v6_def)

lemma v4_blocked:
  "is_blocked_ip [a, b, c, d] \<longleftrightarrow>
     a = 0 \<or> a = 10 \<or> a = 127 \<or> (a = 100 \<and> b AND 0xc0 = 0x40) \<or> (a = 169 \<and> b = 254)
      \<or> (a = 172 \<and> b AND 0xf0 = 16) \<or> (a = 192 \<and> b = 168) \<or> a AND 0xf0 = 0xe0"
proof -
  have "embedded_v4 [a, b, c, d] = None" by (simp add: embedded_v4_def ip_to16_def ip_to4_v6)
  moreover have "a = 224 \<Longrightarrow> a AND 0xf0 = 0xe0" by simp
  ultimately show ?thesis
    by (subst is_blocked_ip.simps)
      (auto simp: blocked_directly_def is_loopback_def is_private_def is_link_local_unicast_def
        is_link_local_multicast_def is_unspecified_v4 is_multicast_def is_cgnat_def
        is_this_network_def ip_to4_def)
qed

text \<open>
  An IPv4 address is blocked exactly when it lies in one of eight CIDR ranges: this network,
  the three private ones, shared address space, loopback, link local and multicast.
\<close>

theorem v4_blocked_ranges:
  assumes "length v4 = 4"
  shows "is_blocked_ip v4 \<longleftrightarrow> list_ex (in_cidr (v4_number v4)) blocked_ranges"
proof -
  obtain a b c d where v4: "v4 = [a, b, c, d]" using list4 [OF assms] by blast
  have lt: "unat a < 256" "unat b < 256" using unsigned_less [of a] unsigned_less [of b] by simp_all
  have "list_ex (in_cidr (v4_number v4)) blocked_ranges \<longleftrightarrow>
      unat a = 0 \<or> unat a = 10 \<or> unat a * 4 + unat b div 64 = 401 \<or> unat a = 127
      \<or> unat a * 256 + unat b = 43518 \<or> unat a * 16 + unat b div 16 = 2753
      \<or> unat a * 256 + unat b = 49320 \<or> unat a div 16 = 14"
  proof -
    have cidr: "in_cidr n ((a, b, c, d), len) \<longleftrightarrow> n div 2 ^ k = m"
      if "k = 32 - len" "m = (((a * 256 + b) * 256 + c) * 256 + d) div 2 ^ k" for n a b c d len k m
      using that by (simp add: in_cidr_def)
    have "in_cidr n ((0, 0, 0, 0), 8) \<longleftrightarrow> n div 2 ^ 24 = 0" "in_cidr n ((10, 0, 0, 0), 8) \<longleftrightarrow> n div 2 ^ 24 = 10"
      "in_cidr n ((100, 64, 0, 0), 10) \<longleftrightarrow> n div 2 ^ 22 = 401" "in_cidr n ((127, 0, 0, 0), 8) \<longleftrightarrow> n div 2 ^ 24 = 127"
      "in_cidr n ((169, 254, 0, 0), 16) \<longleftrightarrow> n div 2 ^ 16 = 43518"
      "in_cidr n ((172, 16, 0, 0), 12) \<longleftrightarrow> n div 2 ^ 20 = 2753"
      "in_cidr n ((192, 168, 0, 0), 16) \<longleftrightarrow> n div 2 ^ 16 = 49320"
      "in_cidr n ((224, 0, 0, 0), 4) \<longleftrightarrow> n div 2 ^ 28 = 14" for n
      by (rule cidr; simp)+
    then show ?thesis
      by (simp only: blocked_ranges_def list_ex_Nil_iff list_ex_Cons_iff v4 v4_parts simp_thms)
  qed
  also have "\<dots> \<longleftrightarrow> unat a = 0 \<or> unat a = 10 \<or> (unat a = 100 \<and> unat b div 64 = 1) \<or> unat a = 127
      \<or> (unat a = 169 \<and> unat b = 254) \<or> (unat a = 172 \<and> unat b div 16 = 1)
      \<or> (unat a = 192 \<and> unat b = 168) \<or> unat a div 16 = 14"
    using digits_eq [of "unat b div 64" 4 1 "unat a" 100] digits_eq [of "unat b" 256 254 "unat a" 169]
      digits_eq [of "unat b div 16" 16 1 "unat a" 172] digits_eq [of "unat b" 256 168 "unat a" 192] lt
    by simp
  also have "\<dots> \<longleftrightarrow> is_blocked_ip v4"
  proof -
    have eqs: "a = 0 \<longleftrightarrow> unat a = 0" "a = 10 \<longleftrightarrow> unat a = 10" "a = 127 \<longleftrightarrow> unat a = 127"
      "a = 100 \<longleftrightarrow> unat a = 100" "a = 169 \<longleftrightarrow> unat a = 169" "b = 254 \<longleftrightarrow> unat b = 254"
      "a = 172 \<longleftrightarrow> unat a = 172" "a = 192 \<longleftrightarrow> unat a = 192" "b = 168 \<longleftrightarrow> unat b = 168"
      by (simp_all add: word_unat_eq_iff)
    show ?thesis unfolding v4 v4_blocked byte_masks eqs by blast
  qed
  finally show ?thesis ..
qed

theorem v4_blocked_ranges_witness:
  "is_blocked_ip [169, 254, 169, 254] \<and> \<not> is_blocked_ip [8, 8, 8, 8]"
proof -
  have "list_ex (in_cidr (v4_number [169, 254, 169, 254])) blocked_ranges"
    "\<not> list_ex (in_cidr (v4_number [8, 8, 8, 8])) blocked_ranges"
    by (simp_all add: v4_number_def in_cidr_def blocked_ranges_def)
  then show ?thesis
    using v4_blocked_ranges [of "[169, 254, 169, 254]"] v4_blocked_ranges [of "[8, 8, 8, 8]"] by simp
qed

text \<open>The four ways an IPv6 address carries an IPv4 one.\<close>

lemma length16: "length xs = 16 \<Longrightarrow> ip_to16 xs = Some xs"
  by (simp add: ip_to16_def)

lemma blocked_via:
  assumes "embedded_v4 ip = Some v4" "blocked_directly ip \<Longrightarrow> is_blocked_ip v4"
  shows "is_blocked_ip ip = is_blocked_ip v4"
  using assms by (subst is_blocked_ip.simps) auto

lemma to4_head_nonzero: "length ip = 16 \<Longrightarrow> ip ! 0 \<noteq> 0 \<or> ip ! 1 \<noteq> 0 \<or> ip ! 11 = 0 \<Longrightarrow> ip_to4 ip = None"
  by (auto simp: ip_to4_def dest!: arg_cong [of "take 10 ip" _ "\<lambda>x. (x ! 0, x ! 1)"])

lemma not_loopback: "length ip = 16 \<Longrightarrow> ip ! 0 \<noteq> 0 \<or> ip ! 1 \<noteq> 0 \<Longrightarrow> \<not> ip_equal ip (replicate 15 0 @ [1])"
  by (auto simp: ip_equal_def nth_append)

lemma not_unspecified: "length ip = 16 \<Longrightarrow> ip ! 0 \<noteq> 0 \<or> ip ! 1 \<noteq> 0 \<Longrightarrow> \<not> is_unspecified ip"
  by (auto simp: is_unspecified_def ip_equal_def v4_in_v6_def nth_append)

lemma v6_not_direct:
  assumes "length ip = 16" "ip ! 0 \<noteq> 0 \<or> ip ! 1 \<noteq> 0"
    "ip ! 0 AND 0xfe \<noteq> 0xfc" "ip ! 0 \<noteq> 0xfe" "ip ! 0 \<noteq> 0xff"
  shows "\<not> blocked_directly ip"
proof -
  have "ip_to4 ip = None" using to4_head_nonzero assms(1,2) by blast
  then show ?thesis using assms not_loopback not_unspecified
    by (simp add: blocked_directly_def is_loopback_def is_private_def is_link_local_unicast_def
        is_link_local_multicast_def is_multicast_def is_cgnat_def is_this_network_def)
qed

lemma nat64_blocked:
  assumes "length v4 = 4"
  shows "is_blocked_ip (take 12 nat64_net @ v4) = is_blocked_ip v4"
proof -
  let ?ip = "take 12 nat64_net @ v4"
  have len: "length ?ip = 16" "?ip ! 0 = 0" "?ip ! 1 = 0x64"
    using assms by (simp_all add: nat64_net_def nth_append)
  then have "ip_to4 ?ip = None" using to4_head_nonzero by simp
  moreover have "net_contains nat64_net 12 ?ip"
    using calculation assms by (simp add: net_contains_def nat64_net_def)
  ultimately have "embedded_v4 ?ip = Some v4"
    using len assms by (simp add: embedded_v4_def ip_to16_def nat64_net_def)
  moreover have "\<not> blocked_directly ?ip" using len by (intro v6_not_direct) auto
  ultimately show ?thesis using blocked_via by blast
qed

lemma six_to_four_blocked:
  assumes "length v4 = 4" "length pad = 10"
  shows "is_blocked_ip ([0x20, 0x02] @ v4 @ pad) = is_blocked_ip v4"
proof -
  let ?ip = "[0x20, 0x02] @ v4 @ pad"
  have len: "length ?ip = 16" "?ip ! 0 = 0x20" using assms by simp_all
  then have "ip_to4 ?ip = None" using to4_head_nonzero by simp
  moreover have "net_contains six_to_four_net 2 ?ip" "\<not> net_contains nat64_net 12 ?ip"
    using calculation assms by (simp_all add: net_contains_def six_to_four_net_def nat64_net_def)
  ultimately have "embedded_v4 ?ip = Some v4"
    using len assms by (simp add: embedded_v4_def ip_to16_def)
  moreover have "\<not> blocked_directly ?ip" using len by (intro v6_not_direct) auto
  ultimately show ?thesis using blocked_via by blast
qed

lemma compatible_blocked:
  assumes "length v4 = 4"
  shows "is_blocked_ip (replicate 12 0 @ v4) = is_blocked_ip v4"
proof -
  let ?ip = "replicate 12 0 @ v4"
  obtain a b c d where v4: "v4 = [a, b, c, d]" using list4 [OF assms] by blast
  have len: "length ?ip = 16" "?ip ! 0 = 0" "?ip ! 1 = 0" "?ip ! 11 = 0"
    using assms by (simp_all add: nth_append)
  then have none: "ip_to4 ?ip = None" using to4_head_nonzero by simp
  have "\<not> net_contains nat64_net 12 ?ip" "\<not> net_contains six_to_four_net 2 ?ip"
  proof -
    have ip: "?ip = [0, 0] @ replicate 10 0 @ v4" by (simp add: numeral_eq_Suc)
    show "\<not> net_contains nat64_net 12 ?ip" "\<not> net_contains six_to_four_net 2 ?ip"
      using none assms unfolding ip
      by (simp_all add: net_contains_def six_to_four_net_def nat64_net_def)
  qed
  then have "embedded_v4 ?ip = Some v4"
    using none len assms by (simp add: embedded_v4_def ip_to16_def is_deprecated_v4_compatible_def list_all_iff)
  moreover have "is_blocked_ip v4" if "blocked_directly ?ip"
  proof -
    have "ip_equal ?ip (replicate 15 0 @ [1]) \<or> is_unspecified ?ip"
      using that none len by (auto simp: blocked_directly_def is_loopback_def is_private_def
          is_link_local_unicast_def is_link_local_multicast_def is_multicast_def is_cgnat_def is_this_network_def)
    then have "?ip = replicate 15 0 @ [1] \<or> ?ip = v4_in_v6 [0, 0, 0, 0] \<or> ?ip = replicate 16 0"
      using len(1) by (auto simp: is_unspecified_def ip_equal_def v4_in_v6_def)
    then have "?ip ! 12 = 0"
      by (elim disjE) (simp_all add: v4_in_v6_def nth_append)
    then have "a = 0" by (simp add: v4 nth_append)
    then show ?thesis by (simp add: v4 v4_blocked)
  qed
  ultimately show ?thesis using blocked_via by blast
qed

lemma mapped_blocked:
  assumes "length v4 = 4"
  shows "is_blocked_ip (v4_in_v6 v4) = is_blocked_ip v4"
proof -
  have to4: "ip_to4 (v4_in_v6 v4) = Some v4" "ip_to4 v4 = Some v4"
    using assms by (simp_all add: ip_to4_v6) (simp add: ip_to4_def)
  have "is_unspecified (v4_in_v6 v4) = is_unspecified v4"
    using assms v4_in_v6_nonzero by (auto simp: is_unspecified_def ip_equal_def) (auto simp: v4_in_v6_def)
  then have "blocked_directly (v4_in_v6 v4) = blocked_directly v4"
    unfolding blocked_directly_def is_loopback_def is_private_def is_link_local_unicast_def
      is_link_local_multicast_def is_multicast_def is_cgnat_def is_this_network_def to4 by simp
  moreover have "embedded_v4 (v4_in_v6 v4) = None" "embedded_v4 v4 = None"
    using assms to4 by (simp_all add: embedded_v4_def ip_to16_def v4_in_v6_def)
  ultimately show ?thesis by (subst (1 2) is_blocked_ip.simps) simp
qed

text \<open>
  Writing an IPv4 address in any of the four IPv6 encodings (mapped, NAT64, 6to4 with any
  subnet and interface, IPv4-compatible) changes nothing: the address is blocked exactly when
  the IPv4 address is, so neither does an encoding get around the filter nor does it block a public
  host.
\<close>

theorem embedded_v4_blocked:
  assumes "length v4 = 4" "length pad = 10"
  shows "is_blocked_ip (v4_in_v6 v4) = is_blocked_ip v4
    \<and> is_blocked_ip (take 12 nat64_net @ v4) = is_blocked_ip v4
    \<and> is_blocked_ip ([0x20, 0x02] @ v4 @ pad) = is_blocked_ip v4
    \<and> is_blocked_ip (replicate 12 0 @ v4) = is_blocked_ip v4"
  using assms by (simp only: mapped_blocked nat64_blocked six_to_four_blocked compatible_blocked)

theorem embedded_v4_blocked_witness:
  "is_blocked_ip ([0x20, 0x02] @ [10, 0, 0, 1] @ replicate 10 7)
    \<and> is_blocked_ip (take 12 nat64_net @ [127, 0, 0, 1])"
proof -
  have "is_blocked_ip [10, 0, 0, 1]" "is_blocked_ip [127, 0, 0, 1]" by (simp_all add: v4_blocked)
  then show ?thesis
    using embedded_v4_blocked [of "[10, 0, 0, 1]" "replicate 10 7"]
      embedded_v4_blocked [of "[127, 0, 0, 1]" "replicate 10 7"] by simp
qed

end
