(* ===== verification/Numbers.thy ===== *)
theory Numbers
  imports Prelude
begin

text \<open>
  Decimal numbers as package strconv prints and reads them: \<open>dec_nat\<close> and \<open>show_int\<close> for
  FormatInt, \<open>atoi\<close> for Atoi and for ParseInt in base 10 with 64 bits. What is printed is read
  back.
\<close>

function dec_nat :: "nat \<Rightarrow> string" where
  "dec_nat n = (if n < 10 then [char_of (48 + n)] else dec_nat (n div 10) @ [char_of (48 + n mod 10)])"
  by pat_completeness auto
termination
  by (relation "measure id") auto

declare dec_nat.simps [simp del]

definition show_int :: "int \<Rightarrow> string" where
  "show_int n = (if n < 0 then CHR ''-'' # dec_nat (nat (- n)) else dec_nat (nat n))"

definition digit_val :: "char \<Rightarrow> int option" where
  "digit_val c = (let n = (of_char c :: nat) in if 48 \<le> n \<and> n \<le> 57 then Some (int n - 48) else None)"

fun digits_val :: "int \<Rightarrow> string \<Rightarrow> int option" where
  "digits_val acc [] = Some acc"
| "digits_val acc (c # cs) = (case digit_val c of None \<Rightarrow> None | Some d \<Rightarrow> digits_val (10 * acc + d) cs)"

definition atoi :: "string \<Rightarrow> int option" where
  \<comment> \<open>strconv.Atoi: an optional sign, at least one digit, and the value fits an int64\<close>
  "atoi s =
     (case s of
        [] \<Rightarrow> None
      | c # cs \<Rightarrow>
          let (neg, ds) = (if c = CHR ''-'' then (True, cs) else if c = CHR ''+'' then (False, cs) else (False, s))
          in if ds = [] then None
             else case digits_val 0 ds of
               None \<Rightarrow> None
             | Some n \<Rightarrow> let v = (if neg then - n else n)
                         in if - (2 ^ 63) \<le> v \<and> v < 2 ^ 63 then Some v else None)"

section \<open>What is printed is read back\<close>

lemma digit_val_char: "d < 10 \<Longrightarrow> digit_val (char_of (48 + d)) = Some (int d)"
  by (simp add: digit_val_def)

lemma digits_val_append:
  "digits_val acc (s @ t) = (case digits_val acc s of None \<Rightarrow> None | Some n \<Rightarrow> digits_val n t)"
  by (induction s arbitrary: acc) (auto split: option.splits)

lemma digits_val_dec: "digits_val 0 (dec_nat n) = Some (int n)"
proof (induction n rule: less_induct)
  case (less n)
  show ?case
  proof (cases "n < 10")
    case True
    then show ?thesis by (subst dec_nat.simps) (simp add: digit_val_char)
  next
    case False
    obtain d where d: "n mod 10 = d" "d < 10" by simp
    have "digits_val 0 (dec_nat (n div 10)) = Some (int (n div 10))" using False by (intro less) simp
    moreover have "dec_nat n = dec_nat (n div 10) @ [char_of (48 + d)]"
      using False by (subst dec_nat.simps) (simp add: d)
    moreover have "10 * int (n div 10) + int d = int n"
      using arg_cong [OF mult_div_mod_eq [of 10 n], of int] d(1) by simp
    ultimately show ?thesis
      by (simp add: digits_val_append digit_val_char [OF d(2)])
  qed
qed

lemma dec_nat_digits: "c \<in> set (dec_nat n) \<Longrightarrow> digit_val c \<noteq> None"
proof (induction n rule: less_induct)
  case (less n)
  show ?case
  proof (cases "n < 10")
    case True
    then have "dec_nat n = [char_of (48 + n)]" by (simp add: dec_nat.simps)
    then show ?thesis using less.prems True by (simp add: digit_val_char)
  next
    case False
    obtain d where d: "n mod 10 = d" "d < 10" by simp
    have "dec_nat n = dec_nat (n div 10) @ [char_of (48 + d)]"
      using False by (subst dec_nat.simps) (simp add: d)
    then have "c \<in> set (dec_nat (n div 10)) \<or> c = char_of (48 + d)" using less.prems by auto
    then show ?thesis
      using less.IH [of "n div 10"] digit_val_char [OF d(2)] False by (elim disjE) simp_all
  qed
qed

lemma dec_nat_nonempty: "dec_nat n \<noteq> []"
  by (subst dec_nat.simps) simp

lemma no_sign_digit: "digit_val (CHR ''-'') = None" "digit_val (CHR ''+'') = None"
  "digit_val (CHR '','') = None"
  by code_simp+

lemma dec_nat_notin: "digit_val c = None \<Longrightarrow> c \<notin> set (dec_nat n)"
  using dec_nat_digits by fastforce

lemma atoi_show_int:
  assumes "- (2 ^ 63) \<le> n" "n < 2 ^ 63"
  shows "atoi (show_int n) = Some n"
proof (cases "n < 0")
  case True
  then show ?thesis
    using assms by (simp add: atoi_def show_int_def dec_nat_nonempty digits_val_dec)
next
  case False
  then obtain c cs where cs: "dec_nat (nat n) = c # cs" using dec_nat_nonempty by (cases "dec_nat (nat n)") auto
  then have "c \<noteq> CHR ''-''" "c \<noteq> CHR ''+''"
    using dec_nat_notin [OF no_sign_digit(1), of "nat n"] dec_nat_notin [OF no_sign_digit(2), of "nat n"] by auto
  moreover have "digits_val 0 (c # cs) = Some n" using digits_val_dec [of "nat n"] False by (simp add: cs)
  ultimately show ?thesis
    using assms False by (simp add: atoi_def show_int_def cs del: digits_val.simps)
qed

lemma show_int_notin: "digit_val c = None \<Longrightarrow> c \<noteq> CHR ''-'' \<Longrightarrow> c \<notin> set (show_int n)"
  by (simp add: show_int_def dec_nat_notin)

end
