(* ===== verification/Fetcher.thy ===== *)
theory Fetcher
  imports Robots Backoff Numbers
begin

text \<open>
  \<open>internal/crawler/fetcher.go\<close> and the pseudo-scheme prefixes of \<open>scrape.go\<close>: one
  conditional GET, following redirects. What happens outside is a record of functions:
  package net/url, the host semaphore's answer, and the response to the request of each hop. A fetch
  returns its result and the trace of the semaphore slots it took and the requests it sent.
\<close>

section \<open>Requests and responses\<close>

record fetch_options =
  fo_etag :: string
  fo_last_modified :: string
  fo_accept :: string

record http_request =
  rq_url :: string
  rq_user_agent :: string
  rq_accept :: string
  rq_if_none_match :: "string option"
  rq_if_modified_since :: "string option"

record http_response =
  rs_status :: int
  rs_location :: string
  rs_content_type :: string
  rs_etag :: string
  rs_last_modified :: string
  rs_retry_after :: string
  rs_body :: "string option" \<comment> \<open>None: reading it fails\<close>

record fetch_result =
  fr_status :: int
  fr_not_modified :: bool
  fr_body :: string
  fr_content_type :: string
  fr_etag :: string
  fr_last_modified :: string
  fr_retry_after :: int
  fr_final_url :: string
  fr_permanent :: bool

datatype fetch_error = Too_Many_Redirects | Bad_Url | Bad_Scheme | Semaphore_Error | Build_Error
  | Network_Error | Bad_Location | Read_Error | Body_Too_Large

datatype net_event = Acquired string | Sent http_request | Released string

record http_env =
  he_parse :: "string \<Rightarrow> parsed_url option" \<comment> \<open>url.Parse\<close>
  he_resolve :: "string \<Rightarrow> string \<Rightarrow> string option" \<comment> \<open>ResolveReference and String, None for an unparsable side\<close>
  he_acquire :: "nat \<Rightarrow> string \<Rightarrow> bool" \<comment> \<open>false when the context ends first\<close>
  he_build :: "string \<Rightarrow> bool" \<comment> \<open>http.NewRequestWithContext\<close>
  he_send :: "nat \<Rightarrow> http_request \<Rightarrow> http_response option" \<comment> \<open>client.Do, None for an error\<close>
  he_until :: "string \<Rightarrow> int option" \<comment> \<open>http.ParseTime and time.Until, in nanoseconds\<close>

record fetcher =
  ft_user_agent :: string
  ft_max_body :: int

definition max_redirect_hops :: nat where
  "max_redirect_hops = 5"

definition default_max_body :: int where
  "default_max_body = 10 * 2 ^ 20"

definition new_fetcher :: "string \<Rightarrow> int \<Rightarrow> fetcher" where
  "new_fetcher user_agent max_body =
     \<lparr>ft_user_agent = user_agent, ft_max_body = (if max_body \<le> 0 then default_max_body else max_body)\<rparr>"

definition default_feed_accept :: string where
  "default_feed_accept =
     ''application/rss+xml, application/atom+xml, application/xml, text/xml, application/json;q=0.9, */*;q=0.8''"

section \<open>Retry-After\<close>

definition parse_retry_after :: "(string \<Rightarrow> int option) \<Rightarrow> string \<Rightarrow> int" where
  "parse_retry_after until v =
     (if v = [] then 0
      else
        let by_date = (case until v of None \<Rightarrow> 0 | Some d \<Rightarrow> if 0 < d then d else 0)
        in case atoi v of
             Some secs \<Rightarrow> if 0 \<le> secs then wrap64 (secs * ns_sec) else by_date
           | None \<Rightarrow> by_date)"

section \<open>Fetching\<close>

definition redirect_location :: "http_response \<Rightarrow> string" where
  "redirect_location resp =
     (if rs_status resp \<in> {301, 302, 303, 307, 308} then rs_location resp else [])"

definition build_result :: "http_env \<Rightarrow> fetcher \<Rightarrow> http_response \<Rightarrow> fetch_error + fetch_result" where
  "build_result env f resp =
     (let r = \<lparr>fr_status = rs_status resp, fr_not_modified = rs_status resp = 304, fr_body = [],
               fr_content_type = rs_content_type resp, fr_etag = rs_etag resp,
               fr_last_modified = rs_last_modified resp,
               fr_retry_after = parse_retry_after (he_until env) (rs_retry_after resp),
               fr_final_url = [], fr_permanent = False\<rparr>
      in if fr_not_modified r then Inr r
         else case rs_body resp of
           None \<Rightarrow> Inl Read_Error
         | Some full \<Rightarrow>
             let body = take (nat (ft_max_body f + 1)) full in
             if ft_max_body f < int (length body) then Inl Body_Too_Large
             else Inr (r\<lparr>fr_body := body\<rparr>))"

definition non_empty :: "string \<Rightarrow> string option" where
  "non_empty s = (if s = [] then None else Some s)"

definition build_request :: "fetcher \<Rightarrow> fetch_options \<Rightarrow> string \<Rightarrow> http_request" where
  "build_request f opts target =
     \<lparr>rq_url = target, rq_user_agent = ft_user_agent f,
      rq_accept = (if fo_accept opts = [] then default_feed_accept else fo_accept opts),
      rq_if_none_match = non_empty (fo_etag opts),
      rq_if_modified_since = non_empty (fo_last_modified opts)\<rparr>"

definition do_request ::
    "http_env \<Rightarrow> fetcher \<Rightarrow> fetch_options \<Rightarrow> nat \<Rightarrow> string
      \<Rightarrow> (fetch_error + http_response \<times> string) \<times> net_event list" where
  \<comment> \<open>on success the slot of the returned host is still held\<close>
  "do_request env f opts hop target =
     (case he_parse env target of
        None \<Rightarrow> (Inl Bad_Url, [])
      | Some u \<Rightarrow>
          if pu_scheme u \<noteq> ''http'' \<and> pu_scheme u \<noteq> ''https'' then (Inl Bad_Scheme, [])
          else if \<not> he_acquire env hop (pu_host u) then (Inl Semaphore_Error, [])
          else if \<not> he_build env target
            then (Inl Build_Error, [Acquired (pu_host u), Released (pu_host u)])
          else
            let req = build_request f opts target in
            case he_send env hop req of
              None \<Rightarrow> (Inl Network_Error, [Acquired (pu_host u), Sent req, Released (pu_host u)])
            | Some resp \<Rightarrow> (Inr (resp, pu_host u), [Acquired (pu_host u), Sent req]))"

function fetch_from ::
    "http_env \<Rightarrow> fetcher \<Rightarrow> fetch_options \<Rightarrow> string \<Rightarrow> nat \<Rightarrow> string \<Rightarrow> bool
      \<Rightarrow> (fetch_error + fetch_result) \<times> net_event list" where
  "fetch_from env f opts feed_url hop current permanent =
     (if max_redirect_hops < hop then (Inl Too_Many_Redirects, [])
      else case do_request env f opts hop current of
        (Inl e, ev) \<Rightarrow> (Inl e, ev)
      | (Inr (resp, host), ev) \<Rightarrow>
          let loc = redirect_location resp in
          if loc \<noteq> [] then
            let permanent' = (permanent \<or> rs_status resp = 301 \<or> rs_status resp = 308) in
            case he_resolve env current loc of
              None \<Rightarrow> (Inl Bad_Location, ev @ [Released host])
            | Some next \<Rightarrow>
                let (r, ev') = fetch_from env f opts feed_url (hop + 1) next permanent'
                in (r, ev @ Released host # ev')
          else
            (case build_result env f resp of
               Inl e \<Rightarrow> (Inl e, ev @ [Released host])
             | Inr r \<Rightarrow>
                 (Inr (r\<lparr>fr_final_url := current, fr_permanent := permanent \<and> current \<noteq> feed_url\<rparr>),
                  ev @ [Released host])))"
  by pat_completeness auto
termination
  by (relation "measure (\<lambda>(env, f, opts, feed_url, hop, current, permanent). Suc max_redirect_hops - hop)") auto

declare fetch_from.simps [simp del]

definition fetch ::
    "http_env \<Rightarrow> fetcher \<Rightarrow> string \<Rightarrow> fetch_options \<Rightarrow> (fetch_error + fetch_result) \<times> net_event list" where
  "fetch env f feed_url opts = fetch_from env f opts feed_url 0 feed_url False"

section \<open>Pseudo-schemes\<close>

datatype scrape_kind = Pagewatch | Selector

definition scrape_prefixes :: "(string \<times> scrape_kind) list" where
  "scrape_prefixes = [(''pagewatch:'', Pagewatch), (''selector:'', Selector)]"

definition kind_string :: "scrape_kind \<Rightarrow> string" where
  "kind_string k = (case k of Pagewatch \<Rightarrow> ''pagewatch'' | Selector \<Rightarrow> ''selector'')"

fun cut_scrape_prefix_in :: "(string \<times> scrape_kind) list \<Rightarrow> string \<Rightarrow> (string \<times> scrape_kind) option" where
  "cut_scrape_prefix_in [] url = None"
| "cut_scrape_prefix_in ((p, k) # ps) url =
     (case cut_prefix p url of Some rest \<Rightarrow> Some (rest, k) | None \<Rightarrow> cut_scrape_prefix_in ps url)"

definition cut_scrape_prefix :: "string \<Rightarrow> (string \<times> scrape_kind) option" where
  "cut_scrape_prefix url = cut_scrape_prefix_in scrape_prefixes url"

definition prefix_for_kind :: "scrape_kind \<Rightarrow> string" where
  "prefix_for_kind kind =
     (case find (\<lambda>(p, k). k = kind) scrape_prefixes of Some (p, k) \<Rightarrow> p | None \<Rightarrow> [])"

definition has_scrape_prefix :: "string \<Rightarrow> bool" where
  "has_scrape_prefix url \<longleftrightarrow> cut_scrape_prefix url \<noteq> None"

lemma cut_scrape_prefix_roundtrip: "cut_scrape_prefix (prefix_for_kind k @ url) = Some (url, k)"
  by (cases k)
    (simp_all add: cut_scrape_prefix_def scrape_prefixes_def prefix_for_kind_def cut_prefix_def)

section \<open>What a fetch does to the network\<close>

fun slot_run :: "string option \<Rightarrow> net_event list \<Rightarrow> string option option" where
  \<comment> \<open>the slot held after the events, None for events out of order\<close>
  "slot_run held [] = Some held"
| "slot_run held (Acquired h # es) = (if held = None then slot_run (Some h) es else None)"
| "slot_run held (Sent r # es) = (if held \<noteq> None then slot_run held es else None)"
| "slot_run held (Released h # es) = (if held = Some h then slot_run None es else None)"

fun sent :: "net_event list \<Rightarrow> http_request list" where
  "sent [] = []"
| "sent (Acquired h # es) = sent es"
| "sent (Sent r # es) = r # sent es"
| "sent (Released h # es) = sent es"

lemma slot_run_append:
  "slot_run held (es @ fs) = (case slot_run held es of None \<Rightarrow> None | Some h \<Rightarrow> slot_run h fs)"
  by (induction held es rule: slot_run.induct) auto

lemma sent_append [simp]: "sent (es @ fs) = sent es @ sent fs"
  by (induction es rule: sent.induct) auto

definition request_ok :: "http_env \<Rightarrow> fetcher \<Rightarrow> fetch_options \<Rightarrow> http_request \<Rightarrow> bool" where
  "request_ok env f opts r \<longleftrightarrow>
     r = build_request f opts (rq_url r)
      \<and> (case he_parse env (rq_url r) of
           None \<Rightarrow> False | Some u \<Rightarrow> pu_scheme u = ''http'' \<or> pu_scheme u = ''https'')"

lemma do_request_Inl:
  "do_request env f opts hop target = (Inl e, ev) \<Longrightarrow>
     slot_run None ev = Some None \<and> length (sent ev) \<le> 1 \<and> (\<forall>r \<in> set (sent ev). request_ok env f opts r)"
  by (auto simp: do_request_def build_request_def request_ok_def Let_def split: option.splits if_splits)

lemma do_request_Inr:
  "do_request env f opts hop target = (Inr (resp, host), ev) \<Longrightarrow>
     slot_run None ev = Some (Some host) \<and> sent ev = [build_request f opts target]
      \<and> request_ok env f opts (build_request f opts target)
      \<and> he_send env hop (build_request f opts target) = Some resp"
  by (auto simp: do_request_def build_request_def request_ok_def Let_def split: option.splits if_splits)

lemma fetch_from_cases:
  assumes "fetch_from env f opts feed_url hop current permanent = (r, ev)"
  obtains
    (stop) "max_redirect_hops < hop" "r = Inl Too_Many_Redirects" "ev = []"
  | (failed) e where "hop \<le> max_redirect_hops" "do_request env f opts hop current = (Inl e, ev)" "r = Inl e"
  | (bad_location) resp host ev1 where "hop \<le> max_redirect_hops"
      "do_request env f opts hop current = (Inr (resp, host), ev1)"
      "r = Inl Bad_Location" "ev = ev1 @ [Released host]"
  | (redirect) resp host ev1 next' ev2 where "hop \<le> max_redirect_hops"
      "do_request env f opts hop current = (Inr (resp, host), ev1)"
      "redirect_location resp \<noteq> []" "he_resolve env current (redirect_location resp) = Some next'"
      "fetch_from env f opts feed_url (hop + 1) next'
         (permanent \<or> rs_status resp = 301 \<or> rs_status resp = 308) = (r, ev2)"
      "ev = ev1 @ Released host # ev2"
  | (unreadable) resp host ev1 e where "hop \<le> max_redirect_hops"
      "do_request env f opts hop current = (Inr (resp, host), ev1)"
      "redirect_location resp = []" "build_result env f resp = Inl e" "r = Inl e" "ev = ev1 @ [Released host]"
  | (answer) resp host ev1 b where "hop \<le> max_redirect_hops"
      "do_request env f opts hop current = (Inr (resp, host), ev1)"
      "redirect_location resp = []" "build_result env f resp = Inr b"
      "r = Inr (b\<lparr>fr_final_url := current, fr_permanent := permanent \<and> current \<noteq> feed_url\<rparr>)"
      "ev = ev1 @ [Released host]"
proof (cases "max_redirect_hops < hop")
  case True
  then show ?thesis using assms stop by (subst (asm) fetch_from.simps) simp
next
  case False
  then have hop: "hop \<le> max_redirect_hops" by simp
  obtain q ev1 where req: "do_request env f opts hop current = (q, ev1)" by (rule prod.exhaust)
  note eq = assms [unfolded fetch_from.simps [of env f opts feed_url hop current permanent]]
  show ?thesis
  proof (cases q)
    case (Inl e)
    then show ?thesis using eq False req hop failed by simp
  next
    case (Inr rh)
    obtain resp host where rh: "rh = (resp, host)" by (rule prod.exhaust)
    show ?thesis
    proof (cases "redirect_location resp = []")
      case True
      note loc = True
      show ?thesis
      proof (cases "build_result env f resp")
        case (Inl e)
        show ?thesis
          by (rule unreadable [OF hop _ loc Inl]) (use eq False req \<open>q = Inr rh\<close> rh loc Inl in auto)
      next
        case (Inr b)
        show ?thesis
          by (rule answer [OF hop _ loc Inr]) (use eq False req \<open>q = Inr rh\<close> rh loc Inr in auto)
      qed
    next
      case loc: False
      obtain r2 ev2 next' where nxt: "he_resolve env current (redirect_location resp) = Some next' \<Longrightarrow>
          fetch_from env f opts feed_url (hop + 1) next'
           (permanent \<or> rs_status resp = 301 \<or> rs_status resp = 308) = (r2, ev2)"
        "he_resolve env current (redirect_location resp) \<noteq> None \<Longrightarrow>
           he_resolve env current (redirect_location resp) = Some next'"
        by (cases "he_resolve env current (redirect_location resp)")
          (auto intro: prod.exhaust)
      then show ?thesis
        using eq False req hop Inr rh loc bad_location redirect
        by (cases "he_resolve env current (redirect_location resp)") (auto simp: Let_def)
    qed
  qed
qed

lemma fetch_from_trace:
  "fetch_from env f opts feed_url hop current permanent = (r, ev) \<Longrightarrow>
     slot_run None ev = Some None \<and> length (sent ev) \<le> Suc max_redirect_hops - hop
      \<and> (\<forall>q \<in> set (sent ev). request_ok env f opts q)"
proof (induction "Suc max_redirect_hops - hop" arbitrary: hop current permanent r ev rule: less_induct)
  case less
  from less.prems show ?case
  proof (cases rule: fetch_from_cases)
    case (failed e)
    then show ?thesis using do_request_Inl [OF failed(2)] by auto
  next
    case (redirect resp host ev1 next' ev2)
    have "slot_run None ev2 = Some None \<and> length (sent ev2) \<le> Suc max_redirect_hops - (hop + 1)
        \<and> (\<forall>q \<in> set (sent ev2). request_ok env f opts q)"
      using less.hyps [OF _ redirect(5)] redirect(1) by simp
    then show ?thesis using do_request_Inr [OF redirect(2)] redirect(1,6) by (auto simp: slot_run_append)
  qed (auto simp: slot_run_append dest: do_request_Inr)
qed

text \<open>
  C39. A fetch sends at most six requests, each of them for an http or https URL and with the same
  conditional headers; it holds at most one host slot at a time, sends only while it
  holds one, and has given every slot back when it returns, whichever error or result
  it returns with.
\<close>

theorem fetch_releases_every_slot:
  assumes "fetch env f url opts = (r, ev)"
  shows "slot_run None ev = Some None \<and> length (sent ev) \<le> 6
    \<and> (\<forall>q \<in> set (sent ev). request_ok env f opts q)"
  using fetch_from_trace [OF assms [unfolded fetch_def]] by (simp add: max_redirect_hops_def)

definition sample_env :: http_env where
  \<comment> \<open>/a is moved permanently to /b, which answers 200\<close>
  "sample_env =
     \<lparr>he_parse = (\<lambda>u. case cut_prefix ''http://h'' u of
        Some p \<Rightarrow> Some \<lparr>pu_scheme = ''http'', pu_host = ''h'', pu_path = p\<rparr> | None \<Rightarrow> None),
      he_resolve = (\<lambda>b l. Some (''http://h'' @ l)),
      he_acquire = (\<lambda>_ _. True), he_build = (\<lambda>_. True),
      he_send = (\<lambda>_ q. Some
        (if rq_url q = ''http://h/a''
         then \<lparr>rs_status = 301, rs_location = ''/b'', rs_content_type = [], rs_etag = [], rs_last_modified = [],
               rs_retry_after = [], rs_body = Some []\<rparr>
         else \<lparr>rs_status = 200, rs_location = [], rs_content_type = ''text/html'', rs_etag = ''W'', rs_last_modified = [],
               rs_retry_after = [], rs_body = Some ''hello''\<rparr>)),
      he_until = (\<lambda>_. None)\<rparr>"

definition no_options :: fetch_options where
  "no_options = \<lparr>fo_etag = [], fo_last_modified = [], fo_accept = []\<rparr>"

theorem fetch_releases_every_slot_witness:
  "\<exists>r ev. fetch sample_env (new_fetcher ''feedla'' 100) ''http://h/a'' no_options = (r, ev)
     \<and> slot_run None ev = Some None \<and> length (sent ev) = 2"
proof -
  obtain r ev where f: "fetch sample_env (new_fetcher ''feedla'' 100) ''http://h/a'' no_options = (r, ev)"
    by (rule prod.exhaust)
  have "length (sent (snd (fetch sample_env (new_fetcher ''feedla'' 100) ''http://h/a'' no_options))) = 2"
    by code_simp
  then have "length (sent ev) = 2" using f by simp
  moreover have "slot_run None ev = Some None" using fetch_releases_every_slot [OF f] by (elim conjE)
  ultimately show ?thesis using f by (intro exI [of _ r] exI [of _ ev] conjI)
qed

lemma build_result_ok:
  "build_result env f resp = Inr b \<Longrightarrow> 0 \<le> ft_max_body f \<Longrightarrow>
     fr_status b = rs_status resp \<and> int (length (fr_body b)) \<le> ft_max_body f
      \<and> (fr_not_modified b \<longleftrightarrow> rs_status resp = 304)"
  by (auto simp: build_result_def Let_def split: option.splits if_splits)

lemma fetch_from_result:
  "fetch_from env f opts feed_url hop current permanent = (Inr b, ev) \<Longrightarrow> 0 \<le> ft_max_body f \<Longrightarrow>
     sent ev \<noteq> [] \<and> fr_final_url b = rq_url (last (sent ev))
      \<and> int (length (fr_body b)) \<le> ft_max_body f
      \<and> (\<exists>k resp. he_send env k (last (sent ev)) = Some resp \<and> redirect_location resp = [] \<and> fr_status b = rs_status resp)
      \<and> (fr_permanent b \<longrightarrow> fr_final_url b \<noteq> feed_url)"
proof (induction "Suc max_redirect_hops - hop" arbitrary: hop current permanent ev rule: less_induct)
  case less
  from less.prems(1) show ?case
  proof (cases rule: fetch_from_cases)
    case (redirect resp host ev1 next' ev2)
    have IH: "sent ev2 \<noteq> [] \<and> fr_final_url b = rq_url (last (sent ev2))
      \<and> int (length (fr_body b)) \<le> ft_max_body f
      \<and> (\<exists>k resp. he_send env k (last (sent ev2)) = Some resp \<and> redirect_location resp = [] \<and> fr_status b = rs_status resp)
      \<and> (fr_permanent b \<longrightarrow> fr_final_url b \<noteq> feed_url)"
      by (rule less.hyps [OF _ redirect(5) less.prems(2)]) (use redirect(1) in simp)
    have l: "last (sent ev) = last (sent ev2)" "sent ev \<noteq> []" using IH redirect(6) by simp_all
    show ?thesis unfolding l(1) using IH l(2) by (elim conjE) (intro conjI)
  next
    case (answer resp host ev1 c)
    note req = do_request_Inr [OF answer(2)]
    note res = build_result_ok [OF answer(4) less.prems(2)]
    have b: "b = c\<lparr>fr_final_url := current, fr_permanent := permanent \<and> current \<noteq> feed_url\<rparr>"
      using answer(5) by simp
    have s: "sent ev = [build_request f opts current]" using req answer(6) by simp
    show ?thesis
      unfolding s b using req res answer(3)
      by (auto simp: build_request_def intro!: exI [of _ hop] exI [of _ resp])
  qed simp_all
qed

text \<open>
  What a successful fetch hands back: the status is that of the response to the last request,
  which was not a redirect with a Location; the final URL is the URL of that request; the body is
  within the configured bound; and a move is only called permanent when the final URL differs
  from the requested one.
\<close>

theorem fetch_result_is_last_response:
  assumes "fetch env f url opts = (Inr b, ev)" "0 \<le> ft_max_body f"
  shows "sent ev \<noteq> [] \<and> fr_final_url b = rq_url (last (sent ev))
    \<and> int (length (fr_body b)) \<le> ft_max_body f
    \<and> (\<exists>k resp. he_send env k (last (sent ev)) = Some resp \<and> redirect_location resp = []
          \<and> fr_status b = rs_status resp)
    \<and> (fr_permanent b \<longrightarrow> fr_final_url b \<noteq> url)"
  using fetch_from_result [OF assms [unfolded fetch_def]] .

theorem fetch_result_is_last_response_witness:
  "\<exists>b ev. fetch sample_env (new_fetcher ''feedla'' 100) ''http://h/a'' no_options = (Inr b, ev)
     \<and> fr_permanent b \<and> fr_final_url b = rq_url (last (sent ev)) \<and> fr_body b = ''hello''"
proof -
  let ?f = "fetch sample_env (new_fetcher ''feedla'' 100) ''http://h/a'' no_options"
  have ok: "(case fst ?f of Inl e \<Rightarrow> False | Inr b \<Rightarrow> fr_permanent b \<and> fr_body b = ''hello'')"
    by code_simp
  obtain r ev where f: "?f = (r, ev)" by (rule prod.exhaust)
  obtain b where b: "r = Inr b" "fr_permanent b" "fr_body b = ''hello''"
    using ok f by (cases r) simp_all
  have "fr_final_url b = rq_url (last (sent ev))"
    using fetch_result_is_last_response [OF f [unfolded b(1)]]
    by (simp add: new_fetcher_def)
  with f b show ?thesis by (intro exI [of _ b] exI [of _ ev] conjI) simp_all
qed

text \<open>
  A Retry-After in seconds is read as that many seconds only below some 292 years: the product
  of a larger one with a second wraps, to a negative duration (taken for absent by
  the backoff) or to a short one.
\<close>

theorem retry_after_seconds:
  assumes "atoi v = Some secs" "0 \<le> secs"
  shows "parse_retry_after until v = wrap64 (secs * ns_sec)
    \<and> (secs \<le> 9223372036 \<longrightarrow> parse_retry_after until v = secs * ns_sec)
    \<and> parse_retry_after until ''9223372037'' < 0
    \<and> parse_retry_after until ''18446744074'' = 290448384"
proof -
  have "v \<noteq> []" using assms(1) by (auto simp: atoi_def)
  then have p: "parse_retry_after until v = wrap64 (secs * ns_sec)"
    using assms by (simp add: parse_retry_after_def)
  have big: "parse_retry_after until w = wrap64 (s * ns_sec)" if "atoi w = Some s" "0 \<le> s" "w \<noteq> []" for w s
    using that by (simp add: parse_retry_after_def)
  have "parse_retry_after until ''9223372037'' < 0"
    by (subst big [of _ 9223372037]) (code_simp, simp_all add: wrap64_def ns_sec_def)
  moreover have "parse_retry_after until ''18446744074'' = 290448384"
    by (subst big [of _ 18446744074]) (code_simp, simp_all add: wrap64_def ns_sec_def)
  moreover have "secs \<le> 9223372036 \<longrightarrow> wrap64 (secs * ns_sec) = secs * ns_sec"
    using assms(2) by (simp add: wrap64_id ns_sec_def)
  ultimately show ?thesis unfolding p by (intro conjI) simp_all
qed

theorem retry_after_seconds_witness: "parse_retry_after (\<lambda>_. None) ''120'' = 120 * ns_sec"
proof -
  have "atoi ''120'' = Some 120" by code_simp
  from retry_after_seconds [OF this, of "\<lambda>_. None"] show ?thesis by simp
qed

end
