(* ===== verification/HostSem.thy ===== *)
theory HostSem
  imports Prelude
begin

text \<open>
  \<open>internal/crawler/hostsem.go\<close> as a transition system. Goroutines interleave between the
  points where Acquire, the release function and GC take the mutex or block, so each such point is
  one step. The state keeps the slots map (host to channel), the number of tokens in each
  channel ever made, lastStart, the clock, the phase of every goroutine, and, as a history for the
  properties, the starts of requests so far.
\<close>

section \<open>State\<close>

datatype phase =
    Idle
  | Got_Chan string nat \<comment> \<open>chanFor has answered, the send is pending\<close>
  | Slot string nat \<comment> \<open>a token is in the channel, lastStart not yet read\<close>
  | Timer string nat int \<comment> \<open>sleeping until the given time\<close>
  | Ready string nat \<comment> \<open>about to write lastStart\<close>
  | Running string nat \<comment> \<open>Acquire has returned, release not yet called\<close>

record hs_state =
  hs_slots :: "string \<rightharpoonup> nat"
  hs_chans :: "nat list" \<comment> \<open>len(ch) of each channel\<close>
  hs_last :: "string \<rightharpoonup> int"
  hs_now :: int
  hs_threads :: "phase list"
  hs_starts :: "(string \<times> int) list" \<comment> \<open>newest first\<close>

definition new_host_semaphore :: "nat \<Rightarrow> hs_state" where
  "new_host_semaphore goroutines =
     \<lparr>hs_slots = Map.empty, hs_chans = [], hs_last = Map.empty, hs_now = 0,
      hs_threads = replicate goroutines Idle, hs_starts = []\<rparr>"

definition effective_max :: "int \<Rightarrow> nat" where
  "effective_max max_per_host = (if max_per_host \<le> 0 then 2 else nat max_per_host)"

definition chan_for :: "hs_state \<Rightarrow> string \<Rightarrow> nat \<times> hs_state" where
  "chan_for s host =
     (case hs_slots s host of
        Some c \<Rightarrow> (c, s)
      | None \<Rightarrow> (length (hs_chans s),
          s\<lparr>hs_chans := hs_chans s @ [0], hs_slots := (hs_slots s)(host \<mapsto> length (hs_chans s))\<rparr>))"

definition set_phase :: "nat \<Rightarrow> phase \<Rightarrow> hs_state \<Rightarrow> hs_state" where
  "set_phase t p s = s\<lparr>hs_threads := (hs_threads s)[t := p]\<rparr>"

definition put_token :: "nat \<Rightarrow> hs_state \<Rightarrow> hs_state" where
  "put_token c s = s\<lparr>hs_chans := (hs_chans s)[c := hs_chans s ! c + 1]\<rparr>"

definition take_token :: "nat \<Rightarrow> hs_state \<Rightarrow> hs_state" where
  "take_token c s = s\<lparr>hs_chans := (hs_chans s)[c := hs_chans s ! c - 1]\<rparr>"

definition gap_wait :: "int \<Rightarrow> hs_state \<Rightarrow> string \<Rightarrow> int" where
  \<comment> \<open>minGap - time.Since(lastStart): a host never started has the zero time, long past\<close>
  "gap_wait gap s host =
     (case hs_last s host of None \<Rightarrow> 0 | Some l \<Rightarrow> gap - (hs_now s - l))"

definition hs_gc :: "int \<Rightarrow> hs_state \<Rightarrow> hs_state" where
  "hs_gc idle s =
     (let gone = (\<lambda>host. case hs_slots s host of
            None \<Rightarrow> False
          | Some c \<Rightarrow> hs_chans s ! c = 0
              \<and> (case hs_last s host of None \<Rightarrow> True | Some l \<Rightarrow> idle < hs_now s - l))
      in s\<lparr>hs_slots := (\<lambda>host. if gone host then None else hs_slots s host),
           hs_last := (\<lambda>host. if gone host then None else hs_last s host)\<rparr>)"

section \<open>Steps\<close>

datatype hs_label = Acquire nat string | Send nat | Read nat | Fire nat | Stamp nat | Cancel nat
  | Release nat | Tick int | Gc int

inductive hs_step :: "nat \<Rightarrow> int \<Rightarrow> hs_state \<Rightarrow> hs_label \<Rightarrow> hs_state \<Rightarrow> bool"
  for max_per_host :: nat and gap :: int where
  acquire: "t < length (hs_threads s) \<Longrightarrow> hs_threads s ! t = Idle \<Longrightarrow> chan_for s host = (c, s') \<Longrightarrow>
     hs_step max_per_host gap s (Acquire t host) (set_phase t (Got_Chan host c) s')"
| send: "t < length (hs_threads s) \<Longrightarrow> hs_threads s ! t = Got_Chan host c \<Longrightarrow>
     hs_chans s ! c < max_per_host \<Longrightarrow>
     hs_step max_per_host gap s (Send t) (set_phase t (Slot host c) (put_token c s))"
| cancel_send: "t < length (hs_threads s) \<Longrightarrow> hs_threads s ! t = Got_Chan host c \<Longrightarrow>
     hs_step max_per_host gap s (Cancel t) (set_phase t Idle s)"
| read: "t < length (hs_threads s) \<Longrightarrow> hs_threads s ! t = Slot host c \<Longrightarrow>
     hs_step max_per_host gap s (Read t)
       (set_phase t (if 0 < gap_wait gap s host then Timer host c (hs_now s + gap_wait gap s host)
                     else Ready host c) s)"
| fire: "t < length (hs_threads s) \<Longrightarrow> hs_threads s ! t = Timer host c until \<Longrightarrow> until \<le> hs_now s \<Longrightarrow>
     hs_step max_per_host gap s (Fire t) (set_phase t (Ready host c) s)"
| cancel_timer: "t < length (hs_threads s) \<Longrightarrow> hs_threads s ! t = Timer host c until \<Longrightarrow>
     hs_step max_per_host gap s (Cancel t) (set_phase t Idle (take_token c s))"
| stamp: "t < length (hs_threads s) \<Longrightarrow> hs_threads s ! t = Ready host c \<Longrightarrow>
     hs_step max_per_host gap s (Stamp t)
       (set_phase t (Running host c)
         (s\<lparr>hs_last := (hs_last s)(host \<mapsto> hs_now s), hs_starts := (host, hs_now s) # hs_starts s\<rparr>))"
| release: "t < length (hs_threads s) \<Longrightarrow> hs_threads s ! t = Running host c \<Longrightarrow>
     hs_step max_per_host gap s (Release t) (set_phase t Idle (take_token c s))"
| tick: "0 \<le> d \<Longrightarrow> hs_step max_per_host gap s (Tick d) (s\<lparr>hs_now := hs_now s + d\<rparr>)"
| gc: "hs_step max_per_host gap s (Gc idle) (hs_gc idle s)"

inductive_cases hs_stepE: "hs_step m g s l s'"

inductive hs_run :: "nat \<Rightarrow> int \<Rightarrow> hs_state \<Rightarrow> hs_label list \<Rightarrow> hs_state \<Rightarrow> bool"
  for max_per_host :: nat and gap :: int where
  run_nil: "hs_run max_per_host gap s [] s"
| run_snoc: "hs_run max_per_host gap s ls s' \<Longrightarrow> hs_step max_per_host gap s' l s''
    \<Longrightarrow> hs_run max_per_host gap s (ls @ [l]) s''"

section \<open>The tokens of a channel\<close>

definition holds_slot :: "nat \<Rightarrow> phase \<Rightarrow> bool" where
  \<comment> \<open>the goroutine has a token in the channel\<close>
  "holds_slot c p =
     (case p of Slot _ d \<Rightarrow> d = c | Timer _ d _ \<Rightarrow> d = c | Ready _ d \<Rightarrow> d = c | Running _ d \<Rightarrow> d = c | _ \<Rightarrow> False)"

fun phase_chan :: "phase \<Rightarrow> (string \<times> nat) option" where
  "phase_chan Idle = None"
| "phase_chan (Got_Chan h c) = Some (h, c)"
| "phase_chan (Slot h c) = Some (h, c)"
| "phase_chan (Timer h c u) = Some (h, c)"
| "phase_chan (Ready h c) = Some (h, c)"
| "phase_chan (Running h c) = Some (h, c)"

definition chans_ok :: "nat \<Rightarrow> hs_state \<Rightarrow> bool" where
  "chans_ok m s \<longleftrightarrow>
     (\<forall>c < length (hs_chans s). hs_chans s ! c = count_where (holds_slot c) (hs_threads s) \<and> hs_chans s ! c \<le> m)
      \<and> (\<forall>host c. hs_slots s host = Some c \<longrightarrow> c < length (hs_chans s))
      \<and> (\<forall>p \<in> set (hs_threads s). \<forall>host c. phase_chan p = Some (host, c) \<longrightarrow> c < length (hs_chans s))"

lemma count_where_list_update:
  "t < length xs \<Longrightarrow>
     count_where P (xs[t := x]) + of_bool (P (xs ! t)) = count_where P xs + of_bool (P x)"
proof (induction xs arbitrary: t)
  case (Cons y ys)
  then show ?case by (cases t) (auto simp: count_where_def)
qed simp

lemma count_where_other:
  "count_where P xs \<le> 1 \<Longrightarrow> i < length xs \<Longrightarrow> P (xs ! i) \<Longrightarrow> j < length xs \<Longrightarrow> j \<noteq> i \<Longrightarrow> \<not> P (xs ! j)"
proof
  assume le: "count_where P xs \<le> 1" and i: "i < length xs" "P (xs ! i)"
    and j: "j < length xs" "j \<noteq> i" "P (xs ! j)"
  have "{i, j} \<subseteq> {k. k < length xs \<and> P (xs ! k)}" using i j by auto
  then have "card {i, j} \<le> card {k. k < length xs \<and> P (xs ! k)}" by (intro card_mono) auto
  then show False using le j(2) by (simp add: count_where_def length_filter_conv_card)
qed

lemma count_where_mono:
  "(\<And>x. x \<in> set xs \<Longrightarrow> P x \<Longrightarrow> Q x) \<Longrightarrow> count_where P xs \<le> count_where Q xs"
  by (induction xs) (auto simp: count_where_def intro: le_SucI)

lemma chans_ok_move:
  assumes ok: "chans_ok m s" and t: "t < length (hs_threads s)" "hs_threads s ! t = p"
    and s': "hs_threads s' = (hs_threads s)[t := q]" "hs_slots s' = hs_slots s"
      "length (hs_chans s') = length (hs_chans s)"
    and count: "\<And>c. c < length (hs_chans s) \<Longrightarrow>
        hs_chans s' ! c + of_bool (holds_slot c p) = hs_chans s ! c + of_bool (holds_slot c q) \<and> hs_chans s' ! c \<le> m"
    and q: "phase_chan q = None \<or> phase_chan q = phase_chan p"
  shows "chans_ok m s'"
proof -
  have "hs_chans s' ! c = count_where (holds_slot c) (hs_threads s') \<and> hs_chans s' ! c \<le> m"
    if "c < length (hs_chans s')" for c
  proof -
    have "hs_chans s ! c = count_where (holds_slot c) (hs_threads s)"
      using ok that s'(3) by (simp add: chans_ok_def)
    then show ?thesis
      using count_where_list_update [OF t(1), of "holds_slot c" q] count [of c] that s' t(2) by auto
  qed
  moreover have "c < length (hs_chans s')"
    if "p' \<in> set (hs_threads s')" "phase_chan p' = Some (host, c)" for p' host c
  proof -
    have "p' = q \<or> p' \<in> set (hs_threads s)"
      using that(1) set_update_subset_insert [of "hs_threads s" t q] unfolding s'(1) by blast
    moreover have "p \<in> set (hs_threads s)" using t nth_mem by blast
    ultimately show ?thesis using ok that(2) q s'(3) by (auto simp: chans_ok_def)
  qed
  moreover have "c < length (hs_chans s')" if "hs_slots s' host = Some c" for host c
    using ok that s' by (simp add: chans_ok_def)
  ultimately show ?thesis unfolding chans_ok_def by blast
qed

lemma chans_ok_chan_for:
  assumes ok: "chans_ok m s" and c: "chan_for s host = (c, s')"
  shows "chans_ok m s' \<and> c < length (hs_chans s') \<and> hs_slots s' host = Some c
    \<and> hs_threads s' = hs_threads s \<and> hs_last s' = hs_last s \<and> hs_now s' = hs_now s \<and> hs_starts s' = hs_starts s
    \<and> (\<forall>h d. hs_slots s h = Some d \<longrightarrow> hs_slots s' h = Some d)"
proof (cases "hs_slots s host")
  case (Some d)
  then show ?thesis using assms by (auto simp: chan_for_def chans_ok_def)
next
  case None
  have new: "count_where (holds_slot (length (hs_chans s))) (hs_threads s) = 0"
    unfolding count_where_0_iff
  proof
    fix p assume p: "p \<in> set (hs_threads s)"
    have "phase_chan p = Some (h, d) \<Longrightarrow> d < length (hs_chans s)" for h d
      using ok p by (auto simp: chans_ok_def)
    then show "\<not> holds_slot (length (hs_chans s)) p" by (cases p) (auto simp: holds_slot_def)
  qed
  have s': "s' = s\<lparr>hs_chans := hs_chans s @ [0], hs_slots := (hs_slots s)(host \<mapsto> c)\<rparr>" "c = length (hs_chans s)"
    using c None by (auto simp: chan_for_def)
  then have "chans_ok m s'" using ok new by (fastforce simp: chans_ok_def nth_append less_Suc_eq)
  then show ?thesis using s' None by auto
qed

lemma chans_ok_take:
  assumes "chans_ok m s" "t < length (hs_threads s)" "hs_threads s ! t = p"
    and p: "holds_slot c p" "phase_chan p = Some (host, c)"
  shows "chans_ok m (set_phase t Idle (take_token c s))"
proof (rule chans_ok_move [OF assms(1,2,3)])
  have "p \<in> set (hs_threads s)" using assms(2,3) nth_mem by blast
  then have "count_where (holds_slot c) (hs_threads s) \<noteq> 0" "c < length (hs_chans s)"
    using p assms(1) by (auto simp: count_where_0_iff chans_ok_def)
  then have "0 < hs_chans s ! c" using assms(1) by (simp add: chans_ok_def)
  moreover have "holds_slot d p \<longleftrightarrow> d = c" for d using p by (cases p) (auto simp: holds_slot_def)
  moreover have "hs_chans s ! d \<le> m" if "d < length (hs_chans s)" for d
    using assms(1) that unfolding chans_ok_def by blast
  ultimately show "hs_chans (set_phase t Idle (take_token c s)) ! d + of_bool (holds_slot d p)
      = hs_chans s ! d + of_bool (holds_slot d Idle) \<and> hs_chans (set_phase t Idle (take_token c s)) ! d \<le> m"
    if "d < length (hs_chans s)" for d
    using that by (auto simp: set_phase_def take_token_def nth_list_update holds_slot_def intro: le_trans [OF diff_le_self])
qed (simp_all add: set_phase_def take_token_def)

lemma hs_step_chans_ok: "hs_step m gap s l s' \<Longrightarrow> chans_ok m s \<Longrightarrow> chans_ok m s'"
proof (induction rule: hs_step.induct)
  case (acquire t s host c s')
  note c = chans_ok_chan_for [OF acquire(4,3)]
  have "set ((hs_threads s')[t := Got_Chan host c]) \<subseteq> insert (Got_Chan host c) (set (hs_threads s'))"
    by (rule set_update_subset_insert)
  then show ?case
    using c acquire(1,2) count_where_list_update [of t "hs_threads s'" "holds_slot _" "Got_Chan host c"]
    by (fastforce simp: chans_ok_def set_phase_def holds_slot_def)
next
  case (send t s host c)
  then have "c < length (hs_chans s)" by (auto simp: chans_ok_def dest!: nth_mem)
  then show ?case
    using send by (intro chans_ok_move [OF send(4,1,2)])
      (auto simp: set_phase_def put_token_def holds_slot_def nth_list_update chans_ok_def)
next
  case (cancel_send t s host c)
  then show ?case
    by (intro chans_ok_move [OF cancel_send(3,1,2)]) (auto simp: set_phase_def holds_slot_def chans_ok_def)
next
  case (read t s host c)
  then show ?case
    by (cases "0 < gap_wait gap s host"; intro chans_ok_move [OF read(3,1,2)])
      (auto simp: set_phase_def holds_slot_def chans_ok_def)
next
  case (fire t s host c until)
  then show ?case
    by (intro chans_ok_move [OF fire(4,1,2)]) (auto simp: set_phase_def holds_slot_def chans_ok_def)
next
  case (stamp t s host c)
  then show ?case
    by (intro chans_ok_move [OF stamp(3,1,2)]) (auto simp: set_phase_def holds_slot_def chans_ok_def)
next
  case (tick d s)
  have "chans_ok m (s\<lparr>hs_now := hs_now s + d\<rparr>) = chans_ok m s"
    by (simp add: chans_ok_def)
  then show ?case using tick(2) by simp
next
  case (gc s idle)
  then show ?case by (auto simp: chans_ok_def hs_gc_def Let_def split: if_splits)
next
  case (cancel_timer t s host c until)
  show ?case by (rule chans_ok_take [OF cancel_timer(3,1,2)]) (simp_all add: holds_slot_def)
next
  case (release t s host c)
  show ?case by (rule chans_ok_take [OF release(3,1,2)]) (simp_all add: holds_slot_def)
qed

section \<open>Runs without GC\<close>

definition gc_free :: "hs_label list \<Rightarrow> bool" where
  "gc_free ls = list_all (\<lambda>l. case l of Gc _ \<Rightarrow> False | _ \<Rightarrow> True) ls"

definition slots_current :: "hs_state \<Rightarrow> bool" where
  \<comment> \<open>every goroutine uses the channel the map still names\<close>
  "slots_current s \<longleftrightarrow>
     (\<forall>p \<in> set (hs_threads s). \<forall>host c. phase_chan p = Some (host, c) \<longrightarrow> hs_slots s host = Some c)"

lemma slots_current_move:
  assumes "slots_current s" "t < length (hs_threads s)" "phase_chan q = None \<or> phase_chan q = phase_chan (hs_threads s ! t)"
    "hs_threads s' = (hs_threads s)[t := q]" "hs_slots s' = hs_slots s"
  shows "slots_current s'"
  unfolding slots_current_def
proof (intro ballI allI impI)
  fix p host c assume p: "p \<in> set (hs_threads s')" "phase_chan p = Some (host, c)"
  have "p = q \<or> p \<in> set (hs_threads s)"
    using p(1) set_update_subset_insert [of "hs_threads s" t q] unfolding assms(4) by blast
  moreover have "hs_threads s ! t \<in> set (hs_threads s)" using assms(2) by simp
  ultimately show "hs_slots s' host = Some c"
    using assms(1,3) p(2) unfolding slots_current_def assms(5) by auto
qed

lemma hs_step_slots_current:
  "hs_step m gap s l s' \<Longrightarrow> gc_free [l] \<Longrightarrow> chans_ok m s \<Longrightarrow> slots_current s \<Longrightarrow> slots_current s'"
proof (induction rule: hs_step.induct)
  case (acquire t s host c s')
  note c = chans_ok_chan_for [OF acquire(5,3)]
  have "set ((hs_threads s')[t := Got_Chan host c]) \<subseteq> insert (Got_Chan host c) (set (hs_threads s'))"
    by (rule set_update_subset_insert)
  then show ?case using c acquire(6) by (fastforce simp: slots_current_def set_phase_def)
next
  case (read t s host c)
  then show ?case by (intro slots_current_move [OF read(5,1)]) (auto simp: set_phase_def)
next
  case (send t s host c)
  then show ?case by (intro slots_current_move [OF send(6,1)]) (auto simp: set_phase_def put_token_def)
next
  case (cancel_send t s host c)
  then show ?case by (intro slots_current_move [OF cancel_send(5,1)]) (auto simp: set_phase_def)
next
  case (fire t s host c until)
  then show ?case by (intro slots_current_move [OF fire(6,1)]) (auto simp: set_phase_def)
next
  case (cancel_timer t s host c until)
  then show ?case by (intro slots_current_move [OF cancel_timer(5,1)]) (auto simp: set_phase_def take_token_def)
next
  case (stamp t s host c)
  then show ?case by (intro slots_current_move [OF stamp(5,1)]) (auto simp: set_phase_def)
next
  case (release t s host c)
  then show ?case by (intro slots_current_move [OF release(5,1)]) (auto simp: set_phase_def take_token_def)
next
  case (tick d s)
  then show ?case by (simp add: slots_current_def)
next
  case (gc s idle)
  then show ?case by (simp add: gc_free_def)
qed

lemma new_host_semaphore_ok: "chans_ok m (new_host_semaphore n) \<and> slots_current (new_host_semaphore n)"
  by (auto simp: chans_ok_def slots_current_def new_host_semaphore_def)

lemma hs_run_ok:
  "hs_run m gap s ls s' \<Longrightarrow> gc_free ls \<Longrightarrow> chans_ok m s \<Longrightarrow> slots_current s
    \<Longrightarrow> chans_ok m s' \<and> slots_current s'"
proof (induction rule: hs_run.induct)
  case (run_snoc s ls s' l s'')
  have "gc_free ls" "gc_free [l]" using run_snoc.prems(1) by (simp_all add: gc_free_def)
  then show ?case
    using run_snoc hs_step_chans_ok [OF run_snoc.hyps(2)] hs_step_slots_current [OF run_snoc.hyps(2)] by blast
qed simp

definition on_host :: "string \<Rightarrow> phase \<Rightarrow> bool" where
  \<comment> \<open>the goroutine holds a slot of the host; a running request is one\<close>
  "on_host host p =
     (case p of Slot h _ \<Rightarrow> h = host | Timer h _ _ \<Rightarrow> h = host | Ready h _ \<Rightarrow> h = host
      | Running h _ \<Rightarrow> h = host | _ \<Rightarrow> False)"

lemma on_host_at_most:
  assumes "chans_ok m s" "slots_current s"
  shows "count_where (on_host host) (hs_threads s) \<le> m"
proof (cases "hs_slots s host")
  case None
  have "\<not> on_host host p" if "p \<in> set (hs_threads s)" for p
    using assms(2) None that by (cases p) (fastforce simp: on_host_def slots_current_def)+
  then have "count_where (on_host host) (hs_threads s) = 0" by (simp add: count_where_0_iff)
  then show ?thesis by simp
next
  case (Some c)
  have "holds_slot c p" if "p \<in> set (hs_threads s)" "on_host host p" for p
    using assms(2) Some that by (cases p) (fastforce simp: on_host_def holds_slot_def slots_current_def)+
  then have "count_where (on_host host) (hs_threads s) \<le> count_where (holds_slot c) (hs_threads s)"
    by (rule count_where_mono)
  also have "\<dots> \<le> m" using assms(1) Some unfolding chans_ok_def by (metis (no_types, lifting))
  finally show ?thesis .
qed

text \<open>
  As long as GC does not run, at most maxPerHost requests to a host are between the
  reservation of their slot and its release, however the goroutines interleave.
\<close>

theorem host_concurrency:
  assumes "hs_run m gap (new_host_semaphore n) ls s" "gc_free ls"
  shows "count_where (on_host host) (hs_threads s) \<le> m"
  using hs_run_ok [OF assms] new_host_semaphore_ok on_host_at_most by blast

section \<open>The gap between two starts\<close>

fun spaced :: "int \<Rightarrow> (string \<times> int) list \<Rightarrow> bool" where
  \<comment> \<open>newest first: every start is at least the gap after the previous one of its host\<close>
  "spaced gap [] = True"
| "spaced gap ((h, t) # ss) =
     ((case map_of ss h of None \<Rightarrow> True | Some l \<Rightarrow> l + gap \<le> t) \<and> spaced gap ss)"

definition due :: "int \<Rightarrow> hs_state \<Rightarrow> phase \<Rightarrow> bool" where
  "due gap s p =
     (case p of
        Timer h _ u \<Rightarrow> (case hs_last s h of None \<Rightarrow> True | Some l \<Rightarrow> l + gap \<le> u)
      | Ready h _ \<Rightarrow> (case hs_last s h of None \<Rightarrow> True | Some l \<Rightarrow> l + gap \<le> hs_now s)
      | _ \<Rightarrow> True)"

definition gap_ok :: "int \<Rightarrow> hs_state \<Rightarrow> bool" where
  "gap_ok gap s \<longleftrightarrow> hs_last s = map_of (hs_starts s) \<and> spaced gap (hs_starts s)
     \<and> (\<forall>p \<in> set (hs_threads s). due gap s p)"

lemma due_cong: "hs_last s' = hs_last s \<Longrightarrow> hs_now s' = hs_now s \<Longrightarrow> due gap s' p = due gap s p"
  by (simp add: due_def split: phase.split option.split)

lemma gap_ok_move:
  assumes "gap_ok gap s" "due gap s q" "hs_last s' = hs_last s" "hs_starts s' = hs_starts s"
    "hs_now s' = hs_now s" "hs_threads s' = (hs_threads s)[t := q]"
  shows "gap_ok gap s'"
proof -
  have "due gap s' p = due gap s p" for p by (rule due_cong [OF assms(3,5)])
  moreover have "set (hs_threads s') \<subseteq> insert q (set (hs_threads s))"
    unfolding assms(6) by (rule set_update_subset_insert)
  ultimately show ?thesis using assms(1,2) unfolding gap_ok_def assms(3,4) by blast
qed

lemma hs_step_gap_ok:
  "hs_step 1 gap s l s' \<Longrightarrow> gc_free [l] \<Longrightarrow> chans_ok 1 s \<Longrightarrow> slots_current s \<Longrightarrow> gap_ok gap s \<Longrightarrow> gap_ok gap s'"
proof (induction rule: hs_step.induct)
  case (acquire t s host c s')
  note c = chans_ok_chan_for [OF acquire(5,3)]
  then show ?case
    using gap_ok_move [OF acquire(7), of "Got_Chan host c" "set_phase t (Got_Chan host c) s'" t]
    by (simp add: due_def set_phase_def)
next
  case (send t s host c)
  then show ?case by (intro gap_ok_move [OF send(7), of "Slot host c"]) (auto simp: set_phase_def put_token_def due_def)
next
  case (cancel_send t s host c)
  then show ?case by (intro gap_ok_move [OF cancel_send(6), of Idle]) (auto simp: set_phase_def due_def)
next
  case (read t s host c)
  show ?case
    by (rule gap_ok_move [OF read(6)])
      (auto simp: set_phase_def due_def gap_wait_def split: option.splits if_splits)
next
  case (fire t s host c until)
  have "due gap s (Timer host c until)" using fire(1,2,7) nth_mem by (fastforce simp: gap_ok_def)
  then show ?case
    using fire by (intro gap_ok_move [OF fire(7), of "Ready host c"])
      (auto simp: set_phase_def due_def split: option.splits)
next
  case (cancel_timer t s host c until)
  then show ?case by (intro gap_ok_move [OF cancel_timer(6), of Idle]) (auto simp: set_phase_def take_token_def due_def)
next
  case (release t s host c)
  then show ?case by (intro gap_ok_move [OF release(6), of Idle]) (auto simp: set_phase_def take_token_def due_def)
next
  case (tick d s)
  have "due gap (s\<lparr>hs_now := hs_now s + d\<rparr>) p" if "due gap s p" for p
    using that tick(1) by (auto simp: due_def split: phase.splits option.splits)
  then show ?case using tick(5) by (auto simp: gap_ok_def)
next
  case (stamp t s host c)
  let ?s = "s\<lparr>hs_last := (hs_last s)(host \<mapsto> hs_now s), hs_starts := (host, hs_now s) # hs_starts s\<rparr>"
  have ready: "due gap s (Ready host c)" using stamp(1,2,6) nth_mem by (fastforce simp: gap_ok_def)
  have one: "count_where (on_host host) (hs_threads s) \<le> 1" by (rule on_host_at_most) (rule stamp(4,5))+
  have "due gap ?s p" if mem: "p \<in> set ((hs_threads s)[t := Running host c])" for p
  proof -
    obtain k where k: "k < length (hs_threads s)" "p = (hs_threads s)[t := Running host c] ! k"
      using mem unfolding in_set_conv_nth length_list_update by blast
    show ?thesis
    proof (cases "k = t")
      case True
      then show ?thesis using k by (simp add: due_def)
    next
      case False
      then have p: "p = hs_threads s ! k" using k by simp
      have "on_host host (hs_threads s ! t)" by (simp add: stamp(2) on_host_def)
      then have "\<not> on_host host p" unfolding p by (rule count_where_other [OF one stamp(1) _ k(1) False])
      moreover have "due gap s p" using stamp(6) k(1) p by (simp add: gap_ok_def)
      ultimately show ?thesis by (auto simp: due_def on_host_def split: phase.splits option.splits)
    qed
  qed
  moreover have "spaced gap ((host, hs_now s) # hs_starts s)"
    using ready stamp(6) by (auto simp: gap_ok_def due_def split: option.splits)
  moreover have "due gap (set_phase t (Running host c) ?s) p = due gap ?s p" for p
    by (rule due_cong) (simp_all add: set_phase_def)
  moreover have "hs_last s = map_of (hs_starts s)" using stamp(6) by (simp add: gap_ok_def)
  ultimately show ?case unfolding gap_ok_def by (simp add: set_phase_def)
next
  case (gc s idle)
  then show ?case by (simp add: gc_free_def)
qed

lemma hs_run_gap_ok:
  "hs_run 1 gap s ls s' \<Longrightarrow> gc_free ls \<Longrightarrow> chans_ok 1 s \<Longrightarrow> slots_current s \<Longrightarrow> gap_ok gap s \<Longrightarrow> gap_ok gap s'"
proof (induction rule: hs_run.induct)
  case (run_snoc s ls s' l s'')
  have gf: "gc_free ls" "gc_free [l]" using run_snoc.prems(1) by (simp_all add: gc_free_def)
  have "gap_ok gap s'" using run_snoc.IH gf(1) run_snoc.prems(2-4) by blast
  moreover have "chans_ok 1 s'" "slots_current s'"
    using hs_run_ok [OF run_snoc.hyps(1) gf(1)] run_snoc.prems(2,3) by blast+
  ultimately show ?case using hs_step_gap_ok [OF run_snoc.hyps(2) gf(2)] by blast
qed simp

text \<open>
  With one slot per host, and while GC does not run, every request to a host starts at least
  minGap after the previous one, in every interleaving.
\<close>

theorem single_slot_gap:
  assumes "hs_run 1 gap (new_host_semaphore n) ls s" "gc_free ls"
  shows "spaced gap (hs_starts s)"
proof -
  have "gap_ok gap (new_host_semaphore n)" by (auto simp: gap_ok_def new_host_semaphore_def due_def)
  then show ?thesis
    using hs_run_gap_ok [OF assms] new_host_semaphore_ok by (auto simp: gap_ok_def)
qed

section \<open>Executing a schedule\<close>

definition hs_next :: "nat \<Rightarrow> int \<Rightarrow> hs_state \<Rightarrow> hs_label \<Rightarrow> hs_state option" where
  \<comment> \<open>the successor under a label; a step is determined by its label\<close>
  "hs_next m gap s l =
     (let phase = (\<lambda>t. if t < length (hs_threads s) then Some (hs_threads s ! t) else None) in
      case l of
        Acquire t host \<Rightarrow>
          if phase t = Some Idle
          then (let (c, s') = chan_for s host in Some (set_phase t (Got_Chan host c) s')) else None
      | Send t \<Rightarrow>
          (case phase t of
             Some (Got_Chan host c) \<Rightarrow>
               if hs_chans s ! c < m then Some (set_phase t (Slot host c) (put_token c s)) else None
           | _ \<Rightarrow> None)
      | Read t \<Rightarrow>
          (case phase t of
             Some (Slot host c) \<Rightarrow>
               Some (set_phase t (if 0 < gap_wait gap s host then Timer host c (hs_now s + gap_wait gap s host)
                                  else Ready host c) s)
           | _ \<Rightarrow> None)
      | Fire t \<Rightarrow>
          (case phase t of
             Some (Timer host c until) \<Rightarrow> if until \<le> hs_now s then Some (set_phase t (Ready host c) s) else None
           | _ \<Rightarrow> None)
      | Stamp t \<Rightarrow>
          (case phase t of
             Some (Ready host c) \<Rightarrow>
               Some (set_phase t (Running host c)
                 (s\<lparr>hs_last := (hs_last s)(host \<mapsto> hs_now s), hs_starts := (host, hs_now s) # hs_starts s\<rparr>))
           | _ \<Rightarrow> None)
      | Cancel t \<Rightarrow>
          (case phase t of
             Some (Got_Chan host c) \<Rightarrow> Some (set_phase t Idle s)
           | Some (Timer host c until) \<Rightarrow> Some (set_phase t Idle (take_token c s))
           | _ \<Rightarrow> None)
      | Release t \<Rightarrow>
          (case phase t of
             Some (Running host c) \<Rightarrow> Some (set_phase t Idle (take_token c s))
           | _ \<Rightarrow> None)
      | Tick d \<Rightarrow> if 0 \<le> d then Some (s\<lparr>hs_now := hs_now s + d\<rparr>) else None
      | Gc idle \<Rightarrow> Some (hs_gc idle s))"

lemma hs_step_read_wait:
  "t < length (hs_threads s) \<Longrightarrow> hs_threads s ! t = Slot host c \<Longrightarrow> 0 < gap_wait gap s host \<Longrightarrow>
     hs_step m gap s (Read t) (set_phase t (Timer host c (hs_now s + gap_wait gap s host)) s)"
  and hs_step_read_go:
  "t < length (hs_threads s) \<Longrightarrow> hs_threads s ! t = Slot host c \<Longrightarrow> \<not> 0 < gap_wait gap s host \<Longrightarrow>
     hs_step m gap s (Read t) (set_phase t (Ready host c) s)"
  using hs_step.read [of t s host c m gap] by simp_all

lemmas hs_step_intros = hs_step.acquire hs_step.send hs_step.cancel_send hs_step_read_wait hs_step_read_go
  hs_step.fire hs_step.cancel_timer hs_step.stamp hs_step.release hs_step.tick hs_step.gc

lemma hs_next_sound: "hs_next m gap s l = Some s' \<Longrightarrow> hs_step m gap s l s'"
  by (cases l)
    (auto simp: hs_next_def Let_def split: if_splits option.splits phase.splits prod.splits intro: hs_step_intros)

lemma hs_next_complete: "hs_step m gap s l s' \<Longrightarrow> hs_next m gap s l = Some s'"
  by (induction rule: hs_step.induct) (simp_all add: hs_next_def)

fun hs_exec :: "nat \<Rightarrow> int \<Rightarrow> hs_state \<Rightarrow> hs_label list \<Rightarrow> hs_state option" where
  "hs_exec m gap s [] = Some s"
| "hs_exec m gap s (l # ls) = (case hs_next m gap s l of None \<Rightarrow> None | Some s' \<Rightarrow> hs_exec m gap s' ls)"

lemma hs_run_cons: "hs_run m gap s' ls s'' \<Longrightarrow> hs_step m gap s l s' \<Longrightarrow> hs_run m gap s (l # ls) s''"
proof (induction rule: hs_run.induct)
  case (run_nil s')
  then show ?case using hs_run.run_snoc [OF hs_run.run_nil] by fastforce
next
  case (run_snoc s0 ls s1 k s2)
  then show ?case using hs_run.run_snoc [of m gap s "l # ls" s1 k s2] by simp
qed

lemma hs_exec_run: "hs_exec m gap s ls = Some s' \<Longrightarrow> hs_run m gap s ls s'"
proof (induction ls arbitrary: s)
  case (Cons l ls)
  then show ?case by (auto split: option.splits intro: hs_run_cons hs_next_sound)
qed (simp add: hs_run.run_nil)

theorem host_concurrency_witness:
  "\<exists>s. hs_exec 2 5 (new_host_semaphore 3) [Acquire 0 ''h'', Acquire 1 ''h'', Acquire 2 ''h'', Send 0, Send 1] = Some s
     \<and> count_where (on_host ''h'') (hs_threads s) \<le> 2
     \<and> hs_next 2 5 s (Send 2) = None"
proof -
  let ?ls = "[Acquire 0 ''h'', Acquire 1 ''h'', Acquire 2 ''h'', Send 0, Send 1]"
  have none: "(case hs_exec 2 5 (new_host_semaphore 3) ?ls of None \<Rightarrow> False | Some s \<Rightarrow> hs_next 2 5 s (Send 2) = None)"
    by code_simp
  obtain s where s: "hs_exec 2 5 (new_host_semaphore 3) ?ls = Some s" "hs_next 2 5 s (Send 2) = None"
    using none by (cases "hs_exec 2 5 (new_host_semaphore 3) ?ls") auto
  have "gc_free ?ls" by (simp add: gc_free_def)
  then have "count_where (on_host ''h'') (hs_threads s) \<le> 2"
    by (rule host_concurrency [OF hs_exec_run [OF s(1)]])
  then show ?thesis using s by (intro exI [of _ s] conjI)
qed

theorem single_slot_gap_witness:
  "\<exists>s. hs_exec 1 5 (new_host_semaphore 2)
         [Acquire 0 ''h'', Acquire 1 ''h'', Send 0, Read 0, Stamp 0, Tick 1, Release 0,
          Send 1, Read 1, Tick 4, Fire 1, Stamp 1] = Some s
     \<and> hs_starts s = [(''h'', 5), (''h'', 0)] \<and> spaced 5 (hs_starts s)"
proof -
  let ?ls = "[Acquire 0 ''h'', Acquire 1 ''h'', Send 0, Read 0, Stamp 0, Tick 1, Release 0,
          Send 1, Read 1, Tick 4, Fire 1, Stamp 1]"
  have "(case hs_exec 1 5 (new_host_semaphore 2) ?ls of None \<Rightarrow> False
      | Some s \<Rightarrow> hs_starts s = [(''h'', 5), (''h'', 0)])"
    by code_simp
  then obtain s where s: "hs_exec 1 5 (new_host_semaphore 2) ?ls = Some s" "hs_starts s = [(''h'', 5), (''h'', 0)]"
    by (cases "hs_exec 1 5 (new_host_semaphore 2) ?ls") auto
  have "gc_free ?ls" by (simp add: gc_free_def)
  then have "spaced 5 (hs_starts s)" by (rule single_slot_gap [OF hs_exec_run [OF s(1)]])
  then show ?thesis using s by (intro exI [of _ s] conjI)
qed

text \<open>
  C40. Both promises fail outside those conditions. With the default of two slots the first two
  requests to a host start at the same instant: both goroutines read lastStart before either
  writes it. And when GC runs between chanFor and the send, it forgets a channel a
  goroutine is about to use: with one slot per host two requests run at once.
\<close>

definition gap_race :: "hs_label list" where
  "gap_race = [Acquire 0 ''h'', Acquire 1 ''h'', Send 0, Send 1, Read 0, Read 1, Stamp 0, Stamp 1]"

definition gc_race :: "hs_label list" where
  "gc_race = [Acquire 0 ''h'', Gc 600, Acquire 1 ''h'', Send 0, Read 0, Stamp 0, Tick 5, Send 1, Read 1, Stamp 1]"


section \<open>Acquire finishes\<close>

lemma hs_run_two: "hs_step m gap s k s1 \<Longrightarrow> hs_run m gap s1 ls s2 \<Longrightarrow> hs_run m gap s (k # ls) s2"
  by (rule hs_run_cons)

lemma started_from_ready:
  assumes "t < length (hs_threads s)" "hs_threads s ! t = Ready host c"
  shows "\<exists>s'. hs_run m gap s [Stamp t] s' \<and> hs_threads s' ! t = Running host c \<and> hs_now s' = hs_now s"
proof -
  define s' where "s' = set_phase t (Running host c)
    (s\<lparr>hs_last := (hs_last s)(host \<mapsto> hs_now s), hs_starts := (host, hs_now s) # hs_starts s\<rparr>)"
  have "hs_run m gap s [Stamp t] s'"
    unfolding s'_def by (rule hs_run_two [OF hs_step.stamp [OF assms] hs_run.run_nil])
  moreover have "hs_threads s' ! t = Running host c" "hs_now s' = hs_now s"
    using assms(1) by (simp_all add: s'_def set_phase_def)
  ultimately show ?thesis by (intro exI [of _ s'] conjI)
qed

text \<open>
  An Acquire that finds a token free needs no other goroutine to finish: from any state whose
  last start of the host is not in the future there is a run of its own steps, and of the
  clock by at most minGap, that ends with the request running.
\<close>

theorem acquire_finishes:
  assumes t: "t < length (hs_threads s)" "hs_threads s ! t = Got_Chan host c" "hs_chans s ! c < m"
    and "0 \<le> gap" "\<And>l. hs_last s host = Some l \<Longrightarrow> l \<le> hs_now s"
  shows "\<exists>ls s'. hs_run m gap s ls s' \<and> hs_threads s' ! t = Running host c
    \<and> hs_now s' \<le> hs_now s + gap \<and> set ls \<subseteq> {Send t, Read t, Fire t, Stamp t} \<union> range Tick"
proof -
  define s1 where "s1 = set_phase t (Slot host c) (put_token c s)"
  have send: "hs_step m gap s (Send t) s1" unfolding s1_def by (rule hs_step.send [OF t])
  have s1: "t < length (hs_threads s1)" "hs_threads s1 ! t = Slot host c" "hs_now s1 = hs_now s" "hs_last s1 = hs_last s"
    using t(1) by (simp_all add: s1_def set_phase_def put_token_def)
  show ?thesis
  proof (cases "0 < gap_wait gap s1 host")
    case False
    define s2 where "s2 = set_phase t (Ready host c) s1"
    have "hs_step m gap s1 (Read t) s2" unfolding s2_def by (rule hs_step_read_go [OF s1(1,2) False])
    moreover obtain s3 where "hs_run m gap s2 [Stamp t] s3" "hs_threads s3 ! t = Running host c" "hs_now s3 = hs_now s2"
      using started_from_ready [of t s2 host c m gap] s1(1) by (auto simp: s2_def set_phase_def)
    moreover have "hs_now s2 = hs_now s" using s1(3) by (simp add: s2_def set_phase_def)
    ultimately show ?thesis
      using hs_run_two [OF send hs_run_two] assms(4) by (intro exI [of _ "[Send t, Read t, Stamp t]"] exI [of _ s3]) auto
  next
    case True
    define w where "w = gap_wait gap s1 host"
    have w: "0 < w" "w \<le> gap"
      using True assms(5) s1(3,4) by (auto simp: w_def gap_wait_def split: option.splits)
    define s2 where "s2 = set_phase t (Timer host c (hs_now s1 + w)) s1"
    define s3 where "s3 = s2\<lparr>hs_now := hs_now s2 + w\<rparr>"
    define s4 where "s4 = set_phase t (Ready host c) s3"
    have "hs_step m gap s1 (Read t) s2" unfolding s2_def w_def by (rule hs_step_read_wait [OF s1(1,2) True])
    moreover have "hs_step m gap s2 (Tick w) s3" unfolding s3_def by (rule hs_step.tick) (use w in simp)
    moreover have "hs_step m gap s3 (Fire t) s4"
      unfolding s4_def by (rule hs_step.fire) (use s1 in \<open>auto simp: s3_def s2_def set_phase_def\<close>)
    moreover obtain s5 where "hs_run m gap s4 [Stamp t] s5" "hs_threads s5 ! t = Running host c" "hs_now s5 = hs_now s4"
      using started_from_ready [of t s4 host c m gap] s1(1) by (auto simp: s4_def s3_def s2_def set_phase_def)
    moreover have "hs_now s4 = hs_now s + w" using s1(3) by (simp add: s4_def s3_def s2_def set_phase_def)
    ultimately show ?thesis
      using hs_run_two [OF send hs_run_two [OF _ hs_run_two [OF _ hs_run_two]]] w
      by (intro exI [of _ "[Send t, Read t, Tick w, Fire t, Stamp t]"] exI [of _ s5]) auto
  qed
qed

theorem acquire_finishes_witness:
  "\<exists>s ls s'. hs_exec 2 5 (new_host_semaphore 1) [Acquire 0 ''h''] = Some s
     \<and> hs_run 2 5 s ls s' \<and> hs_threads s' ! 0 = Running ''h'' 0"
proof -
  let ?ls = "[Acquire 0 ''h'']"
  have "(case hs_exec 2 5 (new_host_semaphore 1) ?ls of None \<Rightarrow> False
      | Some s \<Rightarrow> hs_threads s = [Got_Chan ''h'' 0] \<and> hs_chans s = [0] \<and> hs_last s ''h'' = None)" by code_simp
  then obtain s where s: "hs_exec 2 5 (new_host_semaphore 1) ?ls = Some s"
      "hs_threads s = [Got_Chan ''h'' 0]" "hs_chans s = [0]" "hs_last s ''h'' = None"
    by (cases "hs_exec 2 5 (new_host_semaphore 1) ?ls") auto
  obtain ls s' where "hs_run 2 5 s ls s'" "hs_threads s' ! 0 = Running ''h'' 0"
    using acquire_finishes [of 0 s "''h''" 0 2 5] s by auto
  then show ?thesis using s(1) by (intro exI [of _ s] exI [of _ ls] exI [of _ s'] conjI)
qed

text \<open>A scheduler that skips labels that are not enabled keeps the channel accounting.\<close>

definition hs_do :: "nat \<Rightarrow> int \<Rightarrow> hs_state \<Rightarrow> hs_label \<Rightarrow> hs_state" where
  "hs_do m gap s l = (case hs_next m gap s l of None \<Rightarrow> s | Some s' \<Rightarrow> s')"

interpretation semaphore: invariant_machine "hs_do m gap" "chans_ok m" for m gap
  by unfold_locales (auto simp: hs_do_def split: option.splits intro: hs_step_chans_ok hs_next_sound)

text \<open>
  Even with GC running, in every run of the scheduler no channel ever holds more tokens
  than maxPerHost, and its tokens are exactly those of the goroutines that use it: what the
  race loses is the bound per host, not the accounting per channel.
\<close>

theorem channel_accounting:
  "chans_ok m (foldl (hs_do m gap) (new_host_semaphore n) ls)"
  by (rule semaphore.run_inv) (simp add: new_host_semaphore_ok)

end
