(* ===== verification/Truncate.thy ===== *)
theory Truncate
  imports Prelude
begin

text \<open>
  \<open>truncateUTF8\<close> of \<open>internal/crawler/parser.go\<close>, which cuts an entry's body to 512 KiB without
  splitting a rune, and what it keeps of a well-formed string.
\<close>

definition is_rune :: "string \<Rightarrow> bool" where
  \<comment> \<open>the UTF-8 encoding of one code point\<close>
  "is_rune r \<longleftrightarrow> r \<noteq> [] \<and> rune_width r = length r \<and> (length r = 1 \<longrightarrow> byte_in 0 127 (hd r))"

definition ends_in_rune :: "string \<Rightarrow> bool" where
  \<comment> \<open>DecodeLastRuneInString finds a code point\<close>
  "ends_in_rune b \<longleftrightarrow> list_ex (\<lambda>k. k \<le> length b \<and> is_rune (drop (length b - k) b)) [1, 2, 3, 4]"

function drop_partial :: "string \<Rightarrow> string" where
  "drop_partial b = (if b = [] \<or> ends_in_rune b then b else drop_partial (butlast b))"
  by pat_completeness auto
termination
  by (relation "measure length") auto

declare drop_partial.simps [simp del]

definition truncate_utf8 :: "string \<Rightarrow> nat \<Rightarrow> string" where
  "truncate_utf8 s n = (if length s \<le> n then s else drop_partial (take n s))"

section \<open>What truncation keeps\<close>

lemma drop_partial_prefix: "\<exists>k \<le> length b. drop_partial b = take k b"
proof (induction b rule: drop_partial.induct)
  case (1 b)
  show ?case
  proof (cases "b = [] \<or> ends_in_rune b")
    case True
    then show ?thesis by (subst drop_partial.simps) (auto intro: exI [of _ "length b"])
  next
    case False
    then have "\<exists>k \<le> length (butlast b). drop_partial (butlast b) = take k (butlast b)" by (rule 1)
    then obtain k where "k \<le> length (butlast b)" "drop_partial (butlast b) = take k (butlast b)" by blast
    moreover have "drop_partial b = drop_partial (butlast b)" using False by (simp add: drop_partial.simps [of b])
    moreover have "take k (butlast b) = take k b"
      using calculation(1) False by (simp add: butlast_conv_take min_def split: if_splits)
    ultimately show ?thesis by (intro exI [of _ k]) simp
  qed
qed

lemma rune_width_append:
  assumes "is_rune r"
  shows "rune_width (r @ s) = length r"
proof -
  obtain c cs where r: "r = c # cs" using assms by (cases r) (auto simp: is_rune_def)
  define seq where "seq cs lo hi n =
    (if n \<le> length cs \<and> byte_in lo hi (hd cs) \<and> list_all (byte_in 128 191) (take (n - 1) (tl cs)) then n + 1 else 1)"
    for cs and lo hi n :: nat
  have w: "rune_width (c # x) =
     (if byte_in 194 223 c then seq x 128 191 1
      else if byte_in 224 224 c then seq x 160 191 2
      else if byte_in 237 237 c then seq x 128 159 2
      else if byte_in 225 239 c then seq x 128 191 2
      else if byte_in 240 240 c then seq x 144 191 3
      else if byte_in 241 243 c then seq x 128 191 3
      else if byte_in 244 244 c then seq x 128 143 3
      else 1)" for x
    by (simp only: rune_width.simps Let_def seq_def)
  have len: "rune_width (c # cs) = Suc (length cs)" using assms by (simp only: is_rune_def r length_Cons)
  have keep: "seq (cs @ s) lo hi n = Suc (length cs)"
    if "seq cs lo hi n = Suc (length cs)" "\<not> byte_in 0 127 c" "0 < n" for lo hi n
  proof -
    have "cs \<noteq> []" using assms that(2) by (auto simp: is_rune_def r)
    then have n: "n = length cs" and c: "byte_in lo hi (hd cs)" "list_all (byte_in 128 191) (take (n - 1) (tl cs))"
      using that(1) by (auto simp: seq_def split: if_splits)
    moreover have "take (n - 1) (tl (cs @ s)) = take (n - 1) (tl cs)" "hd (cs @ s) = hd cs"
      using n \<open>cs \<noteq> []\<close> by (simp_all add: tl_append split: list.split)
    ultimately show ?thesis by (simp add: seq_def)
  qed
  have high: "\<not> byte_in 0 127 c" if "byte_in lo hi c" "127 < lo" for lo hi
    using that by (auto simp: byte_in_def)
  have one: "cs = []" if "rune_width (c # cs) = 1" using len that by simp
  show ?thesis
    using len keep high one unfolding r append_Cons w length_Cons
    by (simp split: if_splits)
qed

lemma rune_shape:
  assumes "is_rune r"
  shows "length r \<le> 4" "c \<in> set (tl r) \<Longrightarrow> byte_in 128 191 c" "1 < length r \<Longrightarrow> \<not> byte_in 128 191 (hd r)"
proof -
  obtain x xs where r: "r = x # xs" using assms by (cases r) (auto simp: is_rune_def)
  have w: "rune_width (x # xs) = Suc (length xs)" using assms by (simp only: is_rune_def r length_Cons)
  have tl: "c \<in> set xs \<Longrightarrow> byte_in 128 191 c"
    if "n = length xs" "0 < n" "byte_in lo hi (hd xs)" "128 \<le> lo" "hi \<le> 191"
      "list_all (byte_in 128 191) (take (n - 1) (tl xs))" for lo hi n
    using that by (cases xs) (auto simp: byte_in_def list_all_iff)
  show "length r \<le> 4" using w unfolding r rune_width.simps Let_def by (simp split: if_splits)
  show "byte_in 128 191 c" if "c \<in> set (tl r)"
    using w that tl unfolding r rune_width.simps Let_def list.sel by (cases xs) (auto split: if_splits)
  show "\<not> byte_in 128 191 (hd r)" if "1 < length r"
    using w that unfolding r rune_width.simps Let_def list.sel by (auto simp: byte_in_def split: if_splits)
qed

lemma runes_append_rune: "is_rune r \<Longrightarrow> runes (r @ s) = r # runes s"
  by (subst runes.simps) (simp add: rune_width_append, simp add: is_rune_def)

lemma ends_in_rune_append: "is_rune r \<Longrightarrow> ends_in_rune (x @ r)"
proof -
  assume r: "is_rune r"
  have "length r \<le> 4" "0 < length r" using rune_shape(1) [OF r] r by (auto simp: is_rune_def)
  then have "length r = 1 \<or> length r = 2 \<or> length r = 3 \<or> length r = 4" by linarith
  then show ?thesis using r by (auto simp: ends_in_rune_def)
qed

lemma partial_rune_end:
  assumes r: "is_rune (p @ q)" and p: "p \<noteq> []" and q: "q \<noteq> []"
  shows "\<not> ends_in_rune (x @ p)"
proof
  assume "ends_in_rune (x @ p)"
  then obtain k where "k \<in> set [1, 2, 3, 4]" "k \<le> length (x @ p) \<and> is_rune (drop (length (x @ p) - k) (x @ p))"
    unfolding ends_in_rune_def list_ex_iff by blast
  then have k: "0 < k" "k \<le> length (x @ p)" "is_rune (drop (length (x @ p) - k) (x @ p))" by auto
  have lead: "\<not> byte_in 128 191 (hd p)" using rune_shape(3) [OF r] p q by (cases p; cases q) auto
  consider "k < length p" | "k = length p" | "length p < k" by linarith
  then show False
  proof cases
    case 1
    define y where "y = drop (length p - k) p"
    have y: "is_rune y" "y \<noteq> []" using k 1 by (simp_all add: y_def)
    have "set y \<subseteq> set (tl p)" unfolding y_def
      using 1 by (cases p) (auto dest: in_set_dropD simp: drop_Cons')
    moreover have "set (tl p) \<subseteq> set (tl (p @ q))" using p by (cases p) auto
    ultimately have "\<forall>c \<in> set y. byte_in 128 191 c" using rune_shape(2) [OF r] by blast
    moreover have "hd y \<in> set y" using y(2) by simp
    ultimately have hd: "byte_in 128 191 (hd y)" by blast
    then have "\<not> 1 < length y" using rune_shape(3) [OF y(1)] by blast
    then have "length y = 1" using y(2) by (cases y) auto
    then have "byte_in 0 127 (hd y)" using y(1) by (simp add: is_rune_def)
    then show False using hd by (simp add: byte_in_def)
  next
    case 2
    then have "is_rune p" using k by simp
    then have "rune_width (p @ q) = length p" by (rule rune_width_append)
    then show False using r q by (simp add: is_rune_def)
  next
    case 3
    define z where "z = drop (length x + length p - k) x"
    have z: "drop (length (x @ p) - k) (x @ p) = z @ p" "z \<noteq> []" using 3 k by (simp_all add: z_def)
    have "hd p \<in> set (tl (z @ p))" using z(2) p by (cases z) auto
    then show False using rune_shape(2) [OF k(3) [unfolded z(1)]] lead by blast
  qed
qed

lemma drop_partial_rune:
  "is_rune (p @ q) \<Longrightarrow> q \<noteq> [] \<Longrightarrow> x = [] \<or> ends_in_rune x \<Longrightarrow> drop_partial (x @ p) = x"
proof (induction p arbitrary: q rule: rev_induct)
  case Nil
  then show ?case by (subst drop_partial.simps) auto
next
  case (snoc c p)
  have "\<not> ends_in_rune (x @ p @ [c])" by (rule partial_rune_end [OF snoc.prems(1)]) (use snoc.prems in auto)
  then have "drop_partial (x @ p @ [c]) = drop_partial (x @ p)"
    by (subst drop_partial.simps) (simp add: butlast_append)
  moreover have "drop_partial (x @ p) = x" by (rule snoc.IH [of "[c] @ q"]) (use snoc.prems in auto)
  ultimately show ?case by simp
qed

lemma take_concat:
  "n < length (concat rs) \<Longrightarrow>
     \<exists>m < length rs. \<exists>p q. rs ! m = p @ q \<and> q \<noteq> [] \<and> take n (concat rs) = concat (take m rs) @ p"
proof (induction rs arbitrary: n)
  case (Cons r rs)
  show ?case
  proof (cases "n < length r")
    case True
    then show ?thesis
      by (intro exI [of _ 0]) (auto intro!: exI [of _ "take n r"] exI [of _ "drop n r"])
  next
    case False
    then have "n - length r < length (concat rs)" using Cons.prems by simp
    from Cons.IH [OF this] obtain m p q where "m < length rs" "rs ! m = p @ q" "q \<noteq> []"
      "take (n - length r) (concat rs) = concat (take m rs) @ p" by blast
    then show ?thesis using False by (intro exI [of _ "Suc m"]) auto
  qed
qed simp

lemma whole_runes_end:
  assumes "\<forall>r \<in> set rs. is_rune r"
  shows "concat rs = [] \<or> ends_in_rune (concat rs)"
  using assms by (cases rs rule: rev_cases) (auto intro: ends_in_rune_append)

text \<open>
  Cutting a well-formed UTF-8 string keeps as many whole runes as fit into the limit and
  nothing else.
\<close>

theorem truncation_keeps_runes:
  assumes "\<forall>r \<in> set rs. is_rune r"
  shows "\<exists>m \<le> length rs. truncate_utf8 (concat rs) n = concat (take m rs)
    \<and> length (truncate_utf8 (concat rs) n) \<le> n
    \<and> (m < length rs \<longrightarrow> n < length (concat (take (Suc m) rs)))"
proof (cases "length (concat rs) \<le> n")
  case True
  then show ?thesis by (intro exI [of _ "length rs"]) (simp add: truncate_utf8_def)
next
  case False
  then obtain m p q where m: "m < length rs" "rs ! m = p @ q" "q \<noteq> []" "take n (concat rs) = concat (take m rs) @ p"
    using take_concat [of n rs] by auto
  have "is_rune (p @ q)" using assms m(1,2) by (metis nth_mem)
  moreover have "concat (take m rs) = [] \<or> ends_in_rune (concat (take m rs))"
    by (rule whole_runes_end) (use assms in_set_takeD in fastforce)
  ultimately have cut: "truncate_utf8 (concat rs) n = concat (take m rs)"
    using False drop_partial_rune [OF _ m(3)] by (simp add: truncate_utf8_def m(4))
  have n: "n = length (concat (take m rs)) + length p"
    using arg_cong [OF m(4), of length] False by simp
  then have "n < length (concat (take (Suc m) rs))"
    using m(1,2,3) by (simp add: take_Suc_conv_app_nth)
  then show ?thesis using cut n m(1) by (intro exI [of _ m]) simp
qed

theorem truncation_keeps_runes_witness:
  "\<exists>m \<le> 2. truncate_utf8 (concat [''a'', [CHR 0xE3, CHR 0x80, CHR 0x80]]) 3 = concat (take m [''a'', [CHR 0xE3, CHR 0x80, CHR 0x80]])"
proof -
  have "\<forall>r \<in> set [''a'', [CHR 0xE3, CHR 0x80, CHR 0x80]]. is_rune r"
    by (simp add: is_rune_def byte_in_def)
  from truncation_keeps_runes [OF this, of 3] show ?thesis by (auto simp: numeral_2_eq_2)
qed

end
