(* ===== verification/PagewatchDiff.thy ===== *)
theory PagewatchDiff
  imports Prelude
begin

text \<open>
  \<open>internal/extract/pagewatch/diff.go\<close>: which blocks of a watched page were added and removed.
  Blocks are compared by their keys; the functions work on the two lists of keys and
  answer indices into them. The table of the longest common subsequence is built row
  by row as the code builds it, from the last row up, and is proved to hold the textbook
  recursion (\<open>lcs\<close>); its int32 cells hold at most 2000, so they are naturals here.
\<close>

section \<open>The alignment\<close>

definition lcs_block_limit :: nat where
  "lcs_block_limit = 2000"

fun lcs_row :: "'k \<Rightarrow> 'k list \<Rightarrow> nat list \<Rightarrow> nat list" where
  \<comment> \<open>dp[i] from its right end, given the cells of dp[i+1] from the same column on\<close>
  "lcs_row x [] below = [0]"
| "lcs_row x (y # ys) below =
     (let r = lcs_row x ys (tl below) in
      (if x = y then hd (tl below) + 1 else if hd r \<le> hd below then hd below else hd r) # r)"

fun lcs_table :: "'k list \<Rightarrow> 'k list \<Rightarrow> nat list list" where
  "lcs_table [] ys = [replicate (length ys + 1) 0]"
| "lcs_table (x # xs) ys = (let t = lcs_table xs ys in lcs_row x ys (hd t) # t)"

fun lcs_walk :: "nat list list \<Rightarrow> nat \<Rightarrow> nat \<Rightarrow> 'k list \<Rightarrow> 'k list \<Rightarrow> nat list \<times> nat list" where
  \<comment> \<open>from cell (i, j), with the keys from there on: the indices added and removed\<close>
  "lcs_walk dp i j [] ys = ([j..<j + length ys], [])"
| "lcs_walk dp i j (x # xs) [] = ([], [i..<i + length (x # xs)])"
| "lcs_walk dp i j (x # xs) (y # ys) =
     (if x = y then lcs_walk dp (i + 1) (j + 1) xs ys
      else if dp ! i ! (j + 1) \<le> dp ! (i + 1) ! j
        then (let (a, r) = lcs_walk dp (i + 1) j xs (y # ys) in (a, i # r))
      else (let (a, r) = lcs_walk dp i (j + 1) (x # xs) ys in (j # a, r)))"

definition lcs_diff_idx :: "'k list \<Rightarrow> 'k list \<Rightarrow> nat list \<times> nat list" where
  "lcs_diff_idx prev cur = lcs_walk (lcs_table prev cur) 0 0 prev cur"

section \<open>The bag difference\<close>

definition positions :: "'k list \<Rightarrow> 'k \<Rightarrow> nat list" where
  "positions keys k = filter (\<lambda>i. keys ! i = k) [0..<length keys]"

definition set_diff_idx :: "'k list \<Rightarrow> 'k list \<Rightarrow> nat list \<times> nat list" where
  \<comment> \<open>the range over the map of seen keys has no order of its own: the results are sorted\<close>
  "set_diff_idx prev cur =
     (let seen = remdups (prev @ cur);
          added = (\<lambda>k. let ci = positions cur k; pi = positions prev k in
             if length pi < length ci then drop (length pi) ci else []);
          removed = (\<lambda>k. let ci = positions cur k; pi = positions prev k in
             if length ci < length pi then take (length pi - length ci) pi else [])
      in (sort (concat (map added seen)), sort (concat (map removed seen))))"

section \<open>Cancelling moves\<close>

fun drop_cancelled :: "'k list \<Rightarrow> ('k \<Rightarrow> nat) \<Rightarrow> ('k \<Rightarrow> nat) \<Rightarrow> nat list \<Rightarrow> nat list" where
  \<comment> \<open>the filter closure: used counts what was dropped so far of each key\<close>
  "drop_cancelled keys cancel used [] = []"
| "drop_cancelled keys cancel used (i # is) =
     (let k = keys ! i in
      if used k < cancel k then drop_cancelled keys cancel (used(k := used k + 1)) is
      else i # drop_cancelled keys cancel used is)"

definition cancel_common_keys ::
    "nat list \<Rightarrow> 'k list \<Rightarrow> nat list \<Rightarrow> 'k list \<Rightarrow> nat list \<times> nat list" where
  "cancel_common_keys added cur removed prev =
     (let add_count = (\<lambda>k. count_list (map ((!) cur) added) k);
          rem_count = (\<lambda>k. count_list (map ((!) prev) removed) k);
          cancel = (\<lambda>k. if 0 < add_count k \<and> 0 < rem_count k
                        then (if rem_count k < add_count k then rem_count k else add_count k) else 0)
      in (drop_cancelled cur cancel (\<lambda>_. 0) added, drop_cancelled prev cancel (\<lambda>_. 0) removed))"

definition diff_idx :: "'k list \<Rightarrow> 'k list \<Rightarrow> nat list \<times> nat list" where
  \<comment> \<open>computeDiff up to the rendering of the blocks\<close>
  "diff_idx prev cur =
     (let (a, r) = (if lcs_block_limit < length prev \<or> lcs_block_limit < length cur
                    then set_diff_idx prev cur else lcs_diff_idx prev cur)
      in cancel_common_keys a cur r prev)"

section \<open>The table\<close>

fun lcs :: "'k list \<Rightarrow> 'k list \<Rightarrow> nat" where
  "lcs [] ys = 0"
| "lcs (x # xs) [] = 0"
| "lcs (x # xs) (y # ys) = (if x = y then lcs xs ys + 1 else max (lcs xs (y # ys)) (lcs (x # xs) ys))"

definition suffixes_of :: "'k list \<Rightarrow> 'k list list" where
  "suffixes_of ys = map (\<lambda>j. drop j ys) [0..<length ys + 1]"

lemma suffixes_of_simps [simp]:
  "suffixes_of [] = [[]]" "suffixes_of (y # ys) = (y # ys) # suffixes_of ys"
proof -
  show "suffixes_of [] = [[]]" by (simp add: suffixes_of_def)
  have "[0..<length (y # ys) + 1] = 0 # map Suc [0..<length ys + 1]"
    by (simp add: map_Suc_upt upt_conv_Cons del: upt_Suc)
  then show "suffixes_of (y # ys) = (y # ys) # suffixes_of ys"
    by (simp add: suffixes_of_def o_def del: upt_Suc)
qed

lemma suffixes_of_nonempty [simp]: "suffixes_of ys \<noteq> []" "hd (suffixes_of ys) = ys"
  by (cases ys; simp)+

lemma lcs_Nil2 [simp]: "lcs xs [] = 0"
  by (cases xs) simp_all

lemma lcs_row_eq: "lcs_row x ys (map (lcs xs) (suffixes_of ys)) = map (lcs (x # xs)) (suffixes_of ys)"
proof (induction ys)
  case (Cons y ys)
  have hds: "hd (map (lcs (x # xs)) (suffixes_of ys)) = lcs (x # xs) ys"
    "hd (map (lcs xs) (suffixes_of ys)) = lcs xs ys" by (simp_all add: list.map_sel)
  show ?case using Cons hds by (simp add: Let_def max_def)
qed simp

lemma lcs_table_eq: "lcs_table xs ys = map (\<lambda>s. map (lcs s) (suffixes_of ys)) (suffixes_of xs)"
proof (induction xs)
  case Nil
  have "map (lcs []) (suffixes_of ys) = replicate (length ys + 1) 0"
    by (rule replicate_eqI) (auto simp: suffixes_of_def)
  then show ?case by simp
next
  case (Cons x xs)
  have "hd (map (\<lambda>s. map (lcs s) (suffixes_of ys)) (suffixes_of xs)) = map (lcs xs) (suffixes_of ys)"
    by (simp add: list.map_sel)
  then show ?case using Cons by (simp add: Let_def lcs_row_eq)
qed

lemma lcs_table_nth:
  "i \<le> length xs \<Longrightarrow> j \<le> length ys \<Longrightarrow> lcs_table xs ys ! i ! j = lcs (drop i xs) (drop j ys)"
  unfolding lcs_table_eq suffixes_of_def by (simp add: less_Suc_eq_le del: upt_Suc)

lemma lcs_sym_bound: "lcs xs ys \<le> length xs \<and> lcs xs ys \<le> length ys"
  by (induction xs ys rule: lcs.induct) auto

section \<open>The indices\<close>

definition keys_at :: "'k list \<Rightarrow> nat list \<Rightarrow> 'k multiset" where
  "keys_at keys idx = mset (map ((!) keys) idx)"

lemma keys_at_simps [simp]: "keys_at keys [] = {#}" "keys_at keys (i # is) = add_mset (keys ! i) (keys_at keys is)"
  by (simp_all add: keys_at_def)

definition ordered_within :: "nat \<Rightarrow> nat \<Rightarrow> nat list \<Rightarrow> bool" where
  "ordered_within lo hi idx \<longleftrightarrow> sorted idx \<and> distinct idx \<and> (\<forall>i \<in> set idx. lo \<le> i \<and> i < hi)"

lemma keys_at_upt: "keys_at keys [i..<length keys] = mset (drop i keys)"
proof -
  have "map ((!) keys) [i..<length keys] = drop i keys"
    by (rule nth_equalityI) (auto simp: nth_drop)
  then show ?thesis by (simp add: keys_at_def)
qed

lemma lcs_walk_balance:
  "lcs_walk dp i j (drop i prev) (drop j cur) = (a, r) \<Longrightarrow> i \<le> length prev \<Longrightarrow> j \<le> length cur \<Longrightarrow>
     mset (drop j cur) + keys_at prev r = mset (drop i prev) + keys_at cur a
      \<and> ordered_within j (length cur) a \<and> ordered_within i (length prev) r"
proof (induction "length (drop i prev) + length (drop j cur)" arbitrary: i j a r rule: less_induct)
  case less
  show ?case
  proof (cases "i = length prev")
    case True
    then show ?thesis using less.prems by (auto simp: ordered_within_def keys_at_upt [symmetric])
  next
    case i: False
    then have di: "drop i prev = prev ! i # drop (i + 1) prev" using less.prems(2) by (simp add: Cons_nth_drop_Suc)
    show ?thesis
    proof (cases "j = length cur")
      case True
      have "length (prev ! i # drop (i + 1) prev) = length prev - i" using i less.prems(2) by simp
      then have "a = [] \<and> r = [i..<i + (length prev - i)]"
        using less.prems(1) True unfolding di by (simp del: upt_Suc length_Cons)
      then have "a = []" "r = [i..<length prev]" using less.prems(2) by simp_all
      then show ?thesis using True by (simp add: keys_at_upt ordered_within_def)
    next
      case j: False
      then have dj: "drop j cur = cur ! j # drop (j + 1) cur" using less.prems(3) by (simp add: Cons_nth_drop_Suc)
      note walk = less.prems(1) [unfolded di dj lcs_walk.simps]
      consider (same) "prev ! i = cur ! j"
        | (removed) r' where "prev ! i \<noteq> cur ! j" "r = i # r'" "lcs_walk dp (i + 1) j (drop (i + 1) prev) (drop j cur) = (a, r')"
        | (added) a' where "prev ! i \<noteq> cur ! j" "a = j # a'" "lcs_walk dp i (j + 1) (drop i prev) (drop (j + 1) cur) = (a', r)"
        using walk by (auto simp: di dj split: if_splits prod.splits)
      then show ?thesis
      proof cases
        case same
        then have "lcs_walk dp (i + 1) (j + 1) (drop (i + 1) prev) (drop (j + 1) cur) = (a, r)" using walk by simp
        then have "mset (drop (j + 1) cur) + keys_at prev r = mset (drop (i + 1) prev) + keys_at cur a
            \<and> ordered_within (j + 1) (length cur) a \<and> ordered_within (i + 1) (length prev) r"
          by (rule less.hyps [rotated]) (use i j less.prems(2,3) in auto)
        then show ?thesis unfolding di dj using same by (auto simp: ordered_within_def)
      next
        case removed
        have "mset (drop j cur) + keys_at prev r' = mset (drop (i + 1) prev) + keys_at cur a
            \<and> ordered_within j (length cur) a \<and> ordered_within (i + 1) (length prev) r'"
          by (rule less.hyps [OF _ removed(3)]) (use i less.prems(2,3) in auto)
        then show ?thesis unfolding di removed(2) using i less.prems(2) by (force simp: ordered_within_def)
      next
        case added
        have "mset (drop (j + 1) cur) + keys_at prev r = mset (drop i prev) + keys_at cur a'
            \<and> ordered_within (j + 1) (length cur) a' \<and> ordered_within i (length prev) r"
          by (rule less.hyps [OF _ added(3)]) (use j less.prems(2,3) in auto)
        then show ?thesis unfolding dj added(2) using j less.prems(3) by (force simp: ordered_within_def)
      qed
    qed
  qed
qed

lemma lcs_diff_balance:
  assumes "lcs_diff_idx prev cur = (a, r)"
  shows "mset cur + keys_at prev r = mset prev + keys_at cur a"
    "ordered_within 0 (length cur) a" "ordered_within 0 (length prev) r"
  using lcs_walk_balance [of "lcs_table prev cur" 0 0 prev cur a r] assms by (simp_all add: lcs_diff_idx_def)

section \<open>The bag difference and the cancellation, counted\<close>

lemma count_drop_cancelled:
  "count (keys_at keys (drop_cancelled keys cancel used idx)) k = count (keys_at keys idx) k - (cancel k - used k)"
proof (induction idx arbitrary: used)
  case (Cons i "is")
  show ?case
  proof (cases "used (keys ! i) < cancel (keys ! i)")
    case True
    define used' where "used' = used(keys ! i := used (keys ! i) + 1)"
    have "drop_cancelled keys cancel used (i # is) = drop_cancelled keys cancel used' is"
      using True by (simp add: Let_def used'_def)
    moreover have "used' k = (if k = keys ! i then used k + 1 else used k)" by (simp add: used'_def)
    ultimately show ?thesis using Cons [of used'] True by (auto split: if_splits)
  next
    case False
    then show ?thesis using Cons [of used] by (auto simp: Let_def)
  qed
qed simp

lemma ordered_within_drop_cancelled:
  "ordered_within lo hi idx \<Longrightarrow> ordered_within lo hi (drop_cancelled keys cancel used idx)"
proof -
  have "set (drop_cancelled keys cancel used idx) \<subseteq> set idx" for used idx
  proof (induction idx arbitrary: used)
    case (Cons i "is")
    have "set (drop_cancelled keys cancel u is) \<subseteq> set (i # is)" for u using Cons [of u] by auto
    then show ?case by (simp add: Let_def subset_insertI2)
  qed simp
  then have sub: "set (drop_cancelled keys cancel used idx) \<subseteq> set idx" for used idx .
  have elem: "x \<in> set idx" if "x \<in> set (drop_cancelled keys cancel used idx)" for x used idx
    using sub that by blast
  have "sorted idx \<Longrightarrow> distinct idx \<Longrightarrow>
      sorted (drop_cancelled keys cancel used idx) \<and> distinct (drop_cancelled keys cancel used idx)" for used idx
  proof (induction idx arbitrary: used)
    case (Cons i "is")
    then show ?case using Cons elem by (auto simp: Let_def)
  qed simp
  then show "ordered_within lo hi idx \<Longrightarrow> ordered_within lo hi (drop_cancelled keys cancel used idx)"
    using elem by (auto simp: ordered_within_def)
qed

lemma cancel_common_keys_counts:
  assumes "cancel_common_keys a cur r prev = (a', r')"
  shows "count (keys_at cur a') k = count (keys_at cur a) k - count (keys_at prev r) k"
    "count (keys_at prev r') k = count (keys_at prev r) k - count (keys_at cur a) k"
proof -
  have cl: "count_list (map ((!) keys) idx) k = count (keys_at keys idx) k" for keys :: "'a list" and idx k
    unfolding keys_at_def by (induction idx) auto
  show "count (keys_at cur a') k = count (keys_at cur a) k - count (keys_at prev r) k"
    "count (keys_at prev r') k = count (keys_at prev r) k - count (keys_at cur a) k"
    using assms unfolding cancel_common_keys_def Let_def cl by (auto simp: count_drop_cancelled not_in_iff)
qed

lemma cancel_common_keys_ordered:
  assumes "cancel_common_keys a cur r prev = (a', r')" "ordered_within lo hi a" "ordered_within lo' hi' r"
  shows "ordered_within lo hi a'" "ordered_within lo' hi' r'"
  using assms ordered_within_drop_cancelled by (auto simp: cancel_common_keys_def Let_def)

lemma count_positions: "count (keys_at keys (positions keys k)) k' = (if k' = k then length (positions keys k) else 0)"
proof -
  have "keys_at keys idx = replicate_mset (length idx) k" if "\<forall>i \<in> set idx. keys ! i = k" for idx
    using that by (induction idx) auto
  then show ?thesis by (auto simp: positions_def)
qed

lemma length_positions: "length (positions keys k) = count (mset keys) k"
proof -
  have "length (positions keys k) = card {i. i < length keys \<and> keys ! i = k}"
    unfolding positions_def by (simp add: distinct_length_filter Int_def conj_commute)
  also have "\<dots> = length (filter (\<lambda>x. x = k) keys)" by (simp add: length_filter_conv_card)
  also have "\<dots> = count (mset keys) k" by (induction keys) auto
  finally show ?thesis .
qed

lemma keys_at_constant: "\<forall>i \<in> set idx. keys ! i = k \<Longrightarrow> keys_at keys idx = replicate_mset (length idx) k"
  by (induction idx) auto

lemma keys_at_concat_count:
  assumes "distinct ks" "\<And>k i. i \<in> set (f k) \<Longrightarrow> keys ! i = k"
  shows "count (keys_at keys (concat (map f ks))) k = (if k \<in> set ks then length (f k) else 0)"
  using assms(1)
proof (induction ks)
  case (Cons x ks)
  have "keys_at keys (concat (map f (x # ks))) = keys_at keys (f x) + keys_at keys (concat (map f ks))"
    by (simp add: keys_at_def)
  moreover have "keys_at keys (f x) = replicate_mset (length (f x)) x"
    using assms(2) by (intro keys_at_constant) blast
  ultimately show ?case using Cons by auto
qed simp

lemma set_diff_counts:
  assumes "set_diff_idx prev cur = (a, r)"
  shows "count (keys_at cur a) k = count (mset cur) k - count (mset prev) k"
    "count (keys_at prev r) k = count (mset prev) k - count (mset cur) k"
proof -
  define fa where "fa = (\<lambda>k. if length (positions prev k) < length (positions cur k)
      then drop (length (positions prev k)) (positions cur k) else [])"
  define fr where "fr = (\<lambda>k. if length (positions cur k) < length (positions prev k)
      then take (length (positions prev k) - length (positions cur k)) (positions prev k) else [])"
  define seen where "seen = remdups (prev @ cur)"
  have eqs: "keys_at cur a = keys_at cur (concat (map fa seen))" "keys_at prev r = keys_at prev (concat (map fr seen))"
    using assms by (auto simp: set_diff_idx_def fa_def fr_def seen_def keys_at_def Let_def)
  have "cur ! i = k" if "i \<in> set (fa k)" for i k
    using that by (auto simp: fa_def positions_def dest: in_set_dropD split: if_splits)
  then have ca: "count (keys_at cur a) k = (if k \<in> set seen then length (fa k) else 0)"
    unfolding eqs(1) by (intro keys_at_concat_count) (simp_all add: seen_def)
  have "prev ! i = k" if "i \<in> set (fr k)" for i k
    using that by (auto simp: fr_def positions_def dest: in_set_takeD split: if_splits)
  then have cr: "count (keys_at prev r) k = (if k \<in> set seen then length (fr k) else 0)"
    unfolding eqs(2) by (intro keys_at_concat_count) (simp_all add: seen_def)
  have len: "length (fa k) = count (mset cur) k - count (mset prev) k"
    "length (fr k) = count (mset prev) k - count (mset cur) k"
    by (simp_all add: fa_def fr_def length_positions)
  have out: "count (mset prev) k = 0" "count (mset cur) k = 0" if "k \<notin> set seen"
    using that by (simp_all add: seen_def count_eq_zero_iff)
  show "count (keys_at cur a) k = count (mset cur) k - count (mset prev) k"
    "count (keys_at prev r) k = count (mset prev) k - count (mset cur) k"
    unfolding ca cr len by (cases "k \<in> set seen"; simp add: out)+
qed

lemma positions_ordered: "sorted (positions keys k) \<and> distinct (positions keys k)"
  by (simp add: positions_def sorted_wrt_filter)

lemma positions_disjoint: "i \<in> set (positions keys k) \<Longrightarrow> keys ! i = k \<and> i < length keys"
  by (simp add: positions_def)

lemma distinct_concat_positions:
  assumes "distinct ks" "\<And>k. distinct (f k)" "\<And>k i. i \<in> set (f k) \<Longrightarrow> keys ! i = k"
  shows "distinct (concat (map f ks))"
  using assms(1)
proof (induction ks)
  case (Cons k ks)
  have "set (f k) \<inter> set (f k') = {}" if "k' \<in> set ks" for k'
    using assms(3) [of _ k] assms(3) [of _ k'] Cons.prems that by fastforce
  then show ?case using Cons assms(2) by auto
qed simp

lemma set_diff_ordered:
  assumes "set_diff_idx prev cur = (a, r)"
  shows "ordered_within 0 (length cur) a" "ordered_within 0 (length prev) r"
proof -
  define fa where "fa = (\<lambda>k. if length (positions prev k) < length (positions cur k)
      then drop (length (positions prev k)) (positions cur k) else [])"
  define fr where "fr = (\<lambda>k. if length (positions cur k) < length (positions prev k)
      then take (length (positions prev k) - length (positions cur k)) (positions prev k) else [])"
  define seen where "seen = remdups (prev @ cur)"
  have ar: "a = sort (concat (map fa seen))" "r = sort (concat (map fr seen))"
    using assms by (auto simp: set_diff_idx_def fa_def fr_def seen_def Let_def)
  have in_fa: "cur ! i = k \<and> i < length cur" if "i \<in> set (fa k)" for i k
    using that by (auto simp: fa_def dest!: in_set_dropD positions_disjoint split: if_splits)
  have in_fr: "prev ! i = k \<and> i < length prev" if "i \<in> set (fr k)" for i k
    using that by (auto simp: fr_def dest!: in_set_takeD positions_disjoint split: if_splits)
  have "distinct (fa k)" "distinct (fr k)" for k by (simp_all add: fa_def fr_def positions_ordered)
  then have "distinct (concat (map fa seen))" "distinct (concat (map fr seen))"
    using distinct_concat_positions [of seen fa cur] distinct_concat_positions [of seen fr prev] in_fa in_fr
    by (simp_all add: seen_def)
  then show "ordered_within 0 (length cur) a" "ordered_within 0 (length prev) r"
    using in_fa in_fr by (auto simp: ar ordered_within_def)
qed

section \<open>What a diff reports\<close>

lemma diff_idx_bags:
  assumes "diff_idx prev cur = (added, removed)"
  shows "keys_at cur added = mset cur - mset prev" "keys_at prev removed = mset prev - mset cur"
    "ordered_within 0 (length cur) added" "ordered_within 0 (length prev) removed"
proof -
  obtain a r where ar: "(if lcs_block_limit < length prev \<or> lcs_block_limit < length cur
      then set_diff_idx prev cur else lcs_diff_idx prev cur) = (a, r)" by (rule prod.exhaust)
  then have cancel: "cancel_common_keys a cur r prev = (added, removed)"
    using assms by (simp add: diff_idx_def)
  have balance: "c + r = p + a \<Longrightarrow> a - r = c - p \<and> r - a = p - c" for a c p r :: nat by arith
  have "count (keys_at cur a) k - count (keys_at prev r) k = count (mset cur) k - count (mset prev) k
      \<and> count (keys_at prev r) k - count (keys_at cur a) k = count (mset prev) k - count (mset cur) k" for k
  proof (cases "lcs_block_limit < length prev \<or> lcs_block_limit < length cur")
    case True
    then have "set_diff_idx prev cur = (a, r)" using ar by simp
    note c = set_diff_counts [OF this]
    show ?thesis unfolding c by auto
  next
    case False
    then have "mset cur + keys_at prev r = mset prev + keys_at cur a"
      using ar by (intro lcs_diff_balance) simp
    then have "count (mset cur) k + count (keys_at prev r) k = count (mset prev) k + count (keys_at cur a) k"
      by (metis count_union)
    then show ?thesis by (rule balance)
  qed
  then show "keys_at cur added = mset cur - mset prev" "keys_at prev removed = mset prev - mset cur"
    by (simp_all add: multiset_eq_iff cancel_common_keys_counts [OF cancel])
  have "ordered_within 0 (length cur) a" "ordered_within 0 (length prev) r"
    using ar lcs_diff_balance [of prev cur a r] set_diff_ordered [of prev cur a r] by (simp_all split: if_splits)
  then show "ordered_within 0 (length cur) added" "ordered_within 0 (length prev) removed"
    using cancel_common_keys_ordered [OF cancel] by blast+
qed

text \<open>
  C22. Whichever of the two algorithms runs, the keys of the blocks reported as added are exactly
  the bag difference of the new page and the old one, those reported as removed the
  opposite difference, and both come in document order, each block at most once. So a page
  whose blocks only moved reports nothing, and crossing the 2000-block limit changes at most which
  of several equal blocks is shown.
\<close>

theorem diff_is_bag_difference:
  assumes "diff_idx prev cur = (added, removed)"
  shows "keys_at cur added = mset cur - mset prev \<and> keys_at prev removed = mset prev - mset cur
    \<and> ordered_within 0 (length cur) added \<and> ordered_within 0 (length prev) removed"
  using diff_idx_bags [OF assms] by blast

theorem diff_is_bag_difference_witness:
  "diff_idx [1, 2, 3::nat] [3, 1, 4] = ([2], [1]) \<and> keys_at [3, 1, 4::nat] [2] = {#4#}
    \<and> keys_at [1, 2, 3::nat] [1] = {#2#}"
proof -
  have d: "diff_idx [1, 2, 3::nat] [3, 1, 4] = ([2], [1])" by code_simp
  from diff_is_bag_difference [OF this] show ?thesis using d by simp
qed

end
