(* ===== verification/Html.thy ===== *)
theory Html
  imports Prelude
begin

text \<open>
  The document tree of golang.org/x/net/html as the program walks it (a node's type, data,
  attributes and children) and the helpers of \<open>internal/extract/common.go\<close>. Parsing and rendering
  HTML, Unicode NFKC and package net/url are arguments (\<open>page_lib\<close>, \<open>url_lib\<close>). Where the code
  keeps a map from node pointers, the model names a node by its path, the list of child positions
  from the root.
\<close>

datatype node_type = Text_Node | Document_Node | Element_Node | Comment_Node | Doctype_Node

datatype html =
  Node (n_type: node_type) (n_data: string) (n_attr: "(string \<times> string) list") (n_children: "html list")

type_synonym node_path = "nat list"

definition is_elem :: "string \<Rightarrow> html \<Rightarrow> bool" where
  "is_elem tag n \<longleftrightarrow> n_type n = Element_Node \<and> n_data n = tag"

definition attr_val :: "html \<Rightarrow> string \<Rightarrow> string" where
  "attr_val n key = (case map_of (n_attr n) key of None \<Rightarrow> [] | Some v \<Rightarrow> v)"

definition has_attr :: "html \<Rightarrow> string \<Rightarrow> bool" where
  "has_attr n key \<longleftrightarrow> key \<in> fst ` set (n_attr n)"

fun text_content :: "html \<Rightarrow> string" where
  "text_content (Node t d a cs) = (if t = Text_Node then d else []) @ concat (map text_content cs)"

fun first_some :: "('a \<Rightarrow> 'b option) \<Rightarrow> 'a list \<Rightarrow> 'b option" where
  "first_some f [] = None"
| "first_some f (x # xs) = (case f x of Some y \<Rightarrow> Some y | None \<Rightarrow> first_some f xs)"

lemma first_some_cong [fundef_cong]:
  "xs = ys \<Longrightarrow> (\<And>x. x \<in> set ys \<Longrightarrow> f x = g x) \<Longrightarrow> first_some f xs = first_some g ys"
  by (induction ys arbitrary: xs) (auto split: option.splits)

fun find_body :: "html \<Rightarrow> html option" where
  "find_body (Node t d a cs) =
     (if t = Element_Node \<and> d = ''body'' then Some (Node t d a cs) else first_some find_body cs)"

section \<open>Text\<close>

definition is_space_rune :: "string \<Rightarrow> bool" where
  "is_space_rune r \<longleftrightarrow> r \<in> set space_seqs"

definition replacement_char :: string where
  "replacement_char = [CHR 0xEF, CHR 0xBF, CHR 0xBD]"

definition rune_out :: "string \<Rightarrow> string" where
  \<comment> \<open>what WriteRune writes for a rune read by range: a byte outside UTF-8 reads as U+FFFD\<close>
  "rune_out r = (if length r = 1 \<and> \<not> byte_in 0 127 (hd r) then replacement_char else r)"

fun collapse_spaces :: "bool \<Rightarrow> string list \<Rightarrow> string" where
  "collapse_spaces prev [] = []"
| "collapse_spaces prev (r # rs) =
     (if is_space_rune r then (if prev then [] else '' '') @ collapse_spaces True rs
      else rune_out r @ collapse_spaces False rs)"

fun replace_all :: "string \<Rightarrow> string \<Rightarrow> string \<Rightarrow> string" where
  \<comment> \<open>strings.ReplaceAll for a non-empty old\<close>
  "replace_all old new [] = []"
| "replace_all old new (c # s) =
     (if old \<noteq> [] \<and> has_prefix (c # s) old then new @ replace_all old new (drop (length old - 1) s)
      else c # replace_all old new s)"

definition normalize_text :: "(string \<Rightarrow> string) \<Rightarrow> string \<Rightarrow> string" where
  "normalize_text nfkc s =
     (let s = replace_all [CHR 0xC2, CHR 0xA0] '' '' s;
          s = replace_all [CHR 0xE3, CHR 0x80, CHR 0x80] '' '' s
      in trim_space (collapse_spaces False (runes (nfkc s))))"

definition truncate_runes :: "string \<Rightarrow> nat \<Rightarrow> string" where
  "truncate_runes s n = (let r = runes s in if length r \<le> n then s else concat (map rune_out (take n r)))"

fun page_title :: "(string \<Rightarrow> string) \<Rightarrow> html \<Rightarrow> string option" where
  \<comment> \<open>the first title element whose normalized text is not empty\<close>
  "page_title norm (Node t d a cs) =
     (if t = Element_Node \<and> d = ''title'' then
        (let s = norm (concat (map text_content cs)) in if s = [] then None else Some s)
      else first_some (page_title norm) cs)"

definition fields_by :: "(char \<Rightarrow> bool) \<Rightarrow> string \<Rightarrow> string list" where
  \<comment> \<open>strings.FieldsFunc for a predicate on ASCII bytes\<close>
  "fields_by sep s =
     filter (\<lambda>w. w \<noteq> [])
       (foldr (\<lambda>c ws. if sep c then [] # ws else (c # hd ws) # tl ws) s [[]])"

definition str_fields :: "string \<Rightarrow> string list" where
  \<comment> \<open>strings.Fields: the maximal runs of runes that are not spaces\<close>
  "str_fields s =
     filter (\<lambda>w. w \<noteq> [])
       (foldr (\<lambda>r ws. if is_space_rune r then [] # ws else (r @ hd ws) # tl ws) (runes s) [[]])"

definition contains :: "string \<Rightarrow> string \<Rightarrow> bool" where
  "contains s sub \<longleftrightarrow> list_ex (\<lambda>t. has_prefix t sub) (suffixes s)"

section \<open>Links\<close>

record 'u url_lib =
  ul_parse :: "string \<Rightarrow> 'u option"
  ul_resolve :: "'u \<Rightarrow> 'u \<Rightarrow> 'u" \<comment> \<open>ResolveReference\<close>
  ul_scheme :: "'u \<Rightarrow> string"
  ul_hostname :: "'u \<Rightarrow> string"
  ul_path :: "'u \<Rightarrow> string"
  ul_raw_query :: "'u \<Rightarrow> string"
  ul_query :: "'u \<Rightarrow> (string \<times> string list) list"
  ul_encode :: "(string \<times> string list) list \<Rightarrow> string" \<comment> \<open>Values.Encode\<close>
  ul_set_query :: "string \<Rightarrow> 'u \<Rightarrow> 'u"
  ul_no_fragment :: "'u \<Rightarrow> 'u"
  ul_string :: "'u \<Rightarrow> string"
  ul_unescape :: "string \<Rightarrow> string option" \<comment> \<open>PathUnescape\<close>

definition is_tracking_param :: "string \<Rightarrow> bool" where
  "is_tracking_param key \<longleftrightarrow>
     has_prefix key ''utm_'' \<or> key \<in> {''fbclid'', ''gclid'', ''_ga'', ''mc_cid'', ''mc_eid''}"

definition resolve_link :: "'u url_lib \<Rightarrow> 'u option \<Rightarrow> string \<Rightarrow> string" where
  \<comment> \<open>extract.ResolveURL\<close>
  "resolve_link U base raw =
     (case ul_parse U raw of
        None \<Rightarrow> raw
      | Some u \<Rightarrow>
          let r = (case base of None \<Rightarrow> u | Some b \<Rightarrow> ul_resolve U b u) in
          if ul_raw_query U r \<noteq> []
          then ul_string U (ul_set_query U (ul_encode U (filter (\<lambda>(k, vs). \<not> is_tracking_param k) (ul_query U r))) r)
          else ul_string U r)"

definition display_title :: "'u url_lib \<Rightarrow> string option \<Rightarrow> string \<Rightarrow> string" where
  "display_title U title link =
     (case title of
        Some t \<Rightarrow> t
      | None \<Rightarrow>
          case ul_parse U link of
            Some u \<Rightarrow> if ul_hostname U u \<noteq> [] then ul_hostname U u else link
          | None \<Rightarrow> link)"

section \<open>Synthesized feeds\<close>

record feed_item =
  fi_title :: string
  fi_link :: string
  fi_guid :: string
  fi_content :: string
  fi_description :: string
  fi_author :: "string option"
  fi_published :: "int option" \<comment> \<open>nanoseconds, as are all clock readings outside the store\<close>
  fi_updated :: "int option"

record feed_doc =
  doc_title :: string
  doc_link :: string
  doc_items :: "feed_item list"

record page_lib =
  pl_parse :: "string \<Rightarrow> html option" \<comment> \<open>html.Parse\<close>
  pl_render :: "html \<Rightarrow> string" \<comment> \<open>html.Render, empty on an error\<close>
  pl_nfkc :: "string \<Rightarrow> string"
  pl_sha :: "string \<Rightarrow> string" \<comment> \<open>hexadecimal SHA-256\<close>

lemma text_content_children:
  "t \<noteq> Text_Node \<Longrightarrow> text_content (Node t d a cs) = concat (map text_content cs)"
  by simp

section \<open>A concrete outside world, for witnesses\<close>

definition sample_urls :: "string url_lib" where
  \<comment> \<open>absolute URLs without query or fragment, on the host h\<close>
  "sample_urls =
     \<lparr>ul_parse = Some, ul_resolve = (\<lambda>b u. u),
      ul_scheme = (\<lambda>u. if has_prefix u ''https://'' then ''https'' else if has_prefix u ''http://'' then ''http'' else []),
      ul_hostname = (\<lambda>u. ''h''), ul_path = (\<lambda>u. ''/''), ul_raw_query = (\<lambda>u. []), ul_query = (\<lambda>u. []),
      ul_encode = (\<lambda>q. []), ul_set_query = (\<lambda>q u. u), ul_no_fragment = (\<lambda>u. u),
      ul_string = (\<lambda>u. u), ul_unescape = Some\<rparr>"

definition sample_par :: "string \<Rightarrow> html" where
  "sample_par s = Node Element_Node ''p'' [] [Node Text_Node s [] []]"

definition sample_page :: "html list \<Rightarrow> html" where
  "sample_page ns = Node Document_Node [] [] [Node Element_Node ''html'' [] [Node Element_Node ''body'' [] ns]]"

definition sample_pages :: page_lib where
  \<comment> \<open>every page is one paragraph with the text of the page\<close>
  "sample_pages =
     \<lparr>pl_parse = (\<lambda>s. Some (sample_page [sample_par s])), pl_render = text_content,
      pl_nfkc = (\<lambda>s. s), pl_sha = (\<lambda>s. s)\<rparr>"

end
