(* ===== verification/Pagewatch.thy ===== *)
theory Pagewatch
  imports Html PagewatchDiff Numbers
begin

text \<open>
  \<open>internal/extract/pagewatch\<close> (config.go, noise.go, attrs.go, block.go, state.go,
  pagewatch.go, preview.go): watching one page. The page is reduced to a list of blocks, the
  blocks are compared with the ones stored at the last change, and a difference becomes one
  feed item. JSON, regular expressions and date layouts are arguments (\<open>pw_lib\<close>): a
  compiled pattern is the function that deletes its matches.
\<close>

section \<open>Configuration and state\<close>

record pw_config =
  pc_patterns :: "string list"
  pc_min_chars :: int
  pc_watch_mode :: string
  pc_full_body :: "bool option"
  pc_guid_mode :: string

record state_block =
  sb_key :: string
  sb_html :: string
  sb_anchor :: string
  sb_head :: string

record pw_state =
  ps_version :: int
  ps_rules :: int
  ps_config_hash :: string
  ps_content_hash :: string
  ps_truncated :: bool
  ps_blocks :: "state_block list"

record pw_lib =
  pw_dec_config :: "string \<Rightarrow> pw_config option"
  pw_dec_state :: "string \<Rightarrow> pw_state option"
  pw_enc_state :: "pw_state \<Rightarrow> string"
  pw_enc_patterns :: "string list \<Rightarrow> string"
  pw_regex :: "string \<Rightarrow> (string \<Rightarrow> string) option"
  pw_stamp :: "int \<Rightarrow> string" \<comment> \<open>01/02 15:04\<close>
  pw_rfc3339 :: "int \<Rightarrow> string" \<comment> \<open>with nanoseconds\<close>

datatype pw_error = Pw_Config | Pw_Url | Pw_Pattern | Pw_Html | Pw_No_Blocks

definition current_state_version :: int where "current_state_version = 1"
definition current_rules_version :: int where "current_rules_version = 1"
definition max_state_bytes :: nat where "max_state_bytes = 512 * 1024"
definition max_blocks :: nat where "max_blocks = 5000"

definition zero_config :: pw_config where
  "zero_config = \<lparr>pc_patterns = [], pc_min_chars = 0, pc_watch_mode = [], pc_full_body = None, pc_guid_mode = []\<rparr>"

definition pw_validate :: "pw_lib \<Rightarrow> pw_config \<Rightarrow> bool" where
  "pw_validate L c \<longleftrightarrow>
     length (pc_patterns c) \<le> 50
      \<and> list_all (\<lambda>p. length p \<le> 1000 \<and> pw_regex L p \<noteq> None) (pc_patterns c)
      \<and> pc_watch_mode c \<in> {[], ''additions'', ''changes''}
      \<and> pc_guid_mode c \<in> {[], ''content'', ''revision''}"

definition pw_parse_config :: "pw_lib \<Rightarrow> string \<Rightarrow> pw_config option" where
  "pw_parse_config L raw =
     (if raw = [] then Some zero_config
      else case pw_dec_config L raw of
        None \<Rightarrow> None
      | Some c \<Rightarrow> if pw_validate L c then Some c else None)"

definition watch_mode :: "pw_config \<Rightarrow> string" where
  "watch_mode c = (if pc_watch_mode c = [] then ''additions'' else pc_watch_mode c)"

definition include_full_body :: "pw_config \<Rightarrow> bool" where
  "include_full_body c = (case pc_full_body c of None \<Rightarrow> True | Some b \<Rightarrow> b)"

definition guid_mode :: "pw_config \<Rightarrow> string" where
  "guid_mode c = (if pc_guid_mode c = [] then ''content'' else pc_guid_mode c)"

definition config_hash :: "page_lib \<Rightarrow> pw_lib \<Rightarrow> pw_config \<Rightarrow> string" where
  "config_hash P L c = pl_sha P (pw_enc_patterns L (pc_patterns c))"

definition pw_parse_state :: "pw_lib \<Rightarrow> string \<Rightarrow> pw_state option" where
  "pw_parse_state L raw =
     (if raw = [] then None
      else case pw_dec_state L raw of
        None \<Rightarrow> None
      | Some st \<Rightarrow> if ps_version st = current_state_version then Some st else None)"

definition pw_marshal :: "pw_lib \<Rightarrow> pw_state \<Rightarrow> string" where
  "pw_marshal L st =
     (let b = pw_enc_state L st in
      if length b \<le> max_state_bytes then b
      else pw_enc_state L (st\<lparr>ps_blocks := map (\<lambda>x. x\<lparr>sb_html := []\<rparr>) (ps_blocks st)\<rparr>))"

section \<open>Noise\<close>

definition remove_tags_always :: "string list" where
  "remove_tags_always =
     [''script'', ''style'', ''noscript'', ''template'', ''svg'', ''canvas'', ''iframe'', ''object'',
      ''embed'', ''form'', ''input'', ''button'', ''select'', ''textarea'', ''label'', ''aside'']"

definition remove_tags_by_depth :: "string list" where
  "remove_tags_by_depth = [''header'', ''footer'', ''nav'']"

definition max_landmark_depth :: nat where "max_landmark_depth = 3"

definition remove_roles :: "string list" where
  "remove_roles =
     [''banner'', ''navigation'', ''contentinfo'', ''complementary'', ''search'', ''dialog'', ''alert'']"

definition remove_class_words :: "string list" where
  "remove_class_words =
     [''nav'', ''navi'', ''navigation'', ''menu'', ''gnav'', ''gnavi'', ''breadcrumb'', ''breadcrumbs'',
      ''sidebar'', ''side'', ''aside'', ''footer'', ''header'', ''banner'',
      ''ad'', ''ads'', ''advertisement'',
      ''sns'', ''share'', ''social'', ''comment'', ''comments'',
      ''related'', ''recommend'', ''ranking'', ''pagination'', ''pager'', ''cookie'', ''cookiebar'',
      ''gotop'', ''pagetop'', ''skip'', ''lastmod'', ''lastmodified'', ''docid'', ''counter'', ''access'']"

definition has_noise_word :: "string \<Rightarrow> bool" where
  "has_noise_word v \<longleftrightarrow>
     v \<noteq> [] \<and> list_ex (\<lambda>w. lower w \<in> set remove_class_words)
       (fields_by (\<lambda>c. c \<in> {CHR ''-'', CHR ''_'', CHR '' '', CHR 0x09, CHR 0x0A}) v)"

definition has_noise_role :: "string \<Rightarrow> bool" where
  "has_noise_role v \<longleftrightarrow> v \<noteq> [] \<and> list_ex (\<lambda>w. lower w \<in> set remove_roles) (str_fields v)"

definition is_hidden :: "html \<Rightarrow> bool" where
  "is_hidden n \<longleftrightarrow>
     has_attr n ''hidden'' \<or> lower (attr_val n ''aria-hidden'') = ''true''
      \<or> (let style = filter (\<lambda>c. c \<noteq> CHR '' '') (lower (attr_val n ''style''))
         in contains style ''display:none'' \<or> contains style ''visibility:hidden'')"

definition should_remove :: "html \<Rightarrow> nat \<Rightarrow> bool" where
  "should_remove n depth \<longleftrightarrow>
     n_data n \<in> set remove_tags_always
      \<or> (n_data n \<in> set remove_tags_by_depth \<and> depth \<le> max_landmark_depth)
      \<or> has_noise_role (attr_val n ''role'')
      \<or> has_noise_word (attr_val n ''class'') \<or> has_noise_word (attr_val n ''id'')
      \<or> is_hidden n"

definition is_noise :: "html \<Rightarrow> nat \<Rightarrow> bool" where
  "is_noise c depth \<longleftrightarrow> n_type c = Comment_Node \<or> (n_type c = Element_Node \<and> should_remove c depth)"

fun remove_noise :: "nat \<Rightarrow> html \<Rightarrow> html" where
  "remove_noise depth (Node t d a cs) =
     Node t d a (concat (map (\<lambda>c. if is_noise c (depth + 1) then [] else [remove_noise (depth + 1) c]) cs))"

section \<open>Attributes\<close>

definition allowed_attr :: "string \<Rightarrow> string \<Rightarrow> bool" where
  "allowed_attr tag key \<longleftrightarrow>
     (tag, key) \<in> {(''a'', ''href''), (''img'', ''src''), (''img'', ''alt''), (''time'', ''datetime'')}"

fun filter_attrs :: "'u url_lib \<Rightarrow> 'u \<Rightarrow> html \<Rightarrow> html" where
  "filter_attrs U base (Node t d a cs) =
     Node t d
       (if t = Element_Node
        then map (\<lambda>(k, v). (k, if (d = ''a'' \<and> k = ''href'') \<or> (d = ''img'' \<and> k = ''src'')
                               then resolve_link U (Some base) v else v))
               (filter (\<lambda>(k, v). allowed_attr d k) a)
        else a)
       (map (filter_attrs U base) cs)"

section \<open>Blocks\<close>

record block =
  bl_html :: string
  bl_text :: string
  bl_key :: string
  bl_anchor :: string
  bl_head :: string

definition heading_tags :: "string list" where
  "heading_tags = [''h1'', ''h2'', ''h3'', ''h4'', ''h5'', ''h6'']"

definition block_tags :: "string list" where
  "block_tags =
     [''p'', ''li'', ''tr'', ''dt'', ''dd''] @ heading_tags @
     [''blockquote'', ''pre'', ''figcaption'', ''td'', ''th'', ''section'', ''article'', ''div'']"

fun find_anchor_id :: "html \<Rightarrow> string option" where
  "find_anchor_id (Node t d a cs) =
     (let n = Node t d a [];
          own = (if t \<noteq> Element_Node then None
                 else if attr_val n ''id'' \<noteq> [] then Some (attr_val n ''id'')
                 else if attr_val n ''name'' \<noteq> [] then Some (attr_val n ''name'')
                 else None)
      in case own of Some v \<Rightarrow> Some v | None \<Rightarrow> first_some find_anchor_id cs)"

fun node_at :: "html \<Rightarrow> node_path \<Rightarrow> html option" where
  "node_at n [] = Some n"
| "node_at n (i # p) = (if i < length (n_children n) then node_at (n_children n ! i) p else None)"

definition heading_anchor :: "html \<Rightarrow> node_path \<Rightarrow> string" where
  \<comment> \<open>the map of captureHeadingAnchors, looked up at the node with the given path\<close>
  "heading_anchor root p =
     (case node_at root p of
        None \<Rightarrow> []
      | Some n \<Rightarrow>
          if n_type n = Element_Node \<and> n_data n \<in> set heading_tags
          then (case find_anchor_id n of None \<Rightarrow> [] | Some v \<Rightarrow> v) else [])"

fun contains_media_or_link :: "html \<Rightarrow> bool" where
  "contains_media_or_link (Node t d a cs) \<longleftrightarrow>
     (t = Element_Node \<and> (d = ''img'' \<or> d = ''a'')) \<or> list_ex contains_media_or_link cs"

type_synonym heading_state = "string \<times> string"

definition make_block :: "page_lib \<Rightarrow> html \<Rightarrow> heading_state \<Rightarrow> block option" where
  "make_block P n hs =
     (let text = normalize_text (pl_nfkc P) (text_content n) in
      if text = [] \<and> \<not> contains_media_or_link n then None
      else Some \<lparr>bl_html = pl_render P n, bl_text = text, bl_key = pl_render P n,
                 bl_anchor = fst hs, bl_head = snd hs\<rparr>)"

fun walk_blocks :: "page_lib \<Rightarrow> (node_path \<Rightarrow> string) \<Rightarrow> bool \<Rightarrow> node_path \<Rightarrow> html \<Rightarrow> heading_state
      \<Rightarrow> block list \<times> heading_state"
  and walk_children :: "page_lib \<Rightarrow> (node_path \<Rightarrow> string) \<Rightarrow> node_path \<Rightarrow> nat \<Rightarrow> html list \<Rightarrow> heading_state
      \<Rightarrow> block list \<times> heading_state" where
  "walk_blocks P anchors is_root path (Node t d a cs) hs =
     (let n = Node t d a cs; (blocks, hs') = walk_children P anchors path 0 cs hs in
      if blocks \<noteq> [] then (blocks, hs')
      else if t = Element_Node \<and> d \<in> set block_tags then
        (case make_block P n hs' of
           Some b \<Rightarrow> ([b], if d \<in> set heading_tags then (anchors path, bl_text b) else hs')
         | None \<Rightarrow> ([], hs'))
      else if is_root then
        (case make_block P n hs' of Some b \<Rightarrow> ([b], hs') | None \<Rightarrow> ([], hs'))
      else ([], hs'))"
| "walk_children P anchors path i [] hs = ([], hs)"
| "walk_children P anchors path i (c # cs) hs =
     (let (b1, hs1) = walk_blocks P anchors False (path @ [i]) c hs;
          (b2, hs2) = walk_children P anchors path (i + 1) cs hs1
      in (b1 @ b2, hs2))"

definition split_blocks :: "page_lib \<Rightarrow> html \<Rightarrow> (node_path \<Rightarrow> string) \<Rightarrow> block list" where
  "split_blocks P root anchors = fst (walk_blocks P anchors True [] root ([], []))"

section \<open>Masking\<close>

function strip_tag_matches :: "string \<Rightarrow> string" where
  \<comment> \<open>tagRe.ReplaceAllString(s, ""): a less-than sign up to the next greater-than sign\<close>
  "strip_tag_matches [] = []"
| "strip_tag_matches (c # s) =
     (if c = CHR ''<'' \<and> CHR ''>'' \<in> set s
      then strip_tag_matches (tl (dropWhile (\<lambda>x. x \<noteq> CHR ''>'') s))
      else c # strip_tag_matches s)"
  by pat_completeness auto
termination
proof (relation "measure length", goal_cases)
  case (2 c s)
  have "length (dropWhile (\<lambda>x. x \<noteq> CHR ''>'') s) \<le> length s" by (rule length_dropWhile_le)
  then show ?case by simp
qed simp_all

definition strip_tags :: "string \<Rightarrow> string" where
  "strip_tags s = trim_space (strip_tag_matches s)"

definition compile_patterns :: "pw_lib \<Rightarrow> string list \<Rightarrow> (string \<Rightarrow> string) list option" where
  "compile_patterns L ps =
     (if list_all (\<lambda>p. pw_regex L p \<noteq> None) ps then Some (map (\<lambda>p. the (pw_regex L p)) ps) else None)"

definition apply_ignore_patterns :: "(string \<Rightarrow> string) list \<Rightarrow> string \<Rightarrow> string" where
  "apply_ignore_patterns res frag = foldl (\<lambda>s re. re s) frag res"

definition mask_and_filter :: "(string \<Rightarrow> string) list \<Rightarrow> block list \<Rightarrow> block list" where
  "mask_and_filter res blocks =
     concat (map (\<lambda>b. let m = apply_ignore_patterns res (bl_html b) in
        if strip_tags m = [] then [] else [b\<lparr>bl_key := m\<rparr>]) blocks)"

definition change_char_count :: "block list \<Rightarrow> block list \<Rightarrow> int" where
  "change_char_count added removed =
     int (sum_list (map (\<lambda>b. rune_count (bl_text b)) added)) + int (sum_list (map (\<lambda>b. rune_count (bl_text b)) removed))"

definition content_hash :: "page_lib \<Rightarrow> string list \<Rightarrow> string" where
  \<comment> \<open>strings.Join with a newline, hashed\<close>
  "content_hash P keys =
     pl_sha P (case keys of [] \<Rightarrow> [] | k # ks \<Rightarrow> k @ concat (map (\<lambda>x. CHR 0x0A # x) ks))"

definition to_state_blocks :: "block list \<Rightarrow> state_block list" where
  "to_state_blocks bs =
     map (\<lambda>b. \<lparr>sb_key = bl_key b, sb_html = bl_html b, sb_anchor = bl_anchor b, sb_head = bl_head b\<rparr>) bs"

fun recompute_state_blocks :: "(string \<Rightarrow> string) list \<Rightarrow> state_block list \<Rightarrow> state_block list option" where
  "recompute_state_blocks res [] = Some []"
| "recompute_state_blocks res (b # bs) =
     (if sb_html b = [] then None
      else case recompute_state_blocks res bs of
        None \<Rightarrow> None
      | Some out \<Rightarrow>
          let m = apply_ignore_patterns res (sb_html b) in
          Some (if strip_tags m = [] then out else b\<lparr>sb_key := m\<rparr> # out))"

definition compute_diff :: "state_block list \<Rightarrow> block list \<Rightarrow> block list \<times> block list" where
  "compute_diff prev cur =
     (let (a, r) = diff_idx (map sb_key prev) (map bl_key cur) in
      (map ((!) cur) a,
       map (\<lambda>i. let b = prev ! i in
          \<lparr>bl_html = sb_html b, bl_text = strip_tags (sb_html b), bl_key = sb_key b,
           bl_anchor = sb_anchor b, bl_head = sb_head b\<rparr>) r))"

section \<open>Extraction\<close>

definition nl :: string where "nl = [CHR 0x0A]"

definition txt_started :: string where \<comment> \<open>"monitoring started", a paragraph\<close>
  "txt_started =
     ''<p>'' @ [CHR 0xE7, CHR 0x9B, CHR 0xA3, CHR 0xE8, CHR 0xA6, CHR 0x96, CHR 0xE3, CHR 0x82, CHR 0x92,
       CHR 0xE9, CHR 0x96, CHR 0x8B, CHR 0xE5, CHR 0xA7, CHR 0x8B, CHR 0xE3, CHR 0x81, CHR 0x97, CHR 0xE3, CHR 0x81,
       CHR 0xBE, CHR 0xE3, CHR 0x81, CHR 0x97, CHR 0xE3, CHR 0x81, CHR 0x9F, CHR 0xE3, CHR 0x80, CHR 0x82] @ ''</p>'' @ nl"

definition txt_block :: string where
  "txt_block = '' '' @ [CHR 0xE3, CHR 0x83, CHR 0x96, CHR 0xE3, CHR 0x83, CHR 0xAD, CHR 0xE3, CHR 0x83, CHR 0x83, CHR 0xE3, CHR 0x82, CHR 0xAF]"

definition txt_added :: string where
  "txt_added = txt_block @ [CHR 0xE8, CHR 0xBF, CHR 0xBD, CHR 0xE5, CHR 0x8A, CHR 0xA0] @ '' / ''"

definition txt_removed :: string where
  "txt_removed = txt_block @ [CHR 0xE5, CHR 0x89, CHR 0x8A, CHR 0xE9, CHR 0x99, CHR 0xA4] @ ''</p>'' @ nl"

definition txt_full_page :: string where
  "txt_full_page =
     ''<hr>'' @ nl @ ''<p>'' @ [CHR 0xE3, CHR 0x83, CHR 0x9A, CHR 0xE3, CHR 0x83, CHR 0xBC, CHR 0xE3, CHR 0x82, CHR 0xB8,
       CHR 0xE5, CHR 0x85, CHR 0xA8, CHR 0xE6, CHR 0x96, CHR 0x87, CHR 0xEF, CHR 0xBC, CHR 0x88, CHR 0xE7, CHR 0x9B, CHR 0xA3,
       CHR 0xE8, CHR 0xA6, CHR 0x96, CHR 0xE5, CHR 0xAF, CHR 0xBE, CHR 0xE8, CHR 0xB1, CHR 0xA1, CHR 0xE9, CHR 0x83, CHR 0xA8,
       CHR 0xE5, CHR 0x88, CHR 0x86, CHR 0xEF, CHR 0xBC, CHR 0x89] @ ''</p>'' @ nl @ ''<div>'' @ nl"

definition txt_update :: string where
  "txt_update = [CHR 0xE6, CHR 0x9B, CHR 0xB4, CHR 0xE6, CHR 0x96, CHR 0xB0]"

definition txt_start :: string where
  "txt_start = [CHR 0xE7, CHR 0x9B, CHR 0xA3, CHR 0xE8, CHR 0xA6, CHR 0x96, CHR 0xE9, CHR 0x96, CHR 0x8B, CHR 0xE5, CHR 0xA7, CHR 0x8B]"

definition txt_dash :: string where
  "txt_dash = '' '' @ [CHR 0xE2, CHR 0x80, CHR 0x94] @ '' ''"

definition html_lines :: "block list \<Rightarrow> string" where
  "html_lines bs = concat (map (\<lambda>b. bl_html b @ nl) bs)"

definition entry_guid :: "page_lib \<Rightarrow> pw_lib \<Rightarrow> pw_config \<Rightarrow> string \<Rightarrow> int \<Rightarrow> string \<Rightarrow> string" where
  "entry_guid P L cfg link now hash =
     (if guid_mode cfg = ''revision'' then pl_sha P (link @ ''|'' @ pw_rfc3339 L now) else pl_sha P hash)"

definition build_feed ::
    "page_lib \<Rightarrow> pw_lib \<Rightarrow> string \<Rightarrow> string \<Rightarrow> int \<Rightarrow> block list \<Rightarrow> block list \<Rightarrow> block list \<Rightarrow> pw_config
      \<Rightarrow> string \<Rightarrow> bool \<Rightarrow> feed_doc" where
  \<comment> \<open>title is the display title\<close>
  "build_feed P L title link now added removed all_blocks cfg hash initial =
     (let change =
        (if initial then txt_started
         else ''<p>'' @ dec_nat (length added) @ txt_added @ dec_nat (length removed) @ txt_removed
           @ (if added = [] then [] else ''<ins>'' @ nl @ html_lines added @ ''</ins>'' @ nl)
           @ (if removed = [] then []
              else ''<del>'' @ nl @ html_lines (filter (\<lambda>b. bl_html b \<noteq> []) removed) @ ''</del>'' @ nl));
        full = (if include_full_body cfg then txt_full_page @ html_lines all_blocks @ ''</div>'' @ nl else []);
        item = \<lparr>fi_title = title @ txt_dash @ (if initial then txt_start else txt_update) @ '' ('' @ pw_stamp L now @ '')'',
                fi_link = link, fi_guid = entry_guid P L cfg link now hash, fi_content = change @ full,
                fi_description = [], fi_author = None, fi_published = Some now, fi_updated = None\<rparr>
      in \<lparr>doc_title = title, doc_link = link, doc_items = [item]\<rparr>)"

definition page_blocks :: "'u url_lib \<Rightarrow> page_lib \<Rightarrow> html \<Rightarrow> 'u \<Rightarrow> block list" where
  \<comment> \<open>lines 44 to 53: from the parsed document to all its blocks\<close>
  "page_blocks U P doc base =
     (let body = (case find_body doc of None \<Rightarrow> doc | Some b \<Rightarrow> b);
          quiet = remove_noise 0 body
      in split_blocks P (filter_attrs U base quiet) (heading_anchor quiet))"

definition pw_extract ::
    "'u url_lib \<Rightarrow> page_lib \<Rightarrow> pw_lib \<Rightarrow> string \<Rightarrow> string \<Rightarrow> int \<Rightarrow> string \<Rightarrow> string
      \<Rightarrow> pw_error + feed_doc \<times> string option" where
  \<comment> \<open>Extract: url, page, now, config, stored state; the state is None when it is to be left alone\<close>
  "pw_extract U P L url page now config state =
     (case pw_parse_config L config of
        None \<Rightarrow> Inl Pw_Config
      | Some cfg \<Rightarrow>
        case ul_parse U url of
          None \<Rightarrow> Inl Pw_Url
        | Some base \<Rightarrow>
          case compile_patterns L (pc_patterns cfg) of
            None \<Rightarrow> Inl Pw_Pattern
          | Some res \<Rightarrow>
            case pl_parse P page of
              None \<Rightarrow> Inl Pw_Html
            | Some doc \<Rightarrow>
              let title = display_title U (page_title (normalize_text (pl_nfkc P)) doc) url;
                  found = page_blocks U P doc base;
                  all_blocks = take max_blocks found
              in if all_blocks = [] then Inl Pw_No_Blocks
                 else
                   let comparable = mask_and_filter res all_blocks;
                       new_config_hash = config_hash P L cfg;
                       new_hash = content_hash P (map bl_key comparable);
                       st = pw_marshal L \<lparr>ps_version = current_state_version, ps_rules = current_rules_version,
                              ps_config_hash = new_config_hash, ps_content_hash = new_hash,
                              ps_truncated = max_blocks < length found, ps_blocks = to_state_blocks comparable\<rparr>;
                       empty = \<lparr>doc_title = title, doc_link = url, doc_items = []\<rparr>;
                       feed = (\<lambda>added removed initial.
                         build_feed P L title url now added removed all_blocks cfg new_hash initial)
                   in if state = [] then Inr (feed [] [] True, Some st)
                      else case pw_parse_state L state of
                        None \<Rightarrow> Inr (empty, Some st)
                      | Some prev \<Rightarrow>
                        if ps_rules prev \<noteq> current_rules_version then Inr (empty, Some st)
                        else
                          case (if ps_config_hash prev \<noteq> new_config_hash
                                then recompute_state_blocks res (ps_blocks prev) else Some (ps_blocks prev)) of
                            None \<Rightarrow> Inr (empty, Some st)
                          | Some prev_blocks \<Rightarrow>
                            if content_hash P (map sb_key prev_blocks) = new_hash then Inr (empty, None)
                            else
                              let (added, removed) = compute_diff prev_blocks comparable in
                              if 0 < pc_min_chars cfg \<and> change_char_count added removed < pc_min_chars cfg
                                then Inr (empty, Some st)
                              else
                                let removed = (if watch_mode cfg = ''additions'' then [] else removed) in
                                if added = [] \<and> removed = [] then Inr (empty, Some st)
                                else Inr (feed added removed False, Some st))"

definition pw_preview ::
    "'u url_lib \<Rightarrow> page_lib \<Rightarrow> pw_lib \<Rightarrow> string \<Rightarrow> string \<Rightarrow> pw_config \<Rightarrow> pw_error + (string \<times> bool) list" where
  \<comment> \<open>Preview: text of each block and whether the patterns hide it\<close>
  "pw_preview U P L url page cfg =
     (case ul_parse U url of
        None \<Rightarrow> Inl Pw_Url
      | Some base \<Rightarrow>
        case compile_patterns L (pc_patterns cfg) of
          None \<Rightarrow> Inl Pw_Pattern
        | Some res \<Rightarrow>
          case pl_parse P page of
            None \<Rightarrow> Inl Pw_Html
          | Some doc \<Rightarrow>
            let body = (case find_body doc of None \<Rightarrow> doc | Some b \<Rightarrow> b);
                blocks = split_blocks P (filter_attrs U base (remove_noise 0 body)) (\<lambda>_. [])
            in Inr (map (\<lambda>b. (bl_text b, strip_tags (apply_ignore_patterns res (bl_html b)) = [])) blocks))"

section \<open>Noise removal\<close>

fun noise_free :: "nat \<Rightarrow> html \<Rightarrow> bool" where
  "noise_free depth (Node t d a cs) \<longleftrightarrow>
     list_all (\<lambda>c. \<not> is_noise c (depth + 1) \<and> noise_free (depth + 1) c) cs"

lemma remove_noise_head [simp]:
  "n_type (remove_noise k n) = n_type n" "n_data (remove_noise k n) = n_data n" "n_attr (remove_noise k n) = n_attr n"
  by (cases n; simp)+

lemma is_noise_remove_noise [simp]: "is_noise (remove_noise k n) depth = is_noise n depth"
  by (simp add: is_noise_def should_remove_def is_hidden_def attr_val_def has_attr_def)

lemma remove_noise_free: "noise_free depth (remove_noise depth n)"
proof (induction depth n rule: remove_noise.induct)
  case (1 depth t d a cs)
  then show ?case by (auto simp: list_all_iff)
qed

lemma noise_free_fixed: "noise_free depth n \<Longrightarrow> remove_noise depth n = n"
proof (induction depth n rule: remove_noise.induct)
  case (1 depth t d a cs)
  have "concat (map (\<lambda>c. if is_noise c (depth + 1) then [] else [remove_noise (depth + 1) c]) cs) = concat (map (\<lambda>c. [c]) cs)"
    by (rule arg_cong [where f = concat], rule map_cong) (use 1 in \<open>auto simp: list_all_iff\<close>)
  then show ?case by simp
qed

section \<open>Polling an unchanged page\<close>

lemma pw_extract_Inr_cases:
  assumes "pw_extract U P L url page now config state = Inr r"
  obtains cfg base res doc where
    "pw_parse_config L config = Some cfg" "ul_parse U url = Some base"
    "compile_patterns L (pc_patterns cfg) = Some res" "pl_parse P page = Some doc"
    "take max_blocks (page_blocks U P doc base) \<noteq> []"
  using assms unfolding pw_extract_def
  by (auto simp: Let_def split: option.splits if_splits)

definition fresh_state_of :: "'u url_lib \<Rightarrow> page_lib \<Rightarrow> pw_lib \<Rightarrow> pw_config \<Rightarrow> (string \<Rightarrow> string) list \<Rightarrow> html \<Rightarrow> 'u \<Rightarrow> pw_state" where
  \<comment> \<open>the state buildState marshals\<close>
  "fresh_state_of U P L cfg res doc base =
     (let found = page_blocks U P doc base; comparable = mask_and_filter res (take max_blocks found) in
      \<lparr>ps_version = current_state_version, ps_rules = current_rules_version,
       ps_config_hash = config_hash P L cfg, ps_content_hash = content_hash P (map bl_key comparable),
       ps_truncated = max_blocks < length found, ps_blocks = to_state_blocks comparable\<rparr>)"

lemma pw_extract_state:
  assumes "pw_extract U P L url page now config state = Inr (feed, Some st)"
    and "pw_parse_config L config = Some cfg" "ul_parse U url = Some base"
    "compile_patterns L (pc_patterns cfg) = Some res" "pl_parse P page = Some doc"
  shows "st = pw_marshal L (fresh_state_of U P L cfg res doc base)"
  using assms unfolding pw_extract_def fresh_state_of_def
  by (simp add: Let_def split: option.splits if_splits prod.splits)

lemma keys_of_state_blocks: "map sb_key (to_state_blocks bs) = map bl_key bs"
  by (simp add: to_state_blocks_def)

lemma pw_parse_marshal:
  assumes "\<And>s. pw_enc_state L s = raw \<Longrightarrow> pw_dec_state L raw = Some s" "raw = pw_marshal L st" "raw \<noteq> []"
    and "ps_version st = current_state_version"
  shows "\<exists>st'. pw_parse_state L raw = Some st' \<and> ps_rules st' = ps_rules st
    \<and> ps_config_hash st' = ps_config_hash st \<and> map sb_key (ps_blocks st') = map sb_key (ps_blocks st)"
proof -
  obtain s where s: "raw = pw_enc_state L s" "s = st \<or> s = st\<lparr>ps_blocks := map (\<lambda>x. x\<lparr>sb_html := []\<rparr>) (ps_blocks st)\<rparr>"
    using assms(2) by (auto simp: pw_marshal_def Let_def split: if_splits)
  then have "pw_dec_state L raw = Some s" using assms(1) by simp
  moreover have "ps_version s = current_state_version" "ps_rules s = ps_rules st"
    "ps_config_hash s = ps_config_hash st" "map sb_key (ps_blocks s) = map sb_key (ps_blocks st)"
    using s(2) assms(4) by (auto simp: o_def)
  ultimately show ?thesis using assms(3) by (simp add: pw_parse_state_def)
qed

text \<open>
  Polling an unchanged page is silent: once an extraction has returned a state, whatever it was
  started from, extracting the same page again with that state yields no item and asks for no write,
  at any later time. This holds also for a state whose display HTML was dropped for its size. (JSON
  decoding is assumed to invert encoding at the state in question.)
\<close>

theorem unchanged_page_is_silent:
  assumes "\<And>s. pw_enc_state L s = st \<Longrightarrow> pw_dec_state L st = Some s" "st \<noteq> []"
    and "pw_extract U P L url page now config state = Inr (feed, Some st)"
  shows "\<exists>title. pw_extract U P L url page later config st = Inr (\<lparr>doc_title = title, doc_link = url, doc_items = []\<rparr>, None)"
proof -
  obtain cfg base res doc where run: "pw_parse_config L config = Some cfg" "ul_parse U url = Some base"
    "compile_patterns L (pc_patterns cfg) = Some res" "pl_parse P page = Some doc"
    "take max_blocks (page_blocks U P doc base) \<noteq> []"
    using pw_extract_Inr_cases [OF assms(3)] by blast
  let ?fs = "fresh_state_of U P L cfg res doc base"
  have st: "st = pw_marshal L ?fs" by (rule pw_extract_state [OF assms(3) run(1-4)])
  have "ps_version ?fs = current_state_version" by (simp add: fresh_state_of_def Let_def)
  then obtain st' where st': "pw_parse_state L st = Some st'" "ps_rules st' = ps_rules ?fs"
      "ps_config_hash st' = ps_config_hash ?fs" "map sb_key (ps_blocks st') = map sb_key (ps_blocks ?fs)"
    using pw_parse_marshal [OF assms(1) st assms(2)] by blast
  then have "ps_rules st' = current_rules_version" "ps_config_hash st' = config_hash P L cfg"
      "map sb_key (ps_blocks st') = map bl_key (mask_and_filter res (take max_blocks (page_blocks U P doc base)))"
    by (simp_all add: fresh_state_of_def Let_def keys_of_state_blocks)
  then show ?thesis using run assms(2) st'(1) unfolding pw_extract_def by (simp add: Let_def)
qed

section \<open>Moves, and patterns that are taken back\<close>

lemma compute_diff_empty_iff:
  "compute_diff prev cur = ([], []) \<longleftrightarrow> mset (map sb_key prev) = mset (map bl_key cur)"
proof -
  obtain a r where ar: "diff_idx (map sb_key prev) (map bl_key cur) = (a, r)" by (rule prod.exhaust)
  note bags = diff_idx_bags [OF ar]
  have "compute_diff prev cur = ([], []) \<longleftrightarrow> a = [] \<and> r = []" using ar by (simp add: compute_diff_def)
  also have "\<dots> \<longleftrightarrow> keys_at (map bl_key cur) a = {#} \<and> keys_at (map sb_key prev) r = {#}"
    by (simp add: keys_at_def)
  also have "\<dots> \<longleftrightarrow> mset (map sb_key prev) = mset (map bl_key cur)"
    unfolding bags(1,2) by (metis Diff_eq_empty_iff_mset subset_mset.antisym subset_mset.order_refl)
  finally show ?thesis .
qed

definition sample_state :: pw_state where
  \<comment> \<open>of the page whose text is "hi", without patterns\<close>
  "sample_state =
     \<lparr>ps_version = 1, ps_rules = 1, ps_config_hash = [], ps_content_hash = ''hi'', ps_truncated = False,
      ps_blocks = [\<lparr>sb_key = ''hi'', sb_html = ''hi'', sb_anchor = [], sb_head = []\<rparr>]\<rparr>"

definition sample_pw :: pw_lib where
  "sample_pw =
     \<lparr>pw_dec_config = (\<lambda>_. None), pw_dec_state = (\<lambda>r. if r = ''S'' then Some sample_state else None),
      pw_enc_state = (\<lambda>s. if s = sample_state then ''S'' else ''?''), pw_enc_patterns = concat,
      pw_regex = (\<lambda>_. None), pw_stamp = (\<lambda>_. []), pw_rfc3339 = (\<lambda>_. [])\<rparr>"

lemma sample_page_blocks:
  "page_blocks sample_urls sample_pages (sample_page [sample_par ''hi'']) ''u''
    = [\<lparr>bl_html = ''hi'', bl_text = ''hi'', bl_key = ''hi'', bl_anchor = [], bl_head = []\<rparr>]"
  by code_simp

lemma sample_first_run:
  "\<exists>feed. pw_extract sample_urls sample_pages sample_pw ''u'' ''hi'' 7 [] [] = Inr (feed, Some ''S'')"
proof -
  have b: "mask_and_filter [] [\<lparr>bl_html = ''hi'', bl_text = ''hi'', bl_key = ''hi'', bl_anchor = [], bl_head = []\<rparr>]
      = [\<lparr>bl_html = ''hi'', bl_text = ''hi'', bl_key = ''hi'', bl_anchor = [], bl_head = []\<rparr>]" by code_simp
  have lib: "pl_parse sample_pages ''hi'' = Some (sample_page [sample_par ''hi''])" "ul_parse sample_urls ''u'' = Some ''u''"
    "pl_sha sample_pages = (\<lambda>s. s)" "pw_enc_patterns sample_pw = concat"
    "pw_enc_state sample_pw = (\<lambda>s. if s = sample_state then ''S'' else ''?'')"
    by (simp_all add: sample_pages_def sample_urls_def sample_pw_def)
  have t: "take max_blocks [x] = [x]" for x :: block by (simp add: max_blocks_def)
  have s: "pw_marshal sample_pw sample_state = ''S''" by (simp add: pw_marshal_def lib max_state_bytes_def)
  have st: "\<lparr>ps_version = current_state_version, ps_rules = current_rules_version, ps_config_hash = [],
      ps_content_hash = ''hi'', ps_truncated = False,
      ps_blocks = [\<lparr>sb_key = ''hi'', sb_html = ''hi'', sb_anchor = [], sb_head = []\<rparr>]\<rparr> = sample_state"
    by (simp add: sample_state_def current_state_version_def current_rules_version_def)
  show ?thesis
    by (simp add: pw_extract_def pw_parse_config_def zero_config_def compile_patterns_def lib
        sample_page_blocks t b Let_def config_hash_def content_hash_def to_state_blocks_def st s max_blocks_def)
qed

theorem unchanged_page_is_silent_witness:
  "\<exists>feed title. pw_extract sample_urls sample_pages sample_pw ''u'' ''hi'' 7 [] [] = Inr (feed, Some ''S'')
     \<and> pw_extract sample_urls sample_pages sample_pw ''u'' ''hi'' 9 [] ''S''
         = Inr (\<lparr>doc_title = title, doc_link = ''u'', doc_items = []\<rparr>, None)"
proof -
  obtain feed where f: "pw_extract sample_urls sample_pages sample_pw ''u'' ''hi'' 7 [] [] = Inr (feed, Some ''S'')"
    using sample_first_run by blast
  have "pw_dec_state sample_pw ''S'' = Some s" if "pw_enc_state sample_pw s = ''S''" for s
    using that by (simp add: sample_pw_def split: if_splits)
  from unchanged_page_is_silent [OF this _ f, of 9] f show ?thesis by blast
qed

text \<open>
  A change that only reorders blocks makes no entry: while the patterns are the stored ones and
  the blocks of the page are, in any order, the stored ones, an extraction returns a feed
  without items.
\<close>

theorem moved_blocks_are_silent:
  assumes "pw_extract U P L url page now config state = Inr (feed, st)" "state \<noteq> []"
    and "pw_parse_state L state = Some prev" "ps_rules prev = current_rules_version"
    and "pw_parse_config L config = Some cfg" "ps_config_hash prev = config_hash P L cfg"
    and "compile_patterns L (pc_patterns cfg) = Some res" "ul_parse U url = Some base" "pl_parse P page = Some doc"
    and "mset (map sb_key (ps_blocks prev))
      = mset (map bl_key (mask_and_filter res (take max_blocks (page_blocks U P doc base))))"
  shows "doc_items feed = []"
proof -
  have "compute_diff (ps_blocks prev) (mask_and_filter res (take max_blocks (page_blocks U P doc base))) = ([], [])"
    using assms(10) compute_diff_empty_iff by blast
  then show ?thesis using assms(1-9) unfolding pw_extract_def
    by (auto simp: Let_def split: if_splits)
qed

theorem moved_blocks_are_silent_witness:
  "\<exists>feed st. pw_extract sample_urls sample_pages sample_pw ''u'' ''hi'' 9 [] ''S'' = Inr (feed, st) \<and> doc_items feed = []"
proof -
  let ?x = "pw_extract sample_urls sample_pages sample_pw ''u'' ''hi'' 9 [] ''S''"
  have cfg: "pw_parse_config sample_pw [] = Some zero_config" by (simp add: pw_parse_config_def)
  have lib: "pl_parse sample_pages ''hi'' = Some (sample_page [sample_par ''hi''])" "ul_parse sample_urls ''u'' = Some ''u''"
    by (simp_all add: sample_pages_def sample_urls_def)
  have res: "compile_patterns sample_pw (pc_patterns zero_config) = Some []"
    by (simp add: compile_patterns_def zero_config_def)
  have prev: "pw_parse_state sample_pw ''S'' = Some sample_state" by code_simp
  have hash: "ps_rules sample_state = current_rules_version"
    "ps_config_hash sample_state = config_hash sample_pages sample_pw zero_config" by code_simp+
  have t: "take max_blocks [x] = [x]" for x :: block by (simp add: max_blocks_def)
  have keys: "map sb_key (ps_blocks sample_state) = map bl_key (mask_and_filter []
      [\<lparr>bl_html = ''hi'', bl_text = ''hi'', bl_key = ''hi'', bl_anchor = [], bl_head = []\<rparr>])" by code_simp
  have ms: "mset (map sb_key (ps_blocks sample_state)) = mset (map bl_key (mask_and_filter []
      (take max_blocks (page_blocks sample_urls sample_pages (sample_page [sample_par ''hi'']) ''u''))))"
    unfolding sample_page_blocks t keys ..
  have "\<exists>r. ?x = Inr r"
    unfolding pw_extract_def
    by (simp add: cfg lib res prev hash sample_page_blocks t Let_def max_blocks_def split: prod.split)
  then obtain feed st where x: "?x = Inr (feed, st)" by auto
  have "doc_items feed = []"
    by (rule moved_blocks_are_silent [OF x _ prev hash(1) cfg hash(2) res lib(2,1) ms]) simp
  with x show ?thesis by (intro exI [of _ feed] exI [of _ st] conjI)
qed

text \<open>
  Taking a pattern back is not silent, although the design says a change of the patterns makes
  no entry: a block the old pattern hid is not in the stored state, so recomputing the keys
  from the stored blocks cannot know it, and the unchanged page reports it as added.
\<close>

theorem unmasked_block_is_reported:
  "(let bs = [\<lparr>bl_html = ''news'', bl_text = ''news'', bl_key = [], bl_anchor = [], bl_head = []\<rparr>,
              \<lparr>bl_html = ''12:00'', bl_text = ''12:00'', bl_key = [], bl_anchor = [], bl_head = []\<rparr>];
        hide_time = (\<lambda>s. if s = ''12:00'' then [] else s);
        stored = to_state_blocks (mask_and_filter [hide_time] bs)
    in recompute_state_blocks [] stored = Some stored
       \<and> map bl_html (fst (compute_diff stored (mask_and_filter [] bs))) = [''12:00''])"
  by code_simp

end
