(* ===== verification/Selector.thy ===== *)
theory Selector
  imports Html Fetcher
begin

text \<open>
  \<open>internal/extract/selector\<close> (config.go, state.go, selector.go, preview.go) and
  \<open>internal/extract/date.go\<close>: candidate articles of a listing page, found by CSS selectors, and
  the history of what was imported. The selector engine (cascadia), JSON and the date layouts of
  package time are arguments (\<open>sel_lib\<close>). A node is named by its path in the document.
\<close>

section \<open>Dates\<close>

record date_lib =
  dl_rfc3339 :: "string \<Rightarrow> int option"
  dl_ymd :: "string \<Rightarrow> int option"
  dl_utc :: "nat \<Rightarrow> nat \<Rightarrow> nat \<Rightarrow> int" \<comment> \<open>time.Date at midnight UTC\<close>

definition is_digit :: "char \<Rightarrow> bool" where
  "is_digit c \<longleftrightarrow> digit_val c \<noteq> None"

definition digits_nat :: "string \<Rightarrow> nat" where
  "digits_nat s = (case digits_val 0 s of Some n \<Rightarrow> nat n | None \<Rightarrow> 0)"

definition take_digits :: "nat \<Rightarrow> string \<Rightarrow> string \<times> string" where
  \<comment> \<open>at most n digits from the front\<close>
  "take_digits n s = (let d = takeWhile is_digit (take n s) in (d, drop (length d) s))"

definition jp_date :: "string \<Rightarrow> (nat \<times> nat \<times> nat) option" where
  \<comment> \<open>jpDateRe: four digits, year sign, one or two digits, month sign, one or two digits, day sign\<close>
  "jp_date s =
     (let (y, s1) = take_digits 4 s in
      if length y \<noteq> 4 then None
      else case cut_prefix [CHR 0xE5, CHR 0xB9, CHR 0xB4] s1 of
        None \<Rightarrow> None
      | Some s2 \<Rightarrow>
          let (m, s3) = take_digits 2 s2 in
          if m = [] then None
          else case cut_prefix [CHR 0xE6, CHR 0x9C, CHR 0x88] s3 of
            None \<Rightarrow> None
          | Some s4 \<Rightarrow>
              let (d, s5) = take_digits 2 s4 in
              if d = [] then None
              else if has_prefix s5 [CHR 0xE6, CHR 0x97, CHR 0xA5]
                then Some (digits_nat y, digits_nat m, digits_nat d) else None)"

definition hour_ns :: int where
  "hour_ns = 3600 * ns_sec"

definition check_not_future :: "int \<Rightarrow> int \<Rightarrow> int option" where
  "check_not_future t now = (if now + hour_ns < t then None else Some t)"

definition parse_flexible_date :: "date_lib \<Rightarrow> string \<Rightarrow> int \<Rightarrow> int option" where
  "parse_flexible_date D s now =
     (let s = trim_space s in
      if s = [] then None
      else case dl_rfc3339 D s of
        Some t \<Rightarrow> check_not_future t now
      | None \<Rightarrow>
          case dl_ymd D s of
            Some t \<Rightarrow> check_not_future t now
          | None \<Rightarrow>
              case jp_date s of
                Some (y, m, d) \<Rightarrow> check_not_future (dl_utc D y m d) now
              | None \<Rightarrow> None)"

section \<open>Configuration\<close>

record sel_config =
  sc_item :: string
  sc_link :: string
  sc_title :: string
  sc_date :: string
  sc_summary :: string
  sc_same_host :: "bool option"
  sc_fulltext :: "bool option"
  sc_max_items :: int

record css =
  css_match :: "html \<Rightarrow> node_path \<Rightarrow> bool" \<comment> \<open>Match\<close>
  css_all :: "html \<Rightarrow> node_path \<Rightarrow> node_path list" \<comment> \<open>MatchAll below a node, in document order\<close>

record sel_state =
  ss_version :: int
  ss_config_hash :: string
  ss_truncated :: bool
  ss_seen :: "string list"
  ss_pending :: "string \<rightharpoonup> int"

record sel_lib =
  sl_compile :: "string \<Rightarrow> css option"
  sl_dec_config :: "string \<Rightarrow> sel_config option"
  sl_enc_config :: "sel_config \<Rightarrow> string"
  sl_dec_state :: "string \<Rightarrow> sel_state option"
  sl_enc_state :: "sel_state \<Rightarrow> string"
  sl_dates :: date_lib
  sl_format :: "int \<Rightarrow> string" \<comment> \<open>RFC 3339\<close>

datatype sel_error = Sel_Config | Sel_Url | Sel_Html | Sel_Selector | Sel_No_Match

definition max_selector_len :: nat where "max_selector_len = 200"
definition default_max_items :: int where "default_max_items = 20"
definition max_max_items :: int where "max_max_items = 50"
definition max_candidates :: nat where "max_candidates = 500"
definition max_seen :: nat where "max_seen = 2000"
definition max_article_retries :: int where "max_article_retries = 3"

definition sel_validate :: "sel_lib \<Rightarrow> sel_config \<Rightarrow> bool" where
  "sel_validate L c \<longleftrightarrow>
     sc_item c \<noteq> []
      \<and> list_all (\<lambda>s. s = [] \<or> (length s \<le> max_selector_len \<and> sl_compile L s \<noteq> None))
          [sc_item c, sc_link c, sc_title c, sc_date c, sc_summary c]
      \<and> 0 \<le> sc_max_items c \<and> sc_max_items c \<le> max_max_items"

definition sel_parse_config :: "sel_lib \<Rightarrow> string \<Rightarrow> sel_config option" where
  "sel_parse_config L raw =
     (if raw = [] then None
      else case sl_dec_config L raw of
        None \<Rightarrow> None
      | Some c \<Rightarrow> if sel_validate L c then Some c else None)"

definition same_host_only :: "sel_config \<Rightarrow> bool" where
  "same_host_only c = (case sc_same_host c of None \<Rightarrow> True | Some b \<Rightarrow> b)"

definition fulltext_enabled :: "sel_config \<Rightarrow> bool" where
  "fulltext_enabled c = (case sc_fulltext c of None \<Rightarrow> True | Some b \<Rightarrow> b)"

definition max_items_effective :: "sel_config \<Rightarrow> int" where
  "max_items_effective c =
     (if sc_max_items c \<le> 0 then default_max_items
      else if max_max_items < sc_max_items c then max_max_items else sc_max_items c)"

definition sel_config_hash :: "page_lib \<Rightarrow> sel_lib \<Rightarrow> sel_config \<Rightarrow> string" where
  "sel_config_hash P L c = pl_sha P (sl_enc_config L c)"

section \<open>State\<close>

definition sel_state_version :: int where "sel_state_version = 1"

definition sel_parse_state :: "sel_lib \<Rightarrow> string \<Rightarrow> sel_state option" where
  "sel_parse_state L raw =
     (if raw = [] then None
      else case sl_dec_state L raw of
        None \<Rightarrow> None
      | Some st \<Rightarrow> if ss_version st = sel_state_version then Some st else None)"

record commit_input =
  ci_candidates :: "string list"
  ci_imported :: "string list"
  ci_failed :: "string list"
  ci_initial :: bool
  ci_truncated :: bool
  ci_config_hash :: string

fun add_seen :: "string list \<Rightarrow> string list \<Rightarrow> string list" where
  \<comment> \<open>the add closure, over a list: seenSet is the set of order\<close>
  "add_seen order [] = order"
| "add_seen order (u # us) = add_seen (if u \<in> set order then order else order @ [u]) us"

fun evict_seen :: "nat \<Rightarrow> string set \<Rightarrow> string list \<Rightarrow> string list" where
  \<comment> \<open>rule 5: drop the first n entries that are not candidates\<close>
  "evict_seen n cands [] = []"
| "evict_seen n cands (u # us) =
     (if 0 < n \<and> u \<notin> cands then evict_seen (n - 1) cands us else u # evict_seen n cands us)"

definition bump :: "(string \<rightharpoonup> int) \<Rightarrow> string \<Rightarrow> (string \<rightharpoonup> int)" where
  "bump m u = m(u \<mapsto> (case m u of None \<Rightarrow> 0 | Some n \<Rightarrow> n) + 1)"

definition next_seen :: "string list \<Rightarrow> commit_input \<Rightarrow> string list" where
  "next_seen prev inp =
     (let order = add_seen (add_seen [] prev) (ci_imported inp);
          order = (if ci_initial inp
                   then add_seen order (filter (\<lambda>u. u \<notin> set (ci_failed inp)) (ci_candidates inp)) else order)
      in if max_seen < length order
         then evict_seen (length order - max_seen) (set (ci_candidates inp)) order else order)"

definition next_pending :: "(string \<rightharpoonup> int) \<Rightarrow> commit_input \<Rightarrow> (string \<rightharpoonup> int)" where
  "next_pending prev inp =
     foldl bump
       (foldl (\<lambda>m u. m(u := None)) (prev |` set (ci_candidates inp)) (ci_imported inp))
       (ci_failed inp)"

definition commit_state :: "sel_lib \<Rightarrow> string \<Rightarrow> commit_input \<Rightarrow> string" where
  "commit_state L prev inp =
     (let (seen, pending) = (case sel_parse_state L prev of
            Some st \<Rightarrow> (ss_seen st, ss_pending st) | None \<Rightarrow> ([], Map.empty))
      in sl_enc_state L
           \<lparr>ss_version = sel_state_version, ss_config_hash = ci_config_hash inp, ss_truncated = ci_truncated inp,
            ss_seen = next_seen seen inp, ss_pending = next_pending pending inp\<rparr>)"

lemma set_add_seen: "set (add_seen order us) = set order \<union> set us"
  by (induction order us rule: add_seen.induct) auto

lemma distinct_add_seen: "distinct order \<Longrightarrow> distinct (add_seen order us)"
  by (induction order us rule: add_seen.induct) auto

lemma length_evict_seen:
  "length (evict_seen n cands us) = length us - min n (length (filter (\<lambda>u. u \<notin> cands) us))"
proof (induction n cands us rule: evict_seen.induct)
  case (2 n cands u us)
  show ?case using 2 by (auto simp: min_def Suc_diff_le dest: le_trans [OF _ length_filter_le])
qed simp

lemma evict_seen_keeps: "u \<in> set us \<Longrightarrow> u \<in> cands \<Longrightarrow> u \<in> set (evict_seen n cands us)"
  by (induction n cands us rule: evict_seen.induct) auto

lemma set_evict_seen: "set (evict_seen n cands us) \<subseteq> set us"
  by (induction n cands us rule: evict_seen.induct) auto

lemma distinct_evict_seen: "distinct us \<Longrightarrow> distinct (evict_seen n cands us)"
proof (induction n cands us rule: evict_seen.induct)
  case (2 n cands u us)
  then show ?case using set_evict_seen [of n cands us] by auto
qed simp

lemma distinct_next_seen: "distinct (next_seen prev inp)"
  by (simp add: next_seen_def Let_def distinct_add_seen distinct_evict_seen)

lemma next_seen_has:
  assumes "u \<in> set prev \<or> u \<in> set (ci_imported inp) \<or> (ci_initial inp \<and> u \<notin> set (ci_failed inp))"
    and "u \<in> set (ci_candidates inp)"
  shows "u \<in> set (next_seen prev inp)"
  using assms by (auto simp: next_seen_def Let_def set_add_seen intro!: evict_seen_keeps)

lemma next_seen_length:
  assumes "length (ci_candidates inp) \<le> max_candidates"
  shows "length (next_seen prev inp) \<le> max_seen"
proof -
  let ?c = "set (ci_candidates inp)"
  have "length (evict_seen (length order - max_seen) ?c order) \<le> max_seen"
    if "distinct order" "max_seen < length order" for order
  proof -
    have "length (filter (\<lambda>u. u \<in> ?c) order) = card (set order \<inter> ?c)"
      using that(1) by (simp add: distinct_length_filter Int_commute)
    also have "\<dots> \<le> card ?c" by (rule card_mono) auto
    also have "\<dots> \<le> max_candidates" using assms card_length le_trans by blast
    finally have "length (filter (\<lambda>u. u \<in> ?c) order) \<le> max_candidates" .
    moreover have "length (filter (\<lambda>u. u \<in> ?c) order) + length (filter (\<lambda>u. u \<notin> ?c) order) = length order"
      by (rule sum_length_filter_compl)
    ultimately have "length order - max_seen \<le> length (filter (\<lambda>u. u \<notin> ?c) order)"
      by (simp add: max_candidates_def max_seen_def)
    then show ?thesis using that(2) by (simp add: length_evict_seen min_def)
  qed
  then show ?thesis by (simp add: next_seen_def Let_def distinct_add_seen)
qed

section \<open>Candidates\<close>

record candidate =
  cd_url :: string
  cd_title :: string
  cd_summary :: string
  cd_date :: "int option"

fun subtree_paths :: "html \<Rightarrow> node_path list"
  and forest_paths :: "nat \<Rightarrow> html list \<Rightarrow> node_path list" where
  \<comment> \<open>the paths below a node, itself first, in document order\<close>
  "subtree_paths (Node t d a cs) = [] # forest_paths 0 cs"
| "forest_paths i [] = []"
| "forest_paths i (c # cs) = map (\<lambda>p. i # p) (subtree_paths c) @ forest_paths (i + 1) cs"

fun at_path :: "html \<Rightarrow> node_path \<Rightarrow> html" where
  "at_path n [] = n"
| "at_path n (i # p) = (if i < length (n_children n) then at_path (n_children n ! i) p else n)"

definition outermost_matches :: "node_path list \<Rightarrow> node_path list" where
  "outermost_matches ps = filter (\<lambda>p. \<not> list_ex (\<lambda>k. take k p \<in> set ps) [0..<length p]) ps"

definition match_or_descendant :: "html \<Rightarrow> node_path \<Rightarrow> css option \<Rightarrow> node_path option" where
  "match_or_descendant doc item sel =
     (case sel of
        None \<Rightarrow> None
      | Some s \<Rightarrow> if css_match s doc item then Some item
                  else (case css_all s doc item of [] \<Rightarrow> None | m # _ \<Rightarrow> Some m))"

definition is_anchor_href :: "html \<Rightarrow> bool" where
  "is_anchor_href n \<longleftrightarrow> is_elem ''a'' n \<and> attr_val n ''href'' \<noteq> []"

definition first_anchor_with_href :: "html \<Rightarrow> node_path \<Rightarrow> node_path option" where
  "first_anchor_with_href doc p =
     find (\<lambda>q. is_anchor_href (at_path doc q)) (map ((@) p) (subtree_paths (at_path doc p)))"

definition node_text :: "page_lib \<Rightarrow> html \<Rightarrow> node_path \<Rightarrow> string" where
  "node_text P doc p = normalize_text (pl_nfkc P) (text_content (at_path doc p))"

definition longest_link_text_anchor :: "page_lib \<Rightarrow> html \<Rightarrow> node_path \<Rightarrow> node_path option" where
  "longest_link_text_anchor P doc p =
     snd (foldl (\<lambda>(best_len, best) q.
            if is_anchor_href (at_path doc q) \<and> best_len < int (rune_count (node_text P doc q))
            then (int (rune_count (node_text P doc q)), Some q) else (best_len, best))
          (- 1, None) (map ((@) p) (subtree_paths (at_path doc p))))"

definition extract_link :: "page_lib \<Rightarrow> html \<Rightarrow> node_path \<Rightarrow> css option \<Rightarrow> (string \<times> node_path) option" where
  "extract_link P doc item link_sel =
     (let href = (\<lambda>q. (attr_val (at_path doc q) ''href'', q)) in
      case link_sel of
        Some s \<Rightarrow>
          (case match_or_descendant doc item (Some s) of
             None \<Rightarrow> None
           | Some el \<Rightarrow>
               if n_data (at_path doc el) = ''a''
               then (if attr_val (at_path doc el) ''href'' \<noteq> [] then Some (href el) else None)
               else map_option href (first_anchor_with_href doc el))
      | None \<Rightarrow>
          if is_elem ''a'' (at_path doc item)
          then (if attr_val (at_path doc item) ''href'' \<noteq> [] then Some (href item) else None)
          else map_option href (longest_link_text_anchor P doc item))"

definition strip_www :: "string \<Rightarrow> string" where
  "strip_www host = (case cut_prefix ''www.'' (lower host) of Some r \<Rightarrow> r | None \<Rightarrow> lower host)"

definition same_host :: "'u url_lib \<Rightarrow> 'u \<Rightarrow> 'u \<Rightarrow> bool" where
  "same_host U a b \<longleftrightarrow> strip_www (ul_hostname U a) = strip_www (ul_hostname U b)"

definition normalize_candidate_url :: "'u url_lib \<Rightarrow> 'u \<Rightarrow> string \<Rightarrow> bool \<Rightarrow> string option" where
  "normalize_candidate_url U base raw same =
     (case ul_parse U (resolve_link U (Some base) raw) of
        None \<Rightarrow> None
      | Some u \<Rightarrow>
          if ul_scheme U u \<noteq> ''http'' \<and> ul_scheme U u \<noteq> ''https'' then None
          else let u = ul_no_fragment U u in
               if same \<and> \<not> same_host U base u then None else Some (ul_string U u))"

definition extract_title :: "page_lib \<Rightarrow> html \<Rightarrow> node_path \<Rightarrow> css option \<Rightarrow> node_path \<Rightarrow> string" where
  "extract_title P doc item title_sel anchor =
     (let by_sel = (case match_or_descendant doc item title_sel of None \<Rightarrow> [] | Some el \<Rightarrow> node_text P doc el) in
      if by_sel \<noteq> [] then by_sel
      else if node_text P doc anchor \<noteq> [] then node_text P doc anchor
      else truncate_runes (node_text P doc item) 120)"

definition extract_date :: "page_lib \<Rightarrow> date_lib \<Rightarrow> html \<Rightarrow> node_path \<Rightarrow> css option \<Rightarrow> int \<Rightarrow> int option" where
  "extract_date P D doc item date_sel now =
     (case match_or_descendant doc item date_sel of
        None \<Rightarrow> None
      | Some el \<Rightarrow>
          let n = at_path doc el;
              attr = (if n_data n = ''time'' then attr_val n ''datetime'' else []);
              raw = (if attr = [] then node_text P doc el else attr)
          in if raw = [] then None else parse_flexible_date D raw now)"

definition extract_summary :: "page_lib \<Rightarrow> html \<Rightarrow> node_path \<Rightarrow> css option \<Rightarrow> string" where
  "extract_summary P doc item sel =
     (case match_or_descendant doc item sel of None \<Rightarrow> [] | Some el \<Rightarrow> node_text P doc el)"

definition compile_optional :: "sel_lib \<Rightarrow> string \<Rightarrow> css option option" where
  \<comment> \<open>the outer None is a compile error\<close>
  "compile_optional L s =
     (if s = [] then Some None else case sl_compile L s of None \<Rightarrow> None | Some c \<Rightarrow> Some (Some c))"

record cand_result =
  cr_cands :: "candidate list"
  cr_matched :: nat
  cr_truncated :: bool
  cr_no_link :: nat
  cr_dups :: nat

record compiled =
  cs_link :: "css option"
  cs_title :: "css option"
  cs_date :: "css option"
  cs_summary :: "css option"

fun cand_loop ::
    "'u url_lib \<Rightarrow> page_lib \<Rightarrow> date_lib \<Rightarrow> html \<Rightarrow> sel_config \<Rightarrow> compiled \<Rightarrow> 'u \<Rightarrow> int \<Rightarrow> string \<Rightarrow> node_path list
      \<Rightarrow> candidate list \<Rightarrow> nat \<Rightarrow> nat \<Rightarrow> candidate list \<times> nat \<times> nat" where
  \<comment> \<open>the loop over the items; seenURLs is the set of URLs of the candidates so far\<close>
  "cand_loop U P D doc cfg cs base now self [] cands no_link dups = (cands, no_link, dups)"
| "cand_loop U P D doc cfg cs base now self (item # items) cands no_link dups =
     (let next = cand_loop U P D doc cfg cs base now self items in
      case extract_link P doc item (cs_link cs) of
        None \<Rightarrow> next cands (no_link + 1) dups
      | Some (href, anchor) \<Rightarrow>
          (case normalize_candidate_url U base href (same_host_only cfg) of
             None \<Rightarrow> next cands no_link dups
           | Some url \<Rightarrow>
               if url = self then next cands no_link dups
               else if url \<in> cd_url ` set cands then next cands no_link (dups + 1)
               else next (cands @ [\<lparr>cd_url = url, cd_title = extract_title P doc item (cs_title cs) anchor,
                                   cd_summary = extract_summary P doc item (cs_summary cs),
                                   cd_date = extract_date P D doc item (cs_date cs) now\<rparr>]) no_link dups))"

definition extract_candidates ::
    "'u url_lib \<Rightarrow> page_lib \<Rightarrow> sel_lib \<Rightarrow> html \<Rightarrow> sel_config \<Rightarrow> 'u \<Rightarrow> int \<Rightarrow> sel_error + cand_result" where
  "extract_candidates U P L doc cfg base now =
     (case (sl_compile L (sc_item cfg), compile_optional L (sc_link cfg), compile_optional L (sc_title cfg),
            compile_optional L (sc_date cfg), compile_optional L (sc_summary cfg)) of
        (Some item_sel, Some link_sel, Some title_sel, Some date_sel, Some summary_sel) \<Rightarrow>
          let nodes = outermost_matches (css_all item_sel doc []) in
          if nodes = [] then Inr \<lparr>cr_cands = [], cr_matched = 0, cr_truncated = False, cr_no_link = 0, cr_dups = 0\<rparr>
          else
            let self = (case normalize_candidate_url U base (ul_string U base) False of None \<Rightarrow> [] | Some s \<Rightarrow> s);
                (cands, no_link, dups) = cand_loop U P (sl_dates L) doc cfg
                   \<lparr>cs_link = link_sel, cs_title = title_sel, cs_date = date_sel, cs_summary = summary_sel\<rparr>
                   base now self (take max_candidates nodes) [] 0 0
            in Inr \<lparr>cr_cands = cands, cr_matched = length nodes, cr_truncated = max_candidates < length nodes,
                    cr_no_link = no_link, cr_dups = dups\<rparr>
      | _ \<Rightarrow> Inl Sel_Selector)"

definition candidate_item :: "candidate \<Rightarrow> feed_item" where
  "candidate_item c =
     \<lparr>fi_title = cd_title c, fi_link = cd_url c, fi_guid = cd_url c, fi_content = cd_summary c,
      fi_description = [], fi_author = None, fi_published = cd_date c, fi_updated = None\<rparr>"

definition sel_extract ::
    "'u url_lib \<Rightarrow> page_lib \<Rightarrow> sel_lib \<Rightarrow> string \<Rightarrow> string \<Rightarrow> int \<Rightarrow> string \<Rightarrow> string
      \<Rightarrow> sel_error + feed_doc \<times> string option" where
  "sel_extract U P L url page now config state =
     (case sel_parse_config L config of
        None \<Rightarrow> Inl Sel_Config
      | Some cfg \<Rightarrow>
        case ul_parse U url of
          None \<Rightarrow> Inl Sel_Url
        | Some base \<Rightarrow>
          case pl_parse P page of
            None \<Rightarrow> Inl Sel_Html
          | Some doc \<Rightarrow>
            case extract_candidates U P L doc cfg base now of
              Inl e \<Rightarrow> Inl e
            | Inr r \<Rightarrow>
              if cr_matched r = 0 then Inl Sel_No_Match
              else
                let title = display_title U (page_title (normalize_text (pl_nfkc P)) doc) url;
                    prev = sel_parse_state L state
                in if state \<noteq> [] \<and> prev = None then
                     Inr (\<lparr>doc_title = title, doc_link = url, doc_items = []\<rparr>,
                          Some (sl_enc_state L
                            \<lparr>ss_version = sel_state_version, ss_config_hash = sel_config_hash P L cfg,
                             ss_truncated = cr_truncated r, ss_seen = take max_seen (map cd_url (cr_cands r)),
                             ss_pending = Map.empty\<rparr>))
                   else
                     let seen = (case prev of Some st \<Rightarrow> set (ss_seen st) | None \<Rightarrow> {}) in
                     Inr (\<lparr>doc_title = title, doc_link = url,
                           doc_items = map candidate_item (filter (\<lambda>c. cd_url c \<notin> seen) (cr_cands r))\<rparr>, None))"

definition sel_preview ::
    "'u url_lib \<Rightarrow> page_lib \<Rightarrow> sel_lib \<Rightarrow> string \<Rightarrow> string \<Rightarrow> sel_config \<Rightarrow> int \<Rightarrow> string set
      \<Rightarrow> sel_error + (string \<times> string \<times> string \<times> string \<times> bool) list \<times> cand_result" where
  "sel_preview U P L url page cfg now seen =
     (case ul_parse U url of
        None \<Rightarrow> Inl Sel_Url
      | Some base \<Rightarrow>
        case pl_parse P page of
          None \<Rightarrow> Inl Sel_Html
        | Some doc \<Rightarrow>
          case extract_candidates U P L doc cfg base now of
            Inl e \<Rightarrow> Inl e
          | Inr r \<Rightarrow>
              Inr (map (\<lambda>c. (cd_url c, cd_title c,
                     (case cd_date c of None \<Rightarrow> [] | Some t \<Rightarrow> sl_format L t), cd_summary c, cd_url c \<in> seen))
                     (cr_cands r), r))"

section \<open>What the candidates and the state promise\<close>

lemma cand_loop_distinct:
  "cand_loop U P D doc cfg cs base now self items cands n m = (out, n', m') \<Longrightarrow> distinct (map cd_url cands)
   \<Longrightarrow> distinct (map cd_url out) \<and> length out \<le> length cands + length items
      \<and> (self \<notin> cd_url ` set cands \<longrightarrow> self \<notin> cd_url ` set out)"
proof (induction items arbitrary: cands n m)
  case (Cons item items)
  show ?case
  proof (cases "extract_link P doc item (cs_link cs)")
    case None
    then show ?thesis using Cons.IH [of cands "n + 1" m] Cons.prems by simp
  next
    case (Some ha)
    obtain href anchor where ha: "ha = (href, anchor)" by (rule prod.exhaust)
    show ?thesis
    proof (cases "normalize_candidate_url U base href (same_host_only cfg)")
      case None
      then show ?thesis using Cons.IH [of cands n m] Cons.prems Some ha by simp
    next
      case url: (Some url)
      define c where "c = \<lparr>cd_url = url, cd_title = extract_title P doc item (cs_title cs) anchor,
         cd_summary = extract_summary P doc item (cs_summary cs), cd_date = extract_date P D doc item (cs_date cs) now\<rparr>"
      show ?thesis
        using Cons.IH [of cands n m] Cons.IH [of cands n "m + 1"] Cons.IH [of "cands @ [c]" n m] Cons.prems Some ha url
        by (auto simp: c_def [symmetric] Let_def split: if_splits) (auto simp: c_def)
    qed
  qed
qed simp

lemma extract_candidates_distinct:
  assumes "extract_candidates U P L doc cfg base now = Inr r"
  shows "distinct (map cd_url (cr_cands r)) \<and> length (cr_cands r) \<le> max_candidates"
proof -
  have "distinct (map cd_url out) \<and> length out \<le> length items"
    if "cand_loop U P D doc cfg cs base now self items [] 0 0 = (out, n', m')" for D cs self items out n' m'
    using cand_loop_distinct [OF that] by simp
  then show ?thesis using assms unfolding extract_candidates_def
    by (fastforce simp: Let_def split: option.splits if_splits prod.splits)
qed

lemma commit_state_parses:
  assumes "\<And>s. sl_enc_state L s = raw \<Longrightarrow> sl_dec_state L raw = Some s" "raw \<noteq> []" "raw = commit_state L prev inp"
  shows "\<exists>st seen. sel_parse_state L raw = Some st \<and> ss_seen st = next_seen seen inp"
proof -
  obtain seen pending where sp: "(case sel_parse_state L prev of
      Some st \<Rightarrow> (ss_seen st, ss_pending st) | None \<Rightarrow> ([], Map.empty)) = (seen, pending)" by (rule prod.exhaust)
  define st where "st = \<lparr>ss_version = sel_state_version, ss_config_hash = ci_config_hash inp,
    ss_truncated = ci_truncated inp, ss_seen = next_seen seen inp, ss_pending = next_pending pending inp\<rparr>"
  have "raw = sl_enc_state L st" using assms(3) sp by (simp add: commit_state_def st_def)
  then have "sl_dec_state L raw = Some st" using assms(1) by simp
  then show ?thesis using assms(2) by (simp add: sel_parse_state_def st_def) blast
qed


text \<open>
  The history stays bounded: with at most 500 candidates (extraction never returns more, nor two
  with the same URL) the committed list has at most 2000 URLs, all different, and among them every
  candidate that was there or was imported.
\<close>

theorem history_bounded:
  assumes "extract_candidates U P L doc cfg base now = Inr r" "set (ci_candidates inp) \<subseteq> cd_url ` set (cr_cands r)"
    and "distinct (ci_candidates inp)"
  shows "length (ci_candidates inp) \<le> max_candidates \<and> length (next_seen prev inp) \<le> max_seen \<and> distinct (next_seen prev inp)
    \<and> set (ci_candidates inp) \<inter> (set prev \<union> set (ci_imported inp)) \<subseteq> set (next_seen prev inp)"
proof -
  have r: "length (cr_cands r) \<le> max_candidates" using extract_candidates_distinct [OF assms(1)] by simp
  have "length (ci_candidates inp) = card (set (ci_candidates inp))" using assms(3) by (simp add: distinct_card)
  also have "\<dots> \<le> card (cd_url ` set (cr_cands r))" by (rule card_mono) (use assms(2) in auto)
  also have "\<dots> \<le> length (cr_cands r)" by (metis card_length length_map list.set_map)
  finally have "length (ci_candidates inp) \<le> max_candidates" using r by simp
  then show ?thesis using next_seen_length distinct_next_seen next_seen_has by blast
qed

definition sample_link :: "string \<Rightarrow> html" where
  "sample_link u = Node Element_Node ''a'' [(''href'', u)] [Node Text_Node ''t'' [] []]"

definition sample_listing :: html where
  "sample_listing = sample_page [sample_link ''http://h/1'', sample_link ''http://h/2'']"

definition sample_css :: css where
  \<comment> \<open>the selector a\<close>
  "sample_css =
     \<lparr>css_match = (\<lambda>doc p. is_elem ''a'' (at_path doc p)),
      css_all = (\<lambda>doc p. filter (\<lambda>q. is_elem ''a'' (at_path doc q)) (map ((@) p) (subtree_paths (at_path doc p))))\<rparr>"

definition sample_sel_config :: sel_config where
  "sample_sel_config =
     \<lparr>sc_item = ''a'', sc_link = [], sc_title = [], sc_date = [], sc_summary = [], sc_same_host = None,
      sc_fulltext = Some False, sc_max_items = 1\<rparr>"

definition sample_sel_state :: sel_state where
  "sample_sel_state =
     \<lparr>ss_version = 1, ss_config_hash = [], ss_truncated = False, ss_seen = [''http://h/1''], ss_pending = Map.empty\<rparr>"

definition sample_sel :: sel_lib where
  "sample_sel =
     \<lparr>sl_compile = (\<lambda>s. if s = ''a'' then Some sample_css else None),
      sl_dec_config = (\<lambda>_. Some sample_sel_config), sl_enc_config = (\<lambda>_. []),
      sl_dec_state = (\<lambda>r. if r = ''S'' then Some sample_sel_state else None),
      sl_enc_state = (\<lambda>s. ''?''),
      sl_dates = \<lparr>dl_rfc3339 = (\<lambda>_. None), dl_ymd = (\<lambda>_. None), dl_utc = (\<lambda>_ _ _. 0)\<rparr>,
      sl_format = (\<lambda>_. [])\<rparr>"

definition sample_listing_lib :: page_lib where
  "sample_listing_lib = sample_pages\<lparr>pl_parse := (\<lambda>_. Some sample_listing)\<rparr>"

definition sample_cands :: cand_result where
  "sample_cands =
     \<lparr>cr_cands = [\<lparr>cd_url = ''http://h/1'', cd_title = ''t'', cd_summary = [], cd_date = None\<rparr>,
                  \<lparr>cd_url = ''http://h/2'', cd_title = ''t'', cd_summary = [], cd_date = None\<rparr>],
      cr_matched = 2, cr_truncated = False, cr_no_link = 0, cr_dups = 0\<rparr>"

definition sample_cs :: compiled where
  "sample_cs = \<lparr>cs_link = None, cs_title = None, cs_date = None, cs_summary = None\<rparr>"

lemma sample_cand_loop:
  "cand_loop sample_urls sample_listing_lib (sl_dates sample_sel) sample_listing sample_sel_config sample_cs
     ''http://h/'' 0 ''http://h/'' (outermost_matches (css_all sample_css sample_listing [])) [] 0 0
   = (cr_cands sample_cands, 0, 0)"
  "length (outermost_matches (css_all sample_css sample_listing [])) = 2"
  "normalize_candidate_url sample_urls ''http://h/'' ''http://h/'' False = Some ''http://h/''"
  by code_simp+

lemma sample_extract_candidates:
  "extract_candidates sample_urls sample_listing_lib sample_sel sample_listing sample_sel_config ''http://h/'' 0
   = Inr sample_cands"
proof -
  let ?nodes = "outermost_matches (css_all sample_css sample_listing [])"
  have nodes: "?nodes \<noteq> []" "take max_candidates ?nodes = ?nodes"
    using sample_cand_loop(2) by (auto simp: max_candidates_def)
  have lib: "sl_compile sample_sel (sc_item sample_sel_config) = Some sample_css"
    "compile_optional sample_sel (sc_link sample_sel_config) = Some None"
    "compile_optional sample_sel (sc_title sample_sel_config) = Some None"
    "compile_optional sample_sel (sc_date sample_sel_config) = Some None"
    "compile_optional sample_sel (sc_summary sample_sel_config) = Some None"
    "ul_string sample_urls u = u" for u
    by (simp_all add: sample_sel_def sample_sel_config_def compile_optional_def sample_urls_def)
  show ?thesis
    unfolding extract_candidates_def lib
    using nodes sample_cand_loop by (simp add: sample_cs_def sample_cands_def max_candidates_def)
qed

definition sample_sel_io :: sel_lib where
  \<comment> \<open>with an encoding that can be inverted at the state of interest\<close>
  "sample_sel_io = sample_sel\<lparr>sl_enc_state := (\<lambda>s. if s = sample_sel_state then ''S'' else ''?'')\<rparr>"

definition sample_commit :: commit_input where
  "sample_commit =
     \<lparr>ci_candidates = [''http://h/1'', ''http://h/2''], ci_imported = [''http://h/1''], ci_failed = [],
      ci_initial = False, ci_truncated = False, ci_config_hash = []\<rparr>"


theorem history_bounded_witness:
  "length (next_seen [''http://h/0''] sample_commit) \<le> max_seen \<and> distinct (next_seen [''http://h/0''] sample_commit)"
proof -
  have "set (ci_candidates sample_commit) \<subseteq> cd_url ` set (cr_cands sample_cands)" "distinct (ci_candidates sample_commit)"
    by (simp_all add: sample_commit_def sample_cands_def)
  from history_bounded [OF sample_extract_candidates this, of "[''http://h/0'']"] show ?thesis by (elim conjE) (intro conjI)
qed

end
