(* ===== verification/Boilerplate.thy ===== *)
theory Boilerplate
  imports Html
begin

text \<open>
  \<open>internal/fulltext/boilerplate\<close>: which subtrees of a feed's article pages repeat from page to
  page, and cutting them out before extraction. The counters of a feed are an association list with
  distinct keys (the code's map; nothing the code does depends on its iteration order). The hash of
  a signature (the first eight bytes of SHA-256, in hexadecimal), NFKC and JSON are arguments.
\<close>

section \<open>State\<close>

record bp_state =
  bp_pages :: int
  bp_counts :: "(string \<times> int \<times> int) list" \<comment> \<open>signature, count, last page seen on\<close>

record bp_json =
  bj_version :: int
  bj_pages :: int
  bj_counts :: "(string \<times> int \<times> int) list"

definition bp_version :: int where "bp_version = 1"
definition min_signature_len :: nat where "min_signature_len = 32"
definition max_candidate_depth :: nat where "max_candidate_depth = 10"
definition max_signatures :: nat where "max_signatures = 2000"
definition decay_pages :: int where "decay_pages = 64"
definition min_pages :: int where "min_pages = 2"

definition bp_empty :: bp_state where
  "bp_empty = \<lparr>bp_pages = 0, bp_counts = []\<rparr>"

definition bp_parse :: "(string \<Rightarrow> bp_json option) \<Rightarrow> string \<Rightarrow> bp_state" where
  "bp_parse dec raw =
     (if raw = [] then bp_empty
      else case dec raw of
        None \<Rightarrow> bp_empty
      | Some j \<Rightarrow>
          if bj_version j \<noteq> bp_version then bp_empty
          else \<lparr>bp_pages = bj_pages j, bp_counts = filter (\<lambda>(sig, c, l). 0 < c) (bj_counts j)\<rparr>)"

definition bp_marshal :: "(bp_json \<Rightarrow> string) \<Rightarrow> bp_state \<Rightarrow> string" where
  "bp_marshal enc s = enc \<lparr>bj_version = bp_version, bj_pages = bp_pages s, bj_counts = bp_counts s\<rparr>"

definition is_boilerplate :: "bp_state \<Rightarrow> string \<Rightarrow> bool" where
  "is_boilerplate s sig =
     (case map_of (bp_counts s) sig of
        None \<Rightarrow> False
      | Some (c, l) \<Rightarrow> min_pages \<le> c \<and> bp_pages s \<le> c * 2)"

definition evict_key :: "string \<times> int \<times> int \<Rightarrow> int \<times> int \<times> string" where
  "evict_key e = (case e of (sig, c, l) \<Rightarrow> (c, l, sig))"

definition evict_to :: "nat \<Rightarrow> bp_state \<Rightarrow> bp_state" where
  "evict_to limit s =
     (if length (bp_counts s) \<le> limit then s
      else s\<lparr>bp_counts := filter (\<lambda>e. e \<notin> set (take (length (bp_counts s) - limit) (sort_key evict_key (bp_counts s))))
               (bp_counts s)\<rparr>)"

definition decay :: "bp_state \<Rightarrow> bp_state" where
  \<comment> \<open>counts are positive, so the division is Go's\<close>
  "decay s =
     \<lparr>bp_pages = bp_pages s div 2,
      bp_counts = filter (\<lambda>(sig, c, l). c \<noteq> 0) (map (\<lambda>(sig, c, l). (sig, c div 2, l)) (bp_counts s))\<rparr>"

definition see :: "int \<Rightarrow> (string \<times> int \<times> int) list \<Rightarrow> string \<Rightarrow> (string \<times> int \<times> int) list" where
  "see page cs sig =
     (if sig \<in> fst ` set cs then map (\<lambda>(k, c, l). if k = sig then (k, c + 1, page) else (k, c, l)) cs
      else cs @ [(sig, 1, page)])"

definition observe :: "bp_state \<Rightarrow> string list \<Rightarrow> bp_state" where
  "observe s sigs =
     (let page = bp_pages s + 1;
          s1 = \<lparr>bp_pages = page, bp_counts = foldl (see page) (bp_counts s) sigs\<rparr>
      in evict_to max_signatures (if decay_pages \<le> page then decay s1 else s1))"

section \<open>Signatures\<close>

record digest =
  dg_sig :: string
  dg_text :: nat
  dg_link :: nat

fun digest_of :: "(string \<Rightarrow> string) \<Rightarrow> (string \<Rightarrow> string) \<Rightarrow> html \<Rightarrow> digest" where
  "digest_of nfkc hash (Node t d a cs) =
     (if t = Text_Node then
        (let text = normalize_text nfkc d in \<lparr>dg_sig = hash text, dg_text = rune_count text, dg_link = 0\<rparr>)
      else
        let ds = map (digest_of nfkc hash) cs;
            attrs = sort (map (\<lambda>(k, v). k @ ''='' @ v) a);
            head = (if t = Element_Node
                    then d @ [CHR 0x00] @ (case attrs of [] \<Rightarrow> [] | x # xs \<Rightarrow> x @ concat (map ((#) (CHR 0x00)) xs)) else []);
            text = sum_list (map dg_text ds);
            link = (if t = Element_Node \<and> d = ''a'' then text else sum_list (map dg_link ds))
        in \<lparr>dg_sig = hash (head @ concat (map (\<lambda>x. CHR 0x00 # dg_sig x) ds)), dg_text = text, dg_link = link\<rparr>)"

definition is_candidate :: "digest \<Rightarrow> nat \<Rightarrow> bool" where
  "is_candidate d depth \<longleftrightarrow> depth \<le> max_candidate_depth \<and> min_signature_len \<le> dg_text d"

definition is_chrome_shaped :: "digest \<Rightarrow> bool" where
  "is_chrome_shaped d \<longleftrightarrow> dg_text d = 0 \<or> dg_text d \<le> dg_link d * 2"

section \<open>Cutting a page\<close>

definition record_sig :: "string \<Rightarrow> string list \<Rightarrow> string list" where
  "record_sig sig sigs = (if sig \<in> set sigs then sigs else sigs @ [sig])"

definition skipped :: "html \<Rightarrow> bool" where
  "skipped n \<longleftrightarrow> n_type n \<noteq> Element_Node \<or> n_data n = ''head''"

definition is_cand :: "(html \<Rightarrow> digest) \<Rightarrow> nat \<Rightarrow> html \<Rightarrow> bool" where
  "is_cand dig depth n \<longleftrightarrow> n_data n \<noteq> ''html'' \<and> n_data n \<noteq> ''body'' \<and> is_candidate (dig n) depth"

definition note_sig :: "(html \<Rightarrow> digest) \<Rightarrow> nat \<Rightarrow> html \<Rightarrow> string list \<Rightarrow> string list" where
  "note_sig dig depth n sigs = (if is_cand dig depth n then record_sig (dg_sig (dig n)) sigs else sigs)"

definition is_chrome :: "(html \<Rightarrow> digest) \<Rightarrow> bp_state \<Rightarrow> nat \<Rightarrow> html \<Rightarrow> bool" where
  "is_chrome dig s depth n \<longleftrightarrow>
     is_cand dig depth n \<and> is_boilerplate s (dg_sig (dig n)) \<and> is_chrome_shaped (dig n)"

fun strip_node :: "(html \<Rightarrow> digest) \<Rightarrow> bp_state \<Rightarrow> nat \<Rightarrow> html \<Rightarrow> string list \<Rightarrow> html list \<times> nat \<times> string list"
  and strip_nodes :: "(html \<Rightarrow> digest) \<Rightarrow> bp_state \<Rightarrow> nat \<Rightarrow> html list \<Rightarrow> string list \<Rightarrow> html list \<times> nat \<times> string list" where
  \<comment> \<open>one child of the walk: what is left of it (no node or one), how many nodes went, the signatures\<close>
  "strip_node dig s depth (Node t d a cs) sigs =
     (if skipped (Node t d a cs) then ([Node t d a cs], 0, sigs)
      else if is_chrome dig s depth (Node t d a cs)
        then ([], 1, note_sig dig depth (Node t d a cs) sigs)
      else (case strip_nodes dig s (depth + 1) cs (note_sig dig depth (Node t d a cs) sigs) of
              (cs', n, sigs') \<Rightarrow> ([Node t d a cs'], n, sigs')))"
| "strip_nodes dig s depth [] sigs = ([], 0, sigs)"
| "strip_nodes dig s depth (c # cs) sigs =
     (case strip_node dig s depth c sigs of
        (c', n, sigs1) \<Rightarrow>
          (case strip_nodes dig s depth cs sigs1 of (cs', m, sigs2) \<Rightarrow> (c' @ cs', n + m, sigs2)))"

definition bp_apply :: "(html \<Rightarrow> digest) \<Rightarrow> bp_state \<Rightarrow> html \<Rightarrow> html \<times> nat \<times> string list" where
  "bp_apply dig s doc =
     (let (cs, n, sigs) = strip_nodes dig s 0 (n_children doc) []
      in (Node (n_type doc) (n_data doc) (n_attr doc) cs, n, sigs))"

section \<open>The counters stay in order\<close>

definition bp_ok :: "bp_state \<Rightarrow> bool" where
  "bp_ok s \<longleftrightarrow>
     0 \<le> bp_pages s \<and> bp_pages s < decay_pages \<and> distinct (map fst (bp_counts s))
      \<and> length (bp_counts s) \<le> max_signatures
      \<and> (\<forall>(sig, c, l) \<in> set (bp_counts s). 0 < c \<and> c \<le> bp_pages s)"

lemma keys_see: "map fst (see page cs sig) = (if sig \<in> fst ` set cs then map fst cs else map fst cs @ [sig])"
  by (auto simp: see_def o_def split: prod.split)

lemma distinct_see: "distinct (map fst cs) \<Longrightarrow> distinct (map fst (see page cs sig))"
  by (auto simp: keys_see)

lemma distinct_see_all: "distinct (map fst cs) \<Longrightarrow> distinct (map fst (foldl (see page) cs sigs))"
  by (induction sigs arbitrary: cs) (simp_all add: distinct_see)

definition seen_count :: "(string \<times> int \<times> int) list \<Rightarrow> string \<Rightarrow> int" where
  "seen_count cs sig = (case map_of cs sig of None \<Rightarrow> 0 | Some (c, l) \<Rightarrow> c)"

lemma map_of_see:
  "map_of (see page cs sig) k =
     (if k = sig then Some (seen_count cs sig + 1, page) else map_of cs k)"
proof -
  have "map_of (map (\<lambda>(k, c, l). if k = sig then (k, c + 1, page) else (k, c, l)) cs) k =
      (if k = sig then map_option (\<lambda>(c, l). (c + 1, page)) (map_of cs k) else map_of cs k)"
    for cs :: "(string \<times> int \<times> int) list"
    by (induction cs) auto
  moreover have "sig \<in> fst ` set cs \<longleftrightarrow> map_of cs sig \<noteq> None" by (metis map_of_eq_None_iff)
  ultimately show ?thesis
    by (auto simp: see_def seen_count_def map_add_def split: option.splits)
qed

lemma seen_count_see: "seen_count (see page cs sig) k = seen_count cs k + of_bool (k = sig)"
  by (simp add: seen_count_def map_of_see)

lemma seen_count_see_all:
  "distinct sigs \<Longrightarrow> seen_count (foldl (see page) cs sigs) k = seen_count cs k + of_bool (k \<in> set sigs)"
  by (induction sigs arbitrary: cs) (auto simp: seen_count_see)

lemma seen_count_entry:
  "distinct (map fst cs) \<Longrightarrow> (k, c, l) \<in> set cs \<Longrightarrow> seen_count cs k = c"
  by (simp add: seen_count_def)

lemma length_filter_drop:
  assumes "distinct xs" "n \<le> length xs"
  shows "length (filter (\<lambda>x. x \<notin> set (take n (sort_key f xs))) xs) = length xs - n"
proof -
  have d: "distinct (sort_key f xs)" "set (sort_key f xs) = set xs" using assms(1) by simp_all
  have "length (filter (\<lambda>x. x \<notin> set (take n (sort_key f xs))) xs) = card (set xs - set (take n (sort_key f xs)))"
    using assms(1) by (simp add: distinct_length_filter Int_def set_diff_eq conj_commute)
  also have "\<dots> = card (set xs) - card (set (take n (sort_key f xs)))"
    by (rule card_Diff_subset) (use set_take_subset [of n "sort_key f xs"] d in auto)
  also have "\<dots> = length xs - n"
    using assms d by (simp add: distinct_card)
  finally show ?thesis .
qed

lemma evict_to_ok:
  assumes "distinct (map fst (bp_counts s))"
  shows "length (bp_counts (evict_to limit s)) \<le> limit" "set (bp_counts (evict_to limit s)) \<subseteq> set (bp_counts s)"
    "distinct (map fst (bp_counts (evict_to limit s)))" "bp_pages (evict_to limit s) = bp_pages s"
proof -
  have "distinct (bp_counts s)" using assms distinct_map by blast
  then show "length (bp_counts (evict_to limit s)) \<le> limit"
    by (simp add: evict_to_def length_filter_drop)
qed (use assms in \<open>auto simp: evict_to_def distinct_map_filter\<close>)

lemma decay_ok:
  assumes "distinct (map fst (bp_counts s))"
  shows "distinct (map fst (bp_counts (decay s)))" "bp_pages (decay s) = bp_pages s div 2"
    "\<And>sig c l. (sig, c, l) \<in> set (bp_counts (decay s)) \<Longrightarrow> \<exists>c0. (sig, c0, l) \<in> set (bp_counts s) \<and> c = c0 div 2 \<and> c \<noteq> 0"
proof -
  have "map fst (map (\<lambda>(sig, c, l). (sig, c div 2, l)) cs) = map fst cs" for cs :: "(string \<times> int \<times> int) list"
    by auto
  then show "distinct (map fst (bp_counts (decay s)))"
    unfolding decay_def using assms by (simp only: bp_state.simps) (metis distinct_map_filter)
qed (auto simp: decay_def)

lemma see_counts:
  assumes "distinct (map fst cs)" "distinct sigs" "(k, c, l) \<in> set (foldl (see page) cs sigs)"
  shows "c = seen_count cs k + of_bool (k \<in> set sigs)"
  using seen_count_entry [OF distinct_see_all [OF assms(1)] assms(3)] seen_count_see_all [OF assms(2)] by simp

lemma see_lasts:
  "(k, c, l) \<in> set (foldl (see page) cs sigs) \<Longrightarrow> k \<in> set sigs \<or> (k, c, l) \<in> set cs"
proof (induction sigs arbitrary: cs)
  case (Cons x sigs)
  have "(k, c, l) \<in> set (see page cs x) \<Longrightarrow> k = x \<or> (k, c, l) \<in> set cs"
    by (auto simp: see_def split: if_splits)
  then show ?case using Cons by auto
qed simp

lemma observe_counts:
  assumes ok: "bp_ok s" and sigs: "distinct sigs"
  defines "page \<equiv> bp_pages s + 1" and "cs \<equiv> foldl (see (bp_pages s + 1)) (bp_counts s) sigs"
  shows "distinct (map fst cs)" "(k, c, l) \<in> set cs \<Longrightarrow> 0 < c \<and> c \<le> page \<and> (c = page \<longrightarrow> k \<in> set sigs)"
proof -
  have d: "distinct (map fst (bp_counts s))" using ok by (simp add: bp_ok_def)
  then show "distinct (map fst cs)" unfolding cs_def by (rule distinct_see_all)
  assume k: "(k, c, l) \<in> set cs"
  have c: "c = seen_count (bp_counts s) k + of_bool (k \<in> set sigs)" using see_counts [OF d sigs] k unfolding cs_def by blast
  have "0 \<le> seen_count (bp_counts s) k \<and> seen_count (bp_counts s) k \<le> bp_pages s"
    using ok by (auto simp: seen_count_def bp_ok_def split: option.splits dest!: map_of_SomeD)
  moreover have "0 < seen_count (bp_counts s) k" if "k \<notin> set sigs"
  proof -
    have "(k, c, l) \<in> set (bp_counts s)" using see_lasts k that unfolding cs_def by blast
    then show ?thesis using ok seen_count_entry [OF d] by (auto simp: bp_ok_def)
  qed
  ultimately show "0 < c \<and> c \<le> page \<and> (c = page \<longrightarrow> k \<in> set sigs)" using c by (auto simp: page_def)
qed

lemma observe_ok:
  assumes "bp_ok s" "distinct sigs"
  shows "bp_ok (observe s sigs)"
proof -
  let ?page = "bp_pages s + 1"
  let ?s1 = "\<lparr>bp_pages = ?page, bp_counts = foldl (see ?page) (bp_counts s) sigs\<rparr>"
  let ?s2 = "if decay_pages \<le> ?page then decay ?s1 else ?s1"
  note cs = observe_counts [OF assms]
  have page: "0 \<le> bp_pages s" "bp_pages s < decay_pages" using assms(1) by (simp_all add: bp_ok_def)
  have s2: "distinct (map fst (bp_counts ?s2))" "0 \<le> bp_pages ?s2" "bp_pages ?s2 < decay_pages"
    using cs(1) decay_ok(1,2) [of ?s1] page by (auto simp: decay_pages_def)
  have "0 < c \<and> c \<le> bp_pages ?s2" if e: "(k, c, l) \<in> set (bp_counts ?s2)" for k c l
  proof (cases "decay_pages \<le> ?page")
    case True
    then obtain c0 where "(k, c0, l) \<in> set (bp_counts ?s1)" "c = c0 div 2" "c \<noteq> 0"
      using decay_ok(3) [of ?s1 k c l] cs(1) e by auto
    then show ?thesis using cs(2) [of k c0 l] True by (auto simp: decay_def intro: zdiv_mono1)
  next
    case False
    then show ?thesis using cs(2) e by simp
  qed
  moreover have "observe s sigs = evict_to max_signatures ?s2" by (simp add: observe_def Let_def)
  ultimately show ?thesis
    using s2 evict_to_ok [OF s2(1), of max_signatures] unfolding bp_ok_def by auto
qed

lemma strip_node_sigs:
  "distinct sigs \<Longrightarrow> distinct (snd (snd (strip_node dig s depth n sigs)))"
  "distinct sigs \<Longrightarrow> distinct (snd (snd (strip_nodes dig s depth ns sigs)))"
proof (induction dig s depth n sigs and dig s depth ns sigs rule: strip_node_strip_nodes.induct)
  case (1 dig s depth t d a cs sigs)
  have "distinct (note_sig dig depth (Node t d a cs) sigs)"
    using 1(2) by (simp add: note_sig_def record_sig_def)
  then show ?case using 1 by (auto split: prod.split)
next
  case (3 dig s depth c cs sigs)
  obtain c' n sigs1 where c: "strip_node dig s depth c sigs = (c', n, sigs1)" by (rule prod_cases3)
  obtain cs' m sigs2 where cs: "strip_nodes dig s depth cs sigs1 = (cs', m, sigs2)" by (rule prod_cases3)
  have "distinct sigs1" using 3(1) [OF 3(3)] c by simp
  then have "distinct sigs2" using 3(2) [OF c [symmetric] refl] cs by simp
  then show ?case by (simp add: c cs)
qed simp

lemma bp_apply_sigs: "bp_apply dig s doc = (doc', n, sigs) \<Longrightarrow> distinct sigs"
  using strip_node_sigs(2) [of "[]" dig s 0 "n_children doc"] by (auto simp: bp_apply_def split: prod.splits)

definition learn :: "(html \<Rightarrow> digest) \<Rightarrow> bp_state \<Rightarrow> html \<Rightarrow> bp_state" where
  \<comment> \<open>one page: Apply, then Observe\<close>
  "learn dig s doc = observe s (snd (snd (bp_apply dig s doc)))"

interpretation counters: invariant_machine "learn dig" bp_ok for dig
  unfolding learn_def by unfold_locales (rule observe_ok, assumption, metis bp_apply_sigs prod.collapse)

text \<open>
  Whatever pages a feed serves, its counters stay in order: fewer than 64 pages, at most 2000
  signatures, each once, counted at least once and at most once per page.
\<close>

theorem counters_in_order: "bp_ok (foldl (learn dig) bp_empty pages)"
  by (rule counters.run_inv) (simp add: bp_ok_def bp_empty_def decay_pages_def)

section \<open>Chrome is learned and kept\<close>

lemma not_evicted:
  assumes "distinct (map fst (bp_counts s))" "e \<in> set (bp_counts s)"
    "card {x \<in> set (bp_counts s). evict_key e \<le> evict_key x} \<le> limit"
  shows "e \<in> set (bp_counts (evict_to limit s))"
proof (rule ccontr)
  let ?xs = "bp_counts s" and ?ys = "sort_key evict_key (bp_counts s)"
  assume gone: "e \<notin> set (bp_counts (evict_to limit s))"
  then have long: "limit < length ?xs" and "e \<in> set (take (length ?xs - limit) ?ys)"
    using assms(2) by (auto simp: evict_to_def split: if_splits)
  then obtain i where i: "i < length ?xs - limit" "e = ?ys ! i"
    by (auto simp: in_set_conv_nth)
  have "set (drop i ?ys) \<subseteq> {x \<in> set ?xs. evict_key e \<le> evict_key x}"
  proof
    fix x assume x: "x \<in> set (drop i ?ys)"
    then obtain j where j: "j < length (drop i ?ys)" "drop i ?ys ! j = x"
      unfolding in_set_conv_nth by blast
    then have "evict_key (?ys ! i) \<le> evict_key x"
      using sorted_sort_key [of evict_key ?xs] sorted_nth_mono [of "map evict_key ?ys" i "i + j"] by auto
    then show "x \<in> {x \<in> set ?xs. evict_key e \<le> evict_key x}"
      using in_set_dropD [OF x] i(2) by simp
  qed
  then have "card (set (drop i ?ys)) \<le> limit"
    using assms(3) card_mono [of "{x \<in> set ?xs. evict_key e \<le> evict_key x}" "set (drop i ?ys)"] by simp
  moreover have "distinct ?ys" using assms(1) distinct_map by auto
  then have "card (set (drop i ?ys)) = length ?xs - i" by (simp add: distinct_card)
  ultimately show False using i(1) by simp
qed

lemma observe_pages:
  assumes "bp_ok s" "distinct sigs"
  shows "bp_pages (observe s sigs) =
    (if decay_pages \<le> bp_pages s + 1 then (bp_pages s + 1) div 2 else bp_pages s + 1)"
proof -
  let ?s1 = "\<lparr>bp_pages = bp_pages s + 1, bp_counts = foldl (see (bp_pages s + 1)) (bp_counts s) sigs\<rparr>"
  have d: "distinct (map fst (bp_counts ?s1))" using observe_counts(1) [OF assms] by simp
  show ?thesis
    using d decay_ok(1,2) [OF d] by (auto simp: observe_def Let_def evict_to_ok(4))
qed

lemma observe_keeps_constant:
  assumes ok: "bp_ok s" and sigs: "distinct sigs" "length sigs \<le> max_signatures" "k \<in> set sigs"
    and full: "seen_count (bp_counts s) k = bp_pages s"
  shows "seen_count (bp_counts (observe s sigs)) k = bp_pages (observe s sigs)"
proof -
  let ?page = "bp_pages s + 1"
  let ?s1 = "\<lparr>bp_pages = ?page, bp_counts = foldl (see ?page) (bp_counts s) sigs\<rparr>"
  let ?s2 = "if decay_pages \<le> ?page then decay ?s1 else ?s1"
  have page: "0 \<le> bp_pages s" using ok by (simp add: bp_ok_def)
  have d: "distinct (map fst (bp_counts s))" using ok by (simp add: bp_ok_def)
  note cs = observe_counts [OF ok sigs(1)]
  have "seen_count (bp_counts ?s1) k = ?page"
    using seen_count_see_all [OF sigs(1), of ?page "bp_counts s" k] full sigs(3) by simp
  then obtain l where l: "(k, ?page, l) \<in> set (bp_counts ?s1)"
    using page by (auto simp: seen_count_def split: option.splits dest: map_of_SomeD)
  have d2: "distinct (map fst (bp_counts ?s2))" using cs(1) decay_ok(1) [of ?s1] by simp
  have e: "(k, bp_pages ?s2, l) \<in> set (bp_counts ?s2)"
    using l page by (force simp: decay_def decay_pages_def)
  let ?top = "{x \<in> set (bp_counts ?s2). evict_key (k, bp_pages ?s2, l) \<le> evict_key x}"
  have top: "fst ` ?top \<subseteq> set sigs"
  proof
    fix k' assume "k' \<in> fst ` ?top"
    then obtain c' l' where x: "(k', c', l') \<in> set (bp_counts ?s2)" "bp_pages ?s2 \<le> c'"
      by (auto simp: evict_key_def less_eq_prod_def split: if_splits)
    show "k' \<in> set sigs"
    proof (cases "decay_pages \<le> ?page")
      case True
      then obtain c0 where c0: "(k', c0, l') \<in> set (bp_counts ?s1)" "c' = c0 div 2"
        using decay_ok(3) [of ?s1 k' c' l'] cs(1) x(1) by auto
      have "?page = 64" using ok True by (simp add: bp_ok_def decay_pages_def)
      then show ?thesis using cs(2) [of k' c0 l'] c0 x(2) True by (auto simp: decay_def)
    next
      case False
      then show ?thesis using cs(2) [of k' c' l'] x by auto
    qed
  qed
  have "inj_on fst ?top" by (rule inj_on_subset [of _ "set (bp_counts ?s2)"]) (use d2 in \<open>auto simp: distinct_map\<close>)
  then have "card ?top = card (fst ` ?top)" by (simp only: card_image)
  also have "\<dots> \<le> card (set sigs)" by (rule card_mono [OF List.finite_set top])
  finally have "card ?top \<le> card (set sigs)" .
  then have "card ?top \<le> max_signatures" using sigs(2) card_length [of sigs] by linarith
  then have "(k, bp_pages ?s2, l) \<in> set (bp_counts (evict_to max_signatures ?s2))"
    by (rule not_evicted [OF d2 e])
  moreover have "observe s sigs = evict_to max_signatures ?s2" by (simp add: observe_def Let_def)
  ultimately show ?thesis
    using seen_count_entry [OF evict_to_ok(3) [OF d2]] evict_to_ok(4) [OF d2] by metis
qed



end
