(* ===== verification/Articles.thy ===== *)
theory Articles
  imports Selector Boilerplate StoreFeeds Truncate
begin

text \<open>
  Article pages and feed items on their way to the store: \<open>internal/fulltext\<close> (extraction and
  the publish date), \<open>internal/crawler/boilerplate.go\<close> (the boilerplate session of one crawl) and
  \<open>internal/crawler/parser.go\<close> (normalizing a feed). Readability, the HTML policy, SHA-256, JSON
  and HTML rendering are arguments (\<open>article_lib\<close>).
\<close>

section \<open>Extracting an article\<close>

datatype json =
    J_Null | J_Bool bool | J_Number string | J_String string | J_Array "json list"
  | J_Object "(string \<times> json) list" \<comment> \<open>in the order the map is walked; the keys are distinct\<close>

record readable =
  rb_title :: string
  rb_found :: bool \<comment> \<open>the article node is not nil\<close>
  rb_html :: "string option" \<comment> \<open>RenderHTML, None for an error\<close>
  rb_text :: "string option"

record article =
  ar_title :: string
  ar_content :: string
  ar_len :: nat

record 'u article_lib =
  al_urls :: "'u url_lib"
  al_pages :: page_lib
  al_dates :: date_lib
  al_readable :: "string \<Rightarrow> 'u option \<Rightarrow> readable option" \<comment> \<open>readability.FromReader\<close>
  al_json :: "string \<Rightarrow> json option"
  al_render :: "html \<Rightarrow> string option"
  al_sanitize :: "string \<Rightarrow> string" \<comment> \<open>bodyPolicy.Sanitize\<close>
  al_sha :: "string \<Rightarrow> string" \<comment> \<open>the 32 bytes of SHA-256\<close>
  al_bp_dec :: "string \<Rightarrow> bp_json option"
  al_bp_enc :: "bp_json \<Rightarrow> string"

definition extract_article :: "'u article_lib \<Rightarrow> string \<Rightarrow> 'u option \<Rightarrow> article option" where
  "extract_article A pg url =
     (case al_readable A pg url of
        None \<Rightarrow> None
      | Some r \<Rightarrow>
          if \<not> rb_found r then None
          else case (rb_html r, rb_text r) of
            (Some h, Some t) \<Rightarrow>
              Some \<lparr>ar_title = trim_space (rb_title r), ar_content = h, ar_len = rune_count (trim_space t)\<rparr>
          | _ \<Rightarrow> None)"

section \<open>The publish date of an article\<close>

definition meta_step :: "string \<times> string \<Rightarrow> string \<times> string \<Rightarrow> string \<times> string" where
  "meta_step pc kv =
     (case (pc, kv) of
        ((p, c), (k, v)) \<Rightarrow>
          if k = ''property'' \<or> k = ''name'' then (v, c) else if k = ''content'' then (p, v) else (p, c))"

fun find_meta_content :: "string \<Rightarrow> html \<Rightarrow> string option" where
  "find_meta_content property (Node t d a cs) =
     (case foldl meta_step ([], []) a of
        (p, c) \<Rightarrow>
          if t = Element_Node \<and> d = ''meta'' \<and> p = property \<and> c \<noteq> [] then Some c
          else first_some (find_meta_content property) cs)"

fun find_first_time :: "html \<Rightarrow> string option" where
  "find_first_time (Node t d a cs) =
     (if t = Element_Node \<and> d = ''time'' \<and> attr_val (Node t d a cs) ''datetime'' \<noteq> []
      then Some (attr_val (Node t d a cs) ''datetime'')
      else first_some find_first_time cs)"

definition is_ld_json :: "(string \<times> string) list \<Rightarrow> bool" where
  \<comment> \<open>strings.EqualFold, under which the long s (U+017F) is an s\<close>
  "is_ld_json attrs \<longleftrightarrow>
     list_ex (\<lambda>(k, v). k = ''type'' \<and> lower (replace_all [CHR 0xC5, CHR 0xBF] ''s'' v) = ''application/ld+json'') attrs"

definition first_text :: "html list \<Rightarrow> string list" where
  "first_text cs = (case cs of [] \<Rightarrow> [] | c # _ \<Rightarrow> if n_type c = Text_Node then [n_data c] else [])"

fun ld_scripts :: "html \<Rightarrow> string list" where
  "ld_scripts (Node t d a cs) =
     (if t = Element_Node \<and> d = ''script'' \<and> is_ld_json a then first_text cs else [])
      @ concat (map ld_scripts cs)"

definition jsonld_type :: "json option \<Rightarrow> string" where
  "jsonld_type v =
     (case v of
        Some (J_String s) \<Rightarrow> s
      | Some (J_Array xs) \<Rightarrow>
          (case first_some (\<lambda>x. case x of J_String s \<Rightarrow> Some s | _ \<Rightarrow> None) xs of None \<Rightarrow> [] | Some s \<Rightarrow> s)
      | _ \<Rightarrow> [])"

definition article_like :: "string list" where
  "article_like = [''Article'', ''NewsArticle'', ''BlogPosting'']"

definition own_date :: "(string \<times> json) list \<Rightarrow> string" where
  "own_date kvs =
     (if jsonld_type (map_of kvs ''@type'') \<in> set article_like
      then (case map_of kvs ''datePublished'' of Some (J_String s) \<Rightarrow> s | _ \<Rightarrow> []) else [])"

fun scan_jsonld :: "json \<Rightarrow> string"
  and scan_members :: "(string \<times> json) list \<Rightarrow> string"
  and scan_items :: "json list \<Rightarrow> string" where
  "scan_jsonld (J_Object kvs) = (if own_date kvs \<noteq> [] then own_date kvs else scan_members kvs)"
| "scan_jsonld (J_Array xs) = scan_items xs"
| "scan_jsonld (J_String s) = []"
| "scan_jsonld (J_Number s) = []"
| "scan_jsonld (J_Bool b) = []"
| "scan_jsonld J_Null = []"
| "scan_members [] = []"
| "scan_members ((k, v) # kvs) = (if scan_jsonld v \<noteq> [] then scan_jsonld v else scan_members kvs)"
| "scan_items [] = []"
| "scan_items (x # xs) = (if scan_jsonld x \<noteq> [] then scan_jsonld x else scan_items xs)"

definition find_jsonld_date :: "(string \<Rightarrow> json option) \<Rightarrow> html \<Rightarrow> string option" where
  "find_jsonld_date dec doc =
     first_some (\<lambda>raw. case dec raw of
          None \<Rightarrow> None
        | Some v \<Rightarrow> if scan_jsonld v \<noteq> [] then Some (scan_jsonld v) else None) (ld_scripts doc)"

definition extract_published :: "'u article_lib \<Rightarrow> string \<Rightarrow> int \<Rightarrow> int option" where
  "extract_published A pg now =
     (case pl_parse (al_pages A) pg of
        None \<Rightarrow> None
      | Some doc \<Rightarrow>
          first_some (\<lambda>v. case v of None \<Rightarrow> None | Some s \<Rightarrow> parse_flexible_date (al_dates A) s now)
            [find_meta_content ''article:published_time'' doc,
             find_jsonld_date (al_json A) doc,
             find_first_time doc])"

section \<open>The boilerplate session\<close>

record bp_session =
  bs_state :: "bp_state option"
  bs_dirty :: bool

definition new_session :: bp_session where
  "new_session = \<lparr>bs_state = None, bs_dirty = False\<rparr>"

definition min_fulltext_chars :: nat where "min_fulltext_chars = 200"

definition session_load :: "'u article_lib \<Rightarrow> string \<Rightarrow> bp_session \<Rightarrow> bp_state" where
  \<comment> \<open>stored is what GetFeedBoilerplate answers, empty for a missing or unreadable row\<close>
  "session_load A stored s =
     (case bs_state s of Some st \<Rightarrow> st | None \<Rightarrow> bp_parse (al_bp_dec A) stored)"

definition page_digest :: "'u article_lib \<Rightarrow> html \<Rightarrow> digest" where
  "page_digest A = digest_of (pl_nfkc (al_pages A)) (\<lambda>s. take 16 (pl_sha (al_pages A) s))"

definition choose_article :: "article option \<Rightarrow> article option \<Rightarrow> article option" where
  \<comment> \<open>the original and the stripped extraction; the double comparison is exact for lengths below 2^53\<close>
  "choose_article original stripped =
     (case stripped of
        None \<Rightarrow> original
      | Some s \<Rightarrow>
          if ar_len s < min_fulltext_chars then original
          else case original of
            Some r \<Rightarrow> if 4 * ar_len s < ar_len r then original else Some s
          | None \<Rightarrow> Some s)"

definition session_extract ::
    "'u article_lib \<Rightarrow> string \<Rightarrow> string \<Rightarrow> 'u option \<Rightarrow> bp_session \<Rightarrow> article option \<times> bp_session" where
  "session_extract A stored pg url s =
     (let st = session_load A stored s in
      case pl_parse (al_pages A) pg of
        None \<Rightarrow> (extract_article A pg url, s\<lparr>bs_state := Some st\<rparr>)
      | Some doc \<Rightarrow>
          let (doc', removed, sigs) = bp_apply (page_digest A) st doc;
              s' = \<lparr>bs_state = Some (observe st sigs), bs_dirty = True\<rparr>;
              original = extract_article A pg url
          in if removed = 0 then (original, s')
             else case al_render A doc' of
               None \<Rightarrow> (original, s')
             | Some stripped \<Rightarrow> (choose_article original (extract_article A stripped url), s'))"

definition session_save :: "'u article_lib \<Rightarrow> int \<Rightarrow> time \<Rightarrow> bp_session \<Rightarrow> db \<Rightarrow> db" where
  "session_save A f now s d =
     (case (bs_dirty s, bs_state s) of
        (True, Some st) \<Rightarrow>
          (case put_feed_boilerplate d f (bp_marshal (al_bp_enc A) st) now of Inr d' \<Rightarrow> d' | Inl e \<Rightarrow> d)
      | _ \<Rightarrow> d)"

section \<open>Normalizing a feed\<close>

record parsed_feed =
  pf_title :: string
  pf_site :: string
  pf_entries :: "entry_input list"

definition max_entries_per_feed :: nat where "max_entries_per_feed = 1000"
definition max_body_bytes :: nat where "max_body_bytes = 512 * 1024"

definition hex_digit :: "nat \<Rightarrow> char" where
  "hex_digit n = (if n < 10 then char_of (48 + n) else char_of (87 + n))"

definition hash_hex :: "'u article_lib \<Rightarrow> string \<Rightarrow> string" where
  "hash_hex A s = concat (map (\<lambda>c. [hex_digit (of_char c div 16), hex_digit (of_char c mod 16)]) (al_sha A s))"

definition resolve_url :: "'u url_lib \<Rightarrow> 'u option \<Rightarrow> string \<Rightarrow> string" where
  "resolve_url U base ref =
     (if ref = [] then []
      else case ul_parse U ref of
        None \<Rightarrow> []
      | Some u \<Rightarrow>
          let r = (case base of None \<Rightarrow> u | Some b \<Rightarrow> ul_resolve U b u)
          in if ul_scheme U r \<noteq> ''http'' \<and> ul_scheme U r \<noteq> ''https'' then [] else ul_string U r)"

definition unix :: "int \<Rightarrow> time" where
  \<comment> \<open>time.Time.Unix of a time in nanoseconds\<close>
  "unix t = t div ns_sec"

definition clean_body :: "'u article_lib \<Rightarrow> string \<Rightarrow> string" where
  "clean_body A raw = truncate_utf8 (al_sanitize A raw) max_body_bytes"

definition item_body :: "feed_item \<Rightarrow> string" where
  "item_body item = (if fi_content item = [] then fi_description item else fi_content item)"

definition normalize_item :: "'u article_lib \<Rightarrow> feed_item \<Rightarrow> 'u option \<Rightarrow> int \<Rightarrow> entry_input" where
  "normalize_item A item base now =
     (let link = resolve_url (al_urls A) base (fi_link item);
          body = clean_body A (item_body item);
          guid = (if fi_guid item \<noteq> [] then fi_guid item
                  else if link \<noteq> [] then link
                  else hash_hex A (fi_title item @ item_body item));
          published = (case fi_published item of Some t \<Rightarrow> if t \<le> now + hour_ns then t else now | None \<Rightarrow> now);
          updated = (case fi_updated item of Some t \<Rightarrow> t | None \<Rightarrow> published)
      in \<lparr>in_guid = guid, in_url = link, in_title = trim_space (fi_title item),
          in_author = (case fi_author item of None \<Rightarrow> [] | Some a \<Rightarrow> a),
          in_body = body, in_hash = al_sha A body, in_pub = unix published, in_upd = unix updated,
          in_missing = (fi_published item = None)\<rparr>)"

definition parsed_feed_of :: "'u article_lib \<Rightarrow> feed_doc \<Rightarrow> string \<Rightarrow> int \<Rightarrow> parsed_feed" where
  \<comment> \<open>parsedFeedFromGofeed\<close>
  "parsed_feed_of A doc url now =
     (let base = ul_parse (al_urls A) url
      in \<lparr>pf_title = trim_space (doc_title doc), pf_site = resolve_url (al_urls A) base (doc_link doc),
          pf_entries = map (\<lambda>item. normalize_item A item base now) (take max_entries_per_feed (doc_items doc))\<rparr>)"

end
