(* ===== verification/Scraping.thy ===== *)
theory Scraping
  imports Articles Pagewatch StoreOps
begin

text \<open>
  \<open>internal/crawler\<close>: fulltext.go, scrape.go and scrape_selector.go, which turn a fetched feed
  or watched page into the entries to write, over the fetcher, the extractors and the store of the
  other theories. The network seen by the fetches of one crawl is \<open>cl_net\<close>: 0 for the feed or
  listing, i + 1 for the page of its i-th item. Any store call may fail (\<open>cl_fails\<close>), on top of
  the errors the store's own rules raise. Times are in nanoseconds, the store gets seconds.
\<close>

section \<open>The outside world and the errors of a crawl\<close>

datatype store_call = Get_Fulltext | Existing_Guids | Get_Boilerplate | Put_Boilerplate | Get_Scrape
  | Upsert_Entries | Save_Scrape_State | Update_Target | Update_Feed

datatype crawl_error = Fetch_Failed fetch_error | Gone_410 | Bad_Status int | Parse_Failed
  | Bad_Charset | Wrong_Kind string | Watch_Failed pw_error | Listing_Failed sel_error
  | Unusable crawl_error int string | Store_Failed store_call "store_error option"

record 'u crawl_lib =
  cl_articles :: "'u article_lib"
  cl_net :: "nat \<Rightarrow> http_env"
  cl_fetcher :: fetcher
  cl_clock :: "nat \<Rightarrow> int" \<comment> \<open>the robots cache's clock at the i-th item\<close>
  cl_pw :: pw_lib
  cl_sel :: sel_lib
  cl_decode :: "string \<Rightarrow> string \<Rightarrow> string option" \<comment> \<open>DecodeUTF8: body and content type\<close>
  cl_gofeed :: "string \<Rightarrow> feed_doc option" \<comment> \<open>gofeed's Parse\<close>
  cl_fails :: "store_call \<Rightarrow> bool"
  cl_text :: "crawl_error \<Rightarrow> string" \<comment> \<open>Error() of the errors made outside crawler.go\<close>
  cl_quote :: "string \<Rightarrow> string"
  cl_jitter :: int
  cl_min :: int
  cl_max :: int

definition error_text :: "'u crawl_lib \<Rightarrow> crawl_error \<Rightarrow> string" where
  "error_text L e =
     (case e of
        Gone_410 \<Rightarrow> ''crawler: 410 gone''
      | Bad_Status n \<Rightarrow> ''crawler: unexpected status '' @ show_int n
      | Unusable e' status ctype \<Rightarrow>
          cl_text L e' @ '' (status='' @ show_int status @ '' content-type='' @ cl_quote L ctype @ '')''
      | Store_Failed Upsert_Entries r \<Rightarrow> ''crawler: write entries: '' @ cl_text L e
      | Store_Failed Save_Scrape_State r \<Rightarrow> ''crawler: save scrape state: '' @ cl_text L e
      | _ \<Rightarrow> cl_text L e)"

definition try_store :: "'u crawl_lib \<Rightarrow> store_call \<Rightarrow> store_error + 'a \<Rightarrow> crawl_error + 'a" where
  "try_store L c r =
     (if cl_fails L c then Inl (Store_Failed c None)
      else case r of Inl e \<Rightarrow> Inl (Store_Failed c (Some e)) | Inr x \<Rightarrow> Inr x)"

definition html_accept :: string where
  "html_accept = ''text/html,application/xhtml+xml;q=0.9,*/*;q=0.8''"

definition fetch_page :: "'u crawl_lib \<Rightarrow> nat \<Rightarrow> string \<Rightarrow> fetch_error + fetch_result" where
  \<comment> \<open>an item's own page\<close>
  "fetch_page L i url =
     fst (fetch (cl_net L (Suc i)) (cl_fetcher L) url
       \<lparr>fo_etag = [], fo_last_modified = [], fo_accept = html_accept\<rparr>)"

definition stored_boilerplate :: "'u crawl_lib \<Rightarrow> int \<Rightarrow> db \<Rightarrow> string" where
  "stored_boilerplate L f d =
     (case try_store L Get_Boilerplate (get_feed_boilerplate d f) of Inr s \<Rightarrow> s | Inl e \<Rightarrow> [])"

definition save_boilerplate :: "'u crawl_lib \<Rightarrow> int \<Rightarrow> int \<Rightarrow> bp_session \<Rightarrow> db \<Rightarrow> db" where
  "save_boilerplate L f now s d =
     (if cl_fails L Put_Boilerplate then d else session_save (cl_articles L) f (unix now) s d)"

section \<open>Full text\<close>

definition max_fulltext_fetches :: nat where "max_fulltext_fetches = 20"

definition entry_fulltext :: "'u crawl_lib \<Rightarrow> string \<Rightarrow> nat \<Rightarrow> string \<Rightarrow> bp_session \<Rightarrow> string option \<times> bp_session" where
  \<comment> \<open>extractEntryFulltext, None for an error\<close>
  "entry_fulltext L stored i url s =
     (case fetch_page L i url of
        Inl e \<Rightarrow> (None, s)
      | Inr fr \<Rightarrow>
          if fr_status fr \<noteq> 200 then (None, s)
          else case cl_decode L (fr_body fr) (fr_content_type fr) of
            None \<Rightarrow> (None, s)
          | Some text \<Rightarrow>
              case ul_parse (al_urls (cl_articles L)) url of
                None \<Rightarrow> (None, s)
              | Some u \<Rightarrow>
                  (case session_extract (cl_articles L) stored text (Some u) s of
                     (None, s') \<Rightarrow> (None, s')
                   | (Some a, s') \<Rightarrow>
                       (if ar_len a < min_fulltext_chars then None
                        else Some (clean_body (cl_articles L) (ar_content a)), s')))"

definition with_body :: "'u crawl_lib \<Rightarrow> string option \<Rightarrow> entry_input \<Rightarrow> entry_input" where
  "with_body L body e =
     (case body of None \<Rightarrow> e | Some b \<Rightarrow> e\<lparr>in_body := b, in_hash := al_sha (cl_articles L) b\<rparr>)"

definition wants_page :: "string set \<Rightarrow> nat \<Rightarrow> entry_input \<Rightarrow> bool" where
  "wants_page existing fetched e \<longleftrightarrow>
     in_guid e \<notin> existing \<and> in_url e \<noteq> [] \<and> fetched < max_fulltext_fetches"

fun fulltext_loop ::
    "'u crawl_lib \<Rightarrow> string \<Rightarrow> string set \<Rightarrow> nat \<Rightarrow> entry_input list \<Rightarrow> nat \<Rightarrow> bp_session
      \<Rightarrow> entry_input list \<times> nat \<times> bp_session" where
  \<comment> \<open>i is the position of the entry, fetched the pages asked for so far\<close>
  "fulltext_loop L stored existing i [] fetched s = ([], fetched, s)"
| "fulltext_loop L stored existing i (e # es) fetched s =
     (if wants_page existing fetched e then
        (case entry_fulltext L stored i (in_url e) s of
           (body, s1) \<Rightarrow>
             (case fulltext_loop L stored existing (Suc i) es (Suc fetched) s1 of
                (es', n, s2) \<Rightarrow> (with_body L body e # es', n, s2)))
      else
        (case fulltext_loop L stored existing (Suc i) es fetched s of (es', n, s2) \<Rightarrow> (e # es', n, s2)))"

definition apply_fulltext ::
    "'u crawl_lib \<Rightarrow> int \<Rightarrow> entry_input list \<Rightarrow> int \<Rightarrow> db \<Rightarrow> entry_input list \<times> db" where
  "apply_fulltext L f es now d =
     (if es = [] then (es, d)
      else case try_store L Get_Fulltext (get_feed_fulltext d f) of
        Inl e \<Rightarrow> (es, d)
      | Inr row \<Rightarrow>
          case try_store L Existing_Guids (Inr (existing_entry_guids d f (map in_guid es))) of
            Inl e \<Rightarrow> (es, d)
          | Inr existing \<Rightarrow>
              (case fulltext_loop L (stored_boilerplate L f d) existing 0 es 0 new_session of
                 (es', n, s) \<Rightarrow> (es', save_boilerplate L f now s d)))"

section \<open>Watched pages\<close>

definition source_state :: "scrape_source \<Rightarrow> string" where
  \<comment> \<open>src.State, empty for SQL NULL\<close>
  "source_state src = (case scr_state src of None \<Rightarrow> [] | Some s \<Rightarrow> s)"

definition scrape_row :: "'u crawl_lib \<Rightarrow> int \<Rightarrow> scrape_kind \<Rightarrow> db \<Rightarrow> crawl_error + scrape_source" where
  \<comment> \<open>the row of the feed, of the kind its URL says\<close>
  "scrape_row L f kind d =
     (case try_store L Get_Scrape (get_scrape_source_by_feed d f) of
        Inl e \<Rightarrow> Inl e
      | Inr src \<Rightarrow> if scr_kind src \<noteq> kind_string kind then Inl (Wrong_Kind (scr_kind src)) else Inr src)"

definition extract_page ::
    "'u crawl_lib \<Rightarrow> int \<Rightarrow> string \<Rightarrow> fetch_result \<Rightarrow> int \<Rightarrow> db \<Rightarrow> crawl_error + parsed_feed \<times> string option" where
  "extract_page L f target fr now d =
     (case scrape_row L f Pagewatch d of
        Inl e \<Rightarrow> Inl e
      | Inr src \<Rightarrow>
          case cl_decode L (fr_body fr) (fr_content_type fr) of
            None \<Rightarrow> Inl Bad_Charset
          | Some text \<Rightarrow>
              case pw_extract (al_urls (cl_articles L)) (al_pages (cl_articles L)) (cl_pw L) target text now
                     (scr_config src) (source_state src) of
                Inl e \<Rightarrow> Inl (Watch_Failed e)
              | Inr (doc, st) \<Rightarrow> Inr (parsed_feed_of (cl_articles L) doc target now, st))"

section \<open>Selector listings\<close>

definition give_up :: "int \<Rightarrow> bool" where
  "give_up n \<longleftrightarrow> max_article_retries \<le> n + 1"

definition ensure_published :: "int \<Rightarrow> feed_item \<Rightarrow> feed_item" where
  "ensure_published now item = (if fi_published item = None then item\<lparr>fi_published := Some now\<rparr> else item)"

definition default_title :: "string \<Rightarrow> feed_item \<Rightarrow> feed_item" where
  "default_title t item = (if fi_title item = [] then item\<lparr>fi_title := t\<rparr> else item)"

definition html_page_title :: "page_lib \<Rightarrow> string \<Rightarrow> string" where
  "html_page_title P text =
     (case pl_parse P text of
        None \<Rightarrow> []
      | Some doc \<Rightarrow> (case page_title (normalize_text (pl_nfkc P)) doc of None \<Rightarrow> [] | Some t \<Rightarrow> t))"

definition url_path_tail :: "'u url_lib \<Rightarrow> string \<Rightarrow> string" where
  "url_path_tail U raw =
     (case ul_parse U raw of
        None \<Rightarrow> raw
      | Some u \<Rightarrow>
          let path = (if has_suffix (ul_path U u) ''/'' then butlast (ul_path U u) else ul_path U u);
              tail = rev (takeWhile (\<lambda>c. c \<noteq> CHR ''/'') (rev path));
              tail = (case ul_unescape U tail of Some t \<Rightarrow> t | None \<Rightarrow> tail)
          in if tail = [] then raw else tail)"

definition fill_from_article :: "article option \<Rightarrow> feed_item \<Rightarrow> feed_item" where
  "fill_from_article art item =
     (case art of
        None \<Rightarrow> item
      | Some a \<Rightarrow>
          default_title (ar_title a)
            (if min_fulltext_chars \<le> ar_len a then item\<lparr>fi_content := ar_content a\<rparr> else item))"

definition fill_published :: "int option \<Rightarrow> feed_item \<Rightarrow> feed_item" where
  "fill_published found item = (if fi_published item = None then item\<lparr>fi_published := found\<rparr> else item)"

definition article_content ::
    "'u crawl_lib \<Rightarrow> string \<Rightarrow> feed_item \<Rightarrow> string \<Rightarrow> string \<Rightarrow> int \<Rightarrow> bp_session \<Rightarrow> feed_item \<times> bp_session" where
  \<comment> \<open>applySelectorArticleContent\<close>
  "article_content L stored item url text now s =
     (case session_extract (cl_articles L) stored text (ul_parse (al_urls (cl_articles L)) url) s of
        (art, s') \<Rightarrow>
          (ensure_published now
            (fill_published (extract_published (cl_articles L) text now)
              (default_title (url_path_tail (al_urls (cl_articles L)) url)
                (default_title (html_page_title (al_pages (cl_articles L)) text)
                  (fill_from_article art item)))), s'))"

definition robots_fetch :: "'u crawl_lib \<Rightarrow> nat \<Rightarrow> string \<Rightarrow> (int \<times> string) option" where
  "robots_fetch L i url =
     (case fst (fetch (cl_net L (Suc i)) (cl_fetcher L) url \<lparr>fo_etag = [], fo_last_modified = [], fo_accept = []\<rparr>) of
        Inl e \<Rightarrow> None
      | Inr fr \<Rightarrow> Some (fr_status fr, fr_body fr))"

definition selector_item ::
    "'u crawl_lib \<Rightarrow> sel_config \<Rightarrow> (string \<rightharpoonup> int) \<Rightarrow> string \<Rightarrow> int \<Rightarrow> nat \<Rightarrow> feed_item \<Rightarrow> bp_session \<Rightarrow> robots_cache
      \<Rightarrow> feed_item option \<times> bp_session \<times> robots_cache" where
  \<comment> \<open>the body of the loop; None when the fetch failed and is to be tried again\<close>
  "selector_item L cfg pending stored now i item s rc =
     (let url = fi_link item; bare = Some (ensure_published now item);
          later = (if give_up (case pending url of None \<Rightarrow> 0 | Some n \<Rightarrow> n) then bare else None)
      in if \<not> fulltext_enabled cfg then (bare, s, rc)
         else case robots_allowed (he_parse (cl_net L (Suc i))) (robots_fetch L i) (ft_user_agent (cl_fetcher L))
                     url (cl_clock L i) rc of
           (False, rc') \<Rightarrow> (bare, s, rc')
         | (True, rc') \<Rightarrow>
             (case fetch_page L i url of
                Inl e \<Rightarrow> (later, s, rc')
              | Inr fr \<Rightarrow>
                  if fr_status fr \<noteq> 200 then (later, s, rc')
                  else case cl_decode L (fr_body fr) (fr_content_type fr) of
                    None \<Rightarrow> (bare, s, rc')
                  | Some text \<Rightarrow>
                      (case article_content L stored item url text now s of
                         (item', s') \<Rightarrow> (Some item', s', rc'))))"

record selector_work =
  sw_imported :: "string list"
  sw_failed :: "string list"
  sw_items :: "feed_item list"
  sw_session :: bp_session
  sw_robots :: robots_cache

fun selector_loop ::
    "'u crawl_lib \<Rightarrow> sel_config \<Rightarrow> (string \<rightharpoonup> int) \<Rightarrow> string \<Rightarrow> int \<Rightarrow> nat \<Rightarrow> feed_item list \<Rightarrow> selector_work \<Rightarrow> selector_work" where
  "selector_loop L cfg pending stored now i [] w = w"
| "selector_loop L cfg pending stored now i (item # items) w =
     (case selector_item L cfg pending stored now i item (sw_session w) (sw_robots w) of
        (None, s, rc) \<Rightarrow>
          selector_loop L cfg pending stored now (Suc i) items
            (w\<lparr>sw_failed := sw_failed w @ [fi_link item], sw_session := s, sw_robots := rc\<rparr>)
      | (Some item', s, rc) \<Rightarrow>
          selector_loop L cfg pending stored now (Suc i) items
            (w\<lparr>sw_imported := sw_imported w @ [fi_link item], sw_items := sw_items w @ [item'],
               sw_session := s, sw_robots := rc\<rparr>))"

definition commit_work :: "'u crawl_lib \<Rightarrow> sel_config \<Rightarrow> scrape_source \<Rightarrow> feed_item list \<Rightarrow> selector_work \<Rightarrow> string" where
  "commit_work L cfg src candidates w =
     commit_state (cl_sel L) (source_state src)
       \<lparr>ci_candidates = map fi_link candidates, ci_imported = sw_imported w, ci_failed = sw_failed w,
        ci_initial = (source_state src = []), ci_truncated = (max_candidates \<le> length candidates),
        ci_config_hash = sel_config_hash (al_pages (cl_articles L)) (cl_sel L) cfg\<rparr>"

definition extract_selector_page ::
    "'u crawl_lib \<Rightarrow> int \<Rightarrow> string \<Rightarrow> fetch_result \<Rightarrow> int \<Rightarrow> db \<Rightarrow> robots_cache
      \<Rightarrow> (crawl_error + parsed_feed \<times> string option) \<times> db \<times> robots_cache" where
  "extract_selector_page L f url fr now d rc =
     (case scrape_row L f Selector d of
        Inl e \<Rightarrow> (Inl e, d, rc)
      | Inr src \<Rightarrow>
        case sel_parse_config (cl_sel L) (scr_config src) of
          None \<Rightarrow> (Inl (Listing_Failed Sel_Config), d, rc)
        | Some cfg \<Rightarrow>
          case cl_decode L (fr_body fr) (fr_content_type fr) of
            None \<Rightarrow> (Inl Bad_Charset, d, rc)
          | Some text \<Rightarrow>
            case sel_extract (al_urls (cl_articles L)) (al_pages (cl_articles L)) (cl_sel L) url text now
                   (scr_config src) (source_state src) of
              Inl e \<Rightarrow> (Inl (Listing_Failed e), d, rc)
            | Inr (doc, Some st) \<Rightarrow> (Inr (parsed_feed_of (cl_articles L) doc url now, Some st), d, rc)
            | Inr (doc, None) \<Rightarrow>
                if doc_items doc = [] then (Inr (parsed_feed_of (cl_articles L) doc url now, None), d, rc)
                else
                  let pending = (case sel_parse_state (cl_sel L) (source_state src) of
                                   Some st \<Rightarrow> ss_pending st | None \<Rightarrow> Map.empty);
                      w = selector_loop L cfg pending (stored_boilerplate L f d) now 0
                            (take (nat (max_items_effective cfg)) (doc_items doc))
                            \<lparr>sw_imported = [], sw_failed = [], sw_items = [], sw_session = new_session, sw_robots = rc\<rparr>
                  in (Inr (parsed_feed_of (cl_articles L) (doc\<lparr>doc_items := sw_items w\<rparr>) url now,
                           Some (commit_work L cfg src (doc_items doc) w)),
                      save_boilerplate L f now (sw_session w) d, sw_robots w))"

end
