(* ===== verification/Crawler.thy ===== *)
theory Crawler
  imports Scraping
begin

text \<open>
  \<open>internal/crawler/crawler.go\<close>: one crawl of a feed, from the conditional fetch to the feed's
  row, the ring buffer of internal errors, and a pass over the due feeds. A pass is the one with
  concurrency 1: the goroutines then run one after another, in the order of the feeds.
\<close>

section \<open>Crawling a feed\<close>

record crawl_result =
  cr_feed :: int
  cr_url :: string
  cr_new :: nat
  cr_status :: string
  cr_err :: "crawl_error option"
  cr_internal :: bool

definition secs :: "int \<Rightarrow> int" where
  \<comment> \<open>int64(interval / time.Second); intervals are not negative\<close>
  "secs interval = interval div ns_sec"

definition current_interval :: "feed \<Rightarrow> int" where
  "current_interval f = wrap64 (fd_interval f * ns_sec)"

definition update_feed :: "'u crawl_lib \<Rightarrow> feed \<Rightarrow> feed_update \<Rightarrow> int \<Rightarrow> db \<Rightarrow> crawl_error + db" where
  "update_feed L f u now d =
     try_store L Update_Feed (update_feed_after_fetch (cl_quote L) d (fd_id f) u (unix now))"

definition failure_update :: "'u crawl_lib \<Rightarrow> feed \<Rightarrow> int \<Rightarrow> int \<Rightarrow> crawl_error \<Rightarrow> int \<Rightarrow> bool \<Rightarrow> feed_update" where
  "failure_update L f now status err retry_after gone =
     (let interval = next_interval_on_error (cl_jitter L) (current_interval f) (fd_errors f + 1) retry_after (cl_min L)
      in \<lparr>fu_title = [], fu_site = [], fu_url = None, fu_etag = None, fu_lastmod = None, fu_hash = None,
          fu_interval = secs interval, fu_next = unix (now + interval), fu_status = status,
          fu_success = False, fu_gone = gone, fu_lasterr = Some (error_text L err)\<rparr>)"

definition crawl_fail ::
    "'u crawl_lib \<Rightarrow> feed \<Rightarrow> int \<Rightarrow> int \<Rightarrow> crawl_error \<Rightarrow> int \<Rightarrow> bool \<Rightarrow> db \<Rightarrow> crawl_result \<times> db" where
  \<comment> \<open>the closure fail\<close>
  "crawl_fail L f now status err retry_after gone d =
     (\<lparr>cr_feed = fd_id f, cr_url = fd_url f, cr_new = 0, cr_status = (if gone then ''gone'' else ''error''),
       cr_err = Some err, cr_internal = False\<rparr>,
      case update_feed L f (failure_update L f now status err retry_after gone) now d of
        Inr d' \<Rightarrow> d' | Inl e \<Rightarrow> d)"

definition success_update :: "'u crawl_lib \<Rightarrow> feed \<Rightarrow> int \<Rightarrow> fetch_result \<Rightarrow> bool \<Rightarrow> feed_update" where
  \<comment> \<open>the fields common to a 304 and a 200\<close>
  "success_update L f now fr new_entries =
     (let interval = next_interval_on_success (current_interval f) new_entries (cl_min L) (cl_max L)
      in \<lparr>fu_title = [], fu_site = [], fu_url = None, fu_etag = non_empty (fr_etag fr),
          fu_lastmod = non_empty (fr_last_modified fr), fu_hash = None, fu_interval = secs interval,
          fu_next = unix (now + interval), fu_status = fr_status fr, fu_success = True,
          fu_gone = False, fu_lasterr = None\<rparr>)"

definition finish :: "crawl_result \<Rightarrow> crawl_error + db \<Rightarrow> db \<Rightarrow> crawl_result \<times> db" where
  \<comment> \<open>the last write of a crawl: its failure is internal, the status stays\<close>
  "finish res w d =
     (case w of Inr d' \<Rightarrow> (res, d') | Inl e \<Rightarrow> (res\<lparr>cr_err := Some e, cr_internal := True\<rparr>, d))"

definition internal_failure :: "crawl_result \<Rightarrow> crawl_error \<Rightarrow> crawl_result" where
  "internal_failure res e = res\<lparr>cr_status := ''error'', cr_err := Some e, cr_internal := True\<rparr>"

definition not_modified_crawl :: "'u crawl_lib \<Rightarrow> feed \<Rightarrow> int \<Rightarrow> fetch_result \<Rightarrow> db \<Rightarrow> crawl_result \<times> db" where
  "not_modified_crawl L f now fr d =
     finish \<lparr>cr_feed = fd_id f, cr_url = fd_url f, cr_new = 0, cr_status = ''not_modified'',
             cr_err = None, cr_internal = False\<rparr>
       (update_feed L f (success_update L f now fr False) now d) d"

definition parse_feed :: "'u crawl_lib \<Rightarrow> feed \<Rightarrow> fetch_result \<Rightarrow> int \<Rightarrow> parsed_feed option" where
  "parse_feed L f fr now =
     (case cl_gofeed L (fr_body fr) of
        None \<Rightarrow> None
      | Some doc \<Rightarrow> Some (parsed_feed_of (cl_articles L) doc (fd_url f) now))"

definition parse_page ::
    "'u crawl_lib \<Rightarrow> feed \<Rightarrow> fetch_result \<Rightarrow> int \<Rightarrow> db \<Rightarrow> robots_cache
      \<Rightarrow> (crawl_error + parsed_feed \<times> string option) \<times> db \<times> robots_cache" where
  \<comment> \<open>the dispatch on the kind of the feed URL, with the state to store\<close>
  "parse_page L f fr now d rc =
     (case cut_scrape_prefix (fd_url f) of
        Some (target, Pagewatch) \<Rightarrow> (extract_page L (fd_id f) target fr now d, d, rc)
      | Some (target, Selector) \<Rightarrow> extract_selector_page L (fd_id f) target fr now d rc
      | None \<Rightarrow>
          (case parse_feed L f fr now of
             None \<Rightarrow> (Inl Parse_Failed, d, rc)
           | Some p \<Rightarrow>
               (case apply_fulltext L (fd_id f) (pf_entries p) now d of
                  (es, d') \<Rightarrow> (Inr (p\<lparr>pf_entries := es\<rparr>, None), d', rc))))"

definition save_state :: "'u crawl_lib \<Rightarrow> feed \<Rightarrow> string option \<Rightarrow> int \<Rightarrow> db \<Rightarrow> crawl_error + db" where
  "save_state L f st now d =
     (case st of
        None \<Rightarrow> Inr d
      | Some s \<Rightarrow> try_store L Save_Scrape_State (update_scrape_source_state d (fd_id f) s (unix now)))"

definition moved_to :: "'u crawl_lib \<Rightarrow> feed \<Rightarrow> fetch_result \<Rightarrow> int \<Rightarrow> db \<Rightarrow> string option \<times> db" where
  \<comment> \<open>a permanent redirect: the new feed URL, and the copy of the target in scrape_sources\<close>
  "moved_to L f fr now d =
     (if \<not> fr_permanent fr \<or> fr_final_url fr = [] then (None, d)
      else case cut_scrape_prefix (fd_url f) of
        None \<Rightarrow> (Some (fr_final_url fr), d)
      | Some (target, kind) \<Rightarrow>
          (Some (prefix_for_kind kind @ fr_final_url fr),
           case try_store L Update_Target (update_scrape_source_target d (fd_id f) (fr_final_url fr) (unix now)) of
             Inr d' \<Rightarrow> d' | Inl e \<Rightarrow> d))"

definition page_update :: "'u crawl_lib \<Rightarrow> feed \<Rightarrow> int \<Rightarrow> fetch_result \<Rightarrow> parsed_feed \<Rightarrow> nat \<Rightarrow> string option \<Rightarrow> feed_update" where
  "page_update L f now fr p new moved =
     (success_update L f now fr (0 < new))
       \<lparr>fu_title := pf_title p, fu_site := pf_site p, fu_url := moved,
        fu_hash := Some (al_sha (cl_articles L) (fr_body fr))\<rparr>"

definition write_crawl ::
    "'u crawl_lib \<Rightarrow> feed \<Rightarrow> fetch_result \<Rightarrow> int \<Rightarrow> parsed_feed \<Rightarrow> string option \<Rightarrow> db \<Rightarrow> crawl_result \<times> db" where
  \<comment> \<open>from UpsertEntries on\<close>
  "write_crawl L f fr now p st d =
     (let res = \<lparr>cr_feed = fd_id f, cr_url = fd_url f, cr_new = 0, cr_status = ''ok'', cr_err = None, cr_internal = False\<rparr>
      in case try_store L Upsert_Entries (upsert_entries d (fd_id f) (pf_entries p) (unix now)) of
           Inl e \<Rightarrow> (internal_failure res e, d)
         | Inr (new, d1) \<Rightarrow>
             let res = res\<lparr>cr_new := new\<rparr> in
             case save_state L f st now d1 of
               Inl e \<Rightarrow> (internal_failure res e, d1)
             | Inr d2 \<Rightarrow>
                 (case moved_to L f fr now d2 of
                    (moved, d3) \<Rightarrow> finish res (update_feed L f (page_update L f now fr p new moved) now d3) d3))"

definition crawl_fetch :: "'u crawl_lib \<Rightarrow> feed \<Rightarrow> fetch_error + fetch_result" where
  "crawl_fetch L f =
     (let etag = (case fd_etag f of None \<Rightarrow> [] | Some s \<Rightarrow> s);
          lastmod = (case fd_lastmod f of None \<Rightarrow> [] | Some s \<Rightarrow> s);
          (target, accept) = (case cut_scrape_prefix (fd_url f) of
             Some (t, kind) \<Rightarrow> (t, html_accept) | None \<Rightarrow> (fd_url f, []))
      in fst (fetch (cl_net L 0) (cl_fetcher L) target
           \<lparr>fo_etag = etag, fo_last_modified = lastmod, fo_accept = accept\<rparr>))"

definition crawl_one ::
    "'u crawl_lib \<Rightarrow> feed \<Rightarrow> int \<Rightarrow> db \<Rightarrow> robots_cache \<Rightarrow> crawl_result \<times> db \<times> robots_cache" where
  "crawl_one L f now d rc =
     (let fail = (\<lambda>status err retry gone d rc. case crawl_fail L f now status err retry gone d of (r, d') \<Rightarrow> (r, d', rc))
      in case crawl_fetch L f of
           Inl e \<Rightarrow> fail 0 (Fetch_Failed e) 0 False d rc
         | Inr fr \<Rightarrow>
             if fr_not_modified fr then (case not_modified_crawl L f now fr d of (r, d') \<Rightarrow> (r, d', rc))
             else if fr_status fr = 410 then fail 410 Gone_410 0 True d rc
             else if fr_status fr \<noteq> 200 then fail (fr_status fr) (Bad_Status (fr_status fr)) (fr_retry_after fr) False d rc
             else case parse_page L f fr now d rc of
               (Inl e, d1, rc1) \<Rightarrow> fail 200 (Unusable e 200 (fr_content_type fr)) 0 False d1 rc1
             | (Inr (p, st), d1, rc1) \<Rightarrow>
                 (case write_crawl L f fr now p st d1 of (r, d') \<Rightarrow> (r, d', rc1)))"

section \<open>Passes\<close>

record internal_error =
  ie_feed :: int
  ie_url :: string
  ie_error :: string
  ie_at :: time

definition max_recent_internal_errors :: nat where "max_recent_internal_errors = 50"

definition record_internal_error :: "internal_error list \<Rightarrow> internal_error \<Rightarrow> internal_error list" where
  "record_internal_error buf e =
     (let buf = buf @ [e]; over = int (length buf) - int max_recent_internal_errors
      in if 0 < over then drop (nat over) buf else buf)"

record crawler =
  cw_db :: db
  cw_robots :: robots_cache
  cw_errors :: "internal_error list"

definition crawl_and_report :: "'u crawl_lib \<Rightarrow> feed \<Rightarrow> int \<Rightarrow> crawler \<Rightarrow> crawl_result \<times> crawler" where
  "crawl_and_report L f now c =
     (case crawl_one L f now (cw_db c) (cw_robots c) of
        (r, d, rc) \<Rightarrow>
          (r, \<lparr>cw_db = d, cw_robots = rc,
               cw_errors = (if cr_internal r
                 then record_internal_error (cw_errors c)
                   \<lparr>ie_feed = cr_feed r, ie_url = cr_url r,
                    ie_error = (case cr_err r of None \<Rightarrow> [] | Some e \<Rightarrow> error_text L e), ie_at = unix now\<rparr>
                 else cw_errors c)\<rparr>))"

definition crawl_feed :: "'u crawl_lib \<Rightarrow> int \<Rightarrow> int \<Rightarrow> crawler \<Rightarrow> store_error + crawl_result \<times> crawler" where
  "crawl_feed L i now c =
     (case get_feed (cw_db c) i of Inl e \<Rightarrow> Inl e | Inr f \<Rightarrow> Inr (crawl_and_report L f now c))"

record crawl_summary =
  cy_feeds :: nat
  cy_new :: nat
  cy_errors :: nat
  cy_results :: "crawl_result list"

fun crawl_each :: "(int \<Rightarrow> 'u crawl_lib) \<Rightarrow> feed list \<Rightarrow> int \<Rightarrow> crawler \<Rightarrow> crawl_result list \<times> crawler" where
  \<comment> \<open>the outside world is given per feed\<close>
  "crawl_each W [] now c = ([], c)"
| "crawl_each W (f # fs) now c =
     (case crawl_and_report (W (fd_id f)) f now c of
        (r, c1) \<Rightarrow> (case crawl_each W fs now c1 of (rs, c2) \<Rightarrow> (r # rs, c2)))"

definition crawl_feeds :: "(int \<Rightarrow> 'u crawl_lib) \<Rightarrow> feed list \<Rightarrow> int \<Rightarrow> crawler \<Rightarrow> crawl_summary \<times> crawler" where
  "crawl_feeds W fs now c =
     (case crawl_each W fs now c of
        (rs, c') \<Rightarrow> (\<lparr>cy_feeds = length fs, cy_new = sum_list (map cr_new rs),
                      cy_errors = length (filter (\<lambda>r. cr_err r \<noteq> None) rs), cy_results = rs\<rparr>, c'))"

definition crawl_due :: "(int \<Rightarrow> 'u crawl_lib) \<Rightarrow> int \<Rightarrow> int \<Rightarrow> crawler \<Rightarrow> crawl_summary \<times> crawler" where
  "crawl_due W now limit c =
     (case claim_due_feeds (cw_db c) (unix now) limit of (fs, d) \<Rightarrow> crawl_feeds W fs now (c\<lparr>cw_db := d\<rparr>))"

definition crawl_all :: "(int \<Rightarrow> 'u crawl_lib) \<Rightarrow> int \<Rightarrow> crawler \<Rightarrow> crawl_summary \<times> crawler" where
  "crawl_all W now c = crawl_feeds W (list_feeds (cw_db c)) now c"

section \<open>A concrete outside world, for witnesses\<close>

definition answering :: "int \<Rightarrow> string \<Rightarrow> http_env" where
  \<comment> \<open>every request is answered with this status and body\<close>
  "answering status body =
     \<lparr>he_parse = (\<lambda>u. Some \<lparr>pu_scheme = ''http'', pu_host = ''h'', pu_path = ''/''\<rparr>),
      he_resolve = (\<lambda>b l. None), he_acquire = (\<lambda>_ _. True), he_build = (\<lambda>_. True),
      he_send = (\<lambda>_ q. Some \<lparr>rs_status = status, rs_location = [], rs_content_type = [], rs_etag = [],
         rs_last_modified = [], rs_retry_after = [], rs_body = Some body\<rparr>),
      he_until = (\<lambda>_. None)\<rparr>"

definition sample_item :: feed_item where
  "sample_item = \<lparr>fi_title = ''T'', fi_link = ''http://h/1'', fi_guid = ''g'', fi_content = ''S'', fi_description = [],
     fi_author = None, fi_published = Some 0, fi_updated = None\<rparr>"

definition sample_articles :: "string article_lib" where
  "sample_articles =
     \<lparr>al_urls = sample_urls, al_pages = sample_pages, al_dates = sl_dates sample_sel,
      al_readable = (\<lambda>_ _. None), al_json = (\<lambda>_. None), al_render = (\<lambda>_. None), al_sanitize = (\<lambda>s. s),
      al_sha = (\<lambda>s. s), al_bp_dec = (\<lambda>_. None), al_bp_enc = (\<lambda>_. ''B'')\<rparr>"

definition sample_world :: "int \<Rightarrow> (store_call \<Rightarrow> bool) \<Rightarrow> string crawl_lib" where
  \<comment> \<open>every request is answered with the status; a feed is the one item\<close>
  "sample_world status fails =
     \<lparr>cl_articles = sample_articles, cl_net = (\<lambda>_. answering status ''b''), cl_fetcher = new_fetcher [] 0,
      cl_clock = (\<lambda>_. 0),
      cl_pw = \<lparr>pw_dec_config = (\<lambda>_. None), pw_dec_state = (\<lambda>_. None), pw_enc_state = (\<lambda>_. ''?''),
        pw_enc_patterns = (\<lambda>_. []), pw_regex = (\<lambda>_. None), pw_stamp = (\<lambda>_. []), pw_rfc3339 = (\<lambda>_. [])\<rparr>,
      cl_sel = sample_sel, cl_decode = (\<lambda>b _. Some b),
      cl_gofeed = (\<lambda>_. Some \<lparr>doc_title = ''D'', doc_link = [], doc_items = [sample_item]\<rparr>),
      cl_fails = fails, cl_text = (\<lambda>_. ''failed''), cl_quote = (\<lambda>s. s), cl_jitter = 0,
      cl_min = default_min_interval, cl_max = default_max_interval\<rparr>"

definition sample_feed :: feed where
  "sample_feed = \<lparr>fd_id = 1, fd_url = ''http://h/'', fd_site = None, fd_title = [], fd_desc = [], fd_favicon = None,
     fd_etag = None, fd_lastmod = None, fd_hash = None, fd_interval = 600, fd_next = 0, fd_fetched = None,
     fd_success = None, fd_status = None, fd_errors = 0, fd_lasterr = None, fd_created = 0, fd_updated = 0\<rparr>"

definition sample_crawl_db :: db where
  "sample_crawl_db = (init_db 0)\<lparr>feeds := [sample_feed]\<rparr>"

definition sample_answer :: "int \<Rightarrow> fetch_result" where
  "sample_answer status = \<lparr>fr_status = status, fr_not_modified = False, fr_body = ''b'', fr_content_type = [],
     fr_etag = [], fr_last_modified = [], fr_retry_after = 0, fr_final_url = ''http://h/'', fr_permanent = False\<rparr>"

lemma sample_crawl_fetch:
  assumes "status \<notin> {301, 302, 303, 304, 307, 308}"
  shows "crawl_fetch (sample_world status fails) sample_feed = Inr (sample_answer status)"
proof -
  have "cut_scrape_prefix (fd_url sample_feed) = None" by (simp add: sample_feed_def) code_simp
  then show ?thesis
    using assms by (simp add: crawl_fetch_def sample_world_def sample_feed_def fetch_def fetch_from.simps do_request_def
      answering_def build_request_def build_result_def redirect_location_def parse_retry_after_def
      new_fetcher_def default_max_body_def max_redirect_hops_def sample_answer_def Let_def)
qed

end
