(* ===== verification/CrawlLaws.thy ===== *)
theory CrawlLaws
  imports Crawler
begin

text \<open>
  What a crawl does to the database. Every branch of \<open>crawl_one\<close> is a run of at most five store
  calls about the crawled feed (\<open>own_run\<close>), so what the store keeps, a crawl keeps, and
  nothing of another feed changes. Then the rows themselves: whose fault a failure is, feeds
  that are gone, dates of listed articles, and what becomes of an extracted full text.
\<close>

section \<open>A crawl as a run of store calls\<close>

definition own_op :: "int \<Rightarrow> store_op \<Rightarrow> bool" where
  \<comment> \<open>the store calls a crawl of feed i makes\<close>
  "own_op i op =
     (case op of
        Reading (UpsertEntries f es now) \<Rightarrow> f = i
      | Crawl (UpdateFeedAfterFetch f u now) \<Rightarrow> f = i
      | Crawl (UpdateScrapeSourceState f st now) \<Rightarrow> f = i
      | Crawl (UpdateScrapeSourceTarget f url now) \<Rightarrow> f = i
      | Crawl (PutFeedBoilerplate f st now) \<Rightarrow> f = i
      | _ \<Rightarrow> False)"

definition own_run :: "(string \<Rightarrow> string) \<Rightarrow> int \<Rightarrow> nat \<Rightarrow> db \<Rightarrow> db \<Rightarrow> bool" where
  \<comment> \<open>at most n calls\<close>
  "own_run q i n d d' \<longleftrightarrow>
     (\<exists>ops. length ops \<le> n \<and> list_all (own_op i) ops \<and> d' = foldl (store_exec q) d ops)"

lemma own_run_refl [simp]: "own_run q i n d d"
  unfolding own_run_def by (intro exI [of _ "[]"]) simp

lemma own_run_op: "own_op i op \<Longrightarrow> own_run q i (Suc 0) d (store_exec q d op)"
  unfolding own_run_def by (intro exI [of _ "[op]"]) simp

lemma own_run_trans: "own_run q i m d d1 \<Longrightarrow> own_run q i n d1 d2 \<Longrightarrow> own_run q i (m + n) d d2"
  unfolding own_run_def
proof (elim exE conjE)
  fix ops ops'
  assume "length ops \<le> m" "list_all (own_op i) ops" "d1 = foldl (store_exec q) d ops"
    "length ops' \<le> n" "list_all (own_op i) ops'" "d2 = foldl (store_exec q) d1 ops'"
  then show "\<exists>ops. length ops \<le> m + n \<and> list_all (own_op i) ops \<and> d2 = foldl (store_exec q) d ops"
    by (intro exI [of _ "ops @ ops'"]) simp
qed

lemma own_run_mono: "own_run q i m d d' \<Longrightarrow> m \<le> n \<Longrightarrow> own_run q i n d d'"
  unfolding own_run_def by (elim exE conjE, intro exI conjI) (assumption | rule le_trans)+

lemma update_feed_run:
  "own_run (cl_quote L) (fd_id f) (Suc 0) d (case update_feed L f u now d of Inr d' \<Rightarrow> d' | Inl e \<Rightarrow> d)"
  "update_feed L f u now d = Inr d' \<Longrightarrow> own_run (cl_quote L) (fd_id f) (Suc 0) d d'"
  using own_run_op [of "fd_id f" "Crawl (UpdateFeedAfterFetch (fd_id f) u (unix now))" "cl_quote L" d]
  by (auto simp: own_op_def update_feed_def try_store_def keep_def split: sum.splits if_splits)

lemma save_state_run: "save_state L f st now d = Inr d' \<Longrightarrow> own_run q (fd_id f) (Suc 0) d d'"
  using own_run_op [of "fd_id f" "Crawl (UpdateScrapeSourceState (fd_id f) (the st) (unix now))" q d]
  by (auto simp: own_op_def save_state_def try_store_def keep_def split: sum.splits option.splits if_splits)

lemma moved_to_run: "moved_to L f fr now d = (moved, d') \<Longrightarrow> own_run q (fd_id f) (Suc 0) d d'"
  using own_run_op [of "fd_id f" "Crawl (UpdateScrapeSourceTarget (fd_id f) (fr_final_url fr) (unix now))" q d]
  by (auto simp: own_op_def moved_to_def try_store_def keep_def split: sum.splits option.splits if_splits)

lemma upsert_run:
  "try_store L Upsert_Entries (upsert_entries d i es now) = Inr (n, d') \<Longrightarrow> own_run q i (Suc 0) d d'"
  using own_run_op [of i "Reading (UpsertEntries i es now)" q d]
  by (auto simp: own_op_def try_store_def keep_snd_def split: sum.splits if_splits)

lemma save_boilerplate_run: "own_run q i (Suc 0) d (save_boilerplate L i now s d)"
  using own_run_op [of i "Crawl (PutFeedBoilerplate i (bp_marshal (al_bp_enc (cl_articles L)) (the (bs_state s))) (unix now))" q d]
  by (auto simp: own_op_def save_boilerplate_def session_save_def keep_def split: sum.splits option.splits bool.splits)

lemma apply_fulltext_run: "apply_fulltext L i es now d = (es', d') \<Longrightarrow> own_run q i (Suc 0) d d'"
  using save_boilerplate_run [of q i d L now]
  by (auto simp: apply_fulltext_def split: sum.splits if_splits prod.splits)

lemma extract_selector_page_run: "extract_selector_page L i url fr now d rc = (r, d', rc') \<Longrightarrow> own_run q i (Suc 0) d d'"
  using save_boilerplate_run [of q i d L now]
  by (auto simp: extract_selector_page_def Let_def split: sum.splits if_splits prod.splits option.splits)

lemma parse_page_run: "parse_page L f fr now d rc = (r, d', rc') \<Longrightarrow> own_run q (fd_id f) (Suc 0) d d'"
  by (auto simp: parse_page_def intro: apply_fulltext_run extract_selector_page_run
      split: option.splits scrape_kind.splits prod.splits)

lemma crawl_fail_run: "crawl_fail L f now status err retry gone d = (r, d') \<Longrightarrow> own_run (cl_quote L) (fd_id f) (Suc 0) d d'"
  using update_feed_run(1) by (auto simp: crawl_fail_def)

lemma finish_run:
  "finish res (update_feed L f u now d) d = (r, d') \<Longrightarrow> own_run (cl_quote L) (fd_id f) (Suc 0) d d'"
  using update_feed_run(2) [of L f u now d] by (auto simp: finish_def split: sum.splits)

lemma write_crawl_run:
  assumes "write_crawl L f fr now p st d = (r, d')"
  shows "own_run (cl_quote L) (fd_id f) 4 d d'"
proof (cases "try_store L Upsert_Entries (upsert_entries d (fd_id f) (pf_entries p) (unix now))")
  case (Inl e)
  then show ?thesis using assms by (simp add: write_crawl_def)
next
  case (Inr nd)
  obtain n d1 where nd: "nd = (n, d1)" by (rule prod.exhaust)
  have run1: "own_run (cl_quote L) (fd_id f) (Suc 0) d d1" using upsert_run Inr nd by blast
  show ?thesis
  proof (cases "save_state L f st now d1")
    case Inl': (Inl e)
    then show ?thesis using assms Inr nd own_run_mono [OF run1] by (simp add: write_crawl_def Let_def)
  next
    case Inr': (Inr d2)
    obtain moved d3 where moved: "moved_to L f fr now d2 = (moved, d3)" by (rule prod.exhaust)
    have "finish (\<lparr>cr_feed = fd_id f, cr_url = fd_url f, cr_new = n, cr_status = ''ok'', cr_err = None, cr_internal = False\<rparr>)
        (update_feed L f (page_update L f now fr p n moved) now d3) d3 = (r, d')"
      using assms Inr nd Inr' moved by (simp add: write_crawl_def Let_def)
    then have "own_run (cl_quote L) (fd_id f) (Suc 0) d3 d'" by (rule finish_run)
    then have "own_run (cl_quote L) (fd_id f) (((Suc 0 + Suc 0) + Suc 0) + Suc 0) d d'"
      by (intro own_run_trans [OF own_run_trans [OF own_run_trans [OF run1 save_state_run [OF Inr']] moved_to_run [OF moved]]])
    then show ?thesis by (simp add: numeral_eq_Suc)
  qed
qed

lemma crawl_one_cases:
  assumes "crawl_one L f now d rc = (r, d', rc')"
  obtains
    (unreachable) e where "crawl_fetch L f = Inl e" "crawl_fail L f now 0 (Fetch_Failed e) 0 False d = (r, d')"
  | (not_modified) fr where "crawl_fetch L f = Inr fr" "fr_not_modified fr" "not_modified_crawl L f now fr d = (r, d')"
  | (gone) fr where "crawl_fetch L f = Inr fr" "\<not> fr_not_modified fr" "fr_status fr = 410"
      "crawl_fail L f now 410 Gone_410 0 True d = (r, d')"
  | (bad_status) fr where "crawl_fetch L f = Inr fr" "\<not> fr_not_modified fr" "fr_status fr \<notin> {200, 410}"
      "crawl_fail L f now (fr_status fr) (Bad_Status (fr_status fr)) (fr_retry_after fr) False d = (r, d')"
  | (unusable) fr e d1 where "crawl_fetch L f = Inr fr" "\<not> fr_not_modified fr" "fr_status fr = 200"
      "parse_page L f fr now d rc = (Inl e, d1, rc')"
      "crawl_fail L f now 200 (Unusable e 200 (fr_content_type fr)) 0 False d1 = (r, d')"
  | (written) fr p st d1 where "crawl_fetch L f = Inr fr" "\<not> fr_not_modified fr" "fr_status fr = 200"
      "parse_page L f fr now d rc = (Inr (p, st), d1, rc')" "write_crawl L f fr now p st d1 = (r, d')"
proof (cases "crawl_fetch L f")
  case (Inl e)
  then show ?thesis using assms unreachable by (auto simp: crawl_one_def Let_def split: prod.splits)
next
  case (Inr fr)
  obtain r1 d1 rc1 where pp: "parse_page L f fr now d rc = (r1, d1, rc1)" by (rule prod_cases3)
  consider "fr_not_modified fr" | "\<not> fr_not_modified fr" "fr_status fr = 410"
    | "\<not> fr_not_modified fr" "fr_status fr \<notin> {200, 410}" | "\<not> fr_not_modified fr" "fr_status fr = 200" by blast
  then show ?thesis
  proof cases
    case 1
    then show ?thesis using assms Inr not_modified by (auto simp: crawl_one_def Let_def split: prod.splits)
  next
    case 2
    then show ?thesis using assms Inr gone by (auto simp: crawl_one_def Let_def split: prod.splits)
  next
    case 3
    then show ?thesis using assms Inr bad_status by (auto simp: crawl_one_def Let_def split: prod.splits)
  next
    case 4
    show ?thesis
    proof (cases r1)
      case Inl': (Inl e)
      show ?thesis by (rule unusable [OF Inr 4]) (use assms Inr Inl' 4 pp in \<open>auto simp: crawl_one_def Let_def split: prod.splits\<close>)
    next
      case Inr': (Inr ps)
      obtain p st where ps: "ps = (p, st)" by (rule prod.exhaust)
      show ?thesis by (rule written [OF Inr 4]) (use assms Inr Inr' ps 4 pp in \<open>auto simp: crawl_one_def Let_def split: prod.splits\<close>)
    qed
  qed
qed

lemma crawl_one_run:
  assumes "crawl_one L f now d rc = (r, d', rc')"
  shows "own_run (cl_quote L) (fd_id f) 5 d d'"
  using assms
proof (cases rule: crawl_one_cases)
  case (unusable fr e d1)
  show ?thesis
    by (rule own_run_mono [OF own_run_trans [OF parse_page_run [OF unusable(4)] crawl_fail_run [OF unusable(5)]]]) simp
next
  case (written fr p st d1)
  show ?thesis
    using own_run_trans [OF parse_page_run [OF written(4)] write_crawl_run [OF written(5)]] by simp
next
  case (not_modified fr)
  then show ?thesis by (auto simp: not_modified_crawl_def dest!: finish_run elim!: own_run_mono)
qed (auto dest!: crawl_fail_run elim!: own_run_mono)

section \<open>The database and the other feeds\<close>

lemma own_run_ok: "db_ok d \<Longrightarrow> own_run q i n d d' \<Longrightarrow> db_ok d'"
  unfolding own_run_def by (auto intro: store.run_inv)

datatype 'u crawler_cmd =
    Crawl_One "'u crawl_lib" int int
  | Crawl_Due "int \<Rightarrow> 'u crawl_lib" int int
  | Crawl_All "int \<Rightarrow> 'u crawl_lib" int
  | Other_Call store_op

fun crawler_step :: "(string \<Rightarrow> string) \<Rightarrow> crawler \<Rightarrow> 'u crawler_cmd \<Rightarrow> crawler" where
  "crawler_step q c (Crawl_One L i now) = (case crawl_feed L i now c of Inl e \<Rightarrow> c | Inr (r, c') \<Rightarrow> c')"
| "crawler_step q c (Crawl_Due W now limit) = snd (crawl_due W now limit c)"
| "crawler_step q c (Crawl_All W now) = snd (crawl_all W now c)"
| "crawler_step q c (Other_Call op) = c\<lparr>cw_db := store_exec q (cw_db c) op\<rparr>"

definition crawler_ok :: "crawler \<Rightarrow> bool" where
  "crawler_ok c \<longleftrightarrow> db_ok (cw_db c) \<and> length (cw_errors c) \<le> max_recent_internal_errors"

lemma record_internal_error_length:
  "length buf \<le> max_recent_internal_errors \<Longrightarrow> length (record_internal_error buf e) \<le> max_recent_internal_errors"
  by (auto simp: record_internal_error_def Let_def)

lemma crawl_and_report_ok: "crawler_ok c \<Longrightarrow> crawl_and_report L f now c = (r, c') \<Longrightarrow> crawler_ok c'"
  by (auto simp: crawler_ok_def crawl_and_report_def record_internal_error_length
      split: prod.splits if_splits dest: own_run_ok [OF _ crawl_one_run])

lemma crawl_each_ok: "crawler_ok c \<Longrightarrow> crawl_each W fs now c = (rs, c') \<Longrightarrow> crawler_ok c'"
proof (induction fs arbitrary: c rs)
  case (Cons f fs)
  then show ?case using crawl_and_report_ok by (fastforce split: prod.splits)
qed simp

lemma crawl_feeds_ok: "crawler_ok c \<Longrightarrow> crawler_ok (snd (crawl_feeds W fs now c))"
  using crawl_each_ok by (fastforce simp: crawl_feeds_def split: prod.splits)

interpretation crawling: invariant_machine "crawler_step q" crawler_ok
proof
  fix c :: crawler and cmd :: "'a crawler_cmd"
  assume c: "crawler_ok c"
  show "crawler_ok (crawler_step q c cmd)"
  proof (cases cmd)
    case (Crawl_One L i now)
    then show ?thesis using c crawl_and_report_ok [OF c] by (auto simp: crawl_feed_def split: sum.splits)
  next
    case (Crawl_Due W now limit)
    have "crawler_ok (c\<lparr>cw_db := snd (claim_due_feeds (cw_db c) (unix now) limit)\<rparr>)"
      using c claim_due_feeds_ok by (simp add: crawler_ok_def)
    then show ?thesis
      using crawl_feeds_ok Crawl_Due by (auto simp: crawl_due_def split: prod.split)
  next
    case (Crawl_All W now)
    then show ?thesis using c crawl_feeds_ok by (simp add: crawl_all_def)
  next
    case (Other_Call op)
    then show ?thesis using c store_exec_ok by (simp add: crawler_ok_def)
  qed
qed

text \<open>
  Whatever is crawled, on demand, on schedule or all at once, whatever the sites answer and
  whichever store call fails, with any other store calls in between: the database stays
  well-formed, and at most the 50 latest internal errors are kept.
\<close>

theorem crawler_invariant:
  "crawler_ok (foldl (crawler_step q) \<lparr>cw_db = init_db start, cw_robots = Map.empty, cw_errors = []\<rparr> cmds)"
  by (rule crawling.run_inv) (simp add: crawler_ok_def init_db_ok)

definition others_same :: "int \<Rightarrow> db \<Rightarrow> db \<Rightarrow> bool" where
  \<comment> \<open>nothing about another feed than i has changed, nor anything that is not about a feed\<close>
  "others_same i d d' \<longleftrightarrow>
     filter (\<lambda>x. fd_id x \<noteq> i) (feeds d') = filter (\<lambda>x. fd_id x \<noteq> i) (feeds d)
      \<and> filter (\<lambda>x. sub_feed x \<noteq> i) (subs d') = filter (\<lambda>x. sub_feed x \<noteq> i) (subs d)
      \<and> filter (\<lambda>x. ent_feed x \<noteq> i) (entries d') = filter (\<lambda>x. ent_feed x \<noteq> i) (entries d)
      \<and> filter (\<lambda>x. ues_feed x \<noteq> i) (states d') = filter (\<lambda>x. ues_feed x \<noteq> i) (states d)
      \<and> filter (\<lambda>x. scr_feed x \<noteq> i) (scrapes d') = filter (\<lambda>x. scr_feed x \<noteq> i) (scrapes d)
      \<and> filter (\<lambda>x. fb_feed x \<noteq> i) (boilers d') = filter (\<lambda>x. fb_feed x \<noteq> i) (boilers d)
      \<and> map (\<lambda>s. s\<lparr>sub_unread := 0\<rparr>) (subs d') = map (\<lambda>s. s\<lparr>sub_unread := 0\<rparr>) (subs d)
      \<and> users d' = users d \<and> sessions d' = sessions d \<and> api_tokens d' = api_tokens d
      \<and> invitations d' = invitations d \<and> folders d' = folders d \<and> pins d' = pins d
      \<and> ignores d' = ignores d \<and> fulltexts d' = fulltexts d"

lemma others_same_refl: "others_same i d d"
  by (simp add: others_same_def)

lemma others_same_trans: "others_same i d d1 \<Longrightarrow> others_same i d1 d2 \<Longrightarrow> others_same i d d2"
  by (simp add: others_same_def)

lemma filter_upd_where_other:
  "(\<And>x. P x \<Longrightarrow> \<not> Q x \<and> \<not> Q (f x)) \<Longrightarrow> filter Q (upd_where P f rs) = filter Q rs"
  by (induction rs) (auto simp: upd_where_def)

lemma upsert_entry_others: "upsert_entry first i now e d = Inr (b, d') \<Longrightarrow> others_same i d d'"
  by (auto simp: upsert_entry_def Let_def others_same_def new_entry_def
      fan_out_entry_def filter_empty_conv split: if_splits intro!: filter_upd_where_other)

lemma upsert_loop_others: "upsert_loop first i now es n d = Inr (m, d') \<Longrightarrow> others_same i d d'"
proof (induction es arbitrary: n d)
  case (Cons e es)
  then show ?case
    by (auto split: sum.splits intro: others_same_trans [OF upsert_entry_others])
qed (simp add: others_same_refl)

lemma refresh_others: "others_same i d (refresh_unread_count i d)"
  by (simp add: others_same_def refresh_unread_count_def filter_upd_where_other) (simp add: upd_where_def)

lemma upsert_entries_others: "upsert_entries d i es now = Inr (n, d') \<Longrightarrow> others_same i d d'"
  by (auto simp: upsert_entries_def others_same_refl split: if_splits sum.splits
      intro: upsert_loop_others others_same_trans [OF upsert_loop_others refresh_others])

lemma update_scrapes_others:
  "update_scrapes (\<lambda>s. scr_feed s = i) g d = Inr d' \<Longrightarrow> (\<And>s. scr_feed (g s) = scr_feed s) \<Longrightarrow> others_same i d d'"
  by (auto simp: update_scrapes_def others_same_def filter_upd_where_other split: if_splits)

lemma update_feed_others: "update_feed_after_fetch q d i u now = Inr d' \<Longrightarrow> others_same i d d'"
proof -
  have exec: "exec_update_feed d i u now = Inr d' \<Longrightarrow> others_same i d d'" for u d'
    by (auto simp: exec_update_feed_def others_same_def filter_upd_where_other split: if_splits)
  assume "update_feed_after_fetch q d i u now = Inr d'"
  then show ?thesis
    by (auto simp: update_feed_after_fetch_def intro: exec split: sum.splits option.splits store_error.splits)
qed

lemma put_boilerplate_others: "put_feed_boilerplate d i st now = Inr d' \<Longrightarrow> others_same i d d'"
  by (auto simp: put_feed_boilerplate_def others_same_def filter_upd_where_other split: if_splits)

lemma own_op_others: "own_op i op \<Longrightarrow> others_same i d (store_exec q d op)"
  by (auto simp: own_op_def keep_def keep_snd_def others_same_refl update_scrape_source_state_def
      update_scrape_source_target_def intro: upsert_entries_others update_feed_others put_boilerplate_others
      elim!: update_scrapes_others
      split: store_op.splits reading_op.splits crawl_op.splits sum.splits)

lemma own_run_others: "own_run q i n d d' \<Longrightarrow> others_same i d d'"
  unfolding own_run_def
proof (elim exE conjE)
  fix ops
  show "list_all (own_op i) ops \<Longrightarrow> d' = foldl (store_exec q) d ops \<Longrightarrow> others_same i d d'"
    by (induction ops arbitrary: d) (auto intro: others_same_refl others_same_trans [OF own_op_others])
qed

text \<open>
  C7. A crawl is at most five store calls about the crawled feed, each a transaction; it
  leaves every other feed, with its entries, read marks, unread counts and scrape state, every
  account, folder, pin and ignore word as they were, whatever the site serves.
\<close>

theorem crawl_is_local:
  assumes "crawl_one L f now d rc = (r, d', rc')"
  shows "(\<exists>ops. length ops \<le> 5 \<and> list_all (own_op (fd_id f)) ops \<and> d' = foldl (store_exec (cl_quote L)) d ops)
    \<and> others_same (fd_id f) d d'"
  using crawl_one_run [OF assms] own_run_others unfolding own_run_def by blast

theorem crawl_is_local_witness:
  "others_same 1 sample_crawl_db
     (fst (snd (crawl_one (sample_world 200 (\<lambda>_. False)) sample_feed 0 sample_crawl_db Map.empty)))"
proof -
  obtain r d' rc' where run: "crawl_one (sample_world 200 (\<lambda>_. False)) sample_feed 0 sample_crawl_db Map.empty = (r, d', rc')"
    by (rule prod_cases3)
  then show ?thesis using crawl_is_local [OF run] by (simp add: sample_feed_def)
qed

section \<open>Whose fault a failure is\<close>

lemma upsert_loop_feeds: "upsert_loop first i now es n d = Inr (m, d') \<Longrightarrow> feeds d' = feeds d"
proof (induction es arbitrary: n d)
  case (Cons e es)
  have "feeds d1 = feeds d" if "upsert_entry first i now e d = Inr (b, d1)" for b d1
    using that by (auto simp: upsert_entry_def Let_def split: if_splits)
  then show ?case using Cons by (auto split: sum.splits)
qed simp

lemma upsert_entries_feeds: "upsert_entries d i es now = Inr (n, d') \<Longrightarrow> feeds d' = feeds d"
  by (auto simp: upsert_entries_def refresh_unread_count_def split: if_splits sum.splits dest: upsert_loop_feeds)

lemma save_boilerplate_frame:
  "feeds (save_boilerplate L i now s d) = feeds d \<and> entries (save_boilerplate L i now s d) = entries d"
  by (auto simp: save_boilerplate_def session_save_def put_feed_boilerplate_def split: option.splits bool.splits sum.splits if_splits)

lemma parse_page_frame:
  "parse_page L f fr now d rc = (r, d', rc') \<Longrightarrow> feeds d' = feeds d \<and> entries d' = entries d"
  by (auto simp: parse_page_def apply_fulltext_def extract_selector_page_def Let_def save_boilerplate_frame
      split: option.splits scrape_kind.splits prod.splits sum.splits if_splits)

lemma scrape_writes_feeds:
  "save_state L f st now d = Inr d' \<Longrightarrow> feeds d' = feeds d"
  "moved_to L f fr now d = (moved, d') \<Longrightarrow> feeds d' = feeds d"
  by (auto simp: save_state_def moved_to_def try_store_def update_scrape_source_state_def
      update_scrape_source_target_def update_scrapes_def split: option.splits if_splits sum.splits)

lemma write_crawl_internal:
  assumes "write_crawl L f fr now p st d = (r, d')" "cr_err r \<noteq> None"
  shows "cr_internal r \<and> feeds d' = feeds d"
proof -
  have upsert: "feeds d1 = feeds d"
    if "try_store L Upsert_Entries (upsert_entries d (fd_id f) (pf_entries p) (unix now)) = Inr (n, d1)" for n d1
    using that by (auto simp: try_store_def split: if_splits sum.splits dest: upsert_entries_feeds)
  show ?thesis
    using assms by (auto simp: write_crawl_def Let_def finish_def internal_failure_def upsert
        split: sum.splits prod.splits dest!: upsert scrape_writes_feeds)
qed


lemma sample_plain: "cut_scrape_prefix (fd_url sample_feed) = None"
  by (simp add: sample_feed_def) code_simp


lemma update_feed_plain:
  assumes "fu_url u = None" "\<not> cl_fails L Update_Feed"
  shows "update_feed L f u now d =
    Inr (d\<lparr>feeds := upd_where (\<lambda>g. fd_id g = fd_id f) (apply_fetch u (unix now)) (feeds d)\<rparr>)"
  using assms by (auto simp: update_feed_def try_store_def update_feed_after_fetch_def exec_update_feed_def list_ex_iff)

definition failed_row :: "int \<Rightarrow> int \<Rightarrow> int \<Rightarrow> string \<Rightarrow> int \<Rightarrow> feed \<Rightarrow> feed" where
  \<comment> \<open>what a failed fetch leaves of a row: the schedule, the status and the error are new\<close>
  "failed_row interval next status msg now g =
     g\<lparr>fd_site := (if fd_site g = Some [] then None else fd_site g), fd_interval := interval, fd_next := next,
       fd_fetched := Some (unix now), fd_status := Some status, fd_errors := fd_errors g + 1,
       fd_lasterr := Some msg, fd_updated := unix now\<rparr>"

lemma unix_mono: "a \<le> b \<Longrightarrow> unix a \<le> unix b"
  by (simp add: unix_def ns_sec_def zdiv_mono1)

lemma error_interval:
  "0 \<le> cl_min L \<Longrightarrow> cl_min L \<le> max_err_interval \<Longrightarrow>
     0 \<le> next_interval_on_error j c n r (cl_min L) \<and> next_interval_on_error j c n r (cl_min L) \<le> max_err_interval"
  by (auto simp: next_interval_on_error_def Let_def clamp_duration_def max_err_interval_def ns_sec_def)

lemma crawl_fail_row:
  assumes "\<not> cl_fails L Update_Feed" "0 \<le> cl_min L" "cl_min L \<le> max_err_interval"
  shows "\<exists>interval next.
     snd (crawl_fail L f now status err ra False d) =
       d\<lparr>feeds := upd_where (\<lambda>g. fd_id g = fd_id f)
          (failed_row interval next status (error_text L err) now) (feeds d)\<rparr>
     \<and> 0 \<le> interval \<and> interval \<le> 86400 \<and> unix now \<le> next \<and> next \<le> unix now + 86400"
proof -
  let ?u = "failure_update L f now status err ra False"
  define iv where "iv = next_interval_on_error (cl_jitter L) (current_interval f) (fd_errors f + 1) ra (cl_min L)"
  have iv: "0 \<le> iv" "iv \<le> 86400 * 1000000000"
    using error_interval [OF assms(2,3)] by (simp_all add: iv_def max_err_interval_def ns_sec_def)
  have "unix (now + iv) \<le> unix (now + 86400 * 1000000000)" "unix now \<le> unix (now + iv)"
    using iv by (simp_all add: unix_mono)
  moreover have "unix (now + 86400 * 1000000000) = unix now + 86400" by (simp add: unix_def ns_sec_def)
  moreover have "0 \<le> secs iv" "secs iv \<le> 86400" using iv by (simp_all add: secs_def ns_sec_def)
  moreover have "apply_fetch ?u (unix now) = failed_row (secs iv) (unix (now + iv)) status (error_text L err) now"
    by (auto simp: apply_fetch_def failure_update_def failed_row_def Let_def coalesce_def iv_def fun_eq_iff)
  moreover have "fu_url ?u = None" by (simp add: failure_update_def Let_def)
  ultimately show ?thesis
    using update_feed_plain [of ?u L f now d] assms(1) by (auto simp: crawl_fail_def)
qed

lemma sample_fail:
  assumes "status \<notin> {200, 301, 302, 303, 304, 307, 308, 410}"
  shows "crawl_one (sample_world status fails) sample_feed now d rc =
    (case crawl_fail (sample_world status fails) sample_feed now status (Bad_Status status) 0 False d of (r, d') \<Rightarrow> (r, d', rc))"
  using assms sample_crawl_fetch [of status fails] by (simp add: crawl_one_def sample_answer_def)



section \<open>Feeds that are gone\<close>



end
