(* ===== verification/EnrichLaws.thy ===== *)
theory EnrichLaws
  imports CrawlLaws
begin

text \<open>
  What a crawl makes of the entries on their way to the store: full texts (at most twenty page
  fetches, and never for entries the store has), what the next crawl does to a stored full text,
  and the items of a selector listing (always dated, retried at most twice).
\<close>

section \<open>Parsed feeds\<close>

lemma truncate_utf8_length: "length (truncate_utf8 s n) \<le> n"
  using drop_partial_prefix [of "take n s"] by (auto simp: truncate_utf8_def)

lemma resolve_url_safe:
  "resolve_url U base ref = [] \<or>
     (\<exists>u. resolve_url U base ref = ul_string U u \<and> (ul_scheme U u = ''http'' \<or> ul_scheme U u = ''https''))"
  by (auto simp: resolve_url_def Let_def split: option.split)

text \<open>
  Whatever a feed contains, at most 1000 entries come out of it, in its order; each has a body of at most
  512 KiB, a link that is empty or an http or https URL, and a publish date at most an
  hour ahead of the clock.
\<close>

theorem parsed_feed_is_bounded:
  "length (pf_entries (parsed_feed_of A doc url now)) = min 1000 (length (doc_items doc))
    \<and> list_all (\<lambda>e. length (in_body e) \<le> 512 * 1024
        \<and> (in_url e = [] \<or> (\<exists>u. in_url e = ul_string (al_urls A) u
              \<and> (ul_scheme (al_urls A) u = ''http'' \<or> ul_scheme (al_urls A) u = ''https'')))
        \<and> in_pub e \<le> unix (now + hour_ns)) (pf_entries (parsed_feed_of A doc url now))"
proof -
  have pub: "unix (case fi_published item of Some t \<Rightarrow> if t \<le> now + hour_ns then t else now | None \<Rightarrow> now) \<le> unix (now + hour_ns)"
    for item
    by (rule unix_mono) (auto simp: hour_ns_def ns_sec_def split: option.split)
  have "length (in_body (normalize_item A item base now)) \<le> 512 * 1024 \<and> in_pub (normalize_item A item base now) \<le> unix (now + hour_ns)"
    for item base
    using truncate_utf8_length [of _ "512 * 1024"] pub [of item]
    unfolding normalize_item_def Let_def clean_body_def max_body_bytes_def by simp
  moreover have "in_url (normalize_item A item base now) = resolve_url (al_urls A) base (fi_link item)" for item base
    by (simp add: normalize_item_def Let_def)
  ultimately show ?thesis
    using resolve_url_safe [of "al_urls A"] unfolding parsed_feed_of_def Let_def
    by (simp add: list_all_iff max_entries_per_feed_def min.commute)
qed

section \<open>The publish date of an article with two candidates\<close>

text \<open>
  The date read from JSON-LD is not a function of the page: in an object with two articles under
  different keys the date found depends on the order in which the map is walked, which Go leaves
  unspecified.
\<close>

theorem jsonld_date_depends_on_map_order:
  "scan_jsonld (J_Object [(''a'', J_Object [(''@type'', J_String ''Article''), (''datePublished'', J_String ''x'')]),
                          (''b'', J_Object [(''@type'', J_String ''Article''), (''datePublished'', J_String ''y'')])]) = ''x''
   \<and> scan_jsonld (J_Object [(''b'', J_Object [(''@type'', J_String ''Article''), (''datePublished'', J_String ''y'')]),
                          (''a'', J_Object [(''@type'', J_String ''Article''), (''datePublished'', J_String ''x'')])]) = ''y''"
  by (simp add: own_date_def jsonld_type_def article_like_def)

section \<open>Full texts\<close>

definition enriched :: "string set \<Rightarrow> entry_input \<Rightarrow> entry_input \<Rightarrow> bool" where
  \<comment> \<open>e' is e up to its body, and e itself when the store has it already\<close>
  "enriched existing e e' \<longleftrightarrow>
     e' = e\<lparr>in_body := in_body e', in_hash := in_hash e'\<rparr> \<and> (in_guid e \<in> existing \<longrightarrow> e' = e)"

lemma with_body_enriched: "wants_page existing n e \<Longrightarrow> enriched existing e (with_body L body e)"
  by (auto simp: enriched_def with_body_def wants_page_def split: option.splits)

lemma fulltext_loop_enriches:
  "fulltext_loop L stored existing i es n s = (es', m, s') \<Longrightarrow> n \<le> max_fulltext_fetches \<Longrightarrow>
     list_all2 (enriched existing) es es' \<and> m \<le> max_fulltext_fetches
      \<and> length (filter (\<lambda>(e, e'). e' \<noteq> e) (zip es es')) + n \<le> m"
proof (induction L stored existing i es n s arbitrary: es' m s' rule: fulltext_loop.induct)
  case (1 L stored existing i n s)
  then show ?case by simp
next
  case (2 L stored existing i e es n s)
  show ?case
  proof (cases "wants_page existing n e")
    case True
    obtain body s1 where f: "entry_fulltext L stored i (in_url e) s = (body, s1)" by (rule prod.exhaust)
    obtain es1 k s2 where loop: "fulltext_loop L stored existing (Suc i) es (Suc n) s1 = (es1, k, s2)" by (rule prod_cases3)
    have "Suc n \<le> max_fulltext_fetches" using True by (simp add: wants_page_def)
    from 2(1) [OF True f [symmetric] loop this] show ?thesis
      using 2(3) True f loop with_body_enriched [OF True] by auto
  next
    case False
    obtain es1 k s2 where loop: "fulltext_loop L stored existing (Suc i) es n s = (es1, k, s2)" by (rule prod_cases3)
    from 2(2) [OF False loop 2(4)] show ?thesis
      using 2(3) False loop by (auto simp: enriched_def)
  qed
qed

lemma apply_fulltext_cases:
  assumes "apply_fulltext L i es now d = (es', d')"
  obtains (same) "es' = es" "d' = d"
  | (loop) row n s where "es \<noteq> []" "get_feed_fulltext d i = Inr row"
      "fulltext_loop L (stored_boilerplate L i d) (existing_entry_guids d i (map in_guid es)) 0 es 0 new_session = (es', n, s)"
      "d' = save_boilerplate L i now s d"
proof (cases "es = [] \<or> cl_fails L Existing_Guids")
  case True
  then show ?thesis using assms same by (auto simp: apply_fulltext_def try_store_def split: if_splits sum.splits)
next
  case False
  show ?thesis
  proof (cases "try_store L Get_Fulltext (get_feed_fulltext d i)")
    case (Inl e)
    then show ?thesis using assms same by (auto simp: apply_fulltext_def split: if_splits)
  next
    case (Inr row)
    have row: "get_feed_fulltext d i = Inr row" using Inr by (auto simp: try_store_def split: if_splits sum.splits)
    obtain es1 n s where run: "fulltext_loop L (stored_boilerplate L i d) (existing_entry_guids d i (map in_guid es)) 0 es 0
        new_session = (es1, n, s)" by (rule prod_cases3)
    have "es1 = es'" "d' = save_boilerplate L i now s d"
      using assms False Inr run by (auto simp: apply_fulltext_def try_store_def [of L Existing_Guids])
    then show ?thesis using loop [OF _ row] run False by blast
  qed
qed

lemma apply_fulltext_enriches:
  assumes "apply_fulltext L i es now d = (es', d')"
  shows "list_all2 (enriched (ent_guid ` set (filter (\<lambda>x. ent_feed x = i) (entries d)))) es es'
    \<and> length (filter (\<lambda>(e, e'). e' \<noteq> e) (zip es es')) \<le> max_fulltext_fetches
    \<and> (es' \<noteq> es \<longrightarrow> i \<in> ff_feed ` set (fulltexts d)) \<and> entries d' = entries d"
proof -
  let ?ex = "existing_entry_guids d i (map in_guid es)"
  have same: "enriched ex e e" for ex e by (simp add: enriched_def)
  then have refl: "list_all2 (enriched ex) es es" for ex by (simp add: list_all2_refl)
  have none: "filter (\<lambda>(e, e'). e' \<noteq> e) (zip es es) = []" for es :: "entry_input list"
    by (induction es) auto
  from assms show ?thesis
  proof (cases rule: apply_fulltext_cases)
    case same
    then show ?thesis using refl none by simp
  next
    case (loop row n s)
    note ne = loop(1) and row = loop(2) and d' = loop(4) and loop = loop(3)
    have "list_all2 (enriched ?ex) es es'" "n \<le> max_fulltext_fetches"
      "length (filter (\<lambda>(e, e'). e' \<noteq> e) (zip es es')) \<le> n"
      using fulltext_loop_enriches [OF loop] by simp_all
    moreover have "enriched (ent_guid ` set (filter (\<lambda>x. ent_feed x = i) (entries d))) e e'"
      if "e \<in> set es" "e' \<in> set es'" "enriched ?ex e e'" for e e'
    proof -
      have "in_guid e \<in> ?ex \<longleftrightarrow> in_guid e \<in> ent_guid ` set (filter (\<lambda>x. ent_feed x = i) (entries d))"
        using that(1) ne by (force simp: existing_entry_guids_def)
      then show ?thesis using that(3) by (simp add: enriched_def)
    qed
    then have "list_all2 (enriched (ent_guid ` set (filter (\<lambda>x. ent_feed x = i) (entries d)))) es es'"
      by (rule list.rel_mono_strong [OF calculation(1)])
    moreover have "i \<in> ff_feed ` set (fulltexts d)"
      using row by (auto simp: get_feed_fulltext_def find_Some_iff split: option.splits)
    moreover have "entries d' = entries d" unfolding d' by (rule save_boilerplate_frame [THEN conjunct2])
    ultimately show ?thesis by simp
  qed
qed

text \<open>
  Full-text extraction touches only the bodies of entries the store does not have yet, of at
  most 20 entries per crawl, and only when the feed has it enabled; the number and order of the entries
  and every other field stay.
\<close>

theorem fulltext_is_contained:
  assumes "apply_fulltext L i es now d = (es', d')"
  shows "list_all2 (enriched (ent_guid ` set (filter (\<lambda>x. ent_feed x = i) (entries d)))) es es'
    \<and> length (filter (\<lambda>(e, e'). e' \<noteq> e) (zip es es')) \<le> 20
    \<and> (es' \<noteq> es \<longrightarrow> i \<in> ff_feed ` set (fulltexts d)) \<and> entries d' = entries d"
  using apply_fulltext_enriches [OF assms] by (simp add: max_fulltext_fetches_def)

definition sample_parsed :: parsed_feed where
  "sample_parsed = \<lparr>pf_title = ''D'', pf_site = [], pf_entries =
     [\<lparr>in_guid = ''g'', in_url = ''http://h/1'', in_title = ''T'', in_author = [], in_body = ''S'', in_hash = ''S'',
       in_pub = 0, in_upd = 0, in_missing = False\<rparr>]\<rparr>"

definition sample_full_db :: db where
  \<comment> \<open>the store has the entry with its full text F\<close>
  "sample_full_db = sample_crawl_db\<lparr>
     entries := [\<lparr>ent_id = 1, ent_feed = 1, ent_guid = ''g'', ent_url = ''http://h/1'', ent_title = ''T'', ent_author = [],
       ent_body = ''F'', ent_hash = ''F'', ent_pub = 0, ent_upd = 0, ent_fetched = 0, ent_created = 0\<rparr>],
     fulltexts := [\<lparr>ff_feed = 1, ff_creator = 1, ff_created = 0\<rparr>]\<rparr>"

theorem fulltext_is_contained_witness:
  "\<exists>es' d'. apply_fulltext (sample_world 200 (\<lambda>_. False)) 1 (pf_entries sample_parsed) 0 sample_full_db = (es', d')
     \<and> es' = pf_entries sample_parsed \<and> entries d' = entries sample_full_db"
proof -
  obtain es' d' where run: "apply_fulltext (sample_world 200 (\<lambda>_. False)) 1 (pf_entries sample_parsed) 0 sample_full_db = (es', d')"
    by (rule prod.exhaust)
  from fulltext_is_contained [OF run] have "entries d' = entries sample_full_db"
    "list_all2 (enriched {''g''}) (pf_entries sample_parsed) es'" by (simp_all add: sample_full_db_def)
  moreover from this(2) have "es' = pf_entries sample_parsed"
    by (auto simp: sample_parsed_def enriched_def list_all2_Cons1)
  ultimately show ?thesis using run by blast
qed

section \<open>What the next crawl does to a full text\<close>

lemma rows_of_update:
  assumes "\<And>x. P x \<Longrightarrow> Q (f x)"
  shows "\<forall>y \<in> set (upd_where P f rs). Q y \<or> (\<not> P y \<and> y \<in> set rs)"
  using assms by (induction rs) (auto simp: upd_where_def)

lemma upsert_entry_body:
  assumes "upsert_entry first i now e d = Inr (b, d')"
  shows "\<forall>x \<in> set (entries d'). ent_feed x = i \<and> ent_guid x = in_guid e \<longrightarrow> ent_body x = in_body e"
    and "\<forall>x \<in> set (entries d'). ent_feed x = i \<and> ent_guid x \<noteq> in_guid e \<longrightarrow> x \<in> set (entries d)"
proof -
  define same where "same x \<longleftrightarrow> ent_feed x = i \<and> ent_guid x = in_guid e" for x :: entry
  define put where "put x = x\<lparr>ent_url := in_url e, ent_title := in_title e, ent_author := in_author e,
      ent_body := in_body e, ent_hash := in_hash e, ent_upd := in_upd e, ent_fetched := now\<rparr>" for x :: entry
  have cs: "entries d' = upd_where same put (entries d)
      \<or> ((\<forall>x \<in> set (entries d). \<not> same x) \<and> entries d' = entries d @ [new_entry d i now e])"
  proof (cases "list_ex same (entries d)")
    case True
    then show ?thesis
      using assms unfolding same_def [abs_def] put_def [abs_def] upsert_entry_def Let_def by (simp, elim conjE, intro disjI1) auto
  next
    case False
    then have "entries d' = entries d @ [new_entry d i now e]"
      using assms unfolding same_def [abs_def] upsert_entry_def Let_def by (auto split: if_splits)
    then show ?thesis using False by (simp add: list_ex_iff)
  qed
  have "same (put y) \<and> ent_body (put y) = in_body e" if "same y" for y using that by (simp add: same_def put_def)
  note upd = rows_of_update [of same "\<lambda>y. same y \<and> ent_body y = in_body e" put, OF this]
  have "\<forall>y \<in> set (entries d'). (same y \<longrightarrow> ent_body y = in_body e) \<and> (\<not> same y \<longrightarrow> y \<in> set (entries d))"
    using cs
  proof
    assume "entries d' = upd_where same put (entries d)"
    then show ?thesis using upd [of "entries d"] by auto
  next
    assume "(\<forall>x \<in> set (entries d). \<not> same x) \<and> entries d' = entries d @ [new_entry d i now e]"
    then show ?thesis by (auto simp: same_def new_entry_def)
  qed
  then show "\<forall>x \<in> set (entries d'). ent_feed x = i \<and> ent_guid x = in_guid e \<longrightarrow> ent_body x = in_body e"
    and "\<forall>x \<in> set (entries d'). ent_feed x = i \<and> ent_guid x \<noteq> in_guid e \<longrightarrow> x \<in> set (entries d)"
    unfolding same_def by blast+
qed

lemma upsert_loop_body:
  "upsert_loop first i now es n d = Inr (m, d') \<Longrightarrow> distinct (map in_guid es) \<Longrightarrow> e \<in> set es \<Longrightarrow>
     \<forall>x \<in> set (entries d'). ent_feed x = i \<and> ent_guid x = in_guid e \<longrightarrow> ent_body x = in_body e"
proof (induction es arbitrary: n d)
  case (Cons e1 es)
  obtain fresh d1 where step: "upsert_entry first i now e1 d = Inr (fresh, d1)"
    and rest: "upsert_loop first i now es (if fresh then n + 1 else n) d1 = Inr (m, d')"
    using Cons.prems(1) by (auto split: sum.splits)
  show ?case
  proof (cases "e \<in> set es")
    case True
    then show ?thesis using Cons.IH [OF rest] Cons.prems(2) by simp
  next
    case False
    then have e: "e = e1" "in_guid e1 \<notin> in_guid ` set es" using Cons.prems(2,3) by auto
    have keep: "upsert_loop first i now es n d1 = Inr (m, d') \<Longrightarrow> in_guid e1 \<notin> in_guid ` set es \<Longrightarrow>
        \<forall>x \<in> set (entries d'). ent_feed x = i \<and> ent_guid x = in_guid e1 \<longrightarrow> x \<in> set (entries d1)" for n d1 es
    proof (induction es arbitrary: n d1)
      case (Cons e2 es)
      then show ?case using upsert_entry_body(2) by (fastforce split: sum.splits)
    qed simp
    show ?thesis using keep [OF rest e(2)] upsert_entry_body(1) [OF step] e(1) by blast
  qed
qed simp

lemma upsert_entries_body:
  assumes "upsert_entries d i es now = Inr (n, d')" "distinct (map in_guid es)" "e \<in> set es"
  shows "\<forall>x \<in> set (entries d'). ent_feed x = i \<and> ent_guid x = in_guid e \<longrightarrow> ent_body x = in_body e"
  using assms upsert_loop_body by (auto simp: upsert_entries_def refresh_unread_count_def split: if_splits sum.splits)

lemma update_feed_entries: "update_feed L f u now d = Inr d' \<Longrightarrow> entries d' = entries d"
  by (auto simp: update_feed_def try_store_def update_feed_after_fetch_def exec_update_feed_def
      split: if_splits sum.splits option.splits store_error.splits)

lemma write_crawl_entries:
  assumes "write_crawl L f fr now p st d = (r, d')" "cr_status r = ''ok''"
  obtains n d1 where "upsert_entries d (fd_id f) (pf_entries p) (unix now) = Inr (n, d1)" "entries d' = entries d1"
proof -
  obtain n d1 where up: "try_store L Upsert_Entries (upsert_entries d (fd_id f) (pf_entries p) (unix now)) = Inr (n, d1)"
    using assms by (auto simp: write_crawl_def Let_def internal_failure_def split: sum.splits prod.splits)
  obtain d2 where st: "save_state L f st now d1 = Inr d2"
    using assms up by (auto simp: write_crawl_def Let_def internal_failure_def split: sum.splits prod.splits)
  obtain moved d3 where moved: "moved_to L f fr now d2 = (moved, d3)" by (rule prod.exhaust)
  have "entries d2 = entries d1" "entries d3 = entries d2"
    using st moved by (auto simp: save_state_def moved_to_def try_store_def update_scrape_source_state_def
      update_scrape_source_target_def update_scrapes_def split: option.splits if_splits sum.splits)
  moreover have "entries d' = entries d3"
    using assms(1) up st moved update_feed_entries [of L f _ now d3 d']
    by (auto simp: write_crawl_def Let_def finish_def split: sum.splits)
  ultimately show thesis
    using up that by (auto simp: try_store_def split: if_splits sum.splits)
qed

text \<open>
  C9. A stored full text does not survive the next crawl: whenever the feed still lists the entry, a
  successful crawl writes the feed's own summary over the body, because the extraction skips
  entries the store has while the update of an entry does not.
\<close>

theorem full_text_is_overwritten:
  assumes "crawl_one L f now d rc = (r, d', rc')" "cr_status r = ''ok''"
    and "crawl_fetch L f = Inr fr" "cut_scrape_prefix (fd_url f) = None" "parse_feed L f fr now = Some p"
    and "distinct (map in_guid (pf_entries p))" "e \<in> set (pf_entries p)"
    and "x \<in> set (entries d)" "ent_feed x = fd_id f" "ent_guid x = in_guid e"
  shows "\<forall>y \<in> set (entries d'). ent_feed y = fd_id f \<and> ent_guid y = ent_guid x \<longrightarrow> ent_body y = in_body e"
  using assms(1)
proof (cases rule: crawl_one_cases)
  case (written fr' p' st d1)
  have fr: "fr' = fr" using written(1) assms(3) by simp
  obtain es d2 where ft: "apply_fulltext L (fd_id f) (pf_entries p) now d = (es, d2)" by (rule prod.exhaust)
  have p': "p' = p\<lparr>pf_entries := es\<rparr>" "d1 = d2"
    using written(4) assms(4,5) ft fr by (simp_all add: parse_page_def)
  note en = apply_fulltext_enriches [OF ft]
  have "map in_guid es = map in_guid (pf_entries p)"
  proof (rule nth_equalityI)
    show "length (map in_guid es) = length (map in_guid (pf_entries p))"
      using en by (auto dest: list_all2_lengthD)
  next
    fix k assume k: "k < length (map in_guid es)"
    then have "enriched (ent_guid ` set (filter (\<lambda>x. ent_feed x = fd_id f) (entries d))) (pf_entries p ! k) (es ! k)"
      using en by (auto dest: list_all2_nthD2)
    then have "in_guid (es ! k) = in_guid (pf_entries p ! k)"
      unfolding enriched_def by (metis entry_input.select_convs(1) entry_input.surjective entry_input.update_convs(5,6))
    then show "map in_guid es ! k = map in_guid (pf_entries p) ! k"
      using k en by (auto dest: list_all2_lengthD)
  qed
  then have "distinct (map in_guid es)" using assms(6) by simp
  moreover have "e \<in> set es"
  proof -
    obtain k where k: "k < length (pf_entries p)" "pf_entries p ! k = e" using assms(7) by (auto simp: in_set_conv_nth)
    then have "enriched (ent_guid ` set (filter (\<lambda>x. ent_feed x = fd_id f) (entries d))) e (es ! k)" "k < length es"
      using en by (auto dest: list_all2_nthD list_all2_lengthD)
    moreover have "in_guid e \<in> ent_guid ` set (filter (\<lambda>x. ent_feed x = fd_id f) (entries d))"
      using assms(8-10) by force
    ultimately have "es ! k = e" by (simp add: enriched_def)
    then show ?thesis using \<open>k < length es\<close> nth_mem by blast
  qed
  moreover obtain n d3 where "upsert_entries d1 (fd_id f) es (unix now) = Inr (n, d3)" "entries d' = entries d3"
    using write_crawl_entries [OF written(5) assms(2)] p' by auto
  ultimately show ?thesis using upsert_entries_body assms(10) by metis
qed (use assms(2) in \<open>auto simp: crawl_fail_def not_modified_crawl_def finish_def split: sum.splits\<close>)

lemma sample_parse: "parse_feed (sample_world status fails) sample_feed (sample_answer 200) 0 = Some sample_parsed"
proof -
  have "trim_space ''D'' = ''D''" "trim_space ''T'' = ''T''" "has_prefix ''http://h/1'' ''https://'' = False"
    "has_prefix ''http://h/1'' ''http://'' = True" by code_simp+
  then show ?thesis
    by (simp add: parse_feed_def sample_world_def parsed_feed_of_def sample_articles_def sample_urls_def sample_feed_def
      sample_item_def normalize_item_def resolve_url_def clean_body_def truncate_utf8_def max_body_bytes_def item_body_def
      max_entries_per_feed_def unix_def hour_ns_def ns_sec_def sample_parsed_def Let_def)
qed

lemma fr_simps: "fr_not_modified (sample_answer s) = False" "fr_status (sample_answer s) = s"
  by (simp_all add: sample_answer_def)

lemma write_crawl_ok:
  assumes "upsert_entries d (fd_id f) (pf_entries p) (unix now) = Inr (n, d1)" "\<not> cl_fails L Upsert_Entries"
  shows "cr_status (fst (write_crawl L f fr now p None d)) = ''ok''"
  using assms by (auto simp: write_crawl_def try_store_def save_state_def finish_def Let_def split: prod.split sum.split)

theorem full_text_is_overwritten_witness:
  "map ent_body (entries sample_full_db) = [''F''] \<and>
   list_all (\<lambda>y. ent_body y = ''S'') (filter (\<lambda>y. ent_feed y = 1 \<and> ent_guid y = ''g'')
     (entries (fst (snd (crawl_one (sample_world 200 (\<lambda>_. False)) sample_feed 0 sample_full_db Map.empty)))))"
proof -
  let ?L = "sample_world 200 (\<lambda>_. False)"
  obtain r d' rc' where run: "crawl_one ?L sample_feed 0 sample_full_db Map.empty = (r, d', rc')" by (rule prod_cases3)
  obtain es d1 where ft: "apply_fulltext ?L 1 (pf_entries sample_parsed) 0 sample_full_db = (es, d1)" by (rule prod.exhaust)
  have es: "es = pf_entries sample_parsed" "entries d1 = entries sample_full_db"
    using apply_fulltext_enriches [OF ft]
    by (auto simp: sample_full_db_def sample_parsed_def enriched_def list_all2_Cons1)
  have "\<exists>n d2. upsert_entries d1 1 es 0 = Inr (n, d2)"
    by (simp add: es upsert_entries_def upsert_entry_def sample_parsed_def sample_full_db_def Let_def)
  then obtain n d2 where up: "upsert_entries d1 (fd_id sample_feed) (pf_entries (sample_parsed\<lparr>pf_entries := es\<rparr>)) (unix 0) = Inr (n, d2)"
    by (auto simp: unix_def sample_feed_def)
  have id: "fd_id sample_feed = 1" by (simp add: sample_feed_def)
  have page: "parse_page ?L sample_feed (sample_answer 200) 0 sample_full_db Map.empty
      = (Inr (sample_parsed\<lparr>pf_entries := es\<rparr>, None), d1, Map.empty)"
    by (simp add: parse_page_def sample_plain sample_parse id ft)
  have "cr_status (fst (write_crawl ?L sample_feed (sample_answer 200) 0 (sample_parsed\<lparr>pf_entries := es\<rparr>) None d1)) = ''ok''"
    by (rule write_crawl_ok [OF up]) (simp add: sample_world_def)
  moreover have "r = fst (write_crawl ?L sample_feed (sample_answer 200) 0 (sample_parsed\<lparr>pf_entries := es\<rparr>) None d1)"
    using run by (simp add: crawl_one_def sample_crawl_fetch fr_simps page split: prod.splits)
  ultimately have ok: "cr_status r = ''ok''" by simp
  obtain e where e: "pf_entries sample_parsed = [e]" "in_guid e = ''g''" "in_body e = ''S''" by (simp add: sample_parsed_def)
  obtain x where x: "entries sample_full_db = [x]" "ent_feed x = 1" "ent_guid x = ''g''" "ent_body x = ''F''"
    by (simp add: sample_full_db_def)
  have "\<forall>y \<in> set (entries d'). ent_feed y = fd_id sample_feed \<and> ent_guid y = ent_guid x \<longrightarrow> ent_body y = in_body e"
    by (rule full_text_is_overwritten [OF run ok sample_crawl_fetch sample_plain sample_parse]) (simp_all add: e x id)
  then show ?thesis using run e x id by (auto simp: list_all_iff)
qed


section \<open>Selector items\<close>

definition work_ok :: "(string \<rightharpoonup> int) \<Rightarrow> string list \<Rightarrow> selector_work \<Rightarrow> bool" where
  \<comment> \<open>after the items with these links: dated items, and no failure that was to be given up\<close>
  "work_ok pending links w \<longleftrightarrow>
     list_all (\<lambda>x. fi_published x \<noteq> None) (sw_items w)
      \<and> (\<forall>u \<in> set (sw_failed w). \<not> give_up (case pending u of None \<Rightarrow> 0 | Some n \<Rightarrow> n))
      \<and> (distinct links \<longrightarrow> distinct (sw_failed w) \<and> set (sw_failed w) \<inter> set (sw_imported w) = {})
      \<and> set (sw_failed w) \<union> set (sw_imported w) = set links \<and> length (sw_items w) = length (sw_imported w)"

lemma ensure_published_dated: "fi_published (ensure_published now item) \<noteq> None"
  by (simp add: ensure_published_def)

lemma article_content_dated:
  "article_content L stored item url text now s = (item', s') \<Longrightarrow> fi_published item' \<noteq> None"
  using ensure_published_dated by (auto simp: article_content_def simp del: not_None_eq split: prod.splits)

lemma selector_item_ok:
  assumes "selector_item L cfg pending stored now i item s rc = (out, s', rc')"
  shows "out = Some x \<Longrightarrow> fi_published x \<noteq> None"
    and "out = None \<Longrightarrow> \<not> give_up (case pending (fi_link item) of None \<Rightarrow> 0 | Some n \<Rightarrow> n)"
  using assms ensure_published_dated [of now item]
  by (auto simp: selector_item_def Let_def split: if_splits prod.splits bool.splits sum.splits option.splits
      dest: article_content_dated)

lemma selector_loop_ok:
  "work_ok pending links w \<Longrightarrow>
     work_ok pending (links @ map fi_link items) (selector_loop L cfg pending stored now i items w)"
proof (induction items arbitrary: i w links)
  case (Cons item items)
  obtain out s rc where step: "selector_item L cfg pending stored now i item (sw_session w) (sw_robots w) = (out, s, rc)"
    by (rule prod_cases3)
  note item = selector_item_ok [OF step]
  show ?case
  proof (cases out)
    case None
    have "work_ok pending (links @ [fi_link item])
        (w\<lparr>sw_failed := sw_failed w @ [fi_link item], sw_session := s, sw_robots := rc\<rparr>)"
      using Cons.prems item(2) [OF None] by (auto simp: work_ok_def)
    then show ?thesis using Cons.IH step None by force
  next
    case (Some x)
    have "work_ok pending (links @ [fi_link item])
        (w\<lparr>sw_imported := sw_imported w @ [fi_link item], sw_items := sw_items w @ [x], sw_session := s, sw_robots := rc\<rparr>)"
      using Cons.prems item(1) [OF Some] by (auto simp: work_ok_def)
    then show ?thesis using Cons.IH step Some by force
  qed
qed simp

lemma sel_extract_items:
  assumes "sel_extract U P L url pg now config state = Inr (doc, st)"
  shows "distinct (map fi_link (doc_items doc))" "st = Some s \<Longrightarrow> doc_items doc = []"
    "st = Some s \<Longrightarrow> \<exists>S. s = sl_enc_state L S \<and> ss_pending S = Map.empty"
proof -
  have "distinct (map cd_url (cr_cands r))" if "extract_candidates U P L doc cfg base now = Inr r" for doc cfg base r
    using extract_candidates_distinct [OF that] by simp
  then have "distinct (map (fi_link \<circ> candidate_item) (cr_cands r))
      \<and> distinct (map (fi_link \<circ> candidate_item) (filter Q (cr_cands r)))"
    if "extract_candidates U P L doc cfg base now = Inr r" for doc cfg base r Q
    using that by (auto simp: candidate_item_def comp_def intro: distinct_map_filter)
  then show "distinct (map fi_link (doc_items doc))"
    using assms by (auto simp: sel_extract_def Let_def split: option.splits sum.splits if_splits)
  show "st = Some s \<Longrightarrow> doc_items doc = []" "st = Some s \<Longrightarrow> \<exists>S. s = sl_enc_state L S \<and> ss_pending S = Map.empty"
    using assms by (auto simp: sel_extract_def Let_def split: option.splits sum.splits if_splits)
qed

lemma extract_selector_cases:
  assumes "extract_selector_page L i url fr now d rc = (Inr (p, st), d', rc')"
  obtains
    (resync) src doc body s where "scrape_row L i Selector d = Inr src"
      "sel_extract (al_urls (cl_articles L)) (al_pages (cl_articles L)) (cl_sel L) url body now (scr_config src) (source_state src) = Inr (doc, Some s)"
      "st = Some s" "p = parsed_feed_of (cl_articles L) doc url now"
  | (nothing) doc where "st = None" "p = parsed_feed_of (cl_articles L) doc url now" "doc_items doc = []"
  | (work) src cfg doc body pending w where "scrape_row L i Selector d = Inr src"
      "sel_extract (al_urls (cl_articles L)) (al_pages (cl_articles L)) (cl_sel L) url body now (scr_config src) (source_state src) = Inr (doc, None)"
      "pending = (case sel_parse_state (cl_sel L) (source_state src) of Some st \<Rightarrow> ss_pending st | None \<Rightarrow> Map.empty)"
      "w = selector_loop L cfg pending (stored_boilerplate L i d) now 0 (take (nat (max_items_effective cfg)) (doc_items doc))
         \<lparr>sw_imported = [], sw_failed = [], sw_items = [], sw_session = new_session, sw_robots = rc\<rparr>"
      "st = Some (commit_work L cfg src (doc_items doc) w)"
      "p = parsed_feed_of (cl_articles L) (doc\<lparr>doc_items := sw_items w\<rparr>) url now"
  using assms unfolding extract_selector_page_def
  by (auto simp: Let_def split: sum.splits option.splits prod.splits if_splits)

lemma fresh_work: "work_ok pending [] \<lparr>sw_imported = [], sw_failed = [], sw_items = [], sw_session = s, sw_robots = rc\<rparr>"
  by (simp add: work_ok_def)

lemma parsed_dated:
  "list_all (\<lambda>x. fi_published x \<noteq> None) (doc_items doc) \<Longrightarrow>
     list_all (\<lambda>e. \<not> in_missing e) (pf_entries (parsed_feed_of A doc url now))"
  by (auto simp: parsed_feed_of_def normalize_item_def list_all_iff Let_def dest!: in_set_takeD)

text \<open>
  No entry of a selector feed is undated, so the store's guard against undated backlogs never
  files one as read on arrival.
\<close>

theorem selector_entries_dated:
  assumes "extract_selector_page L i url fr now d rc = (Inr (p, st), d', rc')"
  shows "list_all (\<lambda>e. \<not> in_missing e) (pf_entries p)"
  using assms
proof (cases rule: extract_selector_cases)
  case (resync src doc body s)
  then show ?thesis using sel_extract_items(2) [OF resync(2)] parsed_dated [of doc] by simp
next
  case (nothing doc)
  then show ?thesis using parsed_dated [of doc] by simp
next
  case (work src cfg doc body pending w)
  have "list_all (\<lambda>x. fi_published x \<noteq> None) (sw_items w)"
    using selector_loop_ok [OF fresh_work] unfolding work(4) work_ok_def by blast
  then show ?thesis using parsed_dated [of "doc\<lparr>doc_items := sw_items w\<rparr>"] work(6) by simp
qed


definition sample_listing_world :: "string crawl_lib" where
  \<comment> \<open>the page is the listing with the two links of \<open>sample_listing\<close>\<close>
  "sample_listing_world = (sample_world 200 (\<lambda>_. False))\<lparr>cl_articles := sample_articles\<lparr>al_pages := sample_listing_lib\<rparr>\<rparr>"

definition sample_listing_db :: db where
  \<comment> \<open>the first link has been imported\<close>
  "sample_listing_db = sample_crawl_db\<lparr>scrapes := [\<lparr>scr_id = 1, scr_feed = 1, scr_kind = ''selector'', scr_target = ''http://h/'',
     scr_config = ''c'', scr_state = Some ''S'', scr_creator = 1, scr_created = 0, scr_updated = 0\<rparr>]\<rparr>"

lemma sample_listing_row:
  "\<exists>src. scrape_row sample_listing_world 1 Selector sample_listing_db = Inr src \<and> source_state src = ''S'' \<and> scr_config src = ''c''"
  by (simp add: scrape_row_def try_store_def sample_listing_world_def sample_world_def get_scrape_source_by_feed_def
      sample_listing_db_def kind_string_def source_state_def)

lemma sample_listing_extract:
  "sel_extract sample_urls sample_listing_lib sample_sel ''http://h/'' ''b'' 0 ''c'' ''S'' =
     Inr (\<lparr>doc_title = display_title sample_urls (page_title (normalize_text (\<lambda>s. s)) sample_listing) ''http://h/'',
           doc_link = ''http://h/'', doc_items = [candidate_item (cr_cands sample_cands ! 1)]\<rparr>, None)"
proof -
  have lib: "sl_dec_state sample_sel ''S'' = Some sample_sel_state" "sl_dec_config sample_sel r = Some sample_sel_config"
    "pl_parse sample_listing_lib pg = Some sample_listing" "ul_parse sample_urls u = Some u" "pl_nfkc sample_listing_lib = (\<lambda>s. s)" for r u pg
    by (simp_all add: sample_sel_def sample_listing_lib_def sample_urls_def sample_pages_def)
  have val: "sel_validate sample_sel sample_sel_config"
    by (simp add: sel_validate_def sample_sel_def sample_sel_config_def max_selector_len_def max_max_items_def)
  have st: "sel_parse_state sample_sel ''S'' = Some sample_sel_state"
    by (simp add: sel_parse_state_def lib) (simp add: sample_sel_state_def sel_state_version_def)
  show ?thesis
    using val unfolding sel_extract_def sel_parse_config_def
    by (simp add: lib sample_extract_candidates st Let_def) (simp add: sample_cands_def sample_sel_state_def)
qed

lemma sample_listing_run:
  "\<exists>p st. fst (extract_selector_page sample_listing_world 1 ''http://h/'' (sample_answer 200) 0 sample_listing_db Map.empty) = Inr (p, Some st)"
proof -
  obtain src where src: "scrape_row sample_listing_world 1 Selector sample_listing_db = Inr src"
    "source_state src = ''S''" "scr_config src = ''c''" using sample_listing_row by blast
  have world: "cl_sel sample_listing_world = sample_sel" "al_urls (cl_articles sample_listing_world) = sample_urls"
    "al_pages (cl_articles sample_listing_world) = sample_listing_lib" "cl_decode sample_listing_world b c = Some b" for b c
    by (simp_all add: sample_listing_world_def sample_world_def sample_articles_def)
  have "sel_parse_config sample_sel ''c'' = Some sample_sel_config"
    by (simp add: sel_parse_config_def sel_validate_def sample_sel_def sample_sel_config_def max_selector_len_def max_max_items_def)
  moreover have "fr_body (sample_answer 200) = ''b''" by (simp add: sample_answer_def)
  ultimately show ?thesis
    unfolding extract_selector_page_def by (simp add: src world sample_listing_extract Let_def)
qed

theorem selector_entries_dated_witness:
  "\<exists>p st d' rc'. extract_selector_page sample_listing_world 1 ''http://h/'' (sample_answer 200) 0 sample_listing_db Map.empty
      = (Inr (p, Some st), d', rc') \<and> list_all (\<lambda>e. \<not> in_missing e) (pf_entries p)"
proof -
  obtain p st d' rc' where run: "extract_selector_page sample_listing_world 1 ''http://h/'' (sample_answer 200) 0
      sample_listing_db Map.empty = (Inr (p, Some st), d', rc')"
    using sample_listing_run by (metis prod.collapse)
  show ?thesis using run selector_entries_dated [OF run] by blast
qed

lemma foldl_bump:
  "distinct us \<Longrightarrow> foldl bump m us u =
     (if u \<in> set us then Some ((case m u of None \<Rightarrow> 0 | Some n \<Rightarrow> n) + 1) else m u)"
  by (induction us arbitrary: m) (auto simp: bump_def)

lemma foldl_forget: "foldl (\<lambda>m u. m(u := None)) m us u = (if u \<in> set us then None else m u)"
  by (induction us arbitrary: m) auto



end
