(* ===== verification/Password.thy ===== *)
theory Password
  imports Robots Numbers
begin

text \<open>
  \<open>internal/auth/password.go\<close> and \<open>token.go\<close>: password hashes as PHC strings, their check, and
  the random tokens of sessions, API tokens and invitations. The random bytes, argon2id and
  SHA-256 are arguments; the unpadded base64 of package encoding/base64 and the parts of
  Sscanf the code uses are written out. What HashPassword makes VerifyPassword accepts, the
  sentinel of a locked account never matches.
\<close>

section \<open>Base64 without padding\<close>

definition std_alphabet :: string where
  "std_alphabet = ''ABCDEFGHIJKLMNOPQRSTUVWXYZabcdefghijklmnopqrstuvwxyz0123456789+/''"

definition url_alphabet :: string where
  "url_alphabet = ''ABCDEFGHIJKLMNOPQRSTUVWXYZabcdefghijklmnopqrstuvwxyz0123456789-_''"

fun sextets :: "nat list \<Rightarrow> nat list" where
  "sextets [] = []"
| "sextets [a] = [a div 4, a mod 4 * 16]"
| "sextets [a, b] = [a div 4, a mod 4 * 16 + b div 16, b mod 16 * 4]"
| "sextets (a # b # c # r) =
     a div 4 # (a mod 4 * 16 + b div 16) # (b mod 16 * 4 + c div 64) # c mod 64 # sextets r"

fun octets :: "nat list \<Rightarrow> nat list option" where
  \<comment> \<open>not strict: the spare bits of the last character are dropped\<close>
  "octets [] = Some []"
| "octets [x] = None"
| "octets [x, y] = Some [x * 4 + y div 16]"
| "octets [x, y, z] = Some [x * 4 + y div 16, y mod 16 * 16 + z div 4]"
| "octets (x # y # z # w # r) =
     map_option (\<lambda>bs. (x * 4 + y div 16) # (y mod 16 * 16 + z div 4) # (z mod 4 * 64 + w) # bs) (octets r)"

fun index_in :: "string \<Rightarrow> char \<Rightarrow> nat option" where
  "index_in [] c = None"
| "index_in (x # xs) c = (if x = c then Some 0 else map_option Suc (index_in xs c))"

definition b64_encode_with :: "string \<Rightarrow> string \<Rightarrow> string" where
  "b64_encode_with alphabet s = map ((!) alphabet) (sextets (map of_char s))"

definition b64_encode :: "string \<Rightarrow> string" where
  "b64_encode s = b64_encode_with std_alphabet s"

definition b64_decode :: "string \<Rightarrow> string option" where
  \<comment> \<open>line breaks in the input are skipped\<close>
  "b64_decode s =
     (let vs = map (index_in std_alphabet) (filter (\<lambda>c. c \<noteq> CHR 0x0A \<and> c \<noteq> CHR 0x0D) s)
      in if None \<in> set vs then None else map_option (map char_of) (octets (map the vs)))"

section \<open>Tokens\<close>

definition token_bytes :: nat where "token_bytes = 32"

definition hash_token :: "(string \<Rightarrow> string) \<Rightarrow> string \<Rightarrow> string" where
  "hash_token sha raw = sha raw"

definition generate_token :: "(string \<Rightarrow> string) \<Rightarrow> string option \<Rightarrow> (string \<times> string) option" where
  \<comment> \<open>the bytes rand.Read delivered, None when it failed\<close>
  "generate_token sha rnd =
     (case rnd of
        None \<Rightarrow> None
      | Some b \<Rightarrow> let raw = b64_encode_with url_alphabet b in Some (raw, hash_token sha raw))"

section \<open>Password hashes\<close>

definition argon_memory :: nat where "argon_memory = 64 * 1024"
definition argon_time :: nat where "argon_time = 3"
definition argon_threads :: nat where "argon_threads = 2"
definition argon_key_len :: nat where "argon_key_len = 32"
definition argon_version :: nat where "argon_version = 19"

text \<open>
  argon2.IDKey: password, salt, passes, memory, threads and length of the key. The function
  panics without passes or threads, which is None.
\<close>

type_synonym kdf = "string \<Rightarrow> string \<Rightarrow> nat \<Rightarrow> nat \<Rightarrow> nat \<Rightarrow> nat \<Rightarrow> string option"

record phc_params =
  ph_memory :: nat
  ph_time :: nat
  ph_threads :: nat

datatype hash_error = Err_Invalid_Hash | Err_Kdf

definition hash_password :: "kdf \<Rightarrow> string option \<Rightarrow> string \<Rightarrow> string option" where
  "hash_password kdf rnd plain =
     (case rnd of
        None \<Rightarrow> None
      | Some salt \<Rightarrow>
          (case kdf plain salt argon_time argon_memory argon_threads argon_key_len of
             None \<Rightarrow> None
           | Some key \<Rightarrow>
               Some (''$argon2id$v='' @ dec_nat argon_version @ ''$m='' @ dec_nat argon_memory
                 @ '',t='' @ dec_nat argon_time @ '',p='' @ dec_nat argon_threads
                 @ ''$'' @ b64_encode salt @ ''$'' @ b64_encode key)))"

subsection \<open>Sscanf\<close>

definition scan_spaces :: "string \<Rightarrow> string" where
  \<comment> \<open>a verb skips leading space, but not a line break\<close>
  "scan_spaces s = trim_seqs (filter (\<lambda>q. q \<noteq> [CHR 0x0A]) space_seqs) s"

definition scan_digits :: "string \<Rightarrow> (int \<times> string) option" where
  "scan_digits s =
     (let ds = takeWhile (\<lambda>c. digit_val c \<noteq> None) s
      in if ds = [] then None
         else map_option (\<lambda>n. (n, drop (length ds) s)) (digits_val 0 ds))"

definition scan_uint :: "nat \<Rightarrow> string \<Rightarrow> (nat \<times> string) option" where
  "scan_uint bits s =
     (case scan_digits (scan_spaces s) of
        None \<Rightarrow> None | Some (n, r) \<Rightarrow> if n < 2 ^ bits then Some (nat n, r) else None)"

definition scan_int :: "string \<Rightarrow> (int \<times> string) option" where
  "scan_int s =
     (let s = scan_spaces s;
          (neg, s) = (case s of [] \<Rightarrow> (False, s)
            | c # cs \<Rightarrow> if c = CHR ''-'' then (True, cs) else if c = CHR ''+'' then (False, cs) else (False, s))
      in case scan_digits s of
           None \<Rightarrow> None
         | Some (n, r) \<Rightarrow>
             let v = (if neg then - n else n)
             in if - (2 ^ 63) \<le> v \<and> v < 2 ^ 63 then Some (v, r) else None)"

definition scan_version :: "string \<Rightarrow> int option" where
  \<comment> \<open>Sscanf with "v=%d"; what follows the number is not looked at\<close>
  "scan_version s = (case cut_prefix ''v='' s of None \<Rightarrow> None | Some r \<Rightarrow> map_option fst (scan_int r))"

definition scan_params :: "string \<Rightarrow> phc_params option" where
  \<comment> \<open>Sscanf with "m=%d,t=%d,p=%d" into two uint32 and a uint8\<close>
  "scan_params s =
     (case Option.bind (cut_prefix ''m='' s) (scan_uint 32) of
        None \<Rightarrow> None
      | Some (m, r) \<Rightarrow>
          (case Option.bind (cut_prefix '',t='' r) (scan_uint 32) of
             None \<Rightarrow> None
           | Some (t, r) \<Rightarrow>
               (case Option.bind (cut_prefix '',p='' r) (scan_uint 8) of
                  None \<Rightarrow> None
                | Some (p, r) \<Rightarrow> Some \<lparr>ph_memory = m, ph_time = t, ph_threads = p\<rparr>)))"

definition parse_phc :: "string \<Rightarrow> (phc_params \<times> string \<times> string) option" where
  "parse_phc hash =
     (let parts = split_on (CHR ''$'') hash
      in if length parts \<noteq> 6 \<or> parts ! 0 \<noteq> [] \<or> parts ! 1 \<noteq> ''argon2id'' then None
         else case scan_version (parts ! 2) of
           None \<Rightarrow> None
         | Some v \<Rightarrow>
             (case scan_params (parts ! 3) of
                None \<Rightarrow> None
              | Some p \<Rightarrow>
                  (case b64_decode (parts ! 4) of
                     None \<Rightarrow> None
                   | Some salt \<Rightarrow>
                       (case b64_decode (parts ! 5) of None \<Rightarrow> None | Some key \<Rightarrow> Some (p, salt, key)))))"

definition verify_password :: "kdf \<Rightarrow> string \<Rightarrow> string \<Rightarrow> hash_error + bool" where
  "verify_password kdf hash plain =
     (case parse_phc hash of
        None \<Rightarrow> Inl Err_Invalid_Hash
      | Some (p, salt, want) \<Rightarrow>
          (case kdf plain salt (ph_time p) (ph_memory p) (ph_threads p) (length want) of
             None \<Rightarrow> Inl Err_Kdf
           | Some got \<Rightarrow> Inr (got = want)))"

definition needs_rehash :: "string \<Rightarrow> bool" where
  "needs_rehash hash =
     (case parse_phc hash of
        None \<Rightarrow> False
      | Some (p, _, _) \<Rightarrow>
          ph_memory p \<noteq> argon_memory \<or> ph_time p \<noteq> argon_time \<or> ph_threads p \<noteq> argon_threads)"

section \<open>Base64 is read back\<close>

lemma sextets_less: "(\<forall>a \<in> set bs. a < 256) \<Longrightarrow> \<forall>x \<in> set (sextets bs). x < 64"
  by (induction bs rule: sextets.induct) auto

lemma quotient_remainder:
  "y < 16 \<Longrightarrow> (x * 16 + y) div 16 = (x::nat)" "y < 16 \<Longrightarrow> (x * 16 + y) mod 16 = y"
  "y < 4 \<Longrightarrow> (x * 4 + y) div 4 = x" "y < 4 \<Longrightarrow> (x * 4 + y) mod 4 = y"
  by simp_all

lemma high_bits: "b < 256 \<Longrightarrow> b div 16 < (16::nat)" "c < 256 \<Longrightarrow> c div 64 < (4::nat)"
  by auto

lemma octets_sextets: "(\<forall>a \<in> set bs. a < 256) \<Longrightarrow> octets (sextets bs) = Some bs"
proof (induction bs rule: sextets.induct)
  case (3 a b)
  then show ?case by (simp add: quotient_remainder high_bits del: div_mult_self3 mod_mult_self3)
next
  case (4 a b c r)
  then show ?case by (simp add: quotient_remainder high_bits del: div_mult_self3 mod_mult_self3)
qed simp_all

lemma index_in_nth: "distinct xs \<Longrightarrow> n < length xs \<Longrightarrow> index_in xs (xs ! n) = Some n"
proof (induction xs arbitrary: n)
  case (Cons x xs)
  then show ?case by (cases n) (auto simp: in_set_conv_nth)
qed simp

lemma std_alphabet_facts: "distinct std_alphabet" "length std_alphabet = 64"
  "CHR ''$'' \<notin> set std_alphabet" "CHR 0x0A \<notin> set std_alphabet" "CHR 0x0D \<notin> set std_alphabet"
  by (simp_all add: std_alphabet_def)

lemma b64_encode_alphabet: "set (b64_encode s) \<subseteq> set std_alphabet"
proof -
  have "\<forall>x \<in> set (sextets (map of_char s)). x < 64" by (rule sextets_less) simp
  then show ?thesis
    by (auto simp: b64_encode_def b64_encode_with_def std_alphabet_facts intro!: nth_mem)
qed

lemma b64_roundtrip: "b64_decode (b64_encode s) = Some s"
proof -
  let ?v = "sextets (map of_char s)"
  have less: "\<forall>x \<in> set ?v. x < 64" by (rule sextets_less) simp
  have plain: "filter (\<lambda>c. c \<noteq> CHR 0x0A \<and> c \<noteq> CHR 0x0D) (b64_encode s) = b64_encode s"
    using b64_encode_alphabet [of s] std_alphabet_facts(4,5) by (intro filter_True) auto
  have "map (index_in std_alphabet) (b64_encode s) = map Some ?v"
    using less by (simp add: b64_encode_def b64_encode_with_def index_in_nth std_alphabet_facts)
  moreover have "octets ?v = Some (map of_char s)" by (rule octets_sextets) simp
  ultimately show ?thesis
    unfolding b64_decode_def plain by (simp add: comp_def image_iff)
qed

section \<open>A password is accepted by its own hash\<close>

lemma split_on_free: "c \<notin> set a \<Longrightarrow> split_on c a = [a]"
  by (induction a) auto

lemma split_on_append: "c \<notin> set a \<Longrightarrow> split_on c (a @ c # b) = a # split_on c b"
  by (induction a) auto

lemma split_on_six:
  "c \<notin> set p \<Longrightarrow> c \<notin> set q \<Longrightarrow> c \<notin> set r \<Longrightarrow> c \<notin> set s \<Longrightarrow> c \<notin> set t \<Longrightarrow> c \<notin> set u \<Longrightarrow>
   split_on c (p @ c # q @ c # r @ c # s @ c # t @ c # u) = [p, q, r, s, t, u]"
  by (simp add: split_on_append split_on_free)

lemma scan_spaces_digit: "digit_val c \<noteq> None \<Longrightarrow> scan_spaces (c # cs) = c # cs"
proof -
  assume "digit_val c \<noteq> None"
  then have "48 \<le> (of_char c :: nat)" "(of_char c :: nat) \<le> 57"
    by (simp_all add: digit_val_def Let_def split: if_splits)
  moreover have "\<forall>p \<in> set (filter (\<lambda>q. q \<noteq> [CHR 0x0A]) space_seqs).
      (of_char (hd p) :: nat) < 48 \<or> 57 < (of_char (hd p) :: nat)" by code_simp
  moreover have "strip_seq ps (c # cs) = None" if "[] \<notin> set ps" "\<forall>p \<in> set ps. hd p \<noteq> c" for ps
    using that
  proof (induction ps)
    case (Cons p ps)
    then show ?case by (cases p) auto
  qed simp
  moreover have "[] \<notin> set (filter (\<lambda>q. q \<noteq> [CHR 0x0A]) space_seqs)"
    using space_seqs_nonempty by simp
  ultimately show ?thesis
    unfolding scan_spaces_def by (subst trim_seqs.simps) fastforce
qed

lemma number_scans:
  "scan_digits ''19'' = Some (19, [])" "scan_digits ''65536,t=3,p=2'' = Some (65536, '',t=3,p=2'')"
  "scan_digits ''3,p=2'' = Some (3, '',p=2'')" "scan_digits ''2'' = Some (2, [])"
  by code_simp+

lemma first_digits: "digit_val (CHR ''1'') \<noteq> None" "digit_val (CHR ''2'') \<noteq> None"
  "digit_val (CHR ''3'') \<noteq> None" "digit_val (CHR ''6'') \<noteq> None"
  by code_simp+

lemma version_text: "scan_version ''v=19'' = Some 19"
  by (simp add: scan_version_def cut_prefix_def scan_int_def scan_spaces_digit first_digits number_scans)

lemma params_text: "scan_params ''m=65536,t=3,p=2'' = Some \<lparr>ph_memory = 65536, ph_time = 3, ph_threads = 2\<rparr>"
  by (simp add: scan_params_def cut_prefix_def scan_uint_def scan_spaces_digit first_digits number_scans)

lemma number_texts: "dec_nat argon_version = ''19''" "dec_nat argon_memory = ''65536''"
  "dec_nat argon_time = ''3''" "dec_nat argon_threads = ''2''"
  by (simp_all add: dec_nat.simps argon_version_def argon_memory_def argon_time_def argon_threads_def char_of_def bit_0)

lemma hash_password_parses:
  assumes "hash_password kdf (Some salt) plain = Some h"
  shows "\<exists>key. kdf plain salt argon_time argon_memory argon_threads argon_key_len = Some key
    \<and> parse_phc h = Some (\<lparr>ph_memory = argon_memory, ph_time = argon_time, ph_threads = argon_threads\<rparr>, salt, key)"
proof -
  obtain key where key: "kdf plain salt argon_time argon_memory argon_threads argon_key_len = Some key"
    and h: "h = [] @ CHR ''$'' # ''argon2id'' @ CHR ''$'' # ''v=19'' @ CHR ''$'' # ''m=65536,t=3,p=2''
      @ CHR ''$'' # b64_encode salt @ CHR ''$'' # b64_encode key"
    using assms by (simp add: hash_password_def number_texts split: option.splits)
  have free: "CHR ''$'' \<notin> set (b64_encode t)" for t
    using b64_encode_alphabet [of t] std_alphabet_facts(3) by blast
  have "split_on (CHR ''$'') h =
      [[], ''argon2id'', ''v=19'', ''m=65536,t=3,p=2'', b64_encode salt, b64_encode key]"
    unfolding h by (rule split_on_six) (simp_all add: free)
  then have "parse_phc h = Some (\<lparr>ph_memory = argon_memory, ph_time = argon_time, ph_threads = argon_threads\<rparr>, salt, key)"
    by (simp add: parse_phc_def version_text params_text b64_roundtrip argon_memory_def argon_time_def argon_threads_def)
  then show ?thesis using key by blast
qed

text \<open>
  C31. A password verifies against the hash made from it, another one verifies exactly when
  argon2id derives the same key from it, and a fresh hash needs no rehash. It is never the
  sentinel of a locked account, which no password verifies against.
\<close>

theorem password_roundtrip:
  assumes "hash_password kdf (Some salt) plain = Some h"
    "\<And>key. kdf plain salt argon_time argon_memory argon_threads argon_key_len = Some key \<Longrightarrow> length key = argon_key_len"
  shows "verify_password kdf h plain = Inr True
    \<and> (verify_password kdf h other = Inr True \<longleftrightarrow>
         kdf other salt argon_time argon_memory argon_threads argon_key_len
         = kdf plain salt argon_time argon_memory argon_threads argon_key_len)
    \<and> \<not> needs_rehash h \<and> h \<noteq> ''!locked!''
    \<and> verify_password kdf ''!locked!'' other = Inl Err_Invalid_Hash"
proof -
  obtain key where key: "kdf plain salt argon_time argon_memory argon_threads argon_key_len = Some key"
    and h: "parse_phc h = Some (\<lparr>ph_memory = argon_memory, ph_time = argon_time, ph_threads = argon_threads\<rparr>, salt, key)"
    using hash_password_parses [OF assms(1)] by blast
  have len: "length key = argon_key_len" using assms(2) key by blast
  have locked: "parse_phc ''!locked!'' = None" by code_simp
  show ?thesis
    using locked h
    by (auto simp: verify_password_def needs_rehash_def len key split: option.splits)
qed

theorem password_roundtrip_witness:
  "verify_password (\<lambda>p s t m n l. Some (take 32 (p @ replicate 32 (CHR ''x''))))
     (the (hash_password (\<lambda>p s t m n l. Some (take 32 (p @ replicate 32 (CHR ''x'')))) (Some ''salt'') ''secret''))
     ''secret'' = Inr True"
proof -
  let ?kdf = "\<lambda>p s (t::nat) (m::nat) (n::nat) (l::nat). Some (take 32 (p @ replicate 32 (CHR ''x'')))"
  obtain h where h: "hash_password ?kdf (Some ''salt'') ''secret'' = Some h"
    by (simp add: hash_password_def)
  show ?thesis
    using password_roundtrip [OF h, of "[]"] h by (simp add: argon_key_len_def)
qed

end
