(* ===== verification/Inspect.thy ===== *)
theory Inspect
  imports Html Numbers Limits
begin

text \<open>
  \<open>internal/inspect/sanitize.go\<close>: a fetched page reduced to what may be shown in the selector
  picker's frame, with an index of the elements that survive. Parsing and rendering HTML are
  arguments, as is the text of the picker script. The tree that is rendered holds nothing but
  allowed tags and attributes and the one script, and the index lists its elements by number.
\<close>

section \<open>Style text\<close>

definition re_space :: "char \<Rightarrow> bool" where
  \<comment> \<open>the class \s of package regexp\<close>
  "re_space c \<longleftrightarrow> c \<in> {CHR 0x09, CHR 0x0A, CHR 0x0C, CHR 0x0D, CHR '' ''}"

definition match_import :: "string \<Rightarrow> string option" where
  \<comment> \<open>what follows a match of (?i)@import\s+[^;]*;? at the front\<close>
  "match_import s =
     (if has_prefix (lower s) ''@import'' then
        (let r = drop 7 s in
         if r \<noteq> [] \<and> re_space (hd r) then Some (tl (dropWhile (\<lambda>c. c \<noteq> CHR '';'') r)) else None)
      else None)"

definition match_url :: "string \<Rightarrow> string option" where
  \<comment> \<open>what follows a match of (?i)url\(\s*[^)]*\) at the front\<close>
  "match_url s =
     (if has_prefix (lower s) ''url('' \<and> CHR '')'' \<in> set (drop 4 s)
      then Some (tl (dropWhile (\<lambda>c. c \<noteq> CHR '')'') (drop 4 s))) else None)"

lemma match_shorter:
  "match_import s = Some r \<Longrightarrow> length r < length s" "match_url s = Some r \<Longrightarrow> length r < length s"
proof -
  have *: "length (tl (dropWhile P (drop (Suc n) s))) < length s" if "s \<noteq> []" for P n
    using that length_dropWhile_le [of P "drop (Suc n) s"] by (cases s) auto
  have "s \<noteq> []" if "has_prefix (lower s) (x # p)" for x p
    using that by (auto simp: has_prefix_def lower_def)
  then show "match_import s = Some r \<Longrightarrow> length r < length s" "match_url s = Some r \<Longrightarrow> length r < length s"
    using * [of _ 6] * [of _ 3]
    by (auto simp: match_import_def match_url_def Let_def split: if_splits)
qed

function replace_matches :: "(string \<Rightarrow> string option) \<Rightarrow> string \<Rightarrow> string" where
  \<comment> \<open>ReplaceAllString with the empty string: one pass, leftmost matches\<close>
  "replace_matches m [] = []"
| "replace_matches m (c # s) =
     (case m (c # s) of
        Some r \<Rightarrow> if length r < length (c # s) then replace_matches m r else c # replace_matches m s
      | None \<Rightarrow> c # replace_matches m s)"
  by pat_completeness auto
termination
  by (relation "measure (\<lambda>(m, s). length s)") auto

definition strip_style_refs :: "string \<Rightarrow> string" where
  "strip_style_refs css = replace_matches match_url (replace_matches match_import css)"

section \<open>The walk\<close>

record element =
  el_id :: nat
  el_tag :: string
  el_classes :: "string list"
  el_html_id :: string
  el_parent :: nat

definition allowed_tags :: "string list" where
  "allowed_tags =
     [''div'', ''span'', ''p'', ''h1'', ''h2'', ''h3'', ''h4'', ''h5'', ''h6'', ''ul'', ''ol'', ''li'',
      ''dl'', ''dt'', ''dd'', ''table'', ''thead'', ''tbody'', ''tr'', ''th'', ''td'',
      ''article'', ''section'', ''header'', ''footer'', ''nav'', ''aside'', ''main'',
      ''figure'', ''figcaption'', ''time'', ''a'', ''strong'', ''em'', ''b'', ''i'', ''small'',
      ''br'', ''hr'', ''style'']"

definition void_tags :: "string list" where "void_tags = [''br'', ''hr'']"

definition allowed_attrs :: "string list" where
  "allowed_attrs = [''class'', ''id'', ''style'', ''alt'']"

definition id_attr :: string where "id_attr = ''data-feedla-id''"

definition element_attrs :: "html \<Rightarrow> (string \<times> string) list \<times> string list \<times> string" where
  "element_attrs src =
     (let kept = map (\<lambda>(k, v). (k, if k = ''style'' then strip_style_refs v else v))
        (filter (\<lambda>(k, v). k \<in> set allowed_attrs) (n_attr src))
      in (kept,
          (case filter (\<lambda>(k, v). k = ''class'') kept of [] \<Rightarrow> [] | cs \<Rightarrow> str_fields (snd (last cs))),
          (case filter (\<lambda>(k, v). k = ''id'') kept of [] \<Rightarrow> [] | is \<Rightarrow> snd (last is))))"

type_synonym walker = "nat \<times> element list" \<comment> \<open>the last id handed out, and the index so far\<close>

definition first_attr :: "html \<Rightarrow> string \<Rightarrow> string" where
  "first_attr n key = (case find (\<lambda>(k, v). k = key) (n_attr n) of None \<Rightarrow> [] | Some (k, v) \<Rightarrow> v)"

definition open_element :: "string \<Rightarrow> html \<Rightarrow> nat \<Rightarrow> walker \<Rightarrow> nat \<times> (string \<times> string) list \<times> walker" where
  \<comment> \<open>the next id, the element's attributes, and its entry in the index\<close>
  "open_element tag n parent w =
     (case element_attrs n of
        (attrs, classes, html_id) \<Rightarrow>
          let i = fst w + 1
          in (i, attrs @ [(id_attr, dec_nat i)],
              (i, snd w @ [\<lparr>el_id = i, el_tag = tag, el_classes = classes, el_html_id = html_id, el_parent = parent\<rparr>])))"

definition img_placeholder :: "html \<Rightarrow> nat \<Rightarrow> walker \<Rightarrow> html list \<times> walker" where
  "img_placeholder n parent w =
     (case open_element ''img'' n parent w of
        (i, attrs, w') \<Rightarrow>
          ([Node Element_Node ''span'' attrs
              (if first_attr n ''alt'' = [] then [] else [Node Text_Node (first_attr n ''alt'') [] []])], w'))"

fun append_sanitized :: "html \<Rightarrow> nat \<Rightarrow> walker \<Rightarrow> html list \<times> walker"
  and append_all :: "html list \<Rightarrow> nat \<Rightarrow> walker \<Rightarrow> html list \<times> walker" where
  \<comment> \<open>the nodes appended to dst\<close>
  "append_sanitized (Node t tag a cs) parent w =
     (case t of
        Text_Node \<Rightarrow> ([Node Text_Node tag [] []], w)
      | Element_Node \<Rightarrow>
          if tag = ''img'' then img_placeholder (Node t tag a cs) parent w
          else if tag \<notin> set allowed_tags then ([], w)
          else (case open_element tag (Node t tag a cs) parent w of
            (i, attrs, w1) \<Rightarrow>
              if tag = ''style'' then
                ([Node Element_Node tag attrs
                    (map (\<lambda>c. Node Text_Node (strip_style_refs (n_data c)) [] [])
                      (filter (\<lambda>c. n_type c = Text_Node) cs))], w1)
              else if tag \<in> set void_tags then ([Node Element_Node tag attrs []], w1)
              else case append_all cs i w1 of (ns, w2) \<Rightarrow> ([Node Element_Node tag attrs ns], w2))
      | _ \<Rightarrow> ([], w))"
| "append_all [] parent w = ([], w)"
| "append_all (c # cs) parent w =
     (case append_sanitized c parent w of
        (ns, w1) \<Rightarrow> (case append_all cs parent w1 of (ms, w2) \<Rightarrow> (ns @ ms, w2)))"

definition sanitized_page :: "string \<Rightarrow> html list \<Rightarrow> html" where
  \<comment> \<open>the document around the surviving nodes, the picker script last\<close>
  "sanitized_page script ns =
     Node Document_Node [] []
       [Node Doctype_Node ''html'' [] [],
        Node Element_Node ''html'' []
          [Node Element_Node ''head'' [] [],
           Node Element_Node ''body'' []
             (ns @ [Node Element_Node ''script'' [] [Node Text_Node script [] []]])]]"

definition sanitize_tree :: "html option \<Rightarrow> html list \<times> element list" where
  "sanitize_tree doc =
     (case Option.bind doc find_body of
        None \<Rightarrow> ([], [])
      | Some b \<Rightarrow> (case append_all (n_children b) 0 (0, []) of (ns, w) \<Rightarrow> (ns, snd w)))"

definition sanitize_page ::
    "(string \<Rightarrow> html option) \<Rightarrow> (html \<Rightarrow> string option) \<Rightarrow> string \<Rightarrow> string \<Rightarrow> string \<times> element list" where
  "sanitize_page parse render script input =
     (case sanitize_tree (parse input) of
        (ns, els) \<Rightarrow>
          (case render (sanitized_page script ns) of None \<Rightarrow> ([], []) | Some out \<Rightarrow> (out, els)))"

section \<open>What is shown is what is allowed\<close>

fun safe_node :: "html \<Rightarrow> bool" where
  "safe_node (Node t tag a cs) \<longleftrightarrow>
     (case t of
        Text_Node \<Rightarrow> a = [] \<and> cs = []
      | Element_Node \<Rightarrow>
          tag \<in> set allowed_tags \<and> fst ` set a \<subseteq> insert id_attr (set allowed_attrs)
          \<and> (tag \<in> set void_tags \<longrightarrow> cs = [])
          \<and> list_all safe_node cs
      | _ \<Rightarrow> False)"

fun shown_ids :: "html \<Rightarrow> string list" where
  \<comment> \<open>the numbers of the elements, in document order\<close>
  "shown_ids (Node t tag a cs) = map snd (filter (\<lambda>(k, v). k = id_attr) a) @ concat (map shown_ids cs)"

definition index_ok :: "element list \<Rightarrow> bool" where
  \<comment> \<open>numbered from 1, every parent listed before its children\<close>
  "index_ok els \<longleftrightarrow> map el_id els = [1..<length els + 1] \<and> (\<forall>e \<in> set els. el_parent e < el_id e)"

definition walk_ok :: "nat \<Rightarrow> walker \<Rightarrow> html list \<Rightarrow> walker \<Rightarrow> bool" where
  \<comment> \<open>what one step of the walk adds, below an element numbered parent\<close>
  "walk_ok parent w ns w' \<longleftrightarrow>
     list_all safe_node ns \<and>
     (\<exists>new. snd w' = snd w @ new \<and> fst w' = fst w + length new
        \<and> map el_id new = [fst w + 1..<fst w' + 1]
        \<and> (parent \<le> fst w \<longrightarrow> (\<forall>e \<in> set new. el_parent e < el_id e))
        \<and> concat (map shown_ids ns) = map (\<lambda>e. dec_nat (el_id e)) new)"

lemma walk_ok_nothing: "walk_ok parent w [] w"
  unfolding walk_ok_def by (simp add: exI [of _ "[]"])

lemma walk_ok_text: "walk_ok parent w [Node Text_Node s [] []] w"
  unfolding walk_ok_def by (simp add: exI [of _ "[]"])

lemma walk_ok_append:
  assumes "walk_ok p w ns w1" "walk_ok p w1 ms w2"
  shows "walk_ok p w (ns @ ms) w2"
proof -
  obtain new1 where n1: "list_all safe_node ns" "snd w1 = snd w @ new1" "fst w1 = fst w + length new1"
      "map el_id new1 = [fst w + 1..<fst w1 + 1]" "p \<le> fst w \<longrightarrow> (\<forall>e \<in> set new1. el_parent e < el_id e)"
      "concat (map shown_ids ns) = map (\<lambda>e. dec_nat (el_id e)) new1"
    using assms(1) unfolding walk_ok_def by blast
  obtain new2 where n2: "list_all safe_node ms" "snd w2 = snd w1 @ new2" "fst w2 = fst w1 + length new2"
      "map el_id new2 = [fst w1 + 1..<fst w2 + 1]" "p \<le> fst w1 \<longrightarrow> (\<forall>e \<in> set new2. el_parent e < el_id e)"
      "concat (map shown_ids ms) = map (\<lambda>e. dec_nat (el_id e)) new2"
    using assms(2) unfolding walk_ok_def by blast
  have "map el_id (new1 @ new2) = [fst w + 1..<fst w2 + 1]"
    using n1(3,4) n2(3,4) upt_add_eq_append [of "fst w + 1" "fst w1 + 1" "length new2"] by simp
  then show ?thesis
    unfolding walk_ok_def using n1 n2 by (intro conjI exI [of _ "new1 @ new2"]) auto
qed

lemma element_attrs_keys:
  "element_attrs n = (attrs, cl, hid) \<Longrightarrow> fst ` set attrs \<subseteq> set allowed_attrs"
  by (auto simp: element_attrs_def Let_def)

lemma id_attr_not_allowed: "id_attr \<notin> set allowed_attrs"
  by (simp add: id_attr_def allowed_attrs_def)

lemma open_element_facts:
  assumes "open_element tag n parent w = (i, attrs, w')"
  shows "i = fst w + 1" "fst ` set attrs \<subseteq> insert id_attr (set allowed_attrs)"
    "map snd (filter (\<lambda>(k, v). k = id_attr) attrs) = [dec_nat i]"
    "fst w' = i" "\<exists>e. snd w' = snd w @ [e] \<and> el_id e = i \<and> el_parent e = parent"
proof -
  obtain kept cl hid where k: "element_attrs n = (kept, cl, hid)" by (cases "element_attrs n") auto
  have none: "filter (\<lambda>(k, v). k = id_attr) kept = []"
    using element_attrs_keys [OF k] id_attr_not_allowed by (force simp: filter_empty_conv)
  show "i = fst w + 1" "fst w' = i" "\<exists>e. snd w' = snd w @ [e] \<and> el_id e = i \<and> el_parent e = parent"
    "fst ` set attrs \<subseteq> insert id_attr (set allowed_attrs)"
    "map snd (filter (\<lambda>(k, v). k = id_attr) attrs) = [dec_nat i]"
    using assms element_attrs_keys [OF k] none by (fastforce simp: open_element_def k Let_def)+
qed

lemma walk_ok_element:
  \<comment> \<open>an element whose children were walked under its own number\<close>
  assumes open_el: "open_element tag' n parent w = (i, attrs, w1)"
    and kids: "walk_ok i w1 ns w2"
    and tag: "tag \<in> set allowed_tags" "tag \<in> set void_tags \<Longrightarrow> ns = []"
  shows "walk_ok parent w [Node Element_Node tag attrs ns] w2"
proof -
  note facts = open_element_facts [OF open_el]
  obtain e where e: "snd w1 = snd w @ [e]" "el_id e = i" "el_parent e = parent" using facts(5) by blast
  obtain new where n: "list_all safe_node ns" "snd w2 = snd w1 @ new" "fst w2 = fst w1 + length new"
      "map el_id new = [fst w1 + 1..<fst w2 + 1]" "i \<le> fst w1 \<longrightarrow> (\<forall>e \<in> set new. el_parent e < el_id e)"
      "concat (map shown_ids ns) = map (\<lambda>e. dec_nat (el_id e)) new"
    using kids unfolding walk_ok_def by blast
  have "[fst w + 1..<fst w2 + 1] = i # [fst w1 + 1..<fst w2 + 1]"
    using facts(1,4) n(3) by (subst upt_conv_Cons) auto
  then have "map el_id (e # new) = [fst w + 1..<fst w2 + 1]" using e n(4) by simp
  moreover have "safe_node (Node Element_Node tag attrs ns)" using facts(2) tag n(1) by auto
  moreover have "shown_ids (Node Element_Node tag attrs ns) = map (\<lambda>e. dec_nat (el_id e)) (e # new)"
    using facts(3) n(6) e(2) by simp
  ultimately show ?thesis
    unfolding walk_ok_def using e n facts(1,4)
    by (intro conjI exI [of _ "e # new"]) auto
qed

lemma void_not_special: "tag \<in> set void_tags \<Longrightarrow> tag \<noteq> ''style''" "''span'' \<in> set allowed_tags"
  "''span'' \<notin> set void_tags"
  by (auto simp: void_tags_def allowed_tags_def)

lemma walk_ok_texts: "walk_ok p w (map (\<lambda>c. Node Text_Node (f c) [] []) cs) w"
proof (induction cs)
  case (Cons c cs)
  then show ?case using walk_ok_append [OF walk_ok_text [of p w "f c"]] by simp
qed (simp add: walk_ok_nothing)

lemma img_placeholder_ok: "img_placeholder n parent w = (ns, w') \<Longrightarrow> walk_ok parent w ns w'"
  unfolding img_placeholder_def
  by (auto split: prod.splits if_splits simp: void_not_special
      intro!: walk_ok_element walk_ok_nothing walk_ok_text)

lemma append_walk_ok:
  "append_sanitized n parent w = (ns, w') \<Longrightarrow> walk_ok parent w ns w'"
  "append_all cs parent w = (ms, w'') \<Longrightarrow> walk_ok parent w ms w''"
proof (induction n parent w and cs parent w arbitrary: ns w' and ms w'' rule: append_sanitized_append_all.induct)
  case (1 t tag a cs parent w)
  show ?case
  proof (cases "t = Element_Node \<and> tag \<noteq> ''img'' \<and> tag \<in> set allowed_tags")
    case False
    then show ?thesis
      using 1(2) by (cases t) (auto simp: walk_ok_nothing walk_ok_text img_placeholder_ok split: if_splits)
  next
    case True
    obtain i attrs w1 where o: "open_element tag (Node t tag a cs) parent w = (i, attrs, w1)"
      by (cases "open_element tag (Node t tag a cs) parent w") auto
    show ?thesis
    proof (cases "tag = ''style'' \<or> tag \<in> set void_tags")
      case True
      then show ?thesis
        using 1(2) \<open>t = _ \<and> _\<close> o void_not_special(1)
        by (auto intro!: walk_ok_element [OF o] walk_ok_texts walk_ok_nothing split: if_splits)
    next
      case False
      obtain ks w2 where k: "append_all cs i w1 = (ks, w2)" by (cases "append_all cs i w1") auto
      have "walk_ok i w1 ks w2"
        using 1(1) True False o k by simp
      then show ?thesis
        using 1(2) True False o k by (auto intro!: walk_ok_element [OF o])
    qed
  qed
next
  case (3 c cs parent w)
  then show ?case by (auto split: prod.splits intro: walk_ok_append)
qed (simp add: walk_ok_nothing)

lemma find_body_bind: "sanitize_tree doc = (ns, els) \<Longrightarrow> \<exists>w. walk_ok 0 (0, []) ns (w, els)"
proof (cases "Option.bind doc find_body")
  case None
  then show "sanitize_tree doc = (ns, els) \<Longrightarrow> \<exists>w. walk_ok 0 (0, []) ns (w, els)"
    using walk_ok_nothing [of 0 "(0, [])"] by (auto simp: sanitize_tree_def)
next
  case (Some b)
  then show "sanitize_tree doc = (ns, els) \<Longrightarrow> \<exists>w. walk_ok 0 (0, []) ns (w, els)"
    using append_walk_ok(2) [of "n_children b" 0 "(0, [])"] by (fastforce simp: sanitize_tree_def split: prod.splits)
qed


text \<open>
  The two passes over style text are not repeated on their own output: a removed url(...)
  can close up into another one, or into an @import, which then stays in the page.
\<close>

theorem style_refs_reappear:
  "strip_style_refs ''uurl()rl(x)'' = ''url(x)'' \<and> strip_style_refs ''@imurl()port x'' = ''@import x''"
proof -
  have "strip_style_refs ''uurl()rl(x)'' = ''url(x)''" "strip_style_refs ''@imurl()port x'' = ''@import x''"
    by code_simp+
  then show ?thesis by blast
qed

end
