(* ===== verification/Discover.thy ===== *)
theory Discover
  imports Crawler
begin

text \<open>
  \<open>internal/feed/discover.go\<close>: the feeds at or behind a URL the user typed. The URL is fetched; a
  feed is its own only candidate, an HTML page offers the feeds its link tags name, and without
  any a few usual places are tried. Arguments are gofeed, the HTML tokenizer (which hands out
  attribute values and texts already unescaped, as TagAttr and Text do), UnescapeString, and
  package net/url. The network seen by the fetches is a function of their number: 0 for the URL,
  i + 1 for the i-th link or guess; the 15 second deadlines show as requests that fail.
\<close>

datatype html_token =
    Start_Tag string "(string \<times> string) list"
  | Self_Closing string "(string \<times> string) list"
  | Text_Token string
  | Other_Token

record 'u discover_lib =
  dc_net :: "nat \<Rightarrow> http_env"
  dc_fetcher :: fetcher
  dc_gofeed :: "string \<Rightarrow> feed_doc option"
  dc_tokens :: "string \<Rightarrow> html_token list"
  dc_unescape :: "string \<Rightarrow> string"
  dc_urls :: "'u url_lib"
  dc_join :: "'u \<Rightarrow> string \<Rightarrow> 'u" \<comment> \<open>JoinPath\<close>

record feed_candidate =
  fc_title :: string
  fc_url :: string

record alternate_link =
  lk_title :: string
  lk_url :: string
  lk_type :: string

datatype discover_error = Discover_Fetch fetch_error | Discover_Status int | No_Feed

definition plain_fetch :: "'u discover_lib \<Rightarrow> nat \<Rightarrow> string \<Rightarrow> fetch_error + fetch_result" where
  "plain_fetch L i url =
     fst (fetch (dc_net L i) (dc_fetcher L) url \<lparr>fo_etag = [], fo_last_modified = [], fo_accept = []\<rparr>)"

definition final_or :: "string \<Rightarrow> fetch_result \<Rightarrow> string" where
  "final_or url r = (if fr_final_url r = [] then url else fr_final_url r)"

definition fetched_feed :: "'u discover_lib \<Rightarrow> nat \<Rightarrow> string \<Rightarrow> (fetch_result \<times> feed_doc) option" where
  \<comment> \<open>a fetch that answers 200 with something gofeed parses\<close>
  "fetched_feed L i url =
     (case plain_fetch L i url of
        Inl e \<Rightarrow> None
      | Inr r \<Rightarrow> if fr_status r \<noteq> 200 then None else map_option (Pair r) (dc_gofeed L (fr_body r)))"

section \<open>Guessing\<close>

definition feed_url_suffixes :: "string list" where
  "feed_url_suffixes = [''.rss'', ''feed'', ''rss'', ''atom.xml'', ''feed.xml'', ''rss.xml'', ''index.xml'']"

definition guess_url :: "'u discover_lib \<Rightarrow> 'u \<Rightarrow> string \<Rightarrow> string" where
  "guess_url L base suf =
     (let U = dc_urls L in ul_string U (ul_no_fragment U (ul_set_query U [] (dc_join L base suf))))"

fun guess_from :: "'u discover_lib \<Rightarrow> 'u \<Rightarrow> nat \<Rightarrow> string list \<Rightarrow> feed_candidate list" where
  "guess_from L base i [] = []"
| "guess_from L base i (suf # rest) =
     (let url = guess_url L base suf
      in case fetched_feed L i url of
           None \<Rightarrow> guess_from L base (i + 1) rest
         | Some (r, doc) \<Rightarrow> [\<lparr>fc_title = trim_space (doc_title doc), fc_url = final_or url r\<rparr>])"

definition guess_feed_candidates :: "'u discover_lib \<Rightarrow> string \<Rightarrow> feed_candidate list" where
  "guess_feed_candidates L base_url =
     (case ul_parse (dc_urls L) base_url of
        None \<Rightarrow> [] | Some base \<Rightarrow> guess_from L base 1 feed_url_suffixes)"

section \<open>Links of a page\<close>

definition feed_link_types :: "string list" where
  "feed_link_types =
     [''application/rss+xml'', ''application/atom+xml'', ''application/json'', ''application/feed+json'']"

definition feed_format_labels :: "(string \<times> string) list" where
  "feed_format_labels =
     [(''application/rss+xml'', ''RSS''), (''application/atom+xml'', ''Atom''),
      (''application/json'', ''JSON Feed''), (''application/feed+json'', ''JSON Feed'')]"

definition last_attr :: "(string \<times> string) list \<Rightarrow> string \<Rightarrow> string" where
  \<comment> \<open>the switch over TagAttr: the last value of a key stays\<close>
  "last_attr attrs key = (case filter (\<lambda>(k, v). k = key) attrs of [] \<Rightarrow> [] | kvs \<Rightarrow> snd (last kvs))"

definition link_of :: "'u discover_lib \<Rightarrow> 'u option \<Rightarrow> (string \<times> string) list \<Rightarrow> alternate_link option" where
  "link_of L base attrs =
     (let rel = last_attr attrs ''rel''; href = last_attr attrs ''href'';
          typ = lower (trim_space (last_attr attrs ''type''))
      in if \<not> contains rel ''alternate'' \<or> typ \<notin> set feed_link_types \<or> href = [] then None
         else
           let U = dc_urls L;
               resolved = (case (ul_parse U href, base) of
                  (Some u, Some b) \<Rightarrow> ul_string U (ul_resolve U b u) | _ \<Rightarrow> href)
           in Some \<lparr>lk_title = dc_unescape L (last_attr attrs ''title''), lk_url = dc_unescape L resolved,
                    lk_type = typ\<rparr>)"

definition token_link :: "'u discover_lib \<Rightarrow> 'u option \<Rightarrow> html_token \<Rightarrow> alternate_link list" where
  "token_link L base t =
     (case t of
        Start_Tag name attrs \<Rightarrow>
          if name = ''link'' then (case link_of L base attrs of None \<Rightarrow> [] | Some l \<Rightarrow> [l]) else []
      | Self_Closing name attrs \<Rightarrow>
          if name = ''link'' then (case link_of L base attrs of None \<Rightarrow> [] | Some l \<Rightarrow> [l]) else []
      | _ \<Rightarrow> [])"

definition extract_alternate_links :: "'u discover_lib \<Rightarrow> string \<Rightarrow> string \<Rightarrow> alternate_link list" where
  "extract_alternate_links L body base_url =
     concat (map (token_link L (ul_parse (dc_urls L) base_url)) (dc_tokens L body))"

fun title_in :: "(string \<Rightarrow> string) \<Rightarrow> html_token list \<Rightarrow> string" where
  "title_in unescape [] = []"
| "title_in unescape (Start_Tag name attrs # ts) =
     (if name = ''title'' then
        (case ts of Text_Token s # _ \<Rightarrow> trim_space (unescape s) | _ \<Rightarrow> [])
      else title_in unescape ts)"
| "title_in unescape (t # ts) = title_in unescape ts"

definition extract_page_title :: "'u discover_lib \<Rightarrow> string \<Rightarrow> string" where
  "extract_page_title L body = title_in (dc_unescape L) (dc_tokens L body)"

definition fallback_title :: "alternate_link \<Rightarrow> string \<Rightarrow> string" where
  "fallback_title link ptitle =
     (let label = (case map_of feed_format_labels (lk_type link) of None \<Rightarrow> [] | Some l \<Rightarrow> l)
      in if ptitle \<noteq> [] \<and> label \<noteq> [] then ptitle @ '' ('' @ label @ '')''
         else if ptitle \<noteq> [] then ptitle
         else lk_title link)"

definition resolve_candidate :: "'u discover_lib \<Rightarrow> string \<Rightarrow> nat \<Rightarrow> alternate_link \<Rightarrow> feed_candidate" where
  "resolve_candidate L ptitle i link =
     (case fetched_feed L i (lk_url link) of
        None \<Rightarrow> \<lparr>fc_title = fallback_title link ptitle, fc_url = lk_url link\<rparr>
      | Some (r, doc) \<Rightarrow>
          \<lparr>fc_title = (let t = trim_space (doc_title doc) in if t \<noteq> [] then t else fallback_title link ptitle),
           fc_url = final_or (lk_url link) r\<rparr>)"

definition resolve_candidate_titles :: "'u discover_lib \<Rightarrow> alternate_link list \<Rightarrow> string \<Rightarrow> feed_candidate list" where
  "resolve_candidate_titles L links ptitle =
     map (\<lambda>(i, link). resolve_candidate L ptitle (i + 1) link) (enumerate 0 links)"

section \<open>Discovery\<close>

definition discover_feed :: "'u discover_lib \<Rightarrow> string \<Rightarrow> discover_error + feed_candidate list" where
  "discover_feed L raw_url =
     (case plain_fetch L 0 raw_url of
        Inl e \<Rightarrow> Inl (Discover_Fetch e)
      | Inr r \<Rightarrow>
          if fr_status r \<noteq> 200 then Inl (Discover_Status (fr_status r))
          else
            let feed_url = final_or raw_url r
            in case dc_gofeed L (fr_body r) of
                 Some doc \<Rightarrow> Inr [\<lparr>fc_title = trim_space (doc_title doc), fc_url = feed_url\<rparr>]
               | None \<Rightarrow>
                   let links = extract_alternate_links L (fr_body r) feed_url
                   in if links = [] then
                        (case guess_feed_candidates L feed_url of
                           [] \<Rightarrow> Inl No_Feed | cs \<Rightarrow> Inr cs)
                      else Inr (resolve_candidate_titles L links (extract_page_title L (fr_body r))))"

section \<open>What is found\<close>

lemma guess_from_length: "length (guess_from L base i sufs) \<le> 1"
  by (induction sufs arbitrary: i) (auto simp: Let_def split: option.splits)

text \<open>
  Discovery that succeeds hands back at least one candidate, so the handlers that take the
  first one never index an empty list; a URL that is itself a feed has exactly one, under the URL
  the redirects led to; and a page's links become as many candidates as there are feed links.
\<close>

theorem discovery_is_never_empty:
  assumes "discover_feed L url = Inr cs"
  shows "cs \<noteq> [] \<and>
    (\<forall>r doc. plain_fetch L 0 url = Inr r \<longrightarrow> dc_gofeed L (fr_body r) = Some doc \<longrightarrow>
        cs = [\<lparr>fc_title = trim_space (doc_title doc), fc_url = final_or url r\<rparr>]) \<and>
    (\<forall>r. plain_fetch L 0 url = Inr r \<longrightarrow> dc_gofeed L (fr_body r) = None \<longrightarrow>
        extract_alternate_links L (fr_body r) (final_or url r) \<noteq> [] \<longrightarrow>
        length cs = length (extract_alternate_links L (fr_body r) (final_or url r)))"
proof -
  obtain r where r: "plain_fetch L 0 url = Inr r" "fr_status r = 200"
    using assms by (auto simp: discover_feed_def Let_def split: sum.splits if_splits)
  show ?thesis
  proof (cases "dc_gofeed L (fr_body r)")
    case (Some doc)
    then show ?thesis using assms r by (auto simp: discover_feed_def Let_def)
  next
    case None
    then show ?thesis
      using assms r
      by (auto simp: discover_feed_def Let_def resolve_candidate_titles_def enumerate_eq_zip
          split: if_splits list.splits)
  qed
qed

definition sample_discovery :: "string discover_lib" where
  \<comment> \<open>every request answers 200; no body is a feed, every page has one feed link\<close>
  "sample_discovery =
     \<lparr>dc_net = (\<lambda>_. answering 200 ''b''), dc_fetcher = new_fetcher [] 0, dc_gofeed = (\<lambda>_. None),
      dc_tokens = (\<lambda>_. [Start_Tag ''link''
        [(''rel'', ''alternate''), (''type'', ''application/rss+xml''), (''href'', ''f'')]]),
      dc_unescape = (\<lambda>s. s), dc_urls = sample_urls, dc_join = (\<lambda>u s. u @ s)\<rparr>"

theorem discovery_is_never_empty_witness:
  "case discover_feed sample_discovery ''http://h/'' of
     Inl e \<Rightarrow> False | Inr cs \<Rightarrow> cs \<noteq> [] \<and> length cs = 1"
proof -
  have fetch: "plain_fetch sample_discovery i u = Inr ((sample_answer 200)\<lparr>fr_final_url := u\<rparr>)" for i u
    by (simp add: plain_fetch_def sample_discovery_def fetch_def fetch_from.simps do_request_def
      answering_def build_request_def build_result_def redirect_location_def parse_retry_after_def
      new_fetcher_def default_max_body_def max_redirect_hops_def sample_answer_def Let_def)
  have nofeed: "dc_gofeed sample_discovery b = None" for b by (simp add: sample_discovery_def)
  have link: "link_of sample_discovery (Some ''http://h/'')
      [(''rel'', ''alternate''), (''type'', ''application/rss+xml''), (''href'', ''f'')]
    = Some \<lparr>lk_title = [], lk_url = ''f'', lk_type = ''application/rss+xml''\<rparr>"
    by code_simp
  have "extract_alternate_links sample_discovery ''b'' ''http://h/''
      = [\<lparr>lk_title = [], lk_url = ''f'', lk_type = ''application/rss+xml''\<rparr>]"
    using link by (simp add: extract_alternate_links_def token_link_def sample_discovery_def sample_urls_def)
  then have links: "extract_alternate_links sample_discovery (fr_body ((sample_answer 200)\<lparr>fr_final_url := ''http://h/''\<rparr>))
      (final_or ''http://h/'' ((sample_answer 200)\<lparr>fr_final_url := ''http://h/''\<rparr>))
      = [\<lparr>lk_title = [], lk_url = ''f'', lk_type = ''application/rss+xml''\<rparr>]"
    by (simp add: sample_answer_def final_or_def)
  have ok: "fr_status ((sample_answer 200)\<lparr>fr_final_url := u\<rparr>) = 200" for u by (simp add: sample_answer_def)
  obtain cs where cs: "discover_feed sample_discovery ''http://h/'' = Inr cs"
    using links ok by (simp add: discover_feed_def fetch nofeed Let_def)
  show ?thesis
    using discovery_is_never_empty [OF cs] links fetch nofeed by (simp add: cs)
qed

end
