(* ===== verification/StoreRuns.thy ===== *)
theory StoreRuns
  imports StoreOps
begin

text \<open>
  Runs of store calls that stay within an allowed set: what a handler, an import or a
  maintenance pass does to the database is shown once to be such a run, and every fact the
  allowed calls keep then holds across it. \<open>store_path\<close> is the interface: a relation between
  databases that contains every allowed call and composes.
\<close>

definition runs :: "(store_op \<Rightarrow> bool) \<Rightarrow> (string \<Rightarrow> string) \<Rightarrow> db \<Rightarrow> db \<Rightarrow> bool" where
  "runs P q d d' \<longleftrightarrow> (\<exists>ops. list_all P ops \<and> d' = foldl (store_exec q) d ops)"

lemma runs_refl [intro!, simp]: "runs P q d d"
  unfolding runs_def by (intro exI [of _ "[]"]) simp

lemma runs_op: "P op \<Longrightarrow> runs P q d (store_exec q d op)"
  unfolding runs_def by (intro exI [of _ "[op]"]) simp

lemma runs_trans [trans]: "runs P q d d1 \<Longrightarrow> runs P q d1 d2 \<Longrightarrow> runs P q d d2"
  unfolding runs_def
proof (elim exE conjE)
  fix ops ops'
  assume "list_all P ops" "d1 = foldl (store_exec q) d ops" "list_all P ops'" "d2 = foldl (store_exec q) d1 ops'"
  then show "\<exists>ops. list_all P ops \<and> d2 = foldl (store_exec q) d ops"
    by (intro exI [of _ "ops @ ops'"]) simp
qed

lemma runs_mono: "runs P q d d' \<Longrightarrow> (\<And>op. P op \<Longrightarrow> Q op) \<Longrightarrow> runs Q q d d'"
  unfolding runs_def by (elim exE conjE, intro exI conjI) (rule list.pred_mono_strong, assumption+)

lemma runs_inv:
  assumes "runs P q d d'" "I d" "\<And>op d. P op \<Longrightarrow> I d \<Longrightarrow> I (store_exec q d op)"
  shows "I d'"
proof -
  obtain ops where ops: "list_all P ops" "d' = foldl (store_exec q) d ops" using assms(1) unfolding runs_def by blast
  have "I (foldl (store_exec q) d ops)" using ops(1) assms(2)
    by (induction ops arbitrary: d) (simp_all add: assms(3))
  then show ?thesis using ops(2) by simp
qed

lemma runs_rel:
  \<comment> \<open>a reflexive, transitive relation that every allowed call respects\<close>
  assumes "runs P q d d'" "\<And>d. R d d" "\<And>a b c. R a b \<Longrightarrow> R b c \<Longrightarrow> R a c"
    "\<And>op d. P op \<Longrightarrow> R d (store_exec q d op)"
  shows "R d d'"
  using runs_inv [OF assms(1), of "R d"] assms(2-4) by blast

lemma runs_ok: "runs P q d d' \<Longrightarrow> db_ok d \<Longrightarrow> db_ok d'"
  by (erule runs_inv) (auto intro: store_exec_ok)

text \<open>A call that succeeded is the call; one that failed left the database alone.\<close>

lemma runs_keep: "P op \<Longrightarrow> store_exec q d op = keep d r \<Longrightarrow> r = Inr d' \<Longrightarrow> runs P q d d'"
  by (metis keep_def old.sum.simps(6) runs_op)

lemma runs_keep_snd: "P op \<Longrightarrow> store_exec q d op = keep_snd d r \<Longrightarrow> r = Inr (x, d') \<Longrightarrow> runs P q d d'"
  by (metis keep_snd_def old.sum.simps(6) case_prod_conv runs_op)

lemma runs_eq: "P op \<Longrightarrow> store_exec q d op = d' \<Longrightarrow> runs P q d d'"
  using runs_op by metis

end
