(* ===== verification/Opml.thy ===== *)
theory Opml
  imports Fetcher StoreRuns
begin

text \<open>
  \<open>internal/feed\<close>: opml.go, import.go, export.go and seed.go, subscriptions as OPML outlines. The
  tree of outlines is the model's; reading and writing it as XML (encoding/xml with a charset
  reader) are arguments. The lemmas show what becomes of an import, on every error too, and
  that an exported document lists exactly the feeds of the user with their folders.
\<close>

section \<open>Outlines\<close>

datatype outline =
  Outline (ol_text: string) (ol_title: string) (ol_type: string) (ol_xml_url: string) (ol_html_url: string)
    (ol_outlines: "outline list")

record imported_feed =
  im_title :: string
  im_url :: string
  im_site :: string
  im_folder :: string

fun collect_outline :: "string \<Rightarrow> outline \<Rightarrow> imported_feed list" where
  \<comment> \<open>one round of the loop of collectOutlines, which recurses into a folder\<close>
  "collect_outline folder (Outline text title type xml html os) =
     (let name = (if title = [] then text else title)
      in if xml = [] then concat (map (collect_outline name) os)
         else [\<lparr>im_title = name, im_url = xml, im_site = html, im_folder = folder\<rparr>])"

definition collect_outlines :: "string \<Rightarrow> outline list \<Rightarrow> imported_feed list" where
  "collect_outlines folder os = concat (map (collect_outline folder) os)"

definition parse_opml :: "(string \<Rightarrow> outline list option) \<Rightarrow> string \<Rightarrow> imported_feed list option" where
  "parse_opml dec raw = map_option (collect_outlines []) (dec raw)"

section \<open>Import\<close>

datatype opml_error = Opml_Parse | Opml_Too_Many nat | Opml_Store store_error

definition import_interval :: int where "import_interval = 1800"

definition import_folder ::
    "int \<Rightarrow> string \<Rightarrow> (string \<rightharpoonup> int) \<Rightarrow> db \<Rightarrow> store_error + (int option \<times> (string \<rightharpoonup> int) \<times> db)" where
  \<comment> \<open>the folder of a feed, through the map folderIDs\<close>
  "import_folder u name ids d =
     (if name = [] then Inr (None, ids, d)
      else case ids name of
        Some i \<Rightarrow> Inr (Some i, ids, d)
      | None \<Rightarrow>
          (case get_or_create_folder d u name of
             Inl e \<Rightarrow> Inl e
           | Inr (i, d') \<Rightarrow> Inr (Some i, ids(name \<mapsto> i), d')))"

fun import_loop ::
    "(string \<Rightarrow> int) \<Rightarrow> int \<Rightarrow> time \<Rightarrow> imported_feed list \<Rightarrow> (string \<rightharpoonup> int) \<Rightarrow> nat \<Rightarrow> db
      \<Rightarrow> (nat \<times> opml_error option) \<times> db" where
  \<comment> \<open>the feeds imported so far, an error, and the database, which keeps what was written before it;
    the jitter UpsertFeed draws is given per URL\<close>
  "import_loop jitter u now [] ids n d = ((n, None), d)"
| "import_loop jitter u now (f # fs) ids n d =
     (if has_scrape_prefix (im_url f) then import_loop jitter u now fs ids n d
      else case import_folder u (im_folder f) ids d of
        Inl e \<Rightarrow> ((n, Some (Opml_Store e)), d)
      | Inr (folder, ids, d1) \<Rightarrow>
          (case upsert_feed d1 (im_url f) (im_site f) (im_title f) import_interval (jitter (im_url f)) now of
             (i, d2) \<Rightarrow>
               (case upsert_subscription d2 u i folder (im_title f) now of
                  Inl e \<Rightarrow> ((n, Some (Opml_Store e)), d2)
                | Inr d3 \<Rightarrow> import_loop jitter u now fs ids (n + 1) d3)))"

definition import_opml ::
    "(string \<Rightarrow> outline list option) \<Rightarrow> (string \<Rightarrow> int) \<Rightarrow> int \<Rightarrow> string \<Rightarrow> int \<Rightarrow> time \<Rightarrow> db
      \<Rightarrow> (nat \<times> opml_error option) \<times> db" where
  "import_opml dec jitter u raw max_feeds now d =
     (case parse_opml dec raw of
        None \<Rightarrow> ((0, Some Opml_Parse), d)
      | Some fs \<Rightarrow>
          if 0 < max_feeds \<and> max_feeds < int (length fs) then ((0, Some (Opml_Too_Many (length fs))), d)
          else import_loop jitter u now fs Map.empty 0 d)"

definition seed_if_empty ::
    "(string \<Rightarrow> outline list option) \<Rightarrow> (string \<Rightarrow> int) \<Rightarrow> string \<Rightarrow> time \<Rightarrow> db
      \<Rightarrow> (nat \<times> opml_error option) \<times> db" where
  "seed_if_empty dec jitter seed now d =
     (if list_feeds d \<noteq> [] then ((0, None), d)
      else case import_opml dec jitter 1 seed 0 now d of
        ((n, None), d') \<Rightarrow> ((n, None), d') | ((n, Some e), d') \<Rightarrow> ((0, Some e), d'))"

section \<open>Export\<close>

definition view_outline :: "sub_view \<Rightarrow> outline" where
  "view_outline v = Outline (sv_title v) (sv_title v) ''rss'' (sv_url v) (sv_site v) []"

definition exported_views :: "db \<Rightarrow> int \<Rightarrow> sub_view list" where
  "exported_views d u = filter (\<lambda>v. sv_kind v = ''feed'') (list_subscription_views d u)"

definition folder_outlines :: "sub_view list \<Rightarrow> folder \<Rightarrow> outline list" where
  \<comment> \<open>a folder without feeds is left out\<close>
  "folder_outlines vs f =
     (let os = map view_outline (filter (\<lambda>v. sv_folder v = Some (fol_id f)) vs)
      in if os = [] then [] else [Outline (fol_name f) (fol_name f) [] [] [] os])"

definition export_outlines :: "db \<Rightarrow> int \<Rightarrow> outline list" where
  "export_outlines d u =
     (let vs = exported_views d u
      in concat (map (folder_outlines vs) (list_folders d u))
         @ map view_outline (filter (\<lambda>v. sv_folder v = None) vs))"

definition export_opml :: "(outline list \<Rightarrow> string) \<Rightarrow> db \<Rightarrow> int \<Rightarrow> string" where
  \<comment> \<open>enc marshals the document; the declaration stands before it\<close>
  "export_opml enc d u = ''<?xml version='' @ [CHR 0x22] @ ''1.0'' @ [CHR 0x22] @ '' encoding='' @ [CHR 0x22]
     @ ''UTF-8'' @ [CHR 0x22] @ ''?>'' @ [CHR 0x0A] @ enc (export_outlines d u)"

section \<open>What an import does to the store\<close>

definition reader_op :: "int \<Rightarrow> store_op \<Rightarrow> bool" where
  \<comment> \<open>the store calls an import for user u makes\<close>
  "reader_op u op =
     (case op of
        Reading (GetOrCreateFolder v name) \<Rightarrow> v = u
      | Reading (UpsertSubscription v f folder title now) \<Rightarrow> v = u
      | Crawl (UpsertFeed url site title interval jitter now) \<Rightarrow> True
      | _ \<Rightarrow> False)"

lemma import_folder_run:
  "import_folder u name ids d = Inr (k, ids', d') \<Longrightarrow> runs (reader_op u) q d d'"
  by (auto simp: import_folder_def reader_op_def split: if_splits option.splits sum.splits
      intro!: runs_keep_snd [of _ "Reading (GetOrCreateFolder u name)"])

lemma import_loop_run: "runs (reader_op u) q d (snd (import_loop jitter u now fs ids n d))"
proof (induction fs arbitrary: ids n d)
  case (Cons f fs)
  have step: "runs (reader_op u) q d (snd (import_loop jitter u now (f # fs) ids n d))"
    if kid: "import_folder u (im_folder f) ids d = Inr (k, ids', d1)"
      and scheme: "\<not> has_scrape_prefix (im_url f)" for k ids' d1
  proof -
    obtain i d2 where up: "upsert_feed d1 (im_url f) (im_site f) (im_title f) import_interval (jitter (im_url f)) now = (i, d2)"
      by (cases "upsert_feed d1 (im_url f) (im_site f) (im_title f) import_interval (jitter (im_url f)) now") auto
    have "runs (reader_op u) q d d1" by (rule import_folder_run [OF kid])
    also have "runs (reader_op u) q d1 d2"
      using up by (intro runs_eq [of _ "Crawl (UpsertFeed (im_url f) (im_site f) (im_title f) import_interval (jitter (im_url f)) now)"])
        (simp_all add: reader_op_def)
    finally have d2: "runs (reader_op u) q d d2" .
    show ?thesis
    proof (cases "upsert_subscription d2 u i k (im_title f) now")
      case (Inl e)
      then show ?thesis using kid scheme up d2 by simp
    next
      case (Inr d3)
      note d2
      also have "runs (reader_op u) q d2 d3"
        using Inr by (intro runs_keep [of _ "Reading (UpsertSubscription u i k (im_title f) now)"]) (simp_all add: reader_op_def)
      also have "runs (reader_op u) q d3 (snd (import_loop jitter u now fs ids' (n + 1) d3))" by (rule Cons.IH)
      finally show ?thesis using kid scheme up Inr by simp
    qed
  qed
  show ?case
  proof (cases "has_scrape_prefix (im_url f)")
    case False
    then show ?thesis
      using step by (cases "import_folder u (im_folder f) ids d") (auto split: prod.splits)
  qed (simp add: Cons.IH)
qed simp

lemma import_opml_run: "runs (reader_op u) q d (snd (import_opml dec jitter u raw limit now d))"
  using import_loop_run by (simp add: import_opml_def split: option.splits)

section \<open>An export lists what a user reads\<close>

definition imported_view :: "db \<Rightarrow> sub_view \<Rightarrow> imported_feed" where
  "imported_view d v =
     \<lparr>im_title = sv_title v, im_url = sv_url v, im_site = sv_site v,
      im_folder = (case sv_folder v of None \<Rightarrow> []
        | Some k \<Rightarrow> (case find (\<lambda>f. fol_id f = k) (folders d) of None \<Rightarrow> [] | Some f \<Rightarrow> fol_name f))\<rparr>"

lemma collect_view:
  "sv_url v \<noteq> [] \<Longrightarrow> collect_outline folder (view_outline v)
     = [\<lparr>im_title = sv_title v, im_url = sv_url v, im_site = sv_site v, im_folder = folder\<rparr>]"
  by (simp add: view_outline_def)

lemma collect_views:
  assumes "\<forall>v \<in> set vs. sv_url v \<noteq> []"
  shows "concat (map (collect_outline folder \<circ> view_outline) vs)
    = map (\<lambda>v. \<lparr>im_title = sv_title v, im_url = sv_url v, im_site = sv_site v, im_folder = folder\<rparr>) vs"
  using assms by (induction vs) (simp_all add: collect_view)

lemma collect_folder:
  assumes "\<forall>v \<in> set vs. sv_url v \<noteq> []"
  shows "concat (map (collect_outline []) (folder_outlines vs f))
    = map (\<lambda>v. \<lparr>im_title = sv_title v, im_url = sv_url v, im_site = sv_site v, im_folder = fol_name f\<rparr>)
        (filter (\<lambda>v. sv_folder v = Some (fol_id f)) vs)"
  using collect_views [of "filter (\<lambda>v. sv_folder v = Some (fol_id f)) vs" "fol_name f"] assms
  by (simp add: folder_outlines_def Let_def)

lemma mset_filter_split:
  "(\<And>v. v \<in> set vs \<Longrightarrow> \<not> (P v \<and> Q v)) \<Longrightarrow>
   mset (filter P vs) + mset (filter Q vs) = mset (filter (\<lambda>v. P v \<or> Q v) vs)"
  by (induction vs) auto

lemma mset_by_folder:
  assumes "distinct (map fol_id fs)"
  shows "mset (concat (map (\<lambda>f. filter (\<lambda>v. sv_folder v = Some (fol_id f)) vs) fs))
    = mset (filter (\<lambda>v. \<exists>f \<in> set fs. sv_folder v = Some (fol_id f)) vs)"
  using assms
proof (induction fs)
  case (Cons f fs)
  have "mset (filter (\<lambda>v. sv_folder v = Some (fol_id f)) vs)
      + mset (filter (\<lambda>v. \<exists>g \<in> set fs. sv_folder v = Some (fol_id g)) vs)
    = mset (filter (\<lambda>v. sv_folder v = Some (fol_id f) \<or> (\<exists>g \<in> set fs. sv_folder v = Some (fol_id g))) vs)"
    by (rule mset_filter_split) (use Cons.prems in \<open>auto simp: image_iff\<close>)
  then show ?case using Cons by simp
qed simp

lemma map_concat_map: "map g (concat (map h xs)) = concat (map (\<lambda>x. map g (h x)) xs)"
  by (induction xs) auto

lemma concat_map_concat: "concat (map g (concat (map h xs))) = concat (map (\<lambda>x. concat (map g (h x))) xs)"
  by (induction xs) auto

lemma find_folder:
  "distinct (map fol_id fs) \<Longrightarrow> f \<in> set fs \<Longrightarrow> find (\<lambda>g. fol_id g = fol_id f) fs = Some f"
  by (induction fs) (auto simp: image_iff)

text \<open>
  C33. What an exported document is read back as is, up to order, the user's feed subscriptions
  with their titles, URLs and folder names: nothing is lost, doubled or moved to another
  folder. Every feed has a URL, and the folders are the user's own.
\<close>

theorem export_lists_every_feed:
  assumes "db_ok d" "\<And>v. v \<in> set (exported_views d u) \<Longrightarrow> sv_url v \<noteq> []"
    "\<And>v k. v \<in> set (exported_views d u) \<Longrightarrow> sv_folder v = Some k \<Longrightarrow>
      \<exists>f \<in> set (folders d). fol_id f = k \<and> fol_user f = u"
  shows "mset (collect_outlines [] (export_outlines d u)) = mset (map (imported_view d) (exported_views d u))"
proof -
  let ?vs = "exported_views d u" and ?fs = "list_folders d u"
  have ids: "distinct (map fol_id (folders d))" using db_ok_folders [OF assms(1)] by (simp add: folders_ok_def)
  have fs: "distinct (map fol_id ?fs)" "set ?fs = {f \<in> set (folders d). fol_user f = u}"
    using ids by (simp_all add: list_folders_def distinct_map_filter distinct_map inj_on_def)
  have urls: "\<forall>v \<in> set ?vs. sv_url v \<noteq> []" using assms(2) by blast
  have unfiled: "mset (concat (map (collect_outline [] \<circ> view_outline) (filter (\<lambda>v. sv_folder v = None) ?vs)))
      = mset (map (imported_view d) (filter (\<lambda>v. sv_folder v = None) ?vs))"
    using urls by (subst collect_views)
      (auto simp: imported_view_def simp del: mset_map intro!: arg_cong [of _ _ mset])
  have "concat (map (\<lambda>f. concat (map (collect_outline []) (folder_outlines ?vs f))) ?fs)
      = concat (map (\<lambda>f. map (imported_view d) (filter (\<lambda>v. sv_folder v = Some (fol_id f)) ?vs)) ?fs)"
    using ids by (intro arg_cong [of _ _ concat] map_cong refl)
      (auto simp: collect_folder [OF urls] imported_view_def fs(2) find_folder)
  also have "mset \<dots> = image_mset (imported_view d)
      (mset (concat (map (\<lambda>f. filter (\<lambda>v. sv_folder v = Some (fol_id f)) ?vs) ?fs)))"
    unfolding map_concat_map [symmetric] by simp
  also have "\<dots> = mset (map (imported_view d) (filter (\<lambda>v. \<exists>f \<in> set ?fs. sv_folder v = Some (fol_id f)) ?vs))"
    by (simp add: mset_by_folder [OF fs(1)])
  finally have filed: "mset (concat (map (\<lambda>f. concat (map (collect_outline []) (folder_outlines ?vs f))) ?fs))
      = mset (map (imported_view d) (filter (\<lambda>v. \<exists>f \<in> set ?fs. sv_folder v = Some (fol_id f)) ?vs))" .
  have split: "mset (filter (\<lambda>v. \<exists>f \<in> set ?fs. sv_folder v = Some (fol_id f)) ?vs)
      + mset (filter (\<lambda>v. sv_folder v = None) ?vs) = mset ?vs"
  proof -
    have "filter (\<lambda>v. (\<exists>f \<in> set ?fs. sv_folder v = Some (fol_id f)) \<or> sv_folder v = None) ?vs = ?vs"
      using assms(3) by (intro filter_True) (auto simp: fs(2))
    then show ?thesis by (subst mset_filter_split) auto
  qed
  have "mset (collect_outlines [] (export_outlines d u))
      = mset (concat (map (\<lambda>f. concat (map (collect_outline []) (folder_outlines ?vs f))) ?fs))
        + mset (concat (map (collect_outline [] \<circ> view_outline) (filter (\<lambda>v. sv_folder v = None) ?vs)))"
    by (simp add: collect_outlines_def export_outlines_def Let_def concat_map_concat)
  also have "\<dots> = image_mset (imported_view d) (mset ?vs)"
    unfolding filed unfiled split [symmetric] by simp
  finally show ?thesis by simp
qed

section \<open>An import subscribes to what it lists\<close>

definition reads_url :: "db \<Rightarrow> int \<Rightarrow> string \<Rightarrow> bool" where
  "reads_url d u url \<longleftrightarrow> (\<exists>f \<in> set (feeds d). fd_url f = url \<and> subscribed d u (fd_id f))"

definition grows :: "int \<Rightarrow> db \<Rightarrow> db \<Rightarrow> bool" where
  \<comment> \<open>what an import never takes away\<close>
  "grows u d d' \<longleftrightarrow> user_ids d' = user_ids d \<and> fol_id ` set (folders d) \<subseteq> fol_id ` set (folders d')
     \<and> (\<forall>url. reads_url d u url \<longrightarrow> reads_url d' u url)"

lemma grows_refl: "grows u d d"
  by (simp add: grows_def)

lemma grows_trans: "grows u d d1 \<Longrightarrow> grows u d1 d2 \<Longrightarrow> grows u d d2"
  unfolding grows_def by (elim conjE, intro conjI allI impI) (simp, rule subset_trans, assumption+, simp)

abbreviation feed_keys :: "db \<Rightarrow> (string \<times> int) set" where
  "feed_keys d \<equiv> (\<lambda>f. (fd_url f, fd_id f)) ` set (feeds d)"

abbreviation sub_keys :: "db \<Rightarrow> (int \<times> int) set" where
  "sub_keys d \<equiv> (\<lambda>s. (sub_user s, sub_feed s)) ` set (subs d)"

lemma subscribed_set: "subscribed d u i \<longleftrightarrow> (u, i) \<in> sub_keys d"
  unfolding subscribed_def list_ex_iff image_iff prod.inject by (rule bex_cong) auto

lemma reads_url_keys: "reads_url d u url \<longleftrightarrow> (\<exists>i. (url, i) \<in> feed_keys d \<and> (u, i) \<in> sub_keys d)"
  unfolding reads_url_def subscribed_set image_iff prod.inject by metis

lemma growsI:
  "users d' = users d \<Longrightarrow> fol_id ` set (folders d) \<subseteq> fol_id ` set (folders d') \<Longrightarrow>
   feed_keys d \<subseteq> feed_keys d' \<Longrightarrow> sub_keys d \<subseteq> sub_keys d' \<Longrightarrow> grows u d d'"
  unfolding grows_def reads_url_keys
  by (intro conjI allI impI) (simp, assumption, elim exE conjE, intro exI conjI, (erule (1) subsetD)+)

lemma upsert_feed_facts:
  assumes "upsert_feed d url site title interval jitter now = (i, d')"
  shows "grows u d d'" "(url, i) \<in> feed_keys d'" "subs d' = subs d" "folders d' = folders d"
proof -
  have eqs: "d' = snd (upsert_feed d url site title interval jitter now)"
    "i = fst (upsert_feed d url site title interval jitter now)" using assms by simp_all
  have same: "subs d' = subs d" "folders d' = folders d" "users d' = users d"
    unfolding eqs by (simp_all add: upsert_feed_def Let_def split: option.split)
  have keys: "feed_keys d' = insert (url, i) (feed_keys d)"
  proof (cases "find (\<lambda>f. fd_url f = url) (feeds d)")
    case None
    then show ?thesis unfolding eqs by (simp add: upsert_feed_def Let_def)
  next
    case (Some f)
    then have f: "f \<in> set (feeds d)" "fd_url f = url" using find_Some_iff_in [OF Some] by auto
    have i: "i = fd_id f" unfolding eqs using Some by (simp add: upsert_feed_def Let_def)
    have "feed_keys d' = feed_keys d"
      unfolding eqs using Some
      by (simp add: upsert_feed_def Let_def image_upd_where [where key = "\<lambda>f. (fd_url f, fd_id f)"])
    moreover have "(url, i) \<in> feed_keys d" using f i by (intro rev_image_eqI [of f]) simp_all
    ultimately show ?thesis by (simp add: insert_absorb)
  qed
  show "grows u d d'" by (rule growsI) (use same keys in auto)
  show "(url, i) \<in> feed_keys d'" using keys by simp
  show "subs d' = subs d" "folders d' = folders d" by (fact same)+
qed

lemma refresh_sub_keys: "sub_keys (refresh_unread_count i d) = sub_keys d"
  by (simp add: refresh_unread_count_def image_upd_where [where key = "\<lambda>s. (sub_user s, sub_feed s)"])

lemma upsert_subscription_facts:
  assumes "u \<in> user_ids d" "i \<in> feed_ids d" "\<And>k. folder = Some k \<Longrightarrow> k \<in> fol_id ` set (folders d)"
  shows "\<exists>d'. upsert_subscription d u i folder title now = Inr d' \<and> (u, i) \<in> sub_keys d' \<and> grows u d d'
    \<and> feeds d' = feeds d \<and> folders d' = folders d"
proof -
  let ?d1 = "d\<lparr>subs := (if subscribed d u i then
      upd_where (\<lambda>s. sub_user s = u \<and> sub_feed s = i) (\<lambda>s. s\<lparr>sub_folder := folder, sub_title := Some title\<rparr>) (subs d)
    else subs d @ [\<lparr>sub_user = u, sub_feed = i, sub_folder = folder, sub_title = Some title, sub_rating = 0,
      sub_unread = 0, sub_sort = 0, sub_created = now\<rparr>])\<rparr>"
  let ?d2 = "?d1\<lparr>states := states ?d1 @ fan_out_backlog ?d1 u i\<rparr>"
  have "\<not> (u \<notin> user_ids d \<or> i \<notin> feed_ids d \<or> (\<exists>k \<in> set_option folder. k \<notin> fol_id ` set (folders d)))"
    using assms(1,2) assms(3) by (cases folder) simp_all
  then have eq: "upsert_subscription d u i folder title now = Inr (refresh_unread_count i ?d2)"
    by (simp only: upsert_subscription_def if_False Let_def)
  have "sub_keys (refresh_unread_count i ?d2) = sub_keys ?d1"
    by (simp only: refresh_sub_keys) simp
  also have "\<dots> = insert (u, i) (sub_keys d)"
  proof (cases "subscribed d u i")
    case True
    then show ?thesis
      by (simp add: subscribed_set insert_absorb image_upd_where [where key = "\<lambda>s. (sub_user s, sub_feed s)"])
  qed simp
  finally have keys: "sub_keys (refresh_unread_count i ?d2) = insert (u, i) (sub_keys d)" .
  have "grows u d (refresh_unread_count i ?d2)"
    by (rule growsI) (use keys in \<open>simp_all add: refresh_unread_count_def\<close>, auto)
  then show ?thesis using eq keys by (intro exI [of _ "refresh_unread_count i ?d2"]) (simp add: refresh_unread_count_def)
qed

lemma get_or_create_folder_facts:
  assumes "u \<in> user_ids d"
  shows "\<exists>k d'. get_or_create_folder d u name = Inr (k, d') \<and> k \<in> fol_id ` set (folders d')
    \<and> fol_id ` set (folders d) \<subseteq> fol_id ` set (folders d') \<and> users d' = users d \<and> feeds d' = feeds d \<and> subs d' = subs d"
proof (cases "find (\<lambda>f. fol_user f = u \<and> fol_name f = name) (folders d)")
  case None
  then show ?thesis using assms by (simp add: get_or_create_folder_def Let_def) blast
next
  case (Some f)
  then show ?thesis using find_Some_iff_in [OF Some] by (simp add: get_or_create_folder_def)
qed

lemma import_folder_facts:
  assumes "u \<in> user_ids d" "\<And>n k. ids n = Some k \<Longrightarrow> k \<in> fol_id ` set (folders d)"
  shows "\<exists>k ids' d'. import_folder u name ids d = Inr (k, ids', d') \<and> grows u d d'
    \<and> (\<forall>j. k = Some j \<longrightarrow> j \<in> fol_id ` set (folders d'))
    \<and> (\<forall>n j. ids' n = Some j \<longrightarrow> j \<in> fol_id ` set (folders d'))"
proof (cases "name = [] \<or> ids name \<noteq> None")
  case True
  then show ?thesis
    using assms(2) by (auto simp: import_folder_def grows_refl split: option.splits)
next
  case False
  obtain k d' where g: "get_or_create_folder d u name = Inr (k, d')" "k \<in> fol_id ` set (folders d')"
    "fol_id ` set (folders d) \<subseteq> fol_id ` set (folders d')" "users d' = users d" "feeds d' = feeds d" "subs d' = subs d"
    using get_or_create_folder_facts [OF assms(1), of name] by blast
  have "grows u d d'" using g by (intro growsI) auto
  moreover have "\<forall>n j. (ids(name \<mapsto> k)) n = Some j \<longrightarrow> j \<in> fol_id ` set (folders d')"
    using assms(2) g(2,3) by (auto split: if_splits)
  ultimately show ?thesis using False g(1,2) by (simp add: import_folder_def)
qed

lemma import_loop_facts:
  assumes "u \<in> user_ids d" "\<And>n k. ids n = Some k \<Longrightarrow> k \<in> fol_id ` set (folders d)"
  shows "\<exists>d'. import_loop jitter u now fs ids n d
      = ((n + length (filter (\<lambda>f. \<not> has_scrape_prefix (im_url f)) fs), None), d')
    \<and> grows u d d' \<and> (\<forall>f \<in> set fs. \<not> has_scrape_prefix (im_url f) \<longrightarrow> reads_url d' u (im_url f))"
  using assms
proof (induction fs arbitrary: ids n d)
  case Nil
  then show ?case by (simp add: grows_refl)
next
  case (Cons f fs)
  show ?case
  proof (cases "has_scrape_prefix (im_url f)")
    case True
    then show ?thesis using Cons by simp
  next
    case False
    obtain k ids' d1 where k: "import_folder u (im_folder f) ids d = Inr (k, ids', d1)" "grows u d d1"
      "\<forall>j. k = Some j \<longrightarrow> j \<in> fol_id ` set (folders d1)" "\<forall>n j. ids' n = Some j \<longrightarrow> j \<in> fol_id ` set (folders d1)"
      using import_folder_facts [of u d ids "im_folder f"] Cons.prems by blast
    obtain i d2 where up: "upsert_feed d1 (im_url f) (im_site f) (im_title f) import_interval (jitter (im_url f)) now = (i, d2)"
      by (cases "upsert_feed d1 (im_url f) (im_site f) (im_title f) import_interval (jitter (im_url f)) now") auto
    note up' = upsert_feed_facts [OF up]
    have u: "u \<in> user_ids d2" using Cons.prems(1) k(2) up'(1) by (simp add: grows_def)
    have i: "i \<in> feed_ids d2" using up'(2) by (auto intro: rev_image_eqI)
    obtain d3 where d3: "upsert_subscription d2 u i k (im_title f) now = Inr d3" "(u, i) \<in> sub_keys d3" "grows u d2 d3"
      "feeds d3 = feeds d2" "folders d3 = folders d2"
      using upsert_subscription_facts [OF u i, of k "im_title f" now] k(3) up'(4) by auto
    have u3: "u \<in> user_ids d3" using u d3(3) by (simp add: grows_def)
    have ids3: "\<And>n j. ids' n = Some j \<Longrightarrow> j \<in> fol_id ` set (folders d3)" using k(4) up'(4) d3(5) by simp
    obtain d' where d': "import_loop jitter u now fs ids' (n + 1) d3
        = ((n + 1 + length (filter (\<lambda>f. \<not> has_scrape_prefix (im_url f)) fs), None), d')"
      "grows u d3 d'" "\<forall>g \<in> set fs. \<not> has_scrape_prefix (im_url g) \<longrightarrow> reads_url d' u (im_url g)"
      using Cons.IH [OF u3, of ids' "n + 1"] ids3 by blast
    have "reads_url d3 u (im_url f)" using up'(2) d3(2,4) by (auto simp: reads_url_keys)
    then have "reads_url d' u (im_url f)" using d'(2) by (simp add: grows_def)
    moreover have "grows u d d'" using grows_trans [OF k(2) grows_trans [OF up'(1) grows_trans [OF d3(3) d'(2)]]] .
    ultimately show ?thesis using d' False k(1) up d3(1) by simp
  qed
qed

text \<open>
  C32. Importing a document that parses, within the limit, succeeds for any user that exists: it
  reports the number of its feeds that are not scrape sources, afterwards the user subscribes to
  each of them, and no subscription the user had is gone.
\<close>

theorem import_subscribes:
  assumes "parse_opml dec raw = Some fs" "max_feeds \<le> 0 \<or> int (length fs) \<le> max_feeds" "u \<in> user_ids d"
  shows "\<exists>d'. import_opml dec jitter u raw max_feeds now d
      = ((length (filter (\<lambda>f. \<not> has_scrape_prefix (im_url f)) fs), None), d')
    \<and> (\<forall>f \<in> set fs. \<not> has_scrape_prefix (im_url f) \<longrightarrow> reads_url d' u (im_url f))
    \<and> (\<forall>url. reads_url d u url \<longrightarrow> reads_url d' u url)"
  using import_loop_facts [OF assms(3), of Map.empty jitter now fs 0] assms(1,2)
  by (auto simp: import_opml_def grows_def)

definition sample_outlines :: "outline list" where
  "sample_outlines =
     [Outline ''F'' [] [] [] [] [Outline ''A'' ''A'' ''rss'' ''http://a'' [] []],
      Outline ''W'' ''W'' ''rss'' ''selector:x'' [] []]"

theorem import_subscribes_witness:
  "\<exists>d'. import_opml (\<lambda>_. Some sample_outlines) (\<lambda>_. 0) 1 [] 5 0 (init_db 0) = ((1, None), d') \<and> reads_url d' 1 ''http://a''"
proof -
  have fs: "parse_opml (\<lambda>_. Some sample_outlines) []
    = Some [\<lparr>im_title = ''A'', im_url = ''http://a'', im_site = [], im_folder = ''F''\<rparr>,
            \<lparr>im_title = ''W'', im_url = ''selector:x'', im_site = [], im_folder = []\<rparr>]"
    by (simp add: parse_opml_def sample_outlines_def collect_outlines_def)
  have pre: "\<not> has_scrape_prefix ''http://a''" "has_scrape_prefix ''selector:x''" by code_simp+
  show ?thesis
    using import_subscribes [OF fs, of 5 1 "init_db 0" "\<lambda>_. 0" 0] pre by (auto simp: init_db_def)
qed

definition sample_reader_db :: db where
  \<comment> \<open>user 1 reads one feed in the folder F, and another without a folder\<close>
  "sample_reader_db = (init_db 0)\<lparr>
     folders := [\<lparr>fol_id = 7, fol_user = 1, fol_name = ''F'', fol_sort = 0\<rparr>],
     feeds := [\<lparr>fd_id = 1, fd_url = ''http://a'', fd_site = None, fd_title = [], fd_desc = [], fd_favicon = None,
       fd_etag = None, fd_lastmod = None, fd_hash = None, fd_interval = 600, fd_next = 0, fd_fetched = None,
       fd_success = None, fd_status = None, fd_errors = 0, fd_lasterr = None, fd_created = 0, fd_updated = 0\<rparr>],
     subs := [\<lparr>sub_user = 1, sub_feed = 1, sub_folder = Some 7, sub_title = Some ''A'', sub_rating = 0,
       sub_unread = 0, sub_sort = 0, sub_created = 0\<rparr>]\<rparr>"

theorem export_lists_every_feed_witness:
  "mset (collect_outlines [] (export_outlines sample_reader_db 1))
    = {#\<lparr>im_title = ''A'', im_url = ''http://a'', im_site = [], im_folder = ''F''\<rparr>#}"
proof -
  have likes: "\<not> like (scrape_prefix @ ''%'') ''http://a''" "\<not> like (selector_prefix @ ''%'') ''http://a''" by code_simp+
  have views: "exported_views sample_reader_db 1
      = [\<lparr>sv_feed = 1, sv_url = ''http://a'', sv_kind = ''feed'', sv_site = [], sv_title = ''A'', sv_folder = Some 7,
          sv_rating = 0, sv_unread = 0, sv_status = None, sv_errors = 0, sv_lasterr = None, sv_fetched = None,
          sv_next = 0, sv_last_entry = None, sv_fulltext = False\<rparr>]"
    using likes
    by (simp add: exported_views_def list_subscription_views_def sub_join_feed_def sample_reader_db_def init_db_def
        subscription_view_def view_url_def view_kind_def)
  have ok: "db_ok sample_reader_db"
    by (simp add: db_ok_def db_parts users_ok_def admin_ok_def enabled_admin_def fk_def sample_reader_db_def init_db_def
        unread_of_def count_where_def)
  have "mset (collect_outlines [] (export_outlines sample_reader_db 1))
      = mset (map (imported_view sample_reader_db) (exported_views sample_reader_db 1))"
    by (rule export_lists_every_feed [OF ok]) (simp_all add: views, simp add: sample_reader_db_def)
  then show ?thesis by (simp add: views imported_view_def) (simp add: sample_reader_db_def)
qed

end
