(* ===== verification/Api.thy ===== *)
theory Api
  imports Crawler CrawlLaws Password Limits Discover Inspect Opml
begin

text \<open>
  \<open>internal/api\<close>, the frame of the HTTP server: requests and answers, the state of \<open>Server\<close>,
  cookies, JSON fields, the helpers of helpers.go and quota.go, and the authentication of
  auth_middleware.go. A handler is a function of the outside world, the user the middleware put
  into the context, the path parameter, the request and the server, to an answer and the server
  after it. One request runs at one time, \<open>aw_now\<close> (nanoseconds), and requests one after another.
  A store call fails with the errors the store's own rules raise; a broken disk is not modelled here.
\<close>

section \<open>Requests and answers\<close>

record request =
  rq_method :: string
  rq_path :: string \<comment> \<open>unescaped\<close>
  rq_segs :: "string list" \<comment> \<open>the segments of the escaped path, each unescaped\<close>
  rq_query :: "(string \<times> string) list" \<comment> \<open>the parsed query, in order\<close>
  rq_form :: "(string \<times> string) list" \<comment> \<open>the fields of a form body, in order\<close>
  rq_auth :: string \<comment> \<open>the Authorization header, empty when absent; so the others\<close>
  rq_origin :: string
  rq_host :: string
  rq_ctype :: string
  rq_remote :: string
  rq_tls :: bool
  rq_cookies :: "(string \<times> string) list"
  rq_json :: "json option" \<comment> \<open>the first JSON value of the body, if it is one\<close>
  rq_empty :: bool \<comment> \<open>ContentLength is 0\<close>
  rq_body :: string

record cookie =
  ck_name :: string
  ck_value :: string
  ck_secure :: bool
  ck_max_age :: int

record user_view =
  uv_id :: int
  uv_name :: string
  uv_admin :: bool
  uv_embeds :: bool

record restore_hint =
  rh_local :: bool
  rh_local_snapshot :: bool
  rh_remote :: bool
  rh_remote_snapshot :: bool
  rh_remote_error :: bool
  rh_supported :: bool
  rh_latest :: string
  rh_source :: string

record scrape_view =
  sw_id :: int
  sw_feed :: int
  sw_kind :: string
  sw_target :: string
  sw_config :: string
  sw_creator :: int
  sw_created :: time
  sw_updated :: time

record backup_file =
  bf_name :: string
  bf_size :: int
  bf_modified :: int

datatype payload =
    No_Body
  | Plain_Text string
  | Error_Msg string
  | Status_Body string string
  | Me_Body bool bool "user_view option" "restore_hint option"
  | User_Body user_view
  | Token_Made string api_token
  | Tokens_Body "api_token list"
  | User_Row user
  | Users_Body "user list"
  | Invitation_Made string invitation
  | Invitations_Body "invitation list"
  | Valid_Body
  | Backups_Body bool string "backup_file list" bool "backup_file list"
  | Subs_Body "sub_view list" nat
  | Candidates_Body "(string \<times> string \<times> bool) list"
  | Subscribed_Body sub_view
  | Sub_Body sub_view
  | Entries_Body "entry_row list" string
  | Entry_List "entry_row list"
  | Sub_List "sub_view list"
  | Marked_Body nat
  | Refreshed_Body nat "string option"
  | Folders_Body "folder list"
  | Folder_Body int string
  | Pins_Body "pin list"
  | Pin_Body int
  | Words_Body "ignore_word list"
  | Word_Body string
  | Scrapes_Body "scrape_view list"
  | Scrape_Body scrape_view
  | Blocks_Body "(string \<times> bool) list"
  | Items_Body "(string \<times> string \<times> string \<times> string \<times> bool) list" cand_result
  | Inspect_Body string "element list" time
  | Page_Body string
  | Stats_Body stats "internal_error list"
  | Metrics_Body stats nat
  | Opml_Body string
  | Imported_Body nat
  | Subscribe_Id int
  | Ok_Body

record response =
  ap_status :: int
  ap_body :: payload
  ap_cookie :: "cookie option"

definition write_json :: "int \<Rightarrow> payload \<Rightarrow> response" where
  "write_json status v = \<lparr>ap_status = status, ap_body = v, ap_cookie = None\<rparr>"

definition write_error :: "int \<Rightarrow> string \<Rightarrow> response" where
  "write_error status msg = write_json status (Error_Msg msg)"

definition store_err_status :: "store_error \<Rightarrow> int" where
  "store_err_status e =
     (case e of ErrNotFound \<Rightarrow> 404 | ErrConflict \<Rightarrow> 409 | ErrLastAdmin \<Rightarrow> 400
      | ErrInvitationInvalid \<Rightarrow> 400 | _ \<Rightarrow> 500)"

definition store_err_text :: "store_error \<Rightarrow> string" where
  \<comment> \<open>Error() of the sentinels of store.go; the others show what SQLite said\<close>
  "store_err_text e =
     (case e of ErrNotFound \<Rightarrow> ''store: not found'' | ErrConflict \<Rightarrow> ''store: conflict''
      | ErrLastAdmin \<Rightarrow> ''store: cannot remove the last admin''
      | ErrInvitationInvalid \<Rightarrow> ''store: invitation is invalid or expired'' | _ \<Rightarrow> ''store'')"

definition write_store_error :: "store_error \<Rightarrow> response" where
  "write_store_error e = write_error (store_err_status e) (store_err_text e)"

section \<open>The server\<close>

record quota =
  qt_subs :: int
  qt_pins :: int
  qt_scrapes :: int
  qt_words :: int
  qt_opml :: int

record api_config =
  cf_cookie_secure :: string
  cf_origin :: string
  cf_metrics_token :: string
  cf_version :: string
  cf_quota :: quota
  cf_backup_dir :: string
  cf_remote :: bool \<comment> \<open>backupRemote is not nil\<close>
  cf_restore :: bool \<comment> \<open>setupRestore is not nil\<close>

record server =
  srv_crawler :: crawler \<comment> \<open>with the database\<close>
  srv_login :: login_limiter
  srv_api :: action_limiter
  srv_add :: action_limiter
  srv_refresh :: action_limiter
  srv_preview :: action_limiter
  srv_tokens :: "element token_store"

abbreviation db_of :: "server \<Rightarrow> db" where
  "db_of s \<equiv> cw_db (srv_crawler s)"

definition set_db :: "server \<Rightarrow> db \<Rightarrow> server" where
  "set_db s d = s\<lparr>srv_crawler := (srv_crawler s)\<lparr>cw_db := d\<rparr>\<rparr>"

definition new_server :: "db \<Rightarrow> int \<Rightarrow> int \<Rightarrow> int \<Rightarrow> int \<Rightarrow> server" where
  \<comment> \<open>the state NewHandler sets up, from the four rate limits of the quota\<close>
  "new_server d per_minute adds refreshes previews =
     \<lparr>srv_crawler = \<lparr>cw_db = d, cw_robots = Map.empty, cw_errors = []\<rparr>,
      srv_login = new_login_limiter 10 (60 * second),
      srv_api = new_action_limiter per_minute (60 * second),
      srv_add = new_action_limiter adds (3600 * second),
      srv_refresh = new_action_limiter refreshes (3600 * second),
      srv_preview = new_action_limiter previews (3600 * second),
      srv_tokens = Map.empty\<rparr>"

text \<open>
  The outside world of one request: the clock, the random bytes of its draws (0 for a salt, 1 for a
  token), the network of a crawl or page preview and of feed discovery, what the backup directory and
  the backup bucket hold, the callback that stages a restore, and the libraries.
\<close>

record backup_object =
  ob_key :: string
  ob_size :: int
  ob_modified :: int

record dir_entry =
  de_name :: string
  de_dir :: bool
  de_info :: "(int \<times> int) option" \<comment> \<open>size and modification time\<close>

datatype dir_result = Dir_Missing | Dir_Error | Dir_List "dir_entry list"

datatype api_text =
    Fetch_Text fetch_error | Import_Text opml_error | Watch_Config | Watch_Text pw_error
  | Listing_Config | Listing_Text sel_error | Charset_Text

record 'u api_world =
  aw_cfg :: api_config
  aw_now :: int
  aw_crawl :: "'u crawl_lib"
  aw_discover :: "'u discover_lib"
  aw_kdf :: kdf
  aw_sha :: "string \<Rightarrow> string" \<comment> \<open>SHA-256\<close>
  aw_rand :: "nat \<Rightarrow> string option"
  aw_jitter :: "string \<Rightarrow> int" \<comment> \<open>of UpsertFeed, per URL\<close>
  aw_host :: "string \<Rightarrow> string option" \<comment> \<open>the Host of url.Parse, with its port\<close>
  aw_raw :: "json \<Rightarrow> string" \<comment> \<open>the text of a JSON value\<close>
  aw_opml_dec :: "string \<Rightarrow> outline list option"
  aw_opml_enc :: "outline list \<Rightarrow> string"
  aw_text :: "api_text \<Rightarrow> string" \<comment> \<open>Error() of errors made by other packages\<close>
  aw_fts :: "string \<Rightarrow> string \<Rightarrow> string \<Rightarrow> bool"
  aw_pages :: "int \<times> int" \<comment> \<open>page count and page size of the database\<close>
  aw_dir :: dir_result
  aw_bucket :: "backup_object list option" \<comment> \<open>List, None for an error\<close>
  aw_staged :: bool \<comment> \<open>setupRestore succeeds\<close>
  aw_script :: string \<comment> \<open>the picker script\<close>
  aw_render :: "html \<Rightarrow> string option"

type_synonym 'u handler = "'u api_world \<Rightarrow> user option \<Rightarrow> string \<Rightarrow> request \<Rightarrow> server \<Rightarrow> response \<times> server"

definition now_unix :: "'u api_world \<Rightarrow> time" where
  "now_unix W = unix (aw_now W)"

definition zero_user :: user where
  "zero_user = \<lparr>usr_id = 0, usr_name = [], usr_hash = [], usr_admin = False, usr_disabled = False,
     usr_embeds = False, usr_created = 0, usr_updated = 0\<rparr>"

definition ctx_user :: "user option \<Rightarrow> user" where
  \<comment> \<open>u, _ := userFromContext: the zero user without one\<close>
  "ctx_user c = (case c of None \<Rightarrow> zero_user | Some u \<Rightarrow> u)"

definition ctx_id :: "user option \<Rightarrow> int" where
  "ctx_id c = usr_id (ctx_user c)"

section \<open>JSON bodies\<close>

text \<open>
  Decoding into a struct: every member whose key matches a field's name without regard to ASCII case
  is stored, in order; null leaves a field alone (and clears a pointer), a value of another type is an
  error; unknown members are skipped.
\<close>

definition dec_field :: "('a \<Rightarrow> json \<Rightarrow> 'a option) \<Rightarrow> 'a \<Rightarrow> string \<Rightarrow> json \<Rightarrow> 'a option" where
  "dec_field step zero name v =
     (case v of
        J_Null \<Rightarrow> Some zero
      | J_Object kvs \<Rightarrow>
          foldl (\<lambda>acc (k, w). case acc of None \<Rightarrow> None | Some x \<Rightarrow> if nocase k name then step x w else Some x)
            (Some zero) kvs
      | _ \<Rightarrow> None)"

definition str_step :: "string \<Rightarrow> json \<Rightarrow> string option" where
  "str_step x v = (case v of J_Null \<Rightarrow> Some x | J_String s \<Rightarrow> Some s | _ \<Rightarrow> None)"

definition bool_step :: "bool \<Rightarrow> json \<Rightarrow> bool option" where
  "bool_step x v = (case v of J_Null \<Rightarrow> Some x | J_Bool b \<Rightarrow> Some b | _ \<Rightarrow> None)"

definition int_step :: "int \<Rightarrow> json \<Rightarrow> int option" where
  "int_step x v = (case v of J_Null \<Rightarrow> Some x | J_Number s \<Rightarrow> atoi s | _ \<Rightarrow> None)"

definition ptr_step :: "('a \<Rightarrow> json \<Rightarrow> 'a option) \<Rightarrow> 'a \<Rightarrow> 'a option \<Rightarrow> json \<Rightarrow> 'a option option" where
  \<comment> \<open>a pointer field: null clears it, a value is stored through it\<close>
  "ptr_step step zero x v =
     (case v of
        J_Null \<Rightarrow> Some None
      | _ \<Rightarrow> map_option Some (step (case x of None \<Rightarrow> zero | Some y \<Rightarrow> y) v))"

definition raw_step :: "(json \<Rightarrow> string) \<Rightarrow> string \<Rightarrow> json \<Rightarrow> string option" where
  \<comment> \<open>json.RawMessage takes any value, null too\<close>
  "raw_step raw x v = Some (raw v)"

definition ints_step :: "int list \<Rightarrow> json \<Rightarrow> int list option" where
  "ints_step x v =
     (case v of
        J_Null \<Rightarrow> Some []
      | J_Array vs \<Rightarrow> those (map (int_step 0) vs)
      | _ \<Rightarrow> None)"

definition dec_str :: "string \<Rightarrow> json \<Rightarrow> string option" where "dec_str = dec_field str_step []"
definition dec_bool :: "string \<Rightarrow> json \<Rightarrow> bool option" where "dec_bool = dec_field bool_step False"
definition dec_int :: "string \<Rightarrow> json \<Rightarrow> int option" where "dec_int = dec_field int_step 0"
definition dec_str_ptr :: "string \<Rightarrow> json \<Rightarrow> string option option" where
  "dec_str_ptr = dec_field (ptr_step str_step []) None"
definition dec_bool_ptr :: "string \<Rightarrow> json \<Rightarrow> bool option option" where
  "dec_bool_ptr = dec_field (ptr_step bool_step False) None"
definition dec_int_ptr :: "string \<Rightarrow> json \<Rightarrow> int option option" where
  "dec_int_ptr = dec_field (ptr_step int_step 0) None"
definition dec_raw :: "(json \<Rightarrow> string) \<Rightarrow> string \<Rightarrow> json \<Rightarrow> string option" where
  "dec_raw raw = dec_field (raw_step raw) []"
definition dec_ints :: "string \<Rightarrow> json \<Rightarrow> int list option" where "dec_ints = dec_field ints_step []"

definition both :: "'a option \<Rightarrow> 'b option \<Rightarrow> ('a \<times> 'b) option" where
  "both a b = (case (a, b) of (Some x, Some y) \<Rightarrow> Some (x, y) | _ \<Rightarrow> None)"

section \<open>Steps every handler takes\<close>

definition reply :: "response \<Rightarrow> server \<Rightarrow> response \<times> server" where
  "reply r s = (r, s)"

definition with_json ::
    "(json \<Rightarrow> 'a option) \<Rightarrow> request \<Rightarrow> server \<Rightarrow> ('a \<Rightarrow> response \<times> server) \<Rightarrow> response \<times> server" where
  "with_json dec rq s k =
     (case Option.bind (rq_json rq) dec of
        None \<Rightarrow> reply (write_error 400 ''invalid JSON body'') s | Some x \<Rightarrow> k x)"

definition with_store ::
    "store_error + 'a \<Rightarrow> server \<Rightarrow> ('a \<Rightarrow> response \<times> server) \<Rightarrow> response \<times> server" where
  "with_store r s k = (case r of Inl e \<Rightarrow> reply (write_store_error e) s | Inr x \<Rightarrow> k x)"

definition with_id :: "string \<Rightarrow> server \<Rightarrow> (int \<Rightarrow> response \<times> server) \<Rightarrow> response \<times> server" where
  \<comment> \<open>idPathParam\<close>
  "with_id param s k =
     (case atoi param of None \<Rightarrow> reply (write_error 400 ''invalid id'') s | Some i \<Rightarrow> k i)"

definition with_user :: "user option \<Rightarrow> server \<Rightarrow> (user \<Rightarrow> response \<times> server) \<Rightarrow> response \<times> server" where
  "with_user c s k = (case c of None \<Rightarrow> reply (write_error 401 ''unauthorized'') s | Some u \<Rightarrow> k u)"

definition count_quota_ok :: "nat \<Rightarrow> int \<Rightarrow> bool" where
  \<comment> \<open>checkCountQuota\<close>
  "count_quota_ok n limit \<longleftrightarrow> \<not> (0 < limit \<and> limit \<le> int n)"

definition with_count ::
    "nat \<Rightarrow> int \<Rightarrow> string \<Rightarrow> server \<Rightarrow> (response \<times> server) \<Rightarrow> response \<times> server" where
  "with_count n limit what s k =
     (if count_quota_ok n limit then k
      else reply (write_error 400 (''quota exceeded: max '' @ show_int limit @ '' '' @ what)) s)"

definition action_refused :: "string \<Rightarrow> response" where
  "action_refused action =
     write_error 429 (''quota exceeded: too many '' @ action @ '' requests, try again later'')"

definition with_add :: "'u api_world \<Rightarrow> int \<Rightarrow> server \<Rightarrow> (server \<Rightarrow> response \<times> server) \<Rightarrow> response \<times> server" where
  \<comment> \<open>checkActionQuota with feedAddLimiter; so the next two with the others\<close>
  "with_add W u s k =
     (case action_allow (srv_add s) (show_int u) (aw_now W) of
        (ok, l) \<Rightarrow> if ok then k (s\<lparr>srv_add := l\<rparr>) else reply (action_refused ''feed add'') (s\<lparr>srv_add := l\<rparr>))"

definition with_refresh :: "'u api_world \<Rightarrow> int \<Rightarrow> server \<Rightarrow> (server \<Rightarrow> response \<times> server) \<Rightarrow> response \<times> server" where
  "with_refresh W u s k =
     (case action_allow (srv_refresh s) (show_int u) (aw_now W) of
        (ok, l) \<Rightarrow> if ok then k (s\<lparr>srv_refresh := l\<rparr>) else reply (action_refused ''refresh'') (s\<lparr>srv_refresh := l\<rparr>))"

definition with_preview ::
    "'u api_world \<Rightarrow> int \<Rightarrow> string \<Rightarrow> server \<Rightarrow> (server \<Rightarrow> response \<times> server) \<Rightarrow> response \<times> server" where
  "with_preview W u action s k =
     (case action_allow (srv_preview s) (show_int u) (aw_now W) of
        (ok, l) \<Rightarrow> if ok then k (s\<lparr>srv_preview := l\<rparr>) else reply (action_refused action) (s\<lparr>srv_preview := l\<rparr>))"

definition first_value :: "string \<Rightarrow> (string \<times> string) list \<Rightarrow> string" where
  \<comment> \<open>Values.Get\<close>
  "first_value key kvs = (case map_of kvs key of None \<Rightarrow> [] | Some v \<Rightarrow> v)"

definition form_value :: "request \<Rightarrow> string \<Rightarrow> string" where
  \<comment> \<open>r.Form has the values of the body before those of the query\<close>
  "form_value rq key = first_value key (rq_form rq @ rq_query rq)"

definition query_value :: "request \<Rightarrow> string \<Rightarrow> string" where
  "query_value rq key = first_value key (rq_query rq)"

section \<open>Cookies and addresses\<close>

definition session_max_age :: int where "session_max_age = 90 * 24 * 60 * 60"

definition cookie_name :: "bool \<Rightarrow> string" where
  "cookie_name secure = (if secure then ''__Host-session'' else ''session'')"

definition cookie_secure :: "string \<Rightarrow> request \<Rightarrow> bool" where
  "cookie_secure cfg rq =
     (if cfg = ''true'' then True else if cfg = ''false'' then False else rq_tls rq)"

definition set_session_cookie :: "string \<Rightarrow> request \<Rightarrow> string \<Rightarrow> response \<Rightarrow> response" where
  "set_session_cookie cfg rq raw r =
     r\<lparr>ap_cookie := Some \<lparr>ck_name = cookie_name (cookie_secure cfg rq), ck_value = raw,
        ck_secure = cookie_secure cfg rq, ck_max_age = session_max_age\<rparr>\<rparr>"

definition clear_session_cookie :: "string \<Rightarrow> request \<Rightarrow> response \<Rightarrow> response" where
  "clear_session_cookie cfg rq r =
     r\<lparr>ap_cookie := Some \<lparr>ck_name = cookie_name (cookie_secure cfg rq), ck_value = [],
        ck_secure = cookie_secure cfg rq, ck_max_age = - 1\<rparr>\<rparr>"

definition session_cookie :: "request \<Rightarrow> string option" where
  "session_cookie rq =
     (case map_of (rq_cookies rq) ''__Host-session'' of
        Some v \<Rightarrow> Some v | None \<Rightarrow> map_of (rq_cookies rq) ''session'')"

definition split_host_port :: "string \<Rightarrow> (string \<times> string) option" where
  \<comment> \<open>net.SplitHostPort\<close>
  "split_host_port s =
     (let port = rev (takeWhile (\<lambda>c. c \<noteq> CHR '':'') (rev s));
          before = take (length s - length port - 1) s
      in if CHR '':'' \<notin> set s then None
         else if CHR ''['' \<in> set port \<or> CHR '']'' \<in> set port then None
         else if has_prefix s ''['' then
           (let host = takeWhile (\<lambda>c. c \<noteq> CHR '']'') (tl before)
            in if before = ''['' @ host @ '']'' \<and> CHR ''['' \<notin> set host then Some (host, port) else None)
         else if CHR '':'' \<in> set before \<or> CHR ''['' \<in> set before \<or> CHR '']'' \<in> set before then None
         else Some (before, port))"

definition client_ip :: "request \<Rightarrow> string" where
  "client_ip rq = (case split_host_port (rq_remote rq) of None \<Rightarrow> rq_remote rq | Some (host, port) \<Rightarrow> host)"

end
