(* ===== verification/ApiAuth.thy ===== *)
theory ApiAuth
  imports Api
begin

text \<open>
  \<open>internal/api\<close>: auth_middleware.go (who a request is from), auth.go (setup, login, sessions,
  passwords, API tokens, restore), invitations.go and admin.go. A token or session check may
  touch its row; nothing else of the database changes before a handler runs.
\<close>

section \<open>Who a request is from\<close>

definition session_idle :: int where "session_idle = 30 * 24 * 3600 * ns_sec"
definition touch_throttle :: int where "touch_throttle = 3600 * ns_sec"

definition parse_origin :: "'u api_world \<Rightarrow> string \<Rightarrow> string option" where
  \<comment> \<open>None for an error; without a host the error is that of url.Parse, so the empty host comes back\<close>
  "parse_origin W origin = aw_host W origin"

definition public_paths :: "(string \<times> string) list" where
  "public_paths =
     [(''GET'', ''/healthz''), (''POST'', ''/api/v1/auth/login''), (''POST'', ''/api/v1/auth/setup''),
      (''POST'', ''/api/v1/auth/restore''), (''GET'', ''/api/v1/auth/me''),
      (''POST'', ''/api/v1/invitations/status''), (''POST'', ''/api/v1/invitations/accept''),
      (''GET'', ''/api/v1/scrape_sources/inspect/view'')]"

definition json_body_exempt :: "(string \<times> string) list" where
  "json_body_exempt = [(''POST'', ''/api/v1/opml'')]"

definition is_safe_method :: "string \<Rightarrow> bool" where
  "is_safe_method m \<longleftrightarrow> m = ''GET'' \<or> m = ''HEAD'' \<or> m = ''OPTIONS''"

definition bearer_token :: "request \<Rightarrow> string option" where
  \<comment> \<open>the bearer token, else the ApiKey parameter\<close>
  "bearer_token rq =
     (case cut_prefix ''Bearer '' (rq_auth rq) of
        Some raw \<Rightarrow> Some raw
      | None \<Rightarrow> let raw = form_value rq ''ApiKey'' in if raw = [] then None else Some raw)"

definition authenticate_token :: "'u api_world \<Rightarrow> request \<Rightarrow> server \<Rightarrow> (user \<times> server) option" where
  "authenticate_token W rq s =
     (case bearer_token rq of
        None \<Rightarrow> None
      | Some raw \<Rightarrow>
          (case get_api_token (db_of s) (hash_token (aw_sha W) raw) of
             Inl e \<Rightarrow> None
           | Inr (t, u) \<Rightarrow>
               let stale = (case tok_used t of None \<Rightarrow> True
                     | Some used \<Rightarrow> used * ns_sec < aw_now W - touch_throttle)
               in Some (u, if stale then set_db s (touch_api_token (db_of s) (tok_id t) (now_unix W)) else s)))"

definition authenticate_session :: "'u api_world \<Rightarrow> request \<Rightarrow> server \<Rightarrow> (user \<times> server) option" where
  "authenticate_session W rq s =
     (case session_cookie rq of
        None \<Rightarrow> None
      | Some raw \<Rightarrow>
          (case get_session (db_of s) (hash_token (aw_sha W) raw) of
             Inl e \<Rightarrow> None
           | Inr (ses, u) \<Rightarrow>
               if aw_now W > ses_expires ses * ns_sec then None
               else if aw_now W - ses_seen ses * ns_sec > session_idle then None
               else Some (u,
                 if aw_now W - ses_seen ses * ns_sec > touch_throttle
                 then set_db s (touch_session (db_of s) (ses_id ses) (now_unix W)) else s)))"

definition check_origin :: "'u api_world \<Rightarrow> request \<Rightarrow> bool" where
  \<comment> \<open>hosts are compared without regard to ASCII case\<close>
  "check_origin W rq =
     (if rq_origin rq = [] then False
      else case parse_origin W (rq_origin rq) of
        None \<Rightarrow> False
      | Some u \<Rightarrow>
          if cf_origin (aw_cfg W) = [] then nocase u (rq_host rq)
          else nocase (rq_origin rq) (cf_origin (aw_cfg W)))"

definition needs_json :: "request \<Rightarrow> bool" where
  "needs_json rq \<longleftrightarrow>
     has_prefix (rq_path rq) ''/api/v1/'' \<and> (rq_method rq = ''POST'' \<or> rq_method rq = ''PATCH'')
     \<and> (rq_method rq, rq_path rq) \<notin> set json_body_exempt
     \<and> \<not> has_prefix (rq_ctype rq) ''application/json''"

definition metrics_allowed :: "'u api_world \<Rightarrow> request \<Rightarrow> bool" where
  "metrics_allowed W rq \<longleftrightarrow>
     rq_path rq = ''/metrics'' \<and> rq_method rq = ''GET'' \<and> cf_metrics_token (aw_cfg W) \<noteq> []
     \<and> cut_prefix ''Bearer '' (rq_auth rq) = Some (cf_metrics_token (aw_cfg W))"

definition auth_middleware ::
    "(user option \<Rightarrow> server \<Rightarrow> response \<times> server) \<Rightarrow> 'u api_world \<Rightarrow> request \<Rightarrow> server \<Rightarrow> response \<times> server" where
  "auth_middleware next_handler W rq s =
     (if (rq_method rq, rq_path rq) \<in> set public_paths then next_handler None s
      else if metrics_allowed W rq then next_handler None s
      else case authenticate_token W rq s of
        Some (u, s') \<Rightarrow> next_handler (Some u) s'
      | None \<Rightarrow>
          (case authenticate_session W rq s of
             None \<Rightarrow> reply (write_error 401 ''unauthorized'') s
           | Some (u, s') \<Rightarrow>
               if \<not> is_safe_method (rq_method rq) \<and> \<not> check_origin W rq
               then reply (write_error 403 ''cross-origin request rejected'') s'
               else if \<not> is_safe_method (rq_method rq) \<and> needs_json rq
               then reply (write_error 415 ''expected application/json'') s'
               else next_handler (Some u) s'))"

definition rate_limit_middleware ::
    "(user option \<Rightarrow> server \<Rightarrow> response \<times> server) \<Rightarrow> 'u api_world \<Rightarrow> user option \<Rightarrow> server \<Rightarrow> response \<times> server" where
  "rate_limit_middleware next_handler W c s =
     (case c of
        None \<Rightarrow> next_handler c s
      | Some u \<Rightarrow>
          (case action_allow (srv_api s) (show_int (usr_id u)) (aw_now W) of
             (ok, l) \<Rightarrow>
               if ok then next_handler c (s\<lparr>srv_api := l\<rparr>)
               else reply (write_error 429 ''too many requests'') (s\<lparr>srv_api := l\<rparr>)))"

section \<open>Accounts\<close>

definition min_password_len :: nat where "min_password_len = 12"
definition session_expiry :: int where "session_expiry = 90 * 24 * 3600 * ns_sec"
definition invitation_expiry :: int where "invitation_expiry = 72 * 3600 * ns_sec"

definition to_user_view :: "user \<Rightarrow> user_view" where
  "to_user_view u = \<lparr>uv_id = usr_id u, uv_name = usr_name u, uv_admin = usr_admin u, uv_embeds = usr_embeds u\<rparr>"

definition local_backup_files :: "dir_result \<Rightarrow> backup_file list option" where
  \<comment> \<open>the snapshots of a directory, newest name first; None when it cannot be read\<close>
  "local_backup_files dir =
     (case dir of
        Dir_Missing \<Rightarrow> Some []
      | Dir_Error \<Rightarrow> None
      | Dir_List es \<Rightarrow>
          Some (rev (sort_key bf_name (concat (map (\<lambda>e.
            if de_dir e \<or> \<not> has_prefix (de_name e) ''feedla-''
               \<or> (\<not> has_suffix (de_name e) ''.db'' \<and> \<not> has_suffix (de_name e) ''.opml'') then []
            else case de_info e of None \<Rightarrow> []
              | Some (bytes, modified) \<Rightarrow> [\<lparr>bf_name = de_name e, bf_size = bytes, bf_modified = modified\<rparr>]) es)))))"

definition path_base :: "string \<Rightarrow> string" where
  \<comment> \<open>path.Base of an object key, which does not end in a slash\<close>
  "path_base s = (if s = [] then ''.'' else rev (takeWhile (\<lambda>c. c \<noteq> CHR ''/'') (rev s)))"

definition restore_hint_for_setup :: "'u api_world \<Rightarrow> restore_hint" where
  "restore_hint_for_setup W =
     (let cfg = aw_cfg W;
          files = (if cf_backup_dir cfg = [] then None else local_backup_files (aw_dir W));
          latest_local = (case files of None \<Rightarrow> []
            | Some fs \<Rightarrow> (case find (\<lambda>f. has_suffix (bf_name f) ''.db'') fs of None \<Rightarrow> [] | Some f \<Rightarrow> bf_name f));
          objs = (if cf_remote cfg then aw_bucket W else None);
          latest_remote = (case objs of None \<Rightarrow> []
            | Some os \<Rightarrow> foldl (\<lambda>best ob. let n = path_base (ob_key ob)
                in if has_suffix n ''.db'' \<and> best < n then n else best) [] os);
          (latest, source) = (if latest_local < latest_remote then (latest_remote, ''remote'')
            else if latest_local \<noteq> [] then (latest_local, ''local'') else ([], []))
      in \<lparr>rh_local = (cf_backup_dir cfg \<noteq> []),
          rh_local_snapshot = (case files of None \<Rightarrow> False | Some fs \<Rightarrow> fs \<noteq> []),
          rh_remote = cf_remote cfg,
          rh_remote_snapshot = (case objs of None \<Rightarrow> False | Some os \<Rightarrow> os \<noteq> []),
          rh_remote_error = (cf_remote cfg \<and> aw_bucket W = None), rh_supported = cf_restore cfg,
          rh_latest = latest, rh_source = source\<rparr>)"

definition setup_pending :: "server \<Rightarrow> store_error + bool" where
  "setup_pending s = is_setup_pending (db_of s) 1"

definition handle_auth_me :: "'u handler" where
  "handle_auth_me W c param rq s =
     (case authenticate_token W rq s of
        Some (u, s') \<Rightarrow> reply (write_json 200 (Me_Body True False (Some (to_user_view u)) None)) s'
      | None \<Rightarrow>
          (case authenticate_session W rq s of
             Some (u, s') \<Rightarrow> reply (write_json 200 (Me_Body True False (Some (to_user_view u)) None)) s'
           | None \<Rightarrow>
               with_store (setup_pending s) s (\<lambda>pending.
                 reply (write_json 200 (Me_Body False pending None
                   (if pending then Some (restore_hint_for_setup W) else None))) s)))"

definition handle_auth_restore :: "'u handler" where
  "handle_auth_restore W c param rq s =
     with_store (setup_pending s) s (\<lambda>pending.
       if \<not> pending then reply (write_error 409 ''setup already completed'') s
       else if \<not> cf_restore (aw_cfg W) then reply (write_error 501 ''restore is not supported by this server'') s
       else if \<not> aw_staged W then reply (write_error 500 ''restore failed; check server logs'') s
       else reply (write_json 202 (Status_Body ''restarting'' [])) s)"

definition start_session :: "'u api_world \<Rightarrow> request \<Rightarrow> int \<Rightarrow> server \<Rightarrow> response \<times> server" where
  "start_session W rq i s =
     (case generate_token (aw_sha W) (aw_rand W 1) of
        None \<Rightarrow> reply (write_error 500 ''failed to create session'') s
      | Some (raw, hash) \<Rightarrow>
          with_store (create_session (db_of s) i hash (now_unix W) (unix (aw_now W + session_expiry))) s
            (\<lambda>(ses, d).
              with_store (get_user_by_id d i) (set_db s d) (\<lambda>u.
                reply (set_session_cookie (cf_cookie_secure (aw_cfg W)) rq raw
                  (write_json 200 (Me_Body True False (Some (to_user_view u)) None))) (set_db s d))))"

definition dec_credentials :: "json \<Rightarrow> (string \<times> string) option" where
  "dec_credentials v = both (dec_str ''username'' v) (dec_str ''password'' v)"

definition handle_auth_setup :: "'u handler" where
  "handle_auth_setup W c param rq s =
     with_json dec_credentials rq s (\<lambda>(name, password).
       let name = trim_space name in
       if name = [] then reply (write_error 400 ''username is required'') s
       else if length password < min_password_len
       then reply (write_error 400 ''password must be at least 12 characters'') s
       else with_store (setup_pending s) s (\<lambda>pending.
         if \<not> pending then reply (write_error 409 ''setup already completed'') s
         else case hash_password (aw_kdf W) (aw_rand W 0) password of
           None \<Rightarrow> reply (write_error 500 ''failed to hash password'') s
         | Some hash \<Rightarrow>
             with_store (complete_setup (db_of s) 1 name hash (now_unix W)) s (\<lambda>d.
               start_session W rq 1 (set_db s d))))"

definition rehash :: "'u api_world \<Rightarrow> user \<Rightarrow> string \<Rightarrow> server \<Rightarrow> server" where
  \<comment> \<open>a password hashed with other parameters is hashed again; a failure is ignored\<close>
  "rehash W u password s =
     (if needs_rehash (usr_hash u) then
        (case hash_password (aw_kdf W) (aw_rand W 0) password of
           None \<Rightarrow> s
         | Some hash \<Rightarrow>
             (case update_user_password (db_of s) (usr_id u) hash (now_unix W) of Inl e \<Rightarrow> s | Inr d \<Rightarrow> set_db s d))
      else s)"

definition login_refused :: "'u api_world \<Rightarrow> string \<Rightarrow> string \<Rightarrow> server \<Rightarrow> response \<times> server" where
  "login_refused W name ip s =
     reply (write_error 401 ''invalid username or password'')
       (s\<lparr>srv_login := record_failure (srv_login s) name ip (aw_now W)\<rparr>)"

definition handle_auth_login :: "'u handler" where
  "handle_auth_login W c param rq s =
     with_json dec_credentials rq s (\<lambda>(name, password).
       let ip = client_ip rq in
       case login_allow (srv_login s) name ip (aw_now W) of
         (allowed, l) \<Rightarrow>
           let s = s\<lparr>srv_login := l\<rparr> in
           if \<not> allowed then reply (write_error 429 ''too many attempts, try again later'') s
           else case get_user_by_username (db_of s) name of
             Inl e \<Rightarrow> login_refused W name ip s
           | Inr u \<Rightarrow>
               if verify_password (aw_kdf W) (usr_hash u) password \<noteq> Inr True \<or> usr_disabled u
               then login_refused W name ip s
               else
                 let s = rehash W u password s;
                     s = s\<lparr>srv_login := record_success (srv_login s) name\<rparr>
                 in start_session W rq (usr_id u) s)"

definition handle_auth_update_me :: "'u handler" where
  "handle_auth_update_me W c param rq s =
     with_user c s (\<lambda>u.
       with_json (dec_bool_ptr ''instagram_embeds_enabled'') rq s (\<lambda>b.
         case b of
           None \<Rightarrow> reply (write_error 400 ''instagram_embeds_enabled is required'') s
         | Some b \<Rightarrow>
             with_store (set_user_embeds (db_of s) (usr_id u) b (now_unix W)) s (\<lambda>d.
               with_store (get_user_by_id d (usr_id u)) (set_db s d) (\<lambda>u'.
                 reply (write_json 200 (User_Body (to_user_view u'))) (set_db s d)))))"

definition no_content :: response where "no_content = write_json 204 No_Body"

definition handle_auth_logout :: "'u handler" where
  "handle_auth_logout W c param rq s =
     reply (clear_session_cookie (cf_cookie_secure (aw_cfg W)) rq no_content)
       (case session_cookie rq of
          None \<Rightarrow> s | Some raw \<Rightarrow> set_db s (delete_session (db_of s) (hash_token (aw_sha W) raw)))"

definition dec_passwords :: "json \<Rightarrow> (string \<times> string) option" where
  "dec_passwords v = both (dec_str ''current'' v) (dec_str ''new'' v)"

definition handle_auth_change_password :: "'u handler" where
  "handle_auth_change_password W c param rq s =
     with_user c s (\<lambda>u.
       with_json dec_passwords rq s (\<lambda>(current, new).
         if length new < min_password_len
         then reply (write_error 400 ''password must be at least 12 characters'') s
         else if verify_password (aw_kdf W) (usr_hash u) current \<noteq> Inr True
         then reply (write_error 401 ''current password is incorrect'') s
         else case hash_password (aw_kdf W) (aw_rand W 0) new of
           None \<Rightarrow> reply (write_error 500 ''failed to hash password'') s
         | Some hash \<Rightarrow>
             with_store (update_user_password (db_of s) (usr_id u) hash (now_unix W)) s (\<lambda>d.
               reply (clear_session_cookie (cf_cookie_secure (aw_cfg W)) rq no_content)
                 (set_db s (delete_all_sessions d (usr_id u))))))"

definition handle_create_api_token :: "'u handler" where
  "handle_create_api_token W c param rq s =
     with_user c s (\<lambda>u.
       with_json (dec_str ''label'') rq s (\<lambda>label.
         case generate_token (aw_sha W) (aw_rand W 1) of
           None \<Rightarrow> reply (write_error 500 ''failed to create token'') s
         | Some (raw, hash) \<Rightarrow>
             with_store (create_api_token (db_of s) (usr_id u) label hash (now_unix W)) s (\<lambda>(tok, d).
               reply (write_json 201 (Token_Made raw tok)) (set_db s d))))"

definition handle_list_api_tokens :: "'u handler" where
  "handle_list_api_tokens W c param rq s =
     with_user c s (\<lambda>u. reply (write_json 200 (Tokens_Body (list_api_tokens (db_of s) (usr_id u)))) s)"

definition handle_delete_api_token :: "'u handler" where
  "handle_delete_api_token W c param rq s =
     with_user c s (\<lambda>u.
       with_id param s (\<lambda>i.
         with_store (delete_api_token (db_of s) (usr_id u) i) s (\<lambda>d. reply no_content (set_db s d))))"

section \<open>Administration\<close>

definition with_admin :: "user option \<Rightarrow> server \<Rightarrow> (user \<Rightarrow> response \<times> server) \<Rightarrow> response \<times> server" where
  \<comment> \<open>requireAdmin\<close>
  "with_admin c s k =
     with_user c s (\<lambda>u. if usr_admin u then k u else reply (write_error 403 ''admin only'') s)"

definition handle_admin_list_users :: "'u handler" where
  "handle_admin_list_users W c param rq s =
     with_admin c s (\<lambda>u. reply (write_json 200 (Users_Body (list_users (db_of s)))) s)"

definition dec_new_user :: "json \<Rightarrow> ((string \<times> string) \<times> bool) option" where
  "dec_new_user v = both (dec_credentials v) (dec_bool ''is_admin'' v)"

definition handle_admin_create_user :: "'u handler" where
  "handle_admin_create_user W c param rq s =
     with_admin c s (\<lambda>_.
       with_json dec_new_user rq s (\<lambda>((name, password), is_admin).
         if name = [] then reply (write_error 400 ''username is required'') s
         else if length password < min_password_len
         then reply (write_error 400 ''password must be at least 12 characters'') s
         else case hash_password (aw_kdf W) (aw_rand W 0) password of
           None \<Rightarrow> reply (write_error 500 ''failed to hash password'') s
         | Some hash \<Rightarrow>
             with_store (create_user (db_of s) name hash is_admin (now_unix W)) s (\<lambda>(u, d).
               reply (write_json 201 (User_Row u)) (set_db s d))))"

definition dec_user_patch :: "json \<Rightarrow> (bool option \<times> bool option) option" where
  "dec_user_patch v = both (dec_bool_ptr ''is_admin'' v) (dec_bool_ptr ''is_disabled'' v)"

definition handle_admin_patch_user :: "'u handler" where
  "handle_admin_patch_user W c param rq s =
     with_admin c s (\<lambda>_.
       with_id param s (\<lambda>i.
         with_json dec_user_patch rq s (\<lambda>(adm, dis).
           with_store (case adm of None \<Rightarrow> Inr (db_of s)
               | Some b \<Rightarrow> set_user_admin (db_of s) i b (now_unix W)) s (\<lambda>d1.
             with_store (case dis of None \<Rightarrow> Inr d1
                 | Some b \<Rightarrow> set_user_disabled d1 i b (now_unix W)) (set_db s d1) (\<lambda>d2.
               with_store (get_user_by_id d2 i) (set_db s d2) (\<lambda>u.
                 reply (write_json 200 (User_Row u)) (set_db s d2)))))))"

definition handle_admin_backup_status :: "'u handler" where
  "handle_admin_backup_status W c param rq s =
     with_admin c s (\<lambda>_.
       let cfg = aw_cfg W;
           files = (if cf_backup_dir cfg = [] then Some [] else local_backup_files (aw_dir W));
           objs = (if cf_remote cfg then aw_bucket W else Some [])
       in case files of
            None \<Rightarrow> reply (write_error 500 ''failed to list local backups'') s
          | Some fs \<Rightarrow>
              (case objs of
                 None \<Rightarrow> reply (write_error 502 ''failed to list remote backups'') s
               | Some os \<Rightarrow>
                   reply (write_json 200 (Backups_Body (cf_backup_dir cfg \<noteq> []) (cf_backup_dir cfg) fs (cf_remote cfg)
                     (rev (sort_key bf_name (map (\<lambda>ob.
                        \<lparr>bf_name = ob_key ob, bf_size = ob_size ob, bf_modified = ob_modified ob\<rparr>) os))))) s))"

section \<open>Invitations\<close>

definition handle_admin_create_invitation :: "'u handler" where
  "handle_admin_create_invitation W c param rq s =
     with_admin c s (\<lambda>u.
       case generate_token (aw_sha W) (aw_rand W 1) of
         None \<Rightarrow> reply (write_error 500 ''failed to create invitation'') s
       | Some (raw, hash) \<Rightarrow>
           with_store (create_invitation (db_of s) (usr_id u) hash (unix (aw_now W + invitation_expiry)) (now_unix W)) s
             (\<lambda>(iv, d). reply (write_json 201 (Invitation_Made raw iv)) (set_db s d)))"

definition handle_admin_list_invitations :: "'u handler" where
  "handle_admin_list_invitations W c param rq s =
     with_admin c s (\<lambda>_. reply (write_json 200 (Invitations_Body (list_invitations (db_of s)))) s)"

definition handle_invitation_status :: "'u handler" where
  "handle_invitation_status W c param rq s =
     (case Option.bind (rq_json rq) (dec_str ''token'') of
        None \<Rightarrow> reply (write_error 400 ''token is required'') s
      | Some token \<Rightarrow>
          if token = [] then reply (write_error 400 ''token is required'') s
          else case check_invitation (db_of s) (hash_token (aw_sha W) token) (now_unix W) of
            Some e \<Rightarrow> reply (write_store_error e) s
          | None \<Rightarrow> reply (write_json 200 Valid_Body) s)"

definition dec_acceptance :: "json \<Rightarrow> (string \<times> string \<times> string) option" where
  "dec_acceptance v = both (dec_str ''token'' v) (dec_credentials v)"

definition handle_accept_invitation :: "'u handler" where
  "handle_accept_invitation W c param rq s =
     with_json dec_acceptance rq s (\<lambda>(token, name, password).
       let name = trim_space name in
       if token = [] then reply (write_error 400 ''token is required'') s
       else if name = [] then reply (write_error 400 ''username is required'') s
       else if length password < min_password_len
       then reply (write_error 400 ''password must be at least 12 characters'') s
       else case hash_password (aw_kdf W) (aw_rand W 0) password of
         None \<Rightarrow> reply (write_error 500 ''failed to hash password'') s
       | Some hash \<Rightarrow>
           with_store (accept_invitation (db_of s) (hash_token (aw_sha W) token) name hash (now_unix W)) s (\<lambda>(u, d).
             start_session W rq (usr_id u) (set_db s d)))"

end
