(* ===== verification/ApiReading.thy ===== *)
theory ApiReading
  imports Api
begin

text \<open>
  \<open>internal/api\<close>, what a reader does: subscriptions.go, folders.go, pins.go, ignore_words.go,
  group_entries.go, today_entries.go, search.go, stats.go, metrics.go, opml.go and the Fastladder
  surface of ldr.go. \<open>aw_text\<close> is the text of errors that come out of other packages.
\<close>

section \<open>Pages of entries\<close>

definition today_window :: int where "today_window = 24 * 3600 * ns_sec"

definition page_limit :: "request \<Rightarrow> int" where
  "page_limit rq =
     (case atoi (query_value rq ''limit'') of
        None \<Rightarrow> 100 | Some n \<Rightarrow> if 0 < n \<and> n \<le> 500 then n else 100)"

definition parse_entry_cursor :: "string \<Rightarrow> entry_cursor option" where
  "parse_entry_cursor v =
     (if CHR '','' \<notin> set v then None
      else let before = takeWhile (\<lambda>c. c \<noteq> CHR '','') v;
               after = drop (length before + 1) v
        in case (atoi before, atoi after) of
             (Some p, Some i) \<Rightarrow> Some (EntryCursor p i) | _ \<Rightarrow> None)"

definition format_entry_cursor :: "int \<Rightarrow> int \<Rightarrow> string" where
  "format_entry_cursor published i = show_int published @ '','' @ show_int i"

definition query_cursor :: "request \<Rightarrow> entry_cursor option" where
  "query_cursor rq = parse_entry_cursor (query_value rq ''cursor'')"

definition next_cursor :: "int \<Rightarrow> entry_row list \<Rightarrow> string" where
  \<comment> \<open>empty, and left out of the answer, when the page is not full\<close>
  "next_cursor limit rows =
     (if int (length rows) = limit \<and> rows \<noteq> []
      then format_entry_cursor (er_pub (last rows)) (er_id (last rows)) else [])"

definition entries_reply :: "int \<Rightarrow> entry_row list \<Rightarrow> server \<Rightarrow> response \<times> server" where
  "entries_reply limit rows s = reply (write_json 200 (Entries_Body rows (next_cursor limit rows))) s"

definition today_since :: "'u api_world \<Rightarrow> time" where
  "today_since W = unix (aw_now W - today_window)"

definition handle_list_entries :: "'u handler" where
  "handle_list_entries W c param rq s =
     with_id param s (\<lambda>i.
       let limit = page_limit rq in
       entries_reply limit
         (list_entries (db_of s) (ctx_id c) i (query_value rq ''unread'' = ''1'') limit (query_cursor rq)) s)"

definition handle_list_group_entries :: "'u handler" where
  "handle_list_group_entries W c param rq s =
     (let unread_only = (query_value rq ''unread'' = ''1''); limit = page_limit rq; cur = query_cursor rq;
          folder = query_value rq ''folder_id''; rating = query_value rq ''rating''
      in if (folder = []) = (rating = [])
         then reply (write_error 400 ''specify exactly one of folder_id or rating'') s
         else if folder \<noteq> [] then
           (case atoi folder of
              None \<Rightarrow> reply (write_error 400 ''invalid folder_id'') s
            | Some k \<Rightarrow>
                entries_reply limit (list_entries_by_folder (db_of s) (ctx_id c)
                  (if k \<noteq> 0 then Some k else None) unread_only limit cur) s)
         else
           (case atoi rating of
              None \<Rightarrow> reply (write_error 400 ''invalid rating'') s
            | Some n \<Rightarrow>
                if n < 0 \<or> n > 5 then reply (write_error 400 ''invalid rating'') s
                else entries_reply limit
                  (list_entries_by_rating (db_of s) (ctx_id c) n unread_only limit cur) s))"

definition handle_list_today_entries :: "'u handler" where
  "handle_list_today_entries W c param rq s =
     (let limit = page_limit rq in
      entries_reply limit (list_today_entries (db_of s) (ctx_id c) (today_since W) limit (query_cursor rq)) s)"

definition handle_search :: "'u handler" where
  "handle_search W c param rq s =
     (let query = trim_space (query_value rq ''q''); limit = page_limit rq
      in if query = [] then reply (write_error 400 ''q is required'') s
         else entries_reply limit
           (search_entries (aw_fts W) (db_of s) (ctx_id c) query limit (query_cursor rq)) s)"

section \<open>Subscriptions\<close>

definition default_fetch_interval :: int where "default_fetch_interval = 1800"

definition handle_list_subscriptions :: "'u handler" where
  "handle_list_subscriptions W c param rq s =
     reply (write_json 200 (Subs_Body (list_subscription_views (db_of s) (ctx_id c))
       (count_today_unread (db_of s) (ctx_id c) (today_since W)))) s"

record sub_request =
  sq_url :: string
  sq_folder :: "int option"
  sq_title :: string
  sq_confirmed :: bool
  sq_fulltext :: bool

definition dec_sub_request :: "json \<Rightarrow> sub_request option" where
  "dec_sub_request v =
     map_option (\<lambda>(url, folder, title, confirmed, fulltext).
         \<lparr>sq_url = url, sq_folder = folder, sq_title = title, sq_confirmed = confirmed, sq_fulltext = fulltext\<rparr>)
       (both (dec_str ''url'' v) (both (dec_int_ptr ''folder_id'' v) (both (dec_str ''title'' v)
         (both (dec_bool ''confirmed'' v) (dec_bool ''fulltext'' v)))))"

definition with_folder ::
    "int \<Rightarrow> int option \<Rightarrow> server \<Rightarrow> (response \<times> server) \<Rightarrow> response \<times> server" where
  \<comment> \<open>a folder that is named and not 0 has to be the user's own\<close>
  "with_folder u folder s k =
     (case folder of
        None \<Rightarrow> k
      | Some i \<Rightarrow> if i = 0 then k else with_store (get_folder (db_of s) u i) s (\<lambda>_. k))"

definition crawl_now :: "'u api_world \<Rightarrow> int \<Rightarrow> server \<Rightarrow> (store_error + crawl_result) \<times> server" where
  \<comment> \<open>s.crawler.CrawlFeed\<close>
  "crawl_now W i s =
     (case crawl_feed (aw_crawl W) i (aw_now W) (srv_crawler s) of
        Inl e \<Rightarrow> (Inl e, s) | Inr (r, cr) \<Rightarrow> (Inr r, s\<lparr>srv_crawler := cr\<rparr>))"

definition subscribed_reply :: "int \<Rightarrow> int \<Rightarrow> (sub_view \<Rightarrow> response) \<Rightarrow> server \<Rightarrow> response \<times> server" where
  "subscribed_reply u i answer s =
     with_store (get_subscription_view (db_of s) u i) s (\<lambda>v. reply (answer v) s)"

definition candidates_of :: "feed_candidate list \<Rightarrow> (string \<times> string \<times> bool) list" where
  \<comment> \<open>every candidate, and the first again with full text; there is a first one\<close>
  "candidates_of cs =
     map (\<lambda>x. (fc_title x, fc_url x, False)) cs @ map (\<lambda>x. (fc_title x, fc_url x, True)) (take 1 cs)"

definition subscribe_confirmed :: "'u api_world \<Rightarrow> int \<Rightarrow> sub_request \<Rightarrow> server \<Rightarrow> response \<times> server" where
  "subscribe_confirmed W u q s =
     (case upsert_feed (db_of s) (sq_url q) [] (sq_title q) default_fetch_interval
             (aw_jitter W (sq_url q)) (now_unix W) of
        (i, d1) \<Rightarrow>
          let s1 = set_db s d1 in
          with_store (upsert_subscription d1 u i (sq_folder q) (sq_title q) (now_unix W)) s1 (\<lambda>d2.
            let s2 = set_db s d2 in
            with_store (if sq_fulltext q then enable_feed_fulltext d2 i u (now_unix W) else Inr d2) s2 (\<lambda>d3.
              subscribed_reply u i (\<lambda>v. write_json 201 (Subscribed_Body v))
                (snd (crawl_now W i (set_db s d3))))))"

definition discover_error_text :: "'u api_world \<Rightarrow> string \<Rightarrow> discover_error \<Rightarrow> string" where
  "discover_error_text W url e =
     (case e of
        Discover_Fetch f \<Rightarrow> ''feed: discover '' @ url @ '': '' @ aw_text W (Fetch_Text f)
      | Discover_Status n \<Rightarrow> ''feed: discover '' @ url @ '': unexpected status '' @ show_int n
      | No_Feed \<Rightarrow> ''feed: no feed found at or linked from '' @ url)"

definition handle_create_subscription :: "'u handler" where
  "handle_create_subscription W c param rq s =
     (let u = ctx_id c in
      with_json dec_sub_request rq s (\<lambda>q.
        if trim_space (sq_url q) = [] then reply (write_error 400 ''url is required'') s
        else with_folder u (sq_folder q) s
          (with_count (count_subscriptions (db_of s) u) (qt_subs (cf_quota (aw_cfg W))) ''subscriptions'' s
            (if sq_confirmed q then subscribe_confirmed W u q s
             else with_add W u s (\<lambda>s.
               case discover_feed (aw_discover W) (sq_url q) of
                 Inl e \<Rightarrow> reply (write_error 502 (discover_error_text W (sq_url q) e)) s
               | Inr cs \<Rightarrow> reply (write_json 202 (Candidates_Body (candidates_of cs))) s)))))"

definition dec_sub_patch :: "json \<Rightarrow> sub_patch option" where
  "dec_sub_patch v =
     map_option (\<lambda>(title, rating, folder). \<lparr>sp_title = title, sp_rating = rating, sp_folder = folder\<rparr>)
       (both (dec_str_ptr ''title'' v) (both (dec_int_ptr ''rating'' v) (dec_int_ptr ''folder_id'' v)))"

definition handle_patch_subscription :: "'u handler" where
  "handle_patch_subscription W c param rq s =
     (let u = ctx_id c in
      with_id param s (\<lambda>i.
        with_json dec_sub_patch rq s (\<lambda>p.
          with_folder u (sp_folder p) s
            (with_store (update_subscription (db_of s) u i p) s (\<lambda>d.
              subscribed_reply u i (\<lambda>v. write_json 200 (Sub_Body v)) (set_db s d))))))"

definition handle_delete_subscription :: "'u handler" where
  "handle_delete_subscription W c param rq s =
     with_id param s (\<lambda>i.
       with_store (unsubscribe (db_of s) (ctx_id c) i) s (\<lambda>d.
         reply (write_json 204 No_Body) (set_db s d)))"

definition handle_read_all :: "'u handler" where
  "handle_read_all W c param rq s =
     with_id param s (\<lambda>i.
       let act = (\<lambda>before.
             case mark_feed_read_before (db_of s) (ctx_id c) i before (now_unix W) of
               (n, d) \<Rightarrow> reply (write_json 200 (Marked_Body n)) (set_db s d))
       in if rq_empty rq then act 0 else with_json (dec_int ''before'') rq s act)"

definition with_subscribed :: "int \<Rightarrow> int \<Rightarrow> server \<Rightarrow> (response \<times> server) \<Rightarrow> response \<times> server" where
  "with_subscribed u i s k =
     (if is_subscribed (db_of s) u i then k else reply (write_store_error ErrNotFound) s)"

definition handle_refresh :: "'u handler" where
  "handle_refresh W c param rq s =
     (let u = ctx_id c in
      with_id param s (\<lambda>i.
        with_subscribed u i s
          (with_refresh W u s (\<lambda>s.
            case crawl_now W i s of
              (Inl e, s') \<Rightarrow> reply (write_store_error e) s'
            | (Inr r, s') \<Rightarrow>
                reply (write_json 200 (Refreshed_Body (cr_new r)
                  (map_option (error_text (aw_crawl W)) (cr_err r)))) s'))))"

definition handle_enable_fulltext :: "'u handler" where
  "handle_enable_fulltext W c param rq s =
     (let u = ctx_id c in
      with_id param s (\<lambda>i.
        with_subscribed u i s
          (with_store (enable_feed_fulltext (db_of s) i u (now_unix W)) s (\<lambda>d.
            subscribed_reply u i (\<lambda>v. write_json 200 (Sub_Body v)) (set_db s d)))))"

definition handle_disable_fulltext :: "'u handler" where
  "handle_disable_fulltext W c param rq s =
     (let u = ctx_id c in
      with_id param s (\<lambda>i.
        with_subscribed u i s
          (subscribed_reply u i (\<lambda>v. write_json 200 (Sub_Body v))
            (set_db s (disable_feed_fulltext (db_of s) i)))))"

definition handle_mark_entries_read :: "'u handler" where
  "handle_mark_entries_read W c param rq s =
     with_json (dec_ints ''entry_ids'') rq s (\<lambda>is.
       case mark_entries_read (db_of s) (ctx_id c) is (now_unix W) of
         (n, d) \<Rightarrow> reply (write_json 200 (Marked_Body n)) (set_db s d))"

definition handle_mark_all_entries_read :: "'u handler" where
  "handle_mark_all_entries_read W c param rq s =
     (case mark_all_entries_read (db_of s) (ctx_id c) (now_unix W) of
        (n, d) \<Rightarrow> reply (write_json 200 (Marked_Body n)) (set_db s d))"

section \<open>Folders, pins, ignore words\<close>

definition handle_list_folders :: "'u handler" where
  "handle_list_folders W c param rq s =
     reply (write_json 200 (Folders_Body (list_folders (db_of s) (ctx_id c)))) s"

definition handle_create_folder :: "'u handler" where
  "handle_create_folder W c param rq s =
     with_json (dec_str ''name'') rq s (\<lambda>name.
       let name = trim_space name in
       if name = [] then reply (write_error 400 ''name is required'') s
       else with_store (get_or_create_folder (db_of s) (ctx_id c) name) s (\<lambda>(i, d).
         reply (write_json 201 (Folder_Body i name)) (set_db s d)))"

definition handle_list_pins :: "'u handler" where
  "handle_list_pins W c param rq s =
     reply (write_json 200 (Pins_Body (list_pins (db_of s) (ctx_id c)))) s"

definition handle_add_pin :: "'u handler" where
  "handle_add_pin W c param rq s =
     with_json (dec_int ''entry_id'') rq s (\<lambda>i.
       if i = 0 then reply (write_error 400 ''entry_id is required'') s
       else with_count (count_pins (db_of s) (ctx_id c)) (qt_pins (cf_quota (aw_cfg W))) ''pins'' s
         (with_store (add_pin (db_of s) (ctx_id c) i (now_unix W)) s (\<lambda>d.
           reply (write_json 201 (Pin_Body i)) (set_db s d))))"

definition handle_remove_pin :: "'u handler" where
  "handle_remove_pin W c param rq s =
     with_id param s (\<lambda>i.
       with_store (remove_pin (db_of s) (ctx_id c) i) s (\<lambda>d.
         reply (write_json 204 No_Body) (set_db s d)))"

definition handle_list_ignore_words :: "'u handler" where
  "handle_list_ignore_words W c param rq s =
     reply (write_json 200 (Words_Body (list_ignore_words (db_of s) (ctx_id c)))) s"

definition handle_add_ignore_word :: "'u handler" where
  "handle_add_ignore_word W c param rq s =
     with_json (dec_str ''word'') rq s (\<lambda>word.
       if word = [] then reply (write_error 400 ''word is required'') s
       else with_count (count_ignore_words (db_of s) (ctx_id c)) (qt_words (cf_quota (aw_cfg W))) ''ignore words'' s
         (with_store (add_ignore_word (db_of s) (ctx_id c) word (now_unix W)) s (\<lambda>d.
           reply (write_json 201 (Word_Body word)) (set_db s d))))"

definition handle_remove_ignore_word :: "'u handler" where
  "handle_remove_ignore_word W c param rq s =
     with_id param s (\<lambda>i.
       with_store (remove_ignore_word (db_of s) (ctx_id c) i) s (\<lambda>d.
         reply (write_json 204 No_Body) (set_db s d)))"

section \<open>Statistics, OPML\<close>

definition server_stats :: "'u api_world \<Rightarrow> int \<Rightarrow> server \<Rightarrow> stats" where
  "server_stats W u s = get_stats (fst (aw_pages W)) (snd (aw_pages W)) (db_of s) u (now_unix W)"

definition handle_stats :: "'u handler" where
  "handle_stats W c param rq s =
     reply (write_json 200 (Stats_Body (server_stats W (ctx_id c) s)
       (filter (\<lambda>e. ie_feed e \<in> subscribed_feed_ids (db_of s) (ctx_id c)) (cw_errors (srv_crawler s))))) s"

definition handle_metrics :: "'u handler" where
  \<comment> \<open>the gauges; without a user those of the first account\<close>
  "handle_metrics W c param rq s =
     reply (write_json 200 (Metrics_Body
       (server_stats W (case c of None \<Rightarrow> 1 | Some u \<Rightarrow> usr_id u) s) (length (cw_errors (srv_crawler s))))) s"

definition max_opml_bytes :: int where "max_opml_bytes = 10 * 1024 * 1024"

definition handle_export_opml :: "'u handler" where
  "handle_export_opml W c param rq s =
     reply (write_json 200 (Opml_Body (export_opml (aw_opml_enc W) (db_of s) (ctx_id c)))) s"

definition handle_import_opml :: "'u handler" where
  \<comment> \<open>a body over the limit cannot be read to its end, and the decoder fails with it\<close>
  "handle_import_opml W c param rq s =
     (case import_opml (\<lambda>raw. if max_opml_bytes < int (length raw) then None else aw_opml_dec W raw)
             (aw_jitter W) (ctx_id c) (rq_body rq) (qt_opml (cf_quota (aw_cfg W))) (now_unix W) (db_of s) of
        ((n, Some e), d) \<Rightarrow> reply (write_error 400 (aw_text W (Import_Text e))) (set_db s d)
      | ((n, None), d) \<Rightarrow> reply (write_json 200 (Imported_Body n)) (set_db s d))"

section \<open>The Fastladder surface\<close>

definition with_subscribe_id :: "request \<Rightarrow> server \<Rightarrow> (int \<Rightarrow> response \<times> server) \<Rightarrow> response \<times> server" where
  "with_subscribe_id rq s k =
     (case atoi (form_value rq ''subscribe_id'') of
        None \<Rightarrow> reply (write_error 400 ''invalid subscribe_id'') s | Some i \<Rightarrow> k i)"

definition handle_ldr_subs :: "'u handler" where
  "handle_ldr_subs W c param rq s =
     (let unread_only = (form_value rq ''unread'' = ''1'')
      in reply (write_json 200 (Sub_List
           (filter (\<lambda>v. \<not> (unread_only \<and> sv_unread v = 0)) (list_subscription_views (db_of s) (ctx_id c))))) s)"

definition handle_ldr_unread :: "'u handler" where
  "handle_ldr_unread W c param rq s =
     with_subscribe_id rq s (\<lambda>i.
       reply (write_json 200 (Entry_List (list_entries (db_of s) (ctx_id c) i True 500 None))) s)"

definition handle_ldr_touch_all :: "'u handler" where
  "handle_ldr_touch_all W c param rq s =
     with_subscribe_id rq s (\<lambda>i.
       case mark_feed_read_before (db_of s) (ctx_id c) i 0 (now_unix W) of
         (n, d) \<Rightarrow> reply (write_json 200 (Marked_Body n)) (set_db s d))"

definition handle_ldr_subscribe :: "'u handler" where
  "handle_ldr_subscribe W c param rq s =
     (let u = ctx_id c; url = form_value rq ''feedlink''
      in if url = [] then reply (write_error 400 ''feedlink is required'') s
         else with_add W u s (\<lambda>s.
           with_count (count_subscriptions (db_of s) u) (qt_subs (cf_quota (aw_cfg W))) ''subscriptions'' s
             (case discover_feed (aw_discover W) url of
                Inl e \<Rightarrow> reply (write_error 502 (discover_error_text W url e)) s
              | Inr cs \<Rightarrow>
                  let chosen = hd cs in
                  (case upsert_feed (db_of s) (fc_url chosen) [] (fc_title chosen) default_fetch_interval
                          (aw_jitter W (fc_url chosen)) (now_unix W) of
                     (i, d1) \<Rightarrow>
                       with_store (upsert_subscription d1 u i None (fc_title chosen) (now_unix W)) (set_db s d1) (\<lambda>d2.
                         reply (write_json 200 (Subscribe_Id i)) (snd (crawl_now W i (set_db s d2))))))))"

definition handle_ldr_unsubscribe :: "'u handler" where
  "handle_ldr_unsubscribe W c param rq s =
     with_subscribe_id rq s (\<lambda>i.
       with_store (unsubscribe (db_of s) (ctx_id c) i) s (\<lambda>d.
         reply (write_json 200 Ok_Body) (set_db s d)))"

definition handle_ldr_folders :: "'u handler" where
  "handle_ldr_folders W c param rq s =
     reply (write_json 200 (Folders_Body (list_folders (db_of s) (ctx_id c)))) s"

definition with_linked_entry :: "request \<Rightarrow> server \<Rightarrow> (int \<Rightarrow> response \<times> server) \<Rightarrow> response \<times> server" where
  "with_linked_entry rq s k =
     (let url = form_value rq ''link'' in
      if url = [] then reply (write_error 400 ''link is required'') s
      else with_store (find_entry_by_url (db_of s) url) s k)"

definition handle_ldr_pin_add :: "'u handler" where
  "handle_ldr_pin_add W c param rq s =
     with_linked_entry rq s (\<lambda>i.
       with_count (count_pins (db_of s) (ctx_id c)) (qt_pins (cf_quota (aw_cfg W))) ''pins'' s
         (with_store (add_pin (db_of s) (ctx_id c) i (now_unix W)) s (\<lambda>d.
           reply (write_json 200 Ok_Body) (set_db s d))))"

definition handle_ldr_pin_remove :: "'u handler" where
  "handle_ldr_pin_remove W c param rq s =
     with_linked_entry rq s (\<lambda>i.
       with_store (remove_pin (db_of s) (ctx_id c) i) s (\<lambda>d.
         reply (write_json 200 Ok_Body) (set_db s d)))"

definition handle_ldr_pin_all :: "'u handler" where
  "handle_ldr_pin_all W c param rq s =
     reply (write_json 200 (Pins_Body (list_pins (db_of s) (ctx_id c)))) s"

end
