(* ===== verification/ApiScrape.thy ===== *)
theory ApiScrape
  imports ApiAuth ApiReading
begin

text \<open>
  \<open>internal/api\<close>: scrape_sources.go and scrape_sources_inspect.go, the pages a user has watched,
  previewed or looked at through the picker. The page of a preview is fetched over the network of
  \<open>aw_crawl\<close>, fetch 0; only its creator or an admin may change or preview a stored source.
\<close>

definition pagewatch_default_interval :: int where "pagewatch_default_interval = 3600"

definition to_scrape_view :: "scrape_source \<Rightarrow> scrape_view" where
  "to_scrape_view x = \<lparr>sw_id = scr_id x, sw_feed = scr_feed x, sw_kind = scr_kind x,
     sw_target = scr_target x, sw_config = scr_config x, sw_creator = scr_creator x,
     sw_created = scr_created x, sw_updated = scr_updated x\<rparr>"

definition validate_scrape_config :: "'u api_world \<Rightarrow> string \<Rightarrow> string \<Rightarrow> string option" where
  \<comment> \<open>the error's message, if there is one\<close>
  "validate_scrape_config W kind raw =
     (if kind = ''pagewatch'' then
        (case pw_parse_config (cl_pw (aw_crawl W)) raw of None \<Rightarrow> Some (aw_text W Watch_Config) | Some c \<Rightarrow> None)
      else if kind = ''selector'' then
        (case sel_parse_config (cl_sel (aw_crawl W)) raw of None \<Rightarrow> Some (aw_text W Listing_Config) | Some c \<Rightarrow> None)
      else Some (''unsupported kind: '' @ kind))"

definition with_config ::
    "'u api_world \<Rightarrow> string \<Rightarrow> string \<Rightarrow> server \<Rightarrow> (response \<times> server) \<Rightarrow> response \<times> server" where
  "with_config W kind raw s k =
     (case validate_scrape_config W kind raw of Some e \<Rightarrow> reply (write_error 400 e) s | None \<Rightarrow> k)"

record scrape_request =
  rc_kind :: string
  rc_url :: string
  rc_folder :: "int option"
  rc_title :: string
  rc_config :: string

definition kind_or_default :: "string \<Rightarrow> string" where
  "kind_or_default kind = (if kind = [] then ''pagewatch'' else kind)"

definition prefix_for :: "string \<Rightarrow> string" where
  \<comment> \<open>PrefixForKind of the kind as text, none for an unknown one\<close>
  "prefix_for kind =
     (case find (\<lambda>(p, k). kind_string k = kind) scrape_prefixes of Some (p, k) \<Rightarrow> p | None \<Rightarrow> [])"

definition dec_scrape_request :: "'u api_world \<Rightarrow> json \<Rightarrow> scrape_request option" where
  "dec_scrape_request W v =
     map_option (\<lambda>(kind, url, folder, title, config).
         \<lparr>rc_kind = kind, rc_url = url, rc_folder = folder, rc_title = title, rc_config = config\<rparr>)
       (both (dec_str ''kind'' v) (both (dec_str ''url'' v) (both (dec_int_ptr ''folder_id'' v)
         (both (dec_str ''title'' v) (dec_raw (aw_raw W) ''config'' v)))))"

definition add_scrape_source :: "'u api_world \<Rightarrow> int \<Rightarrow> string \<Rightarrow> scrape_request \<Rightarrow> server \<Rightarrow> response \<times> server" where
  "add_scrape_source W u kind q s =
     (let url = prefix_for kind @ rc_url q
      in case upsert_feed (db_of s) url [] (rc_title q) pagewatch_default_interval (aw_jitter W url) (now_unix W) of
           (i, d1) \<Rightarrow>
             with_store (upsert_subscription d1 u i (rc_folder q) (rc_title q) (now_unix W)) (set_db s d1) (\<lambda>d2.
               with_store (create_scrape_source d2 u i kind (rc_url q) (rc_config q) (now_unix W)) (set_db s d2)
                 (\<lambda>(k, d3).
                   subscribed_reply u i (\<lambda>v. write_json 201 (Subscribed_Body v))
                     (snd (crawl_now W i (set_db s d3))))))"

definition handle_create_scrape_source :: "'u handler" where
  "handle_create_scrape_source W c param rq s =
     (let u = ctx_id c; quota = cf_quota (aw_cfg W) in
      with_json (dec_scrape_request W) rq s (\<lambda>q.
        if trim_space (rc_url q) = [] then reply (write_error 400 ''url is required'') s
        else
          let kind = kind_or_default (rc_kind q) in
          with_config W kind (rc_config q) s
            (with_add W u s (\<lambda>s.
              with_count (count_subscriptions (db_of s) u) (qt_subs quota) ''subscriptions'' s
                (with_count (count_scrape_sources (db_of s) u) (qt_scrapes quota) ''scrape sources'' s
                  (add_scrape_source W u kind q s))))))"

definition handle_list_scrape_sources :: "'u handler" where
  "handle_list_scrape_sources W c param rq s =
     reply (write_json 200 (Scrapes_Body (map to_scrape_view (list_scrape_sources (db_of s))))) s"

definition handle_get_scrape_source :: "'u handler" where
  "handle_get_scrape_source W c param rq s =
     with_id param s (\<lambda>i.
       with_store (get_scrape_source (db_of s) i) s (\<lambda>x.
         reply (write_json 200 (Scrape_Body (to_scrape_view x))) s))"

definition with_own_source ::
    "user option \<Rightarrow> scrape_source \<Rightarrow> server \<Rightarrow> (response \<times> server) \<Rightarrow> response \<times> server" where
  "with_own_source c x s k =
     (if scr_creator x \<noteq> ctx_id c \<and> \<not> usr_admin (ctx_user c)
      then reply (write_store_error ErrNotFound) s else k)"

definition handle_patch_scrape_source :: "'u handler" where
  "handle_patch_scrape_source W c param rq s =
     with_id param s (\<lambda>i.
       with_json (dec_raw (aw_raw W) ''config'') rq s (\<lambda>config.
         with_store (get_scrape_source (db_of s) i) s (\<lambda>x.
           with_own_source c x s
             (with_config W (scr_kind x) config s
               (with_store (update_scrape_source_config (db_of s) i config (now_unix W)) s (\<lambda>d.
                 with_store (get_scrape_source d i) (set_db s d) (\<lambda>x'.
                   reply (write_json 200 (Scrape_Body (to_scrape_view x'))) (set_db s d))))))))"

section \<open>Previews\<close>

definition fetch_preview_page :: "'u api_world \<Rightarrow> string \<Rightarrow> string + string" where
  \<comment> \<open>the page as UTF-8, or the message of a 502\<close>
  "fetch_preview_page W url =
     (let L = aw_crawl W in
      case fst (fetch (cl_net L 0) (cl_fetcher L) url \<lparr>fo_etag = [], fo_last_modified = [], fo_accept = html_accept\<rparr>) of
        Inl e \<Rightarrow> Inl (aw_text W (Fetch_Text e))
      | Inr r \<Rightarrow>
          if fr_status r \<noteq> 200 then Inl ''unexpected status fetching preview''
          else (case cl_decode L (fr_body r) (fr_content_type r) of
                  None \<Rightarrow> Inl (aw_text W Charset_Text) | Some body \<Rightarrow> Inr body))"

definition with_page ::
    "'u api_world \<Rightarrow> string \<Rightarrow> server \<Rightarrow> (string \<Rightarrow> response \<times> server) \<Rightarrow> response \<times> server" where
  "with_page W url s k =
     (case fetch_preview_page W url of Inl e \<Rightarrow> reply (write_error 502 e) s | Inr body \<Rightarrow> k body)"

definition preview_pagewatch :: "'u api_world \<Rightarrow> string \<Rightarrow> string \<Rightarrow> pw_config \<Rightarrow> response" where
  "preview_pagewatch W url body cfg =
     (let A = cl_articles (aw_crawl W) in
      case pw_preview (al_urls A) (al_pages A) (cl_pw (aw_crawl W)) url body cfg of
        Inl e \<Rightarrow> write_error 502 (aw_text W (Watch_Text e))
      | Inr blocks \<Rightarrow> write_json 200 (Blocks_Body blocks))"

definition preview_selector :: "'u api_world \<Rightarrow> string \<Rightarrow> string \<Rightarrow> sel_config \<Rightarrow> string set \<Rightarrow> response" where
  "preview_selector W url body cfg seen =
     (let A = cl_articles (aw_crawl W) in
      case sel_preview (al_urls A) (al_pages A) (cl_sel (aw_crawl W)) url body cfg (aw_now W) seen of
        Inl e \<Rightarrow> write_error 502 (aw_text W (Listing_Text e))
      | Inr (items, r) \<Rightarrow> write_json 200 (Items_Body items r))"

definition seen_so_far :: "'u api_world \<Rightarrow> scrape_source \<Rightarrow> string set" where
  "seen_so_far W x =
     (case sel_parse_state (cl_sel (aw_crawl W)) (case scr_state x of None \<Rightarrow> [] | Some st \<Rightarrow> st) of
        None \<Rightarrow> {} | Some st \<Rightarrow> set (ss_seen st))"

definition handle_preview_scrape_source :: "'u handler" where
  "handle_preview_scrape_source W c param rq s =
     with_id param s (\<lambda>i.
       with_store (get_scrape_source (db_of s) i) s (\<lambda>x.
         with_own_source c x s
           (with_preview W (ctx_id c) ''preview'' s (\<lambda>s.
             with_page W (scr_target x) s (\<lambda>body.
               if scr_kind x = ''pagewatch'' then
                 (case pw_parse_config (cl_pw (aw_crawl W)) (scr_config x) of
                    None \<Rightarrow> reply (write_error 500 (aw_text W Watch_Config)) s
                  | Some cfg \<Rightarrow> reply (preview_pagewatch W (scr_target x) body cfg) s)
               else if scr_kind x = ''selector'' then
                 (case sel_parse_config (cl_sel (aw_crawl W)) (scr_config x) of
                    None \<Rightarrow> reply (write_error 500 (aw_text W Listing_Config)) s
                  | Some cfg \<Rightarrow> reply (preview_selector W (scr_target x) body cfg (seen_so_far W x)) s)
               else reply (write_error 500 (''unsupported kind: '' @ scr_kind x)) s)))))"

definition handle_preview_unsaved :: "'u handler" where
  \<comment> \<open>the configuration has been validated, so the parses succeed again\<close>
  "handle_preview_unsaved W c param rq s =
     with_json (\<lambda>v. both (dec_str ''kind'' v) (both (dec_str ''url'' v) (dec_raw (aw_raw W) ''config'' v))) rq s
       (\<lambda>(kind, url, config).
         if trim_space url = [] then reply (write_error 400 ''url is required'') s
         else
           let kind = kind_or_default kind in
           with_config W kind config s
             (with_preview W (ctx_id c) ''preview'' s (\<lambda>s.
               with_page W url s (\<lambda>body.
                 if kind = ''pagewatch'' then
                   reply (preview_pagewatch W url body (the (pw_parse_config (cl_pw (aw_crawl W)) config))) s
                 else reply (preview_selector W url body (the (sel_parse_config (cl_sel (aw_crawl W)) config)) {}) s))))"

section \<open>The picker\<close>

definition inspect_page :: "'u api_world \<Rightarrow> string \<Rightarrow> string \<times> element list" where
  "inspect_page W body =
     sanitize_page (pl_parse (al_pages (cl_articles (aw_crawl W)))) (aw_render W) (aw_script W) body"

definition handle_inspect_scrape_source :: "'u handler" where
  "handle_inspect_scrape_source W c param rq s =
     with_json (dec_str ''url'') rq s (\<lambda>url.
       if trim_space url = [] then reply (write_error 400 ''url is required'') s
       else with_preview W (ctx_id c) ''inspect'' s (\<lambda>s.
         with_page W url s (\<lambda>body.
           case inspect_page W body of
             (html, els) \<Rightarrow>
               (case generate_token (aw_sha W) (aw_rand W 1) of
                  None \<Rightarrow> reply (write_error 500 ''failed to issue inspect token'') s
                | Some (raw, hash) \<Rightarrow>
                    reply (write_json 200 (Inspect_Body (''/api/v1/scrape_sources/inspect/view?t='' @ raw) els
                        (unix (aw_now W + inspect_ttl))))
                      (s\<lparr>srv_tokens := issue_token (srv_tokens s) raw (ctx_id c) html els (aw_now W)\<rparr>)))))"

definition inspect_gone :: response where
  "inspect_gone = write_error 404 ''inspect token not found or expired''"

definition handle_inspect_view :: "'u handler" where
  "handle_inspect_view W c param rq s =
     (case consume_token (srv_tokens s) (query_value rq ''t'') (aw_now W) of
        (found, l) \<Rightarrow>
          let s = s\<lparr>srv_tokens := l\<rparr> in
          case found of
            None \<Rightarrow> reply inspect_gone s
          | Some e \<Rightarrow>
              (case authenticate_session W rq s of
                 None \<Rightarrow> reply (write_json 200 (Page_Body (ie_html e))) s
               | Some (u, s') \<Rightarrow>
                   if usr_id u \<noteq> ie_user e then reply inspect_gone s'
                   else reply (write_json 200 (Page_Body (ie_html e))) s'))"

end
