(* ===== verification/ApiServe.thy ===== *)
theory ApiServe
  imports ApiScrape
begin

text \<open>
  \<open>internal/api/api.go\<close>: the routing table of NewHandler and the chain of middlewares around it.
  A request carries the segments of its escaped path, each unescaped, which is what the ServeMux
  matches, and the unescaped path, which is what the middleware looks at; the mux redirects paths that
  are not clean and finds none with a trailing slash, so those reach no handler and are left out.
  \<open>serve\<close> is the handler NewHandler returns, less the compression of the answer.
\<close>

definition handle_healthz :: "'u handler" where
  "handle_healthz W c param rq s =
     reply (write_json 200 (Status_Body ''ok''
       (if cf_version (aw_cfg W) = [] then ''unknown'' else cf_version (aw_cfg W)))) s"

type_synonym 'u route = "string \<times> string \<times> 'u handler"

definition routes :: "'u route list" where
  "routes =
     [
      (''GET'', ''/healthz'', handle_healthz),
      (''GET'', ''/metrics'', handle_metrics),
      (''GET'', ''/api/v1/auth/me'', handle_auth_me),
      (''PATCH'', ''/api/v1/auth/me'', handle_auth_update_me),
      (''POST'', ''/api/v1/auth/setup'', handle_auth_setup),
      (''POST'', ''/api/v1/auth/restore'', handle_auth_restore),
      (''POST'', ''/api/v1/auth/login'', handle_auth_login),
      (''POST'', ''/api/v1/auth/logout'', handle_auth_logout),
      (''POST'', ''/api/v1/auth/password'', handle_auth_change_password),
      (''GET'', ''/api/v1/auth/tokens'', handle_list_api_tokens),
      (''POST'', ''/api/v1/auth/tokens'', handle_create_api_token),
      (''DELETE'', ''/api/v1/auth/tokens/{id}'', handle_delete_api_token),
      (''GET'', ''/api/v1/subscriptions'', handle_list_subscriptions),
      (''POST'', ''/api/v1/subscriptions'', handle_create_subscription),
      (''PATCH'', ''/api/v1/subscriptions/{id}'', handle_patch_subscription),
      (''DELETE'', ''/api/v1/subscriptions/{id}'', handle_delete_subscription),
      (''GET'', ''/api/v1/subscriptions/{id}/entries'', handle_list_entries),
      (''POST'', ''/api/v1/subscriptions/{id}/read_all'', handle_read_all),
      (''POST'', ''/api/v1/subscriptions/{id}/refresh'', handle_refresh),
      (''POST'', ''/api/v1/subscriptions/{id}/fulltext'', handle_enable_fulltext),
      (''DELETE'', ''/api/v1/subscriptions/{id}/fulltext'', handle_disable_fulltext),
      (''POST'', ''/api/v1/entries/read'', handle_mark_entries_read),
      (''POST'', ''/api/v1/entries/read_all'', handle_mark_all_entries_read),
      (''GET'', ''/api/v1/entries'', handle_list_group_entries),
      (''GET'', ''/api/v1/entries/today'', handle_list_today_entries),
      (''GET'', ''/api/v1/folders'', handle_list_folders),
      (''POST'', ''/api/v1/folders'', handle_create_folder),
      (''GET'', ''/api/v1/search'', handle_search),
      (''GET'', ''/api/v1/pins'', handle_list_pins),
      (''POST'', ''/api/v1/pins'', handle_add_pin),
      (''DELETE'', ''/api/v1/pins/{id}'', handle_remove_pin),
      (''POST'', ''/api/v1/scrape_sources'', handle_create_scrape_source),
      (''GET'', ''/api/v1/scrape_sources'', handle_list_scrape_sources),
      (''GET'', ''/api/v1/scrape_sources/{id}'', handle_get_scrape_source),
      (''PATCH'', ''/api/v1/scrape_sources/{id}'', handle_patch_scrape_source),
      (''POST'', ''/api/v1/scrape_sources/{id}/preview'', handle_preview_scrape_source),
      (''POST'', ''/api/v1/scrape_sources/preview'', handle_preview_unsaved),
      (''POST'', ''/api/v1/scrape_sources/inspect'', handle_inspect_scrape_source),
      (''GET'', ''/api/v1/scrape_sources/inspect/view'', handle_inspect_view),
      (''GET'', ''/api/v1/opml'', handle_export_opml),
      (''POST'', ''/api/v1/opml'', handle_import_opml),
      (''GET'', ''/api/v1/stats'', handle_stats),
      (''GET'', ''/api/v1/ignore_words'', handle_list_ignore_words),
      (''POST'', ''/api/v1/ignore_words'', handle_add_ignore_word),
      (''DELETE'', ''/api/v1/ignore_words/{id}'', handle_remove_ignore_word),
      (''GET'', ''/api/v1/admin/users'', handle_admin_list_users),
      (''POST'', ''/api/v1/admin/users'', handle_admin_create_user),
      (''PATCH'', ''/api/v1/admin/users/{id}'', handle_admin_patch_user),
      (''GET'', ''/api/v1/admin/invitations'', handle_admin_list_invitations),
      (''POST'', ''/api/v1/admin/invitations'', handle_admin_create_invitation),
      (''GET'', ''/api/v1/admin/backups'', handle_admin_backup_status),
      (''POST'', ''/api/v1/invitations/status'', handle_invitation_status),
      (''POST'', ''/api/v1/invitations/accept'', handle_accept_invitation),
      (''POST'', ''/api/subs'', handle_ldr_subs),
      (''POST'', ''/api/unread'', handle_ldr_unread),
      (''POST'', ''/api/touch_all'', handle_ldr_touch_all),
      (''POST'', ''/api/subscribe'', handle_ldr_subscribe),
      (''POST'', ''/api/unsubscribe'', handle_ldr_unsubscribe),
      (''POST'', ''/api/folders'', handle_ldr_folders),
      (''POST'', ''/api/pin/add'', handle_ldr_pin_add),
      (''POST'', ''/api/pin/remove'', handle_ldr_pin_remove),
      (''POST'', ''/api/pin/all'', handle_ldr_pin_all)]"

definition split_segments :: "string \<Rightarrow> string list" where
  \<comment> \<open>of a pattern, which starts with a slash\<close>
  "split_segments p = split_on (CHR ''/'') (tl p)"

fun match_segments :: "string list \<Rightarrow> string list \<Rightarrow> string option" where
  \<comment> \<open>the value of the wildcard, empty without one; a wildcard stands for one segment that is not empty\<close>
  "match_segments [] [] = Some []"
| "match_segments (p # ps) (x # xs) =
     (if p = ''{id}'' then (if x = [] then None else map_option (\<lambda>_. x) (match_segments ps xs))
      else if p = x then match_segments ps xs else None)"
| "match_segments _ _ = None"

definition method_matches :: "string \<Rightarrow> string \<Rightarrow> bool" where
  \<comment> \<open>a GET pattern serves HEAD too\<close>
  "method_matches pattern m \<longleftrightarrow> pattern = m \<or> (pattern = ''GET'' \<and> m = ''HEAD'')"

definition path_matches :: "string \<Rightarrow> request \<Rightarrow> bool" where
  "path_matches p rq \<longleftrightarrow> match_segments (split_segments p) (rq_segs rq) \<noteq> None"

definition route_of :: "request \<Rightarrow> ('u handler \<times> string) option" where
  "route_of rq =
     (case find (\<lambda>(m, p, h). method_matches m (rq_method rq) \<and> path_matches p rq) routes of
        None \<Rightarrow> None
      | Some (m, p, h) \<Rightarrow> map_option (Pair h) (match_segments (split_segments p) (rq_segs rq)))"

definition mux_missing :: "request \<Rightarrow> response" where
  "mux_missing rq =
     (if list_ex (\<lambda>(m, p, _ :: unit handler). path_matches p rq) routes
      then write_json 405 (Plain_Text ''Method Not Allowed'')
      else write_json 404 (Plain_Text ''404 page not found''))"

definition mux :: "'u api_world \<Rightarrow> request \<Rightarrow> user option \<Rightarrow> server \<Rightarrow> response \<times> server" where
  "mux W rq c s =
     (case route_of rq of
        None \<Rightarrow> reply (mux_missing rq) s
      | Some (h, param) \<Rightarrow> h W c param rq s)"

definition serve :: "'u api_world \<Rightarrow> request \<Rightarrow> server \<Rightarrow> response \<times> server" where
  "serve W rq s = auth_middleware (rate_limit_middleware (mux W rq) W) W rq s"

end
