(* ===== verification/ApiRuns.thy ===== *)
theory ApiRuns
  imports ApiServe StoreRuns
begin

text \<open>
  What a request may do to the store: every handler is a run of store calls of the classes below.
  \<open>user_op u\<close> are the calls made on behalf of account u, on its own rows or on the shared feeds;
  \<open>admin_op\<close> those of the administration, \<open>entry_op\<close> those of setup, login and invitations,
  \<open>touch_op\<close> the bookkeeping of the authentication, \<open>cookie_op\<close> the logout of the request's cookie.
  \<open>stays\<close> carries the classes through the steps handlers are made of.
\<close>

section \<open>Classes of store calls\<close>

definition user_op :: "int \<Rightarrow> store_op \<Rightarrow> bool" where
  "user_op u op =
     (case op of
        Account a \<Rightarrow>
          (case a of
             UpdateUserPassword i hash now \<Rightarrow> i = u \<and> hash \<noteq> setup_sentinel
           | SetUserEmbeds i b now \<Rightarrow> i = u
           | DeleteAllSessions i \<Rightarrow> i = u
           | CreateApiToken i label token now \<Rightarrow> i = u
           | DeleteApiToken i tid \<Rightarrow> i = u
           | _ \<Rightarrow> False)
      | Reading r \<Rightarrow>
          (case r of
             GetOrCreateFolder i name \<Rightarrow> i = u
           | UpsertSubscription i f folder title now \<Rightarrow> i = u
           | Unsubscribe i f \<Rightarrow> i = u
           | UpdateSubscription i f p \<Rightarrow> i = u
           | AddPin i e now \<Rightarrow> i = u
           | RemovePin i e \<Rightarrow> i = u
           | AddIgnoreWord i word now \<Rightarrow> i = u
           | RemoveIgnoreWord i w \<Rightarrow> i = u
           | UpsertEntries f es now \<Rightarrow> True
           | MarkEntriesRead i ids now \<Rightarrow> i = u
           | MarkAllEntriesRead i now \<Rightarrow> i = u
           | MarkFeedReadBefore i f before now \<Rightarrow> i = u)
      | Crawl c \<Rightarrow>
          (case c of
             ClaimDueFeeds now limit \<Rightarrow> False
           | DeleteOldReadEntries before \<Rightarrow> False
           | TrimExcessEntries limit \<Rightarrow> False
           | DeleteOrphanFeeds before \<Rightarrow> False
           | DeleteFeedBoilerplate f \<Rightarrow> False
           | CreateScrapeSource i f kind target config now \<Rightarrow> i = u
           | EnableFeedFulltext f i now \<Rightarrow> i = u
           | _ \<Rightarrow> True))"

definition admin_op :: "store_op \<Rightarrow> bool" where
  "admin_op op =
     (case op of
        Account (CreateUser name hash adm now) \<Rightarrow> hash \<noteq> setup_sentinel
      | Account (SetUserAdmin i b now) \<Rightarrow> True
      | Account (SetUserDisabled i b now) \<Rightarrow> True
      | Account (CreateInvitation i token expires now) \<Rightarrow> True
      | _ \<Rightarrow> False)"

definition entry_op :: "store_op \<Rightarrow> bool" where
  "entry_op op =
     (case op of
        Account (CompleteSetup i name hash now) \<Rightarrow> hash \<noteq> setup_sentinel
      | Account (UpdateUserPassword i hash now) \<Rightarrow> hash \<noteq> setup_sentinel
      | Account (CreateSession i token now expires) \<Rightarrow> True
      | Account (AcceptInvitation token name hash now) \<Rightarrow> hash \<noteq> setup_sentinel
      | _ \<Rightarrow> False)"

definition touch_op :: "store_op \<Rightarrow> bool" where
  "touch_op op =
     (case op of
        Account (TouchSession i now) \<Rightarrow> True | Account (TouchApiToken i now) \<Rightarrow> True | _ \<Rightarrow> False)"

definition cookie_op :: "'u api_world \<Rightarrow> request \<Rightarrow> store_op \<Rightarrow> bool" where
  "cookie_op W rq op \<longleftrightarrow>
     (\<exists>raw. session_cookie rq = Some raw \<and> op = Account (DeleteSession (hash_token (aw_sha W) raw)))"

definition open_op :: "store_op \<Rightarrow> bool" where
  \<comment> \<open>what anybody's request may do\<close>
  "open_op op \<longleftrightarrow> touch_op op \<or> entry_op op"

definition closed_op :: "'u api_world \<Rightarrow> user option \<Rightarrow> request \<Rightarrow> store_op \<Rightarrow> bool" where
  \<comment> \<open>what a handler behind the authentication may do\<close>
  "closed_op W c rq op \<longleftrightarrow>
     user_op (ctx_id c) op \<or> cookie_op W rq op \<or> (usr_admin (ctx_user c) \<and> admin_op op)"

definition quote_of :: "'u api_world \<Rightarrow> string \<Rightarrow> string" where
  "quote_of W = cl_quote (aw_crawl W)"

section \<open>Runs through the steps of a handler\<close>

definition stays :: "(store_op \<Rightarrow> bool) \<Rightarrow> 'u api_world \<Rightarrow> server \<Rightarrow> response \<times> server \<Rightarrow> bool" where
  "stays P W s out \<longleftrightarrow> runs P (quote_of W) (db_of s) (db_of (snd out))"

lemma db_of_set_db [simp]: "db_of (set_db s d) = d"
  by (simp add: set_db_def)

lemma stays_mono: "stays P W s out \<Longrightarrow> (\<And>op. P op \<Longrightarrow> Q op) \<Longrightarrow> stays Q W s out"
  unfolding stays_def by (rule runs_mono)

lemma stays_trans:
  "runs P (quote_of W) (db_of s) (db_of s') \<Longrightarrow> stays P W s' out \<Longrightarrow> stays P W s out"
  unfolding stays_def by (rule runs_trans)

lemma set_db_set_db [simp]: "set_db (set_db s d) d' = set_db s d'"
  by (simp add: set_db_def)

lemma set_db_same [simp]: "set_db s (db_of s) = s"
  by (simp add: set_db_def)

lemma stays_reply [simp]: "stays P W s (reply r s') \<longleftrightarrow> runs P (quote_of W) (db_of s) (db_of s')"
  by (simp add: stays_def reply_def)

named_theorems stay \<open>the steps that only read, or answer early\<close>

lemma stays_with_json [stay]: "(\<And>x. stays P W s (k x)) \<Longrightarrow> stays P W s (with_json dec rq s k)"
  by (auto simp: with_json_def split: option.splits)

lemma stays_with_store [stay]: "(\<And>x. r = Inr x \<Longrightarrow> stays P W s (k x)) \<Longrightarrow> stays P W s (with_store r s k)"
  by (auto simp: with_store_def split: sum.splits)

lemma stays_with_id [stay]: "(\<And>i. stays P W s (k i)) \<Longrightarrow> stays P W s (with_id param s k)"
  by (auto simp: with_id_def split: option.splits)

lemma stays_with_user [stay]: "(\<And>u. c = Some u \<Longrightarrow> stays P W s (k u)) \<Longrightarrow> stays P W s (with_user c s k)"
  by (auto simp: with_user_def split: option.splits)

lemma stays_with_admin [stay]:
  "(\<And>u. c = Some u \<Longrightarrow> usr_admin u \<Longrightarrow> stays P W s (k u)) \<Longrightarrow> stays P W s (with_admin c s k)"
  by (auto simp: with_admin_def intro: stay)

lemma stays_with_count [stay]: "stays P W s k \<Longrightarrow> stays P W s (with_count n limit what s k)"
  by (auto simp: with_count_def)

lemma stays_with_folder [stay]: "stays P W s k \<Longrightarrow> stays P W s (with_folder u folder s k)"
  by (auto simp: with_folder_def intro: stay split: option.splits)

lemma stays_with_subscribed [stay]: "stays P W s k \<Longrightarrow> stays P W s (with_subscribed u i s k)"
  by (auto simp: with_subscribed_def)

lemma stays_with_subscribe_id [stay]: "(\<And>i. stays P W s (k i)) \<Longrightarrow> stays P W s (with_subscribe_id rq s k)"
  by (auto simp: with_subscribe_id_def split: option.splits)

lemma stays_with_linked_entry [stay]: "(\<And>i. stays P W s (k i)) \<Longrightarrow> stays P W s (with_linked_entry rq s k)"
  by (auto simp: with_linked_entry_def Let_def intro: stay)

lemma stays_with_config [stay]: "stays P W s k \<Longrightarrow> stays P W s (with_config W' kind raw s k)"
  by (auto simp: with_config_def split: option.splits)

lemma stays_with_own_source [stay]: "stays P W s k \<Longrightarrow> stays P W s (with_own_source c x s k)"
  by (auto simp: with_own_source_def)

lemma stays_with_page [stay]: "(\<And>b. stays P W s (k b)) \<Longrightarrow> stays P W s (with_page W' url s k)"
  by (auto simp: with_page_def split: sum.splits)

lemma stays_subscribed_reply [simp]:
  "stays P W s (subscribed_reply u i answer s') \<longleftrightarrow> runs P (quote_of W) (db_of s) (db_of s')"
  by (auto simp: subscribed_reply_def with_store_def split: sum.splits)

lemma stays_entries_reply [stay]: "stays P W s (entries_reply limit rows s)"
  by (simp add: entries_reply_def)

text \<open>The limiters change no row.\<close>

lemma stays_same_db: "db_of s' = db_of s \<Longrightarrow> stays P W s' out \<Longrightarrow> stays P W s out"
  by (simp add: stays_def)

lemma stays_with_add [stay]:
  assumes "\<And>s'. db_of s' = db_of s \<Longrightarrow> stays P W s' (k s')"
  shows "stays P W s (with_add W' u s k)"
proof -
  have "stays P W s (k (s\<lparr>srv_add := l\<rparr>))" for l
    by (rule stays_same_db [OF _ assms]) simp_all
  then show ?thesis by (auto simp: with_add_def split: prod.splits)
qed

lemma stays_with_refresh [stay]:
  assumes "\<And>s'. db_of s' = db_of s \<Longrightarrow> stays P W s' (k s')"
  shows "stays P W s (with_refresh W' u s k)"
proof -
  have "stays P W s (k (s\<lparr>srv_refresh := l\<rparr>))" for l
    by (rule stays_same_db [OF _ assms]) simp_all
  then show ?thesis by (auto simp: with_refresh_def split: prod.splits)
qed

lemma stays_with_preview [stay]:
  assumes "\<And>s'. db_of s' = db_of s \<Longrightarrow> stays P W s' (k s')"
  shows "stays P W s (with_preview W' u action s k)"
proof -
  have "stays P W s (k (s\<lparr>srv_preview := l\<rparr>))" for l
    by (rule stays_same_db [OF _ assms]) simp_all
  then show ?thesis by (auto simp: with_preview_def split: prod.splits)
qed

section \<open>Store calls in a handler\<close>

lemma step_run:
  "runs P (quote_of W) (db_of s) d' \<Longrightarrow> stays P W (set_db s d') out \<Longrightarrow> stays P W s out"
  by (rule stays_trans [of P W s "set_db s d'"]) simp_all

lemma step_keep:
  "r = Inr d' \<Longrightarrow> store_exec (quote_of W) (db_of s) op = keep (db_of s) r \<Longrightarrow> P op
    \<Longrightarrow> stays P W (set_db s d') out \<Longrightarrow> stays P W s out"
  by (rule step_run, rule runs_keep)

lemma step_keep_snd:
  "r = Inr (x, d') \<Longrightarrow> store_exec (quote_of W) (db_of s) op = keep_snd (db_of s) r \<Longrightarrow> P op
    \<Longrightarrow> stays P W (set_db s d') out \<Longrightarrow> stays P W s out"
  by (rule step_run, rule runs_keep_snd)

text \<open>One rule per call: the call the code makes, and the class it has to be in.\<close>

named_theorems stepping \<open>elimination rules: a store call that succeeded\<close>

lemma complete_setup_step [stepping]:
  "complete_setup d i name hash now = Inr d' \<Longrightarrow> db_of s = d \<Longrightarrow> P (Account (CompleteSetup i name hash now))
    \<Longrightarrow> stays P W (set_db s d') out \<Longrightarrow> stays P W s out"
  by (rule step_keep [where op = "Account (CompleteSetup i name hash now)"]) auto

lemma update_user_password_step [stepping]:
  "update_user_password d i hash now = Inr d' \<Longrightarrow> db_of s = d \<Longrightarrow> P (Account (UpdateUserPassword i hash now))
    \<Longrightarrow> stays P W (set_db s d') out \<Longrightarrow> stays P W s out"
  by (rule step_keep [where op = "Account (UpdateUserPassword i hash now)"]) auto

lemma set_user_embeds_step [stepping]:
  "set_user_embeds d i b now = Inr d' \<Longrightarrow> db_of s = d \<Longrightarrow> P (Account (SetUserEmbeds i b now))
    \<Longrightarrow> stays P W (set_db s d') out \<Longrightarrow> stays P W s out"
  by (rule step_keep [where op = "Account (SetUserEmbeds i b now)"]) auto

lemma create_user_step [stepping]:
  "create_user d name hash adm now = Inr (x, d') \<Longrightarrow> db_of s = d \<Longrightarrow> P (Account (CreateUser name hash adm now))
    \<Longrightarrow> stays P W (set_db s d') out \<Longrightarrow> stays P W s out"
  by (rule step_keep_snd [where op = "Account (CreateUser name hash adm now)"]) auto

lemma set_user_admin_step [stepping]:
  "set_user_admin d i b now = Inr d' \<Longrightarrow> db_of s = d \<Longrightarrow> P (Account (SetUserAdmin i b now))
    \<Longrightarrow> stays P W (set_db s d') out \<Longrightarrow> stays P W s out"
  by (rule step_keep [where op = "Account (SetUserAdmin i b now)"]) auto

lemma set_user_disabled_step [stepping]:
  "set_user_disabled d i b now = Inr d' \<Longrightarrow> db_of s = d \<Longrightarrow> P (Account (SetUserDisabled i b now))
    \<Longrightarrow> stays P W (set_db s d') out \<Longrightarrow> stays P W s out"
  by (rule step_keep [where op = "Account (SetUserDisabled i b now)"]) auto

lemma create_session_step [stepping]:
  "create_session d i token now expires = Inr (x, d') \<Longrightarrow> db_of s = d \<Longrightarrow> P (Account (CreateSession i token now expires))
    \<Longrightarrow> stays P W (set_db s d') out \<Longrightarrow> stays P W s out"
  by (rule step_keep_snd [where op = "Account (CreateSession i token now expires)"]) auto

lemma create_api_token_step [stepping]:
  "create_api_token d i label token now = Inr (x, d') \<Longrightarrow> db_of s = d \<Longrightarrow> P (Account (CreateApiToken i label token now))
    \<Longrightarrow> stays P W (set_db s d') out \<Longrightarrow> stays P W s out"
  by (rule step_keep_snd [where op = "Account (CreateApiToken i label token now)"]) auto

lemma delete_api_token_step [stepping]:
  "delete_api_token d i tid = Inr d' \<Longrightarrow> db_of s = d \<Longrightarrow> P (Account (DeleteApiToken i tid))
    \<Longrightarrow> stays P W (set_db s d') out \<Longrightarrow> stays P W s out"
  by (rule step_keep [where op = "Account (DeleteApiToken i tid)"]) auto

lemma create_invitation_step [stepping]:
  "create_invitation d i token expires now = Inr (x, d') \<Longrightarrow> db_of s = d \<Longrightarrow> P (Account (CreateInvitation i token expires now))
    \<Longrightarrow> stays P W (set_db s d') out \<Longrightarrow> stays P W s out"
  by (rule step_keep_snd [where op = "Account (CreateInvitation i token expires now)"]) auto

lemma accept_invitation_step [stepping]:
  "accept_invitation d token name hash now = Inr (x, d') \<Longrightarrow> db_of s = d \<Longrightarrow> P (Account (AcceptInvitation token name hash now))
    \<Longrightarrow> stays P W (set_db s d') out \<Longrightarrow> stays P W s out"
  by (rule step_keep_snd [where op = "Account (AcceptInvitation token name hash now)"]) auto

lemma get_or_create_folder_step [stepping]:
  "get_or_create_folder d u name = Inr (x, d') \<Longrightarrow> db_of s = d \<Longrightarrow> P (Reading (GetOrCreateFolder u name))
    \<Longrightarrow> stays P W (set_db s d') out \<Longrightarrow> stays P W s out"
  by (rule step_keep_snd [where op = "Reading (GetOrCreateFolder u name)"]) auto

lemma upsert_subscription_step [stepping]:
  "upsert_subscription d u f folder title now = Inr d' \<Longrightarrow> db_of s = d \<Longrightarrow> P (Reading (UpsertSubscription u f folder title now))
    \<Longrightarrow> stays P W (set_db s d') out \<Longrightarrow> stays P W s out"
  by (rule step_keep [where op = "Reading (UpsertSubscription u f folder title now)"]) auto

lemma unsubscribe_step [stepping]:
  "unsubscribe d u f = Inr d' \<Longrightarrow> db_of s = d \<Longrightarrow> P (Reading (Unsubscribe u f))
    \<Longrightarrow> stays P W (set_db s d') out \<Longrightarrow> stays P W s out"
  by (rule step_keep [where op = "Reading (Unsubscribe u f)"]) auto

lemma update_subscription_step [stepping]:
  "update_subscription d u f p = Inr d' \<Longrightarrow> db_of s = d \<Longrightarrow> P (Reading (UpdateSubscription u f p))
    \<Longrightarrow> stays P W (set_db s d') out \<Longrightarrow> stays P W s out"
  by (rule step_keep [where op = "Reading (UpdateSubscription u f p)"]) auto

lemma add_pin_step [stepping]:
  "add_pin d u i now = Inr d' \<Longrightarrow> db_of s = d \<Longrightarrow> P (Reading (AddPin u i now))
    \<Longrightarrow> stays P W (set_db s d') out \<Longrightarrow> stays P W s out"
  by (rule step_keep [where op = "Reading (AddPin u i now)"]) auto

lemma remove_pin_step [stepping]:
  "remove_pin d u i = Inr d' \<Longrightarrow> db_of s = d \<Longrightarrow> P (Reading (RemovePin u i))
    \<Longrightarrow> stays P W (set_db s d') out \<Longrightarrow> stays P W s out"
  by (rule step_keep [where op = "Reading (RemovePin u i)"]) auto

lemma add_ignore_word_step [stepping]:
  "add_ignore_word d u word now = Inr d' \<Longrightarrow> db_of s = d \<Longrightarrow> P (Reading (AddIgnoreWord u word now))
    \<Longrightarrow> stays P W (set_db s d') out \<Longrightarrow> stays P W s out"
  by (rule step_keep [where op = "Reading (AddIgnoreWord u word now)"]) auto

lemma remove_ignore_word_step [stepping]:
  "remove_ignore_word d u i = Inr d' \<Longrightarrow> db_of s = d \<Longrightarrow> P (Reading (RemoveIgnoreWord u i))
    \<Longrightarrow> stays P W (set_db s d') out \<Longrightarrow> stays P W s out"
  by (rule step_keep [where op = "Reading (RemoveIgnoreWord u i)"]) auto

lemma create_scrape_source_step [stepping]:
  "create_scrape_source d u f kind target config now = Inr (x, d') \<Longrightarrow> db_of s = d \<Longrightarrow> P (Crawl (CreateScrapeSource u f kind target config now))
    \<Longrightarrow> stays P W (set_db s d') out \<Longrightarrow> stays P W s out"
  by (rule step_keep_snd [where op = "Crawl (CreateScrapeSource u f kind target config now)"]) auto

lemma update_scrape_source_config_step [stepping]:
  "update_scrape_source_config d i config now = Inr d' \<Longrightarrow> db_of s = d \<Longrightarrow> P (Crawl (UpdateScrapeSourceConfig i config now))
    \<Longrightarrow> stays P W (set_db s d') out \<Longrightarrow> stays P W s out"
  by (rule step_keep [where op = "Crawl (UpdateScrapeSourceConfig i config now)"]) auto

lemma enable_feed_fulltext_step [stepping]:
  "enable_feed_fulltext d f u now = Inr d' \<Longrightarrow> db_of s = d \<Longrightarrow> P (Crawl (EnableFeedFulltext f u now))
    \<Longrightarrow> stays P W (set_db s d') out \<Longrightarrow> stays P W s out"
  by (rule step_keep [where op = "Crawl (EnableFeedFulltext f u now)"]) auto

text \<open>Calls that cannot fail, and the crawl a handler starts.\<close>

lemma touch_session_run: "P (Account (TouchSession i now)) \<Longrightarrow> runs P q d (touch_session d i now)"
  and touch_api_token_run: "P (Account (TouchApiToken i now)) \<Longrightarrow> runs P q d (touch_api_token d i now)"
  and delete_session_run: "P (Account (DeleteSession token)) \<Longrightarrow> runs P q d (delete_session d token)"
  and delete_all_sessions_run: "P (Account (DeleteAllSessions i)) \<Longrightarrow> runs P q d (delete_all_sessions d i)"
  and disable_feed_fulltext_run: "P (Crawl (DisableFeedFulltext f)) \<Longrightarrow> runs P q d (disable_feed_fulltext d f)"
  by (erule runs_eq, simp)+

lemma mark_entries_read_run:
    "mark_entries_read d u ids now = (n, d') \<Longrightarrow> P (Reading (MarkEntriesRead u ids now)) \<Longrightarrow> runs P q d d'"
  and mark_all_entries_read_run:
    "mark_all_entries_read d u now = (n, d') \<Longrightarrow> P (Reading (MarkAllEntriesRead u now)) \<Longrightarrow> runs P q d d'"
  and mark_feed_read_before_run:
    "mark_feed_read_before d u f before now = (n, d') \<Longrightarrow> P (Reading (MarkFeedReadBefore u f before now)) \<Longrightarrow> runs P q d d'"
  and upsert_feed_run:
    "upsert_feed d url site title interval jitter now = (i, d')
      \<Longrightarrow> P (Crawl (UpsertFeed url site title interval jitter now)) \<Longrightarrow> runs P q d d'"
  by (rule runs_eq, assumption, simp)+

lemma upsert_feed_step [stepping]:
  "upsert_feed d url site title interval jitter now = (i, d') \<Longrightarrow> db_of s = d
    \<Longrightarrow> P (Crawl (UpsertFeed url site title interval jitter now))
    \<Longrightarrow> stays P W (set_db s d') out \<Longrightarrow> stays P W s out"
  by (rule step_run, simp, rule upsert_feed_run)

lemma crawl_and_report_run:
  "crawl_and_report L f now c = (r, c') \<Longrightarrow> runs (own_op (fd_id f)) (cl_quote L) (cw_db c) (cw_db c')"
  by (auto simp: crawl_and_report_def runs_def own_run_def dest!: crawl_one_run split: prod.splits)

lemma crawl_now_run:
  assumes "\<And>op. own_op i op \<Longrightarrow> P op"
  shows "runs P (quote_of W) (db_of s) (db_of (snd (crawl_now W i s)))"
proof (cases "get_feed (db_of s) i")
  case (Inr f)
  then have "fd_id f = i" by (auto simp: get_feed_def find_Some_iff split: option.splits)
  with Inr show ?thesis
    using crawl_and_report_run [of "aw_crawl W" f "aw_now W" "srv_crawler s"] assms
    by (auto simp: crawl_now_def crawl_feed_def quote_of_def split: prod.splits intro: runs_mono)
qed (simp add: crawl_now_def crawl_feed_def)

lemma stays_after_crawl:
  "(\<And>op. own_op i op \<Longrightarrow> P op) \<Longrightarrow> stays P W (snd (crawl_now W i s)) out \<Longrightarrow> stays P W s out"
  by (rule stays_trans, rule crawl_now_run)

lemma own_op_user: "own_op i op \<Longrightarrow> user_op u op"
  by (auto simp: own_op_def user_op_def split: store_op.splits reading_op.splits crawl_op.splits)

lemma user_op_closed: "user_op (ctx_id c) op \<Longrightarrow> closed_op W c rq op"
  by (simp add: closed_op_def)

lemma own_op_closed: "own_op i op \<Longrightarrow> closed_op W c rq op"
  by (simp add: closed_op_def own_op_user)

end
