(* ===== verification/ApiHandlers.thy ===== *)
theory ApiHandlers
  imports ApiRuns
begin

text \<open>
  Every handler of the HTTP API is a run of store calls of its class, and so is a whole request:
  \<open>serve_runs\<close> names the calls a request may make from who sent it. The laws of the API rest on it.
\<close>

section \<open>Handlers behind the authentication\<close>

lemma ctx_id_Some [simp]: "ctx_id (Some u) = usr_id u" and ctx_user_Some [simp]: "ctx_user (Some u) = u"
  by (simp_all add: ctx_id_def ctx_user_def)

lemma hash_is_no_sentinel [simp]: "hash_password kdf salt password \<noteq> Some setup_sentinel"
  by (auto simp: hash_password_def setup_sentinel_def split: option.splits)

definition closed_handler :: "'u handler \<Rightarrow> bool" where
  "closed_handler h \<longleftrightarrow> (\<forall>W c param rq s. stays (closed_op W c rq) W s (h W c param rq s))"

lemmas closed_simps = closed_handler_def closed_op_def user_op_def admin_op_def cookie_op_def Let_def

lemmas free_runs = mark_entries_read_run mark_all_entries_read_run mark_feed_read_before_run
  delete_session_run delete_all_sessions_run disable_feed_fulltext_run

lemmas account_handlers = handle_auth_update_me_def handle_create_api_token_def handle_list_api_tokens_def
  handle_delete_api_token_def handle_auth_logout_def handle_auth_change_password_def

lemma closed_account_handlers:
  "closed_handler handle_auth_update_me"
  "closed_handler handle_create_api_token"
  "closed_handler handle_list_api_tokens"
  "closed_handler handle_delete_api_token"
  "closed_handler handle_auth_logout"
  "closed_handler handle_auth_change_password"
  by (auto simp: account_handlers closed_simps intro!: stay intro: free_runs elim!: stepping
      split: prod.splits option.splits sum.splits)+

lemmas admin_handlers = handle_admin_list_users_def handle_admin_create_user_def handle_admin_patch_user_def
  handle_admin_list_invitations_def handle_admin_create_invitation_def handle_admin_backup_status_def

lemma closed_admin_handlers:
  "closed_handler handle_admin_list_users"
  "closed_handler handle_admin_create_user"
  "closed_handler handle_admin_patch_user"
  "closed_handler handle_admin_list_invitations"
  "closed_handler handle_admin_create_invitation"
  "closed_handler handle_admin_backup_status"
  by (auto simp: admin_handlers closed_simps intro!: stay intro: free_runs elim!: stepping
      split: prod.splits option.splits sum.splits)+

lemmas listing_handlers = handle_list_subscriptions_def handle_list_entries_def handle_list_group_entries_def
  handle_list_today_entries_def handle_search_def handle_list_folders_def handle_list_pins_def handle_list_ignore_words_def
  handle_list_scrape_sources_def handle_get_scrape_source_def handle_stats_def handle_metrics_def handle_export_opml_def
  handle_ldr_subs_def handle_ldr_unread_def handle_ldr_folders_def handle_ldr_pin_all_def

lemma closed_listing_handlers:
  "closed_handler handle_list_subscriptions"
  "closed_handler handle_list_entries"
  "closed_handler handle_list_group_entries"
  "closed_handler handle_list_today_entries"
  "closed_handler handle_search"
  "closed_handler handle_list_folders"
  "closed_handler handle_list_pins"
  "closed_handler handle_list_ignore_words"
  "closed_handler handle_list_scrape_sources"
  "closed_handler handle_get_scrape_source"
  "closed_handler handle_stats"
  "closed_handler handle_metrics"
  "closed_handler handle_export_opml"
  "closed_handler handle_ldr_subs"
  "closed_handler handle_ldr_unread"
  "closed_handler handle_ldr_folders"
  "closed_handler handle_ldr_pin_all"
  by (auto simp: listing_handlers closed_simps intro!: stay intro: free_runs elim!: stepping
      split: prod.splits option.splits sum.splits)+

lemmas reader_handlers = handle_patch_subscription_def handle_delete_subscription_def handle_enable_fulltext_def
  handle_disable_fulltext_def handle_create_folder_def handle_add_pin_def handle_remove_pin_def
  handle_add_ignore_word_def handle_remove_ignore_word_def handle_read_all_def handle_mark_entries_read_def
  handle_mark_all_entries_read_def handle_ldr_unsubscribe_def handle_ldr_pin_add_def handle_ldr_pin_remove_def
  handle_ldr_touch_all_def

lemma closed_reader_handlers:
  "closed_handler handle_patch_subscription"
  "closed_handler handle_delete_subscription"
  "closed_handler handle_enable_fulltext"
  "closed_handler handle_disable_fulltext"
  "closed_handler handle_create_folder"
  "closed_handler handle_add_pin"
  "closed_handler handle_remove_pin"
  "closed_handler handle_add_ignore_word"
  "closed_handler handle_remove_ignore_word"
  "closed_handler handle_read_all"
  "closed_handler handle_mark_entries_read"
  "closed_handler handle_mark_all_entries_read"
  "closed_handler handle_ldr_unsubscribe"
  "closed_handler handle_ldr_pin_add"
  "closed_handler handle_ldr_pin_remove"
  "closed_handler handle_ldr_touch_all"
  by (auto simp: reader_handlers closed_simps intro!: stay intro: free_runs elim!: stepping
      split: prod.splits option.splits sum.splits)+

lemmas page_handlers = handle_patch_scrape_source_def handle_preview_scrape_source_def handle_preview_unsaved_def
  handle_inspect_scrape_source_def

lemma closed_page_handlers:
  "closed_handler handle_patch_scrape_source"
  "closed_handler handle_preview_scrape_source"
  "closed_handler handle_preview_unsaved"
  "closed_handler handle_inspect_scrape_source"
  by (auto simp: page_handlers closed_simps intro!: stay intro: free_runs elim!: stepping
      split: prod.splits option.splits sum.splits)+

text \<open>The handlers that crawl, and the import.\<close>

lemma closed_crawl_now [simp]: "runs (closed_op W c rq) (quote_of W) (db_of s) (db_of (snd (crawl_now W i s)))"
  by (rule crawl_now_run, rule own_op_closed)

lemma closed_crawl_of [simp]: "runs (closed_op W c rq) (quote_of W) d (db_of (snd (crawl_now W i (set_db s d))))"
  using closed_crawl_now [of W c rq "set_db s d"] by simp

lemma closed_subscribe_confirmed: "stays (closed_op W c rq) W s (subscribe_confirmed W (ctx_id c) q s)"
  by (auto simp: subscribe_confirmed_def closed_simps intro!: stay elim!: stepping split: prod.splits)

lemma closed_add_scrape_source: "stays (closed_op W c rq) W s (add_scrape_source W (ctx_id c) kind q s)"
  by (auto simp: add_scrape_source_def closed_simps intro!: stay elim!: stepping split: prod.splits)

lemma reader_op_closed: "reader_op (ctx_id c) op \<Longrightarrow> closed_op W c rq op"
  by (auto simp: reader_op_def closed_simps split: store_op.splits reading_op.splits crawl_op.splits)

lemma closed_import: "runs (closed_op W c rq) (quote_of W) d (snd (import_opml dec jitter (ctx_id c) raw limit now d))"
  by (rule runs_mono [OF import_opml_run reader_op_closed])

lemmas crawling_handlers = handle_create_subscription_def handle_create_scrape_source_def handle_ldr_subscribe_def
  handle_refresh_def

lemma closed_crawling_handlers:
  "closed_handler handle_create_subscription"
  "closed_handler handle_create_scrape_source"
  "closed_handler handle_ldr_subscribe"
  by (auto simp: crawling_handlers closed_simps intro!: stay intro: closed_subscribe_confirmed closed_add_scrape_source
      elim!: stepping split: prod.splits sum.splits)+

lemma closed_crawl_result:
  "crawl_now W i s = (r, s') \<Longrightarrow> db_of s = d \<Longrightarrow> runs (closed_op W c rq) (quote_of W) d (db_of s')"
  by (metis closed_crawl_now snd_conv)

lemma closed_refresh: "closed_handler handle_refresh"
  by (auto simp: handle_refresh_def closed_handler_def Let_def intro!: stay intro: closed_crawl_result
      split: prod.splits sum.splits)

lemma closed_import_opml: "closed_handler handle_import_opml"
  unfolding closed_handler_def
proof (intro allI)
  fix W :: "'u api_world" and c param and rq :: request and s
  let ?out = "import_opml (\<lambda>raw. if max_opml_bytes < int (length raw) then None else aw_opml_dec W raw)
    (aw_jitter W) (ctx_id c) (rq_body rq) (qt_opml (cf_quota (aw_cfg W))) (now_unix W) (db_of s)"
  obtain n e d where out: "?out = ((n, e), d)" by (metis prod.exhaust)
  then have "runs (closed_op W c rq) (quote_of W) (db_of s) d" using closed_import by (metis snd_conv)
  with out show "stays (closed_op W c rq) W s (handle_import_opml W c param rq s)"
    by (cases e) (simp_all add: handle_import_opml_def)
qed

section \<open>Handlers anybody may call\<close>

definition open_handler :: "'u handler \<Rightarrow> bool" where
  "open_handler h \<longleftrightarrow> (\<forall>W c param rq s. stays open_op W s (h W c param rq s))"

lemmas open_simps = open_handler_def open_op_def entry_op_def touch_op_def Let_def

lemma token_run: "authenticate_token W rq s = Some (u, s') \<Longrightarrow> runs touch_op q (db_of s) (db_of s')"
  by (auto simp: authenticate_token_def Let_def touch_op_def intro!: touch_api_token_run
      split: option.splits sum.splits prod.splits if_splits)

lemma session_run: "authenticate_session W rq s = Some (u, s') \<Longrightarrow> runs touch_op q (db_of s) (db_of s')"
  by (auto simp: authenticate_session_def touch_op_def intro!: touch_session_run
      split: option.splits sum.splits prod.splits if_splits)

lemma touch_open: "runs touch_op q d d' \<Longrightarrow> runs open_op q d d'"
  by (erule runs_mono) (simp add: open_op_def)

lemmas auth_open = touch_open [OF token_run] touch_open [OF session_run]

lemma open_start_session: "stays open_op W s (start_session W rq i s)"
  by (auto simp: start_session_def open_simps set_session_cookie_def intro!: stay elim!: stepping
      split: option.splits prod.splits)

lemma rehash_run: "runs open_op q (db_of s) (db_of (rehash W u password s))"
proof -
  have wr: "runs open_op q (db_of s) d"
    if "update_user_password (db_of s) (usr_id u) hash now = Inr d" "hash_password kdf salt password = Some hash"
    for hash now d kdf salt
    by (rule runs_keep [of _ "Account (UpdateUserPassword (usr_id u) hash now)" _ _ _ d])
      (use that in \<open>auto simp: open_simps\<close>)
  show ?thesis by (auto simp: rehash_def intro: wr split: option.splits sum.splits)
qed

lemma open_login: "open_handler handle_auth_login"
proof -
  have start: "stays open_op W s (start_session W rq i ((rehash W u password s')\<lparr>srv_login := l\<rparr>))"
    if "db_of s' = db_of s" for W :: "'u api_world" and s s' rq i u password l
  proof -
    have "runs open_op (quote_of W) (db_of s) (db_of ((rehash W u password s')\<lparr>srv_login := l\<rparr>))"
      using rehash_run [of "quote_of W" s' W u password] that by simp
    then show ?thesis by (rule stays_trans) (rule open_start_session)
  qed
  show ?thesis
    by (auto simp: open_handler_def handle_auth_login_def Let_def login_refused_def intro!: stay start
        split: prod.splits sum.splits)
qed

lemmas entry_handlers = handle_healthz_def handle_auth_me_def handle_auth_setup_def handle_auth_restore_def
  handle_invitation_status_def handle_accept_invitation_def handle_inspect_view_def handle_metrics_def

lemma open_entry_handlers:
  "open_handler handle_healthz"
  "open_handler handle_metrics"
  "open_handler handle_auth_me"
  "open_handler handle_auth_setup"
  "open_handler handle_auth_restore"
  "open_handler handle_invitation_status"
  "open_handler handle_accept_invitation"
  by (auto simp: entry_handlers open_simps intro!: stay open_start_session intro: auth_open elim!: stepping
      split: option.splits prod.splits)+

lemma open_inspect_view: "open_handler handle_inspect_view"
  by (auto simp: handle_inspect_view_def open_handler_def Let_def dest!: session_run intro: touch_open
      split: option.splits prod.splits)

section \<open>Routes\<close>

definition clean_path :: "request \<Rightarrow> bool" where
  \<comment> \<open>the two views of the path belong to one URL\<close>
  "clean_path rq \<longleftrightarrow> rq_path rq = concat (map (\<lambda>s. ''/'' @ s) (rq_segs rq))"

definition guarded_handler :: "'u handler \<Rightarrow> bool" where
  "guarded_handler h \<longleftrightarrow>
     (\<forall>W c param rq s. stays (\<lambda>op. touch_op op \<or> closed_op W c rq op) W s (h W c param rq s))"

lemma guarded_closed: "closed_handler h \<Longrightarrow> guarded_handler h"
  unfolding closed_handler_def guarded_handler_def by (blast intro: stays_mono)

lemma touch_guarded: "runs touch_op q d d' \<Longrightarrow> runs (\<lambda>op. touch_op op \<or> closed_op W c rq op) q d d'"
  by (erule runs_mono) simp

lemmas auth_guarded = touch_guarded [OF token_run] touch_guarded [OF session_run]

lemma guarded_entry_handlers:
  "guarded_handler handle_healthz"
  "guarded_handler handle_auth_me"
  "guarded_handler handle_auth_restore"
  "guarded_handler handle_invitation_status"
  by (auto simp: entry_handlers guarded_handler_def Let_def intro!: stay intro: auth_guarded
      split: option.splits prod.splits)

lemma guarded_inspect_view: "guarded_handler handle_inspect_view"
  by (auto simp: handle_inspect_view_def guarded_handler_def Let_def dest!: session_run intro: touch_guarded
      split: option.splits prod.splits)

lemma open_get_scrape_source: "open_handler handle_get_scrape_source"
  by (auto simp: open_handler_def handle_get_scrape_source_def intro!: stay)

lemmas closed_handlers = closed_account_handlers closed_admin_handlers closed_listing_handlers
  closed_reader_handlers closed_page_handlers closed_crawling_handlers closed_refresh closed_import_opml

lemmas guarded_handlers = closed_handlers [THEN guarded_closed] guarded_entry_handlers guarded_inspect_view

lemmas open_handlers = open_login open_entry_handlers open_inspect_view open_get_scrape_source

definition entry_routes :: "(string \<times> string) list" where
  \<comment> \<open>the three that write accounts and sessions for anybody\<close>
  "entry_routes =
     [(''POST'', ''/api/v1/auth/setup''), (''POST'', ''/api/v1/auth/login''),
      (''POST'', ''/api/v1/invitations/accept'')]"

lemma routes_guarded:
  "list_all (\<lambda>(m, p, h). guarded_handler h \<or> (m, p) \<in> set entry_routes) routes"
  by (simp add: routes_def guarded_handlers entry_routes_def)

text \<open>The path a pattern matches, and the patterns a public path can match.\<close>

abbreviation join_path :: "string list \<Rightarrow> string" where
  "join_path xs \<equiv> concat (map (\<lambda>s. ''/'' @ s) xs)"

definition fill :: "string list \<Rightarrow> string \<Rightarrow> string list" where
  "fill ps x = map (\<lambda>p. if p = ''{id}'' then x else p) ps"

abbreviation wildcards :: "string list \<Rightarrow> nat" where
  "wildcards ps \<equiv> length (filter (\<lambda>p. p = ''{id}'') ps)"

lemma match_literal: "match_segments ps xs = Some x \<Longrightarrow> wildcards ps = 0 \<Longrightarrow> xs = ps"
  by (induction ps xs arbitrary: x rule: match_segments.induct) (auto split: if_splits)

lemma fill_literal: "wildcards ps = 0 \<Longrightarrow> fill ps x = ps"
  by (induction ps) (auto simp: fill_def)

lemma match_fill: "match_segments ps xs = Some x \<Longrightarrow> wildcards ps \<le> 1 \<Longrightarrow> xs = fill ps x"
proof (induction ps xs arbitrary: x rule: match_segments.induct)
  case (2 p ps y ys)
  show ?case
  proof (cases "p = ''{id}''")
    case True
    with 2(3,4) obtain z where "match_segments ps ys = Some z" "wildcards ps = 0" and x: "x = y"
      by (auto split: if_splits)
    then have "ys = fill ps y" using match_literal fill_literal by metis
    with True x show ?thesis by (simp add: fill_def)
  next
    case False
    with 2 show ?thesis by (auto simp: fill_def split: if_splits)
  qed
qed (simp_all add: fill_def)

lemma routes_one_wildcard: "list_all (\<lambda>(m, p, h). wildcards (split_segments p) \<le> 1) routes"
  by (simp add: routes_def split_segments_def)

definition can_match :: "string \<times> string \<Rightarrow> string \<times> string \<Rightarrow> bool" where
  "can_match pattern target \<longleftrightarrow>
     (case (pattern, target) of ((m, p), (m', path)) \<Rightarrow>
        method_matches m m' \<and> (\<exists>x. join_path (fill (split_segments p) x) = path))"

lemma routes_public:
  "list_all (\<lambda>(m, p, h). open_handler h \<or> list_all (\<lambda>t. \<not> can_match (m, p) t) ((''GET'', ''/metrics'') # public_paths)) routes"
  by (simp add: routes_def open_handlers can_match_def public_paths_def method_matches_def split_segments_def fill_def)

section \<open>Requests\<close>

lemma route_of_cases:
  assumes "route_of rq = Some (h, param)"
  obtains m p where "(m, p, h) \<in> set routes" "method_matches m (rq_method rq)"
    "match_segments (split_segments p) (rq_segs rq) = Some param"
proof -
  obtain m p h' where f: "find (\<lambda>(m, p, h). method_matches m (rq_method rq) \<and> path_matches p rq) routes = Some (m, p, h')"
    and h: "map_option (Pair h') (match_segments (split_segments p) (rq_segs rq)) = Some (h, param)"
    using assms by (auto simp: route_of_def split: option.splits)
  then show thesis using find_Some_iff_in [OF f] that by auto
qed

lemma public_route_open:
  assumes "clean_path rq" "route_of rq = Some (h, param)"
    and opened: "(rq_method rq, rq_path rq) \<in> set ((''GET'', ''/metrics'') # public_paths)"
  shows "open_handler h"
  using assms(2)
proof (cases rule: route_of_cases)
  case (1 m p)
  have "rq_segs rq = fill (split_segments p) param"
    using match_fill [OF 1(3)] routes_one_wildcard 1(1) by (auto simp: list_all_iff)
  with assms(1) have "can_match (m, p) (rq_method rq, rq_path rq)"
    using 1(2) by (auto simp: can_match_def clean_path_def)
  then show ?thesis using routes_public 1(1) opened unfolding list_all_iff by blast
qed

lemma entry_path: "(m, p) \<in> set entry_routes \<Longrightarrow> (m, p) \<in> set public_paths"
  by (auto simp: entry_routes_def public_paths_def)

lemma entry_literal:
  "list_all (\<lambda>(m, p). wildcards (split_segments p) = 0 \<and> join_path (split_segments p) = p \<and> m \<noteq> ''GET'') entry_routes"
  by (simp add: entry_routes_def split_segments_def)

lemma private_route_guarded:
  assumes "clean_path rq" "route_of rq = Some (h, param)"
    and guarded: "(rq_method rq, rq_path rq) \<notin> set public_paths"
  shows "guarded_handler h"
  using assms(2)
proof (cases rule: route_of_cases)
  case (1 m p)
  have "(m, p) \<notin> set entry_routes"
  proof
    assume "(m, p) \<in> set entry_routes"
    then have lit: "wildcards (split_segments p) = 0" "join_path (split_segments p) = p" "m \<noteq> ''GET''"
      and pub: "(m, p) \<in> set public_paths"
      using entry_literal entry_path by (auto simp: list_all_iff)
    then have "rq_path rq = p" "rq_method rq = m"
      using match_literal [OF 1(3)] assms(1) 1(2) by (auto simp: clean_path_def method_matches_def)
    with pub guarded show False by simp
  qed
  then show ?thesis using routes_guarded 1(1) by (auto simp: list_all_iff)
qed

definition is_public :: "'u api_world \<Rightarrow> request \<Rightarrow> bool" where
  \<comment> \<open>requests the middleware lets through without asking who they are from\<close>
  "is_public W rq \<longleftrightarrow> (rq_method rq, rq_path rq) \<in> set public_paths \<or> metrics_allowed W rq"

definition authenticate :: "'u api_world \<Rightarrow> request \<Rightarrow> server \<Rightarrow> (user \<times> server) option" where
  \<comment> \<open>by token, else by session\<close>
  "authenticate W rq s =
     (case authenticate_token W rq s of Some r \<Rightarrow> Some r | None \<Rightarrow> authenticate_session W rq s)"

definition serve_op :: "'u api_world \<Rightarrow> request \<Rightarrow> server \<Rightarrow> store_op \<Rightarrow> bool" where
  \<comment> \<open>the store calls a request may make\<close>
  "serve_op W rq s op \<longleftrightarrow>
     (if is_public W rq then open_op op
      else case authenticate W rq s of
        None \<Rightarrow> False | Some (u, s') \<Rightarrow> touch_op op \<or> closed_op W (Some u) rq op)"

lemma authenticate_run: "authenticate W rq s = Some (u, s') \<Longrightarrow> runs touch_op q (db_of s) (db_of s')"
  by (auto simp: authenticate_def intro: token_run session_run split: option.splits)

lemma stays_limited: "(\<And>s'. db_of s' = db_of s \<Longrightarrow> stays P W s' (k c s')) \<Longrightarrow> stays P W s (rate_limit_middleware k W' c s)"
proof -
  assume k: "\<And>s'. db_of s' = db_of s \<Longrightarrow> stays P W s' (k c s')"
  have "stays P W s (k c s)" "stays P W s (k c (s\<lparr>srv_api := l\<rparr>))" for l
    by (rule k, rule refl) (rule stays_same_db [OF _ k], simp_all)
  then show ?thesis by (auto simp: rate_limit_middleware_def split: option.splits prod.splits)
qed

lemma stays_mux_public:
  fixes W :: "'u api_world"
  assumes "clean_path rq" "is_public W rq"
  shows "stays open_op W s (mux W rq c s)"
proof -
  have "(rq_method rq, rq_path rq) \<in> set ((''GET'', ''/metrics'') # public_paths)"
    using assms(2) by (auto simp: is_public_def metrics_allowed_def)
  then have "open_handler h" if "route_of rq = Some (h, param)" for h :: "'u handler" and param
    using public_route_open [OF assms(1) that] by blast
  then show ?thesis by (auto simp: mux_def open_handler_def split: option.splits)
qed

lemma stays_mux_private:
  fixes W :: "'u api_world"
  assumes "clean_path rq" "\<not> is_public W rq"
  shows "stays (\<lambda>op. touch_op op \<or> closed_op W c rq op) W s (mux W rq c s)"
proof -
  have "guarded_handler h" if "route_of rq = Some (h, param)" for h :: "'u handler" and param
    using private_route_guarded [OF assms(1) that] assms(2) by (simp add: is_public_def)
  then show ?thesis by (auto simp: mux_def guarded_handler_def split: option.splits)
qed

theorem serve_runs:
  assumes "clean_path rq"
  shows "stays (serve_op W rq s) W s (serve W rq s)"
proof (cases "is_public W rq")
  case True
  have "serve W rq s = rate_limit_middleware (mux W rq) W None s"
    using True by (auto simp: serve_def auth_middleware_def is_public_def)
  moreover have "serve_op W rq s = open_op" using True by (auto simp: serve_op_def)
  ultimately show ?thesis using stays_mux_public [OF assms True] by (auto intro: stays_limited)
next
  case False
  show ?thesis
  proof (cases "authenticate W rq s")
    case None
    with False have "serve W rq s = reply (write_error 401 ''unauthorized'') s"
      by (auto simp: serve_def auth_middleware_def is_public_def authenticate_def split: option.splits)
    then show ?thesis by simp
  next
    case (Some r)
    then obtain u s' where us: "authenticate W rq s = Some (u, s')" by (cases r) auto
    have op: "serve_op W rq s = (\<lambda>op. touch_op op \<or> closed_op W (Some u) rq op)"
      using False us by (auto simp: serve_op_def)
    have touched: "runs (serve_op W rq s) (quote_of W) (db_of s) (db_of s')"
      unfolding op by (rule touch_guarded [OF authenticate_run [OF us]])
    have handled: "stays (serve_op W rq s) W s' (rate_limit_middleware (mux W rq) W (Some u) s')"
      unfolding op by (rule stays_limited) (rule stays_mux_private [OF assms False])
    have "serve W rq s = rate_limit_middleware (mux W rq) W (Some u) s' \<or> (\<exists>r. serve W rq s = reply r s')"
      using False us
      by (auto simp: serve_def auth_middleware_def is_public_def authenticate_def split: option.splits)
    with handled touched show ?thesis by (auto intro: stays_trans)
  qed
qed

end
