(* ===== verification/ApiSample.thy ===== *)
theory ApiSample
  imports ApiHandlers StoreLaws
begin

text \<open>
  A concrete server and outside world, the input of the witnesses of the API's laws: two
  accounts, of which the first is the admin, a feed both read, an API token and two sessions.
\<close>

definition sample_config :: api_config where
  "sample_config = \<lparr>cf_cookie_secure = ''true'', cf_origin = [], cf_metrics_token = [], cf_version = ''v'',
     cf_quota = \<lparr>qt_subs = 1, qt_pins = 1, qt_scrapes = 1, qt_words = 1, qt_opml = 1\<rparr>,
     cf_backup_dir = [], cf_remote = False, cf_restore = False\<rparr>"

definition sample_kdf :: kdf where
  "sample_kdf plain salt t m p n = Some ''0123456789abcdef0123456789abcdef''"

definition sample_api :: "string api_world" where
  \<comment> \<open>tokens are their own hashes; the clock stands at second 20\<close>
  "sample_api =
     \<lparr>aw_cfg = sample_config, aw_now = 20 * ns_sec, aw_crawl = sample_world 200 (\<lambda>_. False),
      aw_discover = sample_discovery, aw_kdf = sample_kdf, aw_sha = (\<lambda>s. s),
      aw_rand = (\<lambda>_. Some ''0123456789abcdef''), aw_jitter = (\<lambda>_. 0), aw_host = Some, aw_raw = (\<lambda>_. ''{}''),
      aw_opml_dec = (\<lambda>_. None), aw_opml_enc = (\<lambda>_. []), aw_text = (\<lambda>_. ''failed''),
      aw_fts = (\<lambda>_ _ _. False), aw_pages = (1, 4096), aw_dir = Dir_Missing, aw_bucket = None,
      aw_staged = False, aw_script = [], aw_render = (\<lambda>_. None)\<rparr>"

definition sample_api_db :: db where
  \<comment> \<open>ann, who completed the setup, has a session; bob a token and a session\<close>
  "sample_api_db = store_run no_quote 0 (sample_ops @
     [Account (CompleteSetup 1 ''ann'' ''h'' 10), Account (CreateSession 1 ''sa'' 10 1000),
      Account (CreateApiToken 2 ''cli'' ''tb'' 10), Account (CreateSession 2 ''sb'' 10 1000)])"

definition sample_server :: server where
  "sample_server = new_server sample_api_db 0 0 0 0"

definition sample_request :: "string \<Rightarrow> string list \<Rightarrow> request" where
  "sample_request method segs =
     \<lparr>rq_method = method, rq_path = join_path segs, rq_segs = segs, rq_query = [], rq_form = [], rq_auth = [],
      rq_origin = [], rq_host = ''h'', rq_ctype = ''application/json'', rq_remote = ''1.2.3.4:5'', rq_tls = True,
      rq_cookies = [], rq_json = None, rq_empty = True, rq_body = []\<rparr>"

definition from_bob :: "request \<Rightarrow> request" where
  "from_bob rq = rq\<lparr>rq_auth := ''Bearer tb''\<rparr>"

lemma sample_request_clean [simp]: "clean_path (sample_request m segs)" "clean_path (from_bob (sample_request m segs))"
  by (simp_all add: clean_path_def sample_request_def from_bob_def)

lemma sample_api_ok: "db_ok sample_api_db"
  by (simp add: sample_api_db_def store_run_ok)

lemma bob_row: "map (\<lambda>(t, u). (tok_used t, usr_id u, usr_admin u))
    (case get_api_token sample_api_db ''tb'' of Inl e \<Rightarrow> [] | Inr x \<Rightarrow> [x]) = [(None, 2, False)]"
  by code_simp

lemma bob_authenticated:
  "\<exists>u s'. authenticate sample_api (from_bob (sample_request m segs)) sample_server = Some (u, s') \<and> usr_id u = 2 \<and> \<not> usr_admin u"
  using bob_row
  by (auto simp: authenticate_def authenticate_token_def bearer_token_def from_bob_def sample_request_def sample_api_def
      sample_server_def new_server_def hash_token_def cut_prefix_def Let_def split: sum.splits prod.splits)

end
