(* ===== verification/ApiReaders.thy ===== *)
theory ApiReaders
  imports ApiSample ReadingLaws
begin

text \<open>
  What readers can rely on: no request of one account touches what another one has put in order or
  marked read, strangers change no feed and no reading, the quota on subscriptions holds, and the
  cursor of a page takes the client to the next one.
\<close>

section \<open>What belongs to a reader\<close>

definition core_sub :: "subscription \<Rightarrow> subscription" where
  "core_sub s = s\<lparr>sub_unread := 0\<rparr>"

definition kept_for :: "int \<Rightarrow> db \<Rightarrow> db \<Rightarrow> bool" where
  \<comment> \<open>folders, pins, ignore words and subscriptions of user v as they were, their unread counts
    apart, and no entry of theirs forgotten or marked\<close>
  "kept_for v d d' \<longleftrightarrow>
     filter (\<lambda>f. fol_user f = v) (folders d') = filter (\<lambda>f. fol_user f = v) (folders d)
     \<and> filter (\<lambda>p. pin_user p = v) (pins d') = filter (\<lambda>p. pin_user p = v) (pins d)
     \<and> filter (\<lambda>w. ig_user w = v) (ignores d') = filter (\<lambda>w. ig_user w = v) (ignores d)
     \<and> map core_sub (filter (\<lambda>s. sub_user s = v) (subs d')) = map core_sub (filter (\<lambda>s. sub_user s = v) (subs d))
     \<and> {r \<in> set (states d). ues_user r = v} \<subseteq> set (states d')"

lemma kept_for_refl [simp]: "kept_for v d d"
  by (simp add: kept_for_def)

lemma kept_for_trans: "kept_for v a b \<Longrightarrow> kept_for v b c \<Longrightarrow> kept_for v a c"
  unfolding kept_for_def by (intro conjI; elim conjE) (simp_all, blast)

lemma kept_same:
  "folders d' = folders d \<Longrightarrow> pins d' = pins d \<Longrightarrow> ignores d' = ignores d \<Longrightarrow> subs d' = subs d
    \<Longrightarrow> states d' = states d \<Longrightarrow> kept_for v d d'"
  by (auto simp: kept_for_def)

lemma del_other:
  assumes "u \<noteq> v"
  shows "filter (\<lambda>x. g x = v) (del_where (\<lambda>x. g x = u \<and> R x) rs) = filter (\<lambda>x. g x = v) rs"
    "filter (\<lambda>x. g x = v) (del_where (\<lambda>x. R x \<and> g x = u) rs) = filter (\<lambda>x. g x = v) rs"
  using assms by (induction rs) (auto simp: del_where_def)

lemma upd_where_keeps: "x \<in> set rs \<Longrightarrow> \<not> P x \<Longrightarrow> x \<in> set (upd_where P f rs)"
  by (force simp: upd_where_def image_iff)

lemma core_upd_where:
  assumes "\<And>s. core_sub (f s) = core_sub s"
  shows "map core_sub (filter (\<lambda>s. sub_user s = v) (upd_where P f ss)) = map core_sub (filter (\<lambda>s. sub_user s = v) ss)"
proof -
  have "sub_user (f s) = sub_user s" for s
    using arg_cong [OF assms [of s], of sub_user] by (simp add: core_sub_def)
  then show ?thesis by (induction ss) (auto simp: upd_where_def assms)
qed

lemma core_unread: "core_sub (s\<lparr>sub_unread := n\<rparr>) = core_sub s"
  by (simp add: core_sub_def)

lemma kept_refresh [simp]: "kept_for v d (refresh_unread_count f d)"
  by (simp add: kept_for_def refresh_unread_count_def core_upd_where core_unread)

lemma kept_refresh_after: "kept_for v a b \<Longrightarrow> kept_for v a (refresh_unread_count f b)"
  by (rule kept_for_trans [OF _ kept_refresh])

lemma kept_fold_refresh: "kept_for v a b \<Longrightarrow> kept_for v a (fold refresh_unread_count fs b)"
  by (induction fs arbitrary: b) (simp_all add: kept_refresh_after)

lemma kept_recompute:
  assumes "u \<noteq> v"
  shows "kept_for v d (recompute_ignored u d)"
  using assms
  by (auto simp: kept_for_def recompute_ignored_def Let_def upd_where_def image_iff
      intro!: core_upd_where [unfolded upd_where_def] simp: core_unread)

lemma kept_mark: "(\<And>r. P r \<Longrightarrow> ues_user r \<noteq> v) \<Longrightarrow> kept_for v d (snd (mark_where P now d))"
  unfolding mark_where_def Let_def snd_conv
  by (rule kept_fold_refresh) (auto simp: kept_for_def intro!: upd_where_keeps)

lemma kept_upsert_entry: "upsert_entry first f now e d = Inr (b, d') \<Longrightarrow> kept_for v d d'"
  by (auto simp: upsert_entry_def Let_def kept_for_def split: if_splits)

lemma kept_upsert_loop: "upsert_loop first f now es n d = Inr (m, d') \<Longrightarrow> kept_for v d d'"
proof (induction es arbitrary: n d)
  case (Cons e es)
  then obtain b d1 where "upsert_entry first f now e d = Inr (b, d1)"
    "upsert_loop first f now es (if b then n + 1 else n) d1 = Inr (m, d')"
    by (auto split: sum.splits)
  then show ?case using Cons.IH kept_for_trans [OF kept_upsert_entry] by blast
qed simp

lemma kept_upsert_entries: "upsert_entries d f es now = Inr (n, d') \<Longrightarrow> kept_for v d d'"
  by (auto simp: upsert_entries_def dest!: kept_upsert_loop [where v = v] intro: kept_refresh_after
      split: if_splits sum.splits)

lemma kept_upsert_subscription:
  assumes "upsert_subscription d u f folder title now = Inr d'" "u \<noteq> v"
  shows "kept_for v d d'"
proof -
  have "kept_for v d (d\<lparr>subs := upd_where (\<lambda>s. sub_user s = u \<and> sub_feed s = f) g (subs d), states := states d @ rows\<rparr>)"
    if "\<And>s. sub_user (g s) = sub_user s" for g rows
    using assms(2) that filter_upd_where_other [of "\<lambda>s. sub_user s = u \<and> sub_feed s = f" "\<lambda>s. sub_user s = v" g "subs d"]
    by (auto simp: kept_for_def)
  moreover have "kept_for v d (d\<lparr>subs := subs d @ [s], states := states d @ rows\<rparr>)" if "sub_user s = u" for s rows
    using assms(2) that by (auto simp: kept_for_def)
  ultimately show ?thesis
    using assms(1) unfolding upsert_subscription_def Let_def
    by (auto split: if_splits intro!: kept_refresh_after)
qed

lemma kept_reading_results:
  assumes "u \<noteq> v"
  shows "get_or_create_folder d u name = Inr (k, d') \<Longrightarrow> kept_for v d d'"
    "add_pin d u i now = Inr d' \<Longrightarrow> kept_for v d d'"
  using assms
  by (auto simp: get_or_create_folder_def add_pin_def Let_def kept_for_def filter_empty_conv split: option.splits if_splits)

lemma kept_deleting_results:
  assumes "u \<noteq> v"
  shows "unsubscribe d u f = Inr d' \<Longrightarrow> kept_for v d d'"
    "remove_pin d u i = Inr d' \<Longrightarrow> kept_for v d d'"
  using assms
  by (auto simp: unsubscribe_def remove_pin_def Let_def kept_for_def del_other split: if_splits)
    (simp_all add: del_where_def)

lemma kept_update_subscription:
  assumes "update_subscription d u f p = Inr d'" "u \<noteq> v"
  shows "kept_for v d d'"
  using assms filter_upd_where_other [of "\<lambda>s. sub_user s = u \<and> sub_feed s = f" "\<lambda>s. sub_user s = v" "apply_patch p" "subs d"]
  by (auto simp: update_subscription_def Let_def kept_for_def apply_patch_def split: if_splits)

lemma kept_word_results:
  assumes "u \<noteq> v"
  shows "add_ignore_word d u word now = Inr d' \<Longrightarrow> kept_for v d d'"
    "remove_ignore_word d u i = Inr d' \<Longrightarrow> kept_for v d d'"
proof -
  have "kept_for v d (recompute_ignored u (d\<lparr>ignores := ws\<rparr>))"
    if "filter (\<lambda>w. ig_user w = v) ws = filter (\<lambda>w. ig_user w = v) (ignores d)" for ws
    by (rule kept_for_trans [OF _ kept_recompute [OF assms]]) (simp add: kept_for_def that)
  then show "add_ignore_word d u word now = Inr d' \<Longrightarrow> kept_for v d d'"
    "remove_ignore_word d u i = Inr d' \<Longrightarrow> kept_for v d d'"
    using assms kept_recompute [OF assms]
    by (auto simp: add_ignore_word_def remove_ignore_word_def Let_def del_other split: if_splits)
qed

lemma keep_kept: "(\<And>d'. r = Inr d' \<Longrightarrow> kept_for v d d') \<Longrightarrow> kept_for v d (keep d r)"
  by (cases r) (simp_all add: keep_def)

lemma keep_snd_kept: "(\<And>x d'. r = Inr (x, d') \<Longrightarrow> kept_for v d d') \<Longrightarrow> kept_for v d (keep_snd d r)"
  by (cases r) (auto simp: keep_snd_def split: prod.splits)

lemma kept_marking:
  assumes "u \<noteq> v"
  shows "kept_for v d (snd (mark_entries_read d u ids now))"
    "kept_for v d (snd (mark_all_entries_read d u now))"
    "kept_for v d (snd (mark_feed_read_before d u f before now))"
proof -
  show "kept_for v d (snd (mark_entries_read d u ids now))" "kept_for v d (snd (mark_all_entries_read d u now))"
    using assms by (auto simp: mark_entries_read_def mark_all_entries_read_def intro!: kept_mark)
  have "kept_for v d (d\<lparr>states := upd_where (\<lambda>r. ues_user r = u \<and> R r) g (states d)\<rparr>)" for R g
    using assms by (auto simp: kept_for_def intro!: upd_where_keeps)
  then show "kept_for v d (snd (mark_feed_read_before d u f before now))"
    by (simp add: mark_feed_read_before_def Let_def kept_refresh_after)
qed

lemmas kept_results = kept_reading_results kept_deleting_results kept_update_subscription kept_word_results
  kept_upsert_subscription

lemma kept_reading_exec:
  assumes "user_op u (Reading op)" "u \<noteq> v"
  shows "kept_for v d (reading_exec d op)"
  using assms by (cases op) (auto simp: user_op_def intro!: keep_kept keep_snd_kept kept_marking
      dest: kept_results kept_upsert_entries)

definition same_contents :: "db \<Rightarrow> db \<Rightarrow> bool" where
  \<comment> \<open>everything but accounts and their credentials\<close>
  "same_contents d d' \<longleftrightarrow> folders d' = folders d \<and> feeds d' = feeds d \<and> subs d' = subs d
     \<and> entries d' = entries d \<and> states d' = states d \<and> pins d' = pins d \<and> ignores d' = ignores d
     \<and> scrapes d' = scrapes d \<and> fulltexts d' = fulltexts d \<and> boilers d' = boilers d"

lemma keep_contents:
  "(\<And>d'. r = Inr d' \<Longrightarrow> same_contents d d') \<Longrightarrow> same_contents d (keep d r)"
  "(\<And>x d'. r' = Inr (x, d') \<Longrightarrow> same_contents d d') \<Longrightarrow> same_contents d (keep_snd d r')"
  by (cases r; simp add: keep_def same_contents_def)
    (cases r'; auto simp: keep_snd_def same_contents_def split: prod.splits)

lemma account_results_contents:
  "complete_setup d i name hash now = Inr d' \<Longrightarrow> same_contents d d'"
  "update_user_password d i hash now = Inr d' \<Longrightarrow> same_contents d d'"
  "set_user_embeds d i b now = Inr d' \<Longrightarrow> same_contents d d'"
  "create_user d name hash adm now = Inr (u, d') \<Longrightarrow> same_contents d d'"
  "set_user_admin d i b now = Inr d' \<Longrightarrow> same_contents d d'"
  "set_user_disabled d i b now = Inr d' \<Longrightarrow> same_contents d d'"
  "create_session d i token now expires = Inr (ses, d') \<Longrightarrow> same_contents d d'"
  "create_api_token d i label token now = Inr (tok, d') \<Longrightarrow> same_contents d d'"
  "delete_api_token d i tid = Inr d' \<Longrightarrow> same_contents d d'"
  "create_invitation d i token expires now = Inr (iv, d') \<Longrightarrow> same_contents d d'"
  by (auto simp: complete_setup_def update_user_password_def set_user_embeds_def create_user_def
      set_user_admin_def set_user_disabled_def create_session_def create_api_token_def delete_api_token_def
      create_invitation_def Let_def same_contents_def split: if_splits option.splits sum.splits)

lemma accept_contents: "accept_invitation d token name hash now = Inr (u, d') \<Longrightarrow> same_contents d d'"
  by (erule accept_invitation_Inr) (simp add: same_contents_def)

lemma account_exec_contents: "same_contents d (account_exec d op)"
  by (cases op) (auto intro!: keep_contents dest: account_results_contents accept_contents
      simp: touch_session_def delete_session_def delete_all_sessions_def delete_expired_sessions_def
        touch_api_token_def, simp_all add: same_contents_def)

lemma kept_account_exec: "kept_for v d (account_exec d op)"
  using account_exec_contents [of d op] by (intro kept_same) (simp_all add: same_contents_def)

lemma kept_crawl_results:
  "exec_update_feed d i u now = Inr d' \<Longrightarrow> kept_for v d d'"
  "create_scrape_source d c f kind target config now = Inr (i, d') \<Longrightarrow> kept_for v d d'"
  "update_scrapes P g d = Inr d' \<Longrightarrow> kept_for v d d'"
  "enable_feed_fulltext d f c now = Inr d' \<Longrightarrow> kept_for v d d'"
  "put_feed_boilerplate d f st now = Inr d' \<Longrightarrow> kept_for v d d'"
  by (auto simp: exec_update_feed_def create_scrape_source_def update_scrapes_def
      enable_feed_fulltext_def put_feed_boilerplate_def Let_def intro!: kept_same split: if_splits)

lemma kept_crawl_frames:
  "kept_for v d (snd (upsert_feed d url site title interval jitter now))"
  "kept_for v d (disable_feed_fulltext d f)"
  by (rule kept_same; simp add: upsert_feed_def disable_feed_fulltext_def Let_def split: option.split)+

lemma kept_update_feed: "update_feed_after_fetch q d i u now = Inr d' \<Longrightarrow> kept_for v d d'"
  by (auto simp: update_feed_after_fetch_def dest: kept_crawl_results(1) split: sum.splits option.splits store_error.splits)

lemma kept_crawl_exec: "user_op u (Crawl op) \<Longrightarrow> kept_for v d (crawl_exec q d op)"
  by (cases op) (auto simp: user_op_def update_scrape_source_config_def update_scrape_source_target_def
      update_scrape_source_state_def kept_crawl_frames intro!: keep_kept keep_snd_kept
      dest: kept_crawl_results kept_update_feed)

lemma kept_user_op: "user_op u op \<Longrightarrow> u \<noteq> v \<Longrightarrow> kept_for v d (store_exec q d op)"
  by (cases op) (simp_all add: kept_reading_exec kept_account_exec kept_crawl_exec)

lemma account_op_cases:
  "open_op op \<or> admin_op op \<or> cookie_op W rq op \<Longrightarrow> \<exists>a. op = Account a"
  by (auto simp: open_op_def touch_op_def entry_op_def admin_op_def cookie_op_def split: store_op.splits)

section \<open>Requests of others\<close>

definition not_from :: "int \<Rightarrow> 'u api_world \<times> request \<Rightarrow> server \<Rightarrow> bool" where
  \<comment> \<open>the request is not authenticated as account v\<close>
  "not_from v x s \<longleftrightarrow>
     (case x of (W, rq) \<Rightarrow>
        is_public W rq \<or> (case authenticate W rq s of None \<Rightarrow> True | Some (u, s') \<Rightarrow> usr_id u \<noteq> v))"

definition serve_step :: "server \<Rightarrow> 'u api_world \<times> request \<Rightarrow> server" where
  "serve_step s x = (case x of (W, rq) \<Rightarrow> snd (serve W rq s))"

fun none_from :: "int \<Rightarrow> server \<Rightarrow> ('u api_world \<times> request) list \<Rightarrow> bool" where
  "none_from v s [] = True"
| "none_from v s (x # xs) = (clean_path (snd x) \<and> not_from v x s \<and> none_from v (serve_step s x) xs)"

lemma account_op_kept: "open_op op \<or> touch_op op \<or> admin_op op \<or> cookie_op W rq op \<Longrightarrow> kept_for v d (store_exec q d op)"
  using account_op_cases [of op W rq] kept_account_exec by (auto simp: open_op_def)

lemma serve_op_kept: "serve_op W rq s op \<Longrightarrow> not_from v (W, rq) s \<Longrightarrow> kept_for v d (store_exec q d op)"
  by (auto simp: serve_op_def not_from_def closed_op_def intro: account_op_kept kept_user_op
      split: if_splits option.splits prod.splits)

lemma serve_step_kept: "clean_path (snd x) \<Longrightarrow> not_from v x s \<Longrightarrow> kept_for v (db_of s) (db_of (serve_step s x))"
  using serve_runs [of "snd x" "fst x" s] serve_op_kept [of "fst x" "snd x" s]
  by (cases x) (auto simp: serve_step_def stays_def intro: runs_rel [where R = "kept_for v"] kept_for_trans)

text \<open>
  C4. Readers do not see each other's hand: whatever requests arrive that are not authenticated as
  account v, in any number and order, public ones and those of administrators included, the folders,
  pins and ignore words of v are as before, v's subscriptions differ at most in their unread counts,
  and every entry v had is still there with v's own read mark.
\<close>

theorem readers_are_isolated:
  "none_from v s xs \<Longrightarrow> kept_for v (db_of s) (db_of (foldl serve_step s xs))"
proof (induction xs arbitrary: s)
  case (Cons x xs)
  then have "kept_for v (db_of s) (db_of (serve_step s x))" by (intro serve_step_kept) simp_all
  then show ?case using Cons by (auto intro: kept_for_trans)
qed simp

theorem readers_are_isolated_witness:
  "kept_for 1 (db_of sample_server) (db_of (foldl serve_step sample_server
     [(sample_api, from_bob (sample_request ''POST'' [''api'', ''v1'', ''entries'', ''read_all'']))]))"
  by (rule readers_are_isolated)
    (use bob_authenticated [of "''POST''" "[''api'', ''v1'', ''entries'', ''read_all'']"] in \<open>auto simp: not_from_def\<close>)

lemma same_contents_refl: "same_contents d d"
  by (simp add: same_contents_def)

lemma same_contents_trans: "same_contents a b \<Longrightarrow> same_contents b c \<Longrightarrow> same_contents a c"
  by (simp add: same_contents_def)

text \<open>
  C21. Strangers change nothing but accounts: a request that is public or that nobody can be
  authenticated for leaves every table of feeds, entries and readings as it was; and one that is not
  public and not authenticated is answered 401 without a trace on the server.
\<close>

theorem strangers_change_no_content:
  assumes "clean_path rq" "is_public W rq \<or> authenticate W rq s = None"
  shows "same_contents (db_of s) (db_of (snd (serve W rq s))) \<and>
    (\<not> is_public W rq \<longrightarrow> serve W rq s = (write_error 401 ''unauthorized'', s))"
proof
  have "same_contents d (store_exec q d op)" if "serve_op W rq s op" for q d op
    using that assms(2) account_exec_contents account_op_cases [of op W rq]
    by (auto simp: serve_op_def split: if_splits)
  then show "same_contents (db_of s) (db_of (snd (serve W rq s)))"
    using serve_runs [OF assms(1), of W s]
    by (auto simp: stays_def intro: runs_rel [where R = same_contents] same_contents_refl same_contents_trans)
  show "\<not> is_public W rq \<longrightarrow> serve W rq s = (write_error 401 ''unauthorized'', s)"
    using assms(2)
    by (auto simp: serve_def auth_middleware_def is_public_def authenticate_def reply_def split: option.splits)
qed

theorem strangers_change_no_content_witness:
  "same_contents (db_of sample_server)
     (db_of (snd (serve sample_api (sample_request ''GET'' [''healthz'']) sample_server)))"
  using strangers_change_no_content [of "sample_request ''GET'' [''healthz'']" sample_api sample_server]
  by (simp add: is_public_def public_paths_def sample_request_def clean_path_def)

section \<open>The quota on subscriptions\<close>

lemma kept_count: "kept_for v d d' \<Longrightarrow> count_subscriptions d' v = count_subscriptions d v"
  unfolding kept_for_def count_subscriptions_def count_where_def by (metis length_map)

lemma kept_crawl: "kept_for v (db_of s) (db_of (snd (crawl_now W i s)))"
proof -
  have "runs (user_op (v + 1)) (quote_of W) (db_of s) (db_of (snd (crawl_now W i s)))"
    by (rule crawl_now_run) (rule own_op_user)
  then show ?thesis by (rule runs_rel) (auto intro: kept_for_trans kept_user_op)
qed

lemma count_after_crawl [simp]:
  "count_subscriptions (db_of (snd (crawl_now W i s))) v = count_subscriptions (db_of s) v"
  by (rule kept_count [OF kept_crawl])

lemma count_upd_subs:
  "(\<And>s. sub_user (g s) = sub_user s)
    \<Longrightarrow> length (filter (\<lambda>s. sub_user s = u) (upd_where P g ss)) = length (filter (\<lambda>s. sub_user s = u) ss)"
  by (induction ss) (simp_all add: upd_where_def)

lemma count_upsert_subscription:
  "upsert_subscription d u f folder title now = Inr d' \<Longrightarrow> count_subscriptions d' u \<le> Suc (count_subscriptions d u)"
  by (auto simp: upsert_subscription_def Let_def refresh_unread_count_def count_subscriptions_def count_where_def
      count_upd_subs split: if_splits)

lemma count_upsert_feed [simp]:
  "upsert_feed d url site title interval jitter now = (i, d') \<Longrightarrow> count_subscriptions d' u = count_subscriptions d u"
  using kept_count [OF kept_crawl_frames(1)] by (metis snd_conv)

lemma count_enable [simp]:
  "enable_feed_fulltext d f c now = Inr d' \<Longrightarrow> count_subscriptions d' u = count_subscriptions d u"
  by (rule kept_count [OF kept_crawl_results(4)])

lemma count_create_scrape [simp]:
  "create_scrape_source d c f kind target config now = Inr (i, d') \<Longrightarrow> count_subscriptions d' u = count_subscriptions d u"
  by (rule kept_count [OF kept_crawl_results(2)])

definition at_most :: "int \<Rightarrow> nat \<Rightarrow> response \<times> server \<Rightarrow> bool" where
  "at_most u n out \<longleftrightarrow> count_subscriptions (db_of (snd out)) u \<le> n"

lemma at_most_reply [simp]: "at_most u n (reply r s) \<longleftrightarrow> count_subscriptions (db_of s) u \<le> n"
  by (simp add: at_most_def reply_def)

lemma at_most_store:
  "count_subscriptions (db_of s) u \<le> n \<Longrightarrow> (\<And>x. r = Inr x \<Longrightarrow> at_most u n (k x)) \<Longrightarrow> at_most u n (with_store r s k)"
  by (auto simp: with_store_def split: sum.splits)

lemma at_most_subscribed [simp]:
  "at_most u n (subscribed_reply v i answer s) \<longleftrightarrow> count_subscriptions (db_of s) u \<le> n"
  by (auto simp: subscribed_reply_def with_store_def split: sum.splits)

lemma at_most_confirmed:
  "count_subscriptions (db_of s) u = m \<Longrightarrow> at_most u (Suc m) (subscribe_confirmed W u q s)"
  by (auto simp: subscribe_confirmed_def Let_def intro!: at_most_store dest!: count_upsert_subscription
      split: prod.splits if_splits)

lemma at_most_scrape:
  "count_subscriptions (db_of s) u = m \<Longrightarrow> at_most u (Suc m) (add_scrape_source W u kind q s)"
  by (auto simp: add_scrape_source_def Let_def intro!: at_most_store dest!: count_upsert_subscription
      split: prod.splits)

lemma at_most_mono: "at_most u m out \<Longrightarrow> m \<le> n \<Longrightarrow> at_most u n out"
  by (simp add: at_most_def)

lemma at_most_quota:
  assumes "0 < limit" "max limit (int m) = int n" "count_subscriptions (db_of s) u = m" "at_most u (Suc m) k"
  shows "at_most u n (with_count m limit what s k)"
  using assms by (auto simp: with_count_def count_quota_ok_def intro: at_most_mono)

lemma at_most_json: "count_subscriptions (db_of s) u \<le> n \<Longrightarrow> (\<And>x. at_most u n (k x)) \<Longrightarrow> at_most u n (with_json dec rq s k)"
  by (auto simp: with_json_def split: option.splits)

lemma at_most_add:
  assumes "count_subscriptions (db_of s) u \<le> n" "\<And>l. at_most u n (k (s\<lparr>srv_add := l\<rparr>))"
  shows "at_most u n (with_add W v s k)"
  using assms by (auto simp: with_add_def split: prod.splits)

lemma at_most_folder:
  "count_subscriptions (db_of s) u \<le> n \<Longrightarrow> at_most u n k \<Longrightarrow> at_most u n (with_folder v folder s k)"
  by (auto simp: with_folder_def intro: at_most_store split: option.splits)

lemma at_most_config: "count_subscriptions (db_of s) u \<le> n \<Longrightarrow> at_most u n k \<Longrightarrow> at_most u n (with_config W kind raw s k)"
  by (auto simp: with_config_def split: option.splits)

lemma at_most_scrape_count:
  "count_subscriptions (db_of s) u = m
    \<Longrightarrow> at_most u (Suc m) (with_count j limit what s (add_scrape_source W u kind q s))"
  by (auto simp: with_count_def intro: at_most_scrape)

lemmas at_most_steps = at_most_json at_most_add at_most_folder at_most_config

text \<open>
  C29. With a limit on subscriptions, none of the three handlers that subscribe takes an account past
  it: afterwards the account has at most the limit, or as many as it had before when that was more.
\<close>

theorem subscription_quota_holds:
  fixes W :: "'u api_world"
  assumes limit: "0 < qt_subs (cf_quota (aw_cfg W))"
    and h: "h \<in> {handle_create_subscription, handle_create_scrape_source, handle_ldr_subscribe}"
  shows "int (count_subscriptions (db_of (snd (h W c param rq s))) (ctx_id c))
    \<le> max (qt_subs (cf_quota (aw_cfg W))) (int (count_subscriptions (db_of s) (ctx_id c)))"
proof -
  let ?u = "ctx_id c" and ?limit = "qt_subs (cf_quota (aw_cfg W))"
  obtain n where n: "max ?limit (int (count_subscriptions (db_of s) ?u)) = int n"
    using limit by (metis less_max_iff_disj zero_less_imp_eq_int)
  then have start: "count_subscriptions (db_of s) ?u \<le> n" by linarith
  note quota = at_most_quota [OF limit n]
  have "at_most ?u n (handle_create_subscription W c param rq s)"
    unfolding handle_create_subscription_def Let_def
    by (auto intro!: at_most_steps quota at_most_confirmed start split: if_splits sum.splits)
  moreover have "at_most ?u n (handle_create_scrape_source W c param rq s)"
    unfolding handle_create_scrape_source_def Let_def
    by (auto intro!: at_most_steps quota start simp: at_most_scrape_count split: if_splits)
  moreover have "at_most ?u n (handle_ldr_subscribe W c param rq s)"
    unfolding handle_ldr_subscribe_def Let_def
    by (auto intro!: at_most_steps quota at_most_store start dest!: count_upsert_subscription
        split: if_splits sum.splits prod.splits)
  ultimately show ?thesis using h n by (auto simp: at_most_def)
qed

theorem subscription_quota_holds_witness:
  "int (count_subscriptions (db_of (snd (handle_ldr_subscribe sample_api (Some zero_user) []
      (sample_request ''POST'' []) sample_server))) 0) \<le> max 1 (int (count_subscriptions (db_of sample_server) 0))"
  using subscription_quota_holds [of sample_api handle_ldr_subscribe "Some zero_user" "[]" "sample_request ''POST'' []" sample_server]
  by (simp add: sample_api_def sample_config_def zero_user_def)

end
