(* ===== verification/ApiAccounts.thy ===== *)
theory ApiAccounts
  imports ApiReaders
begin

text \<open>
  What the HTTP API promises about accounts: who a request can be from, what cross-site requests
  and plain accounts cannot do, that setup happens once, that a login needs the password and
  that a new password ends every session; and the invariant of the store over whole requests.
\<close>

section \<open>The invariant over requests\<close>

definition any_op :: "store_op \<Rightarrow> bool" where
  \<comment> \<open>the calls any handler makes: nobody's password becomes the sentinel of a pending setup\<close>
  "any_op op \<longleftrightarrow> open_op op \<or> (\<exists>u. user_op u op) \<or> admin_op op \<or> (\<exists>token. op = Account (DeleteSession token))"

lemma closed_any: "touch_op op \<or> closed_op W c rq op \<Longrightarrow> any_op op"
  by (auto simp: any_op_def open_op_def closed_op_def cookie_op_def)

lemma open_any: "open_op op \<Longrightarrow> any_op op"
  by (simp add: any_op_def)

lemma routes_classified: "list_all (\<lambda>(m, p, h). guarded_handler h \<or> open_handler h) routes"
  by (simp add: routes_def guarded_handlers open_handlers)

lemma stays_mux_any: "stays any_op W s (mux W rq c s)"
proof (cases "route_of rq :: ('a handler \<times> string) option")
  case None
  then show ?thesis by (simp add: mux_def)
next
  case (Some r)
  obtain h param where r: "r = (h, param)" by (cases r) auto
  have "guarded_handler h \<or> open_handler h"
    using Some unfolding r by (rule route_of_cases) (use routes_classified in \<open>auto simp: list_all_iff\<close>)
  then have "stays (\<lambda>op. touch_op op \<or> closed_op W c rq op) W s (h W c param rq s)
      \<or> stays open_op W s (h W c param rq s)"
    by (auto simp: guarded_handler_def open_handler_def)
  then have "stays any_op W s (h W c param rq s)"
    by (elim disjE stays_mono) (blast intro: closed_any open_any)+
  then show ?thesis using Some r by (simp add: mux_def)
qed

lemma serve_any: "stays any_op W s (serve W rq s)"
proof -
  have limited: "stays any_op W s (rate_limit_middleware (mux W rq) W c s)" for c and s
    by (rule stays_limited) (rule stays_mux_any)
  have touched: "runs any_op (quote_of W) (db_of s) (db_of s')" if "runs touch_op (quote_of W) (db_of s) (db_of s')" for s'
    using that by (rule runs_mono) (simp add: any_op_def open_op_def)
  show ?thesis
    using limited token_run [of W rq s _ _ "quote_of W"] session_run [of W rq s _ _ "quote_of W"]
    by (auto simp: serve_def auth_middleware_def dest!: touched intro: stays_trans split: option.splits)
qed

lemma serve_step_ok: "db_ok (db_of s) \<Longrightarrow> db_ok (db_of (serve_step s x))"
  using serve_any [of "fst x" s "snd x"] by (cases x) (auto simp: serve_step_def stays_def intro: runs_ok)

interpretation api: invariant_machine serve_step "\<lambda>s. db_ok (db_of s)"
  by unfold_locales (rule serve_step_ok)

text \<open>
  C1. The server keeps the invariant of its database: after any sequence of requests, well formed or
  not, with any worlds around them, from a server over a fresh database, \<open>db_ok\<close> holds. So an
  unread badge is right, foreign keys resolve and an enabled admin remains whatever clients do.
\<close>

theorem requests_keep_the_database: "db_ok (db_of (foldl serve_step (new_server (init_db now) l1 l2 l3 l4) xs))"
  by (rule api.run_inv) (simp add: new_server_def init_db_ok)

section \<open>Setup\<close>

definition setup_done :: "db \<Rightarrow> bool" where
  "setup_done d \<longleftrightarrow> is_setup_pending d 1 = Inr False"

lemma setup_done_row: "setup_done d \<longleftrightarrow> (\<exists>u. find (\<lambda>u. usr_id u = 1) (users d) = Some u \<and> usr_hash u \<noteq> setup_sentinel)"
  by (auto simp: setup_done_def is_setup_pending_def get_user_by_id_def split: option.splits)

lemma setup_done_frame: "setup_done d \<Longrightarrow> users d' = users d \<Longrightarrow> setup_done d'"
  by (simp add: setup_done_row)

lemma find_upd_where:
  "(\<And>u. usr_id (g u) = usr_id u) \<Longrightarrow> find (\<lambda>u. usr_id u = i) (upd_where P g us)
    = map_option (\<lambda>u. if P u then g u else u) (find (\<lambda>u. usr_id u = i) us)"
  by (induction us) (auto simp: upd_where_def)

lemma setup_done_upd:
  assumes "setup_done d" "users d' = upd_where P g (users d)" "\<And>u. usr_id (g u) = usr_id u"
    "\<And>u. usr_hash u \<noteq> setup_sentinel \<Longrightarrow> usr_hash (g u) \<noteq> setup_sentinel"
  shows "setup_done d'"
proof -
  obtain u where "find (\<lambda>u. usr_id u = 1) (users d) = Some u" "usr_hash u \<noteq> setup_sentinel"
    using assms(1) by (auto simp: setup_done_row)
  then show ?thesis using assms(2-4) by (auto simp: setup_done_row find_upd_where)
qed

lemma setup_done_new: "setup_done d \<Longrightarrow> users d' = users d @ [u] \<Longrightarrow> setup_done d'"
  by (auto simp: setup_done_row find_append split: option.splits)

lemma keep_done: "setup_done d \<Longrightarrow> (\<And>d'. r = Inr d' \<Longrightarrow> setup_done d') \<Longrightarrow> setup_done (keep d r)"
    "setup_done d \<Longrightarrow> (\<And>x d'. r' = Inr (x, d') \<Longrightarrow> setup_done d') \<Longrightarrow> setup_done (keep_snd d r')"
  by (rule keep_inv) (assumption, blast, rule keep_snd_inv, assumption, blast)

lemma account_done:
  "setup_done d \<Longrightarrow> hash \<noteq> setup_sentinel \<Longrightarrow> complete_setup d i name hash now = Inr d' \<Longrightarrow> setup_done d'"
  "setup_done d \<Longrightarrow> hash \<noteq> setup_sentinel \<Longrightarrow> update_user_password d i hash now = Inr d' \<Longrightarrow> setup_done d'"
  "setup_done d \<Longrightarrow> set_user_embeds d i b now = Inr d' \<Longrightarrow> setup_done d'"
  "setup_done d \<Longrightarrow> set_user_admin d i b now = Inr d' \<Longrightarrow> setup_done d'"
  "setup_done d \<Longrightarrow> set_user_disabled d i b now = Inr d' \<Longrightarrow> setup_done d'"
  by (auto simp: complete_setup_def update_user_password_def set_user_embeds_def set_user_admin_def
      set_user_disabled_def Let_def split: if_splits option.splits elim!: setup_done_upd)

lemma new_account_done:
  "setup_done d \<Longrightarrow> create_user d name hash adm now = Inr (u, d') \<Longrightarrow> setup_done d'"
  by (auto simp: create_user_def Let_def split: if_splits sum.splits elim!: setup_done_new)

lemma invited_done:
  assumes "setup_done d" "accept_invitation d token name hash now = Inr (u, d')"
  shows "setup_done d'"
  by (rule accept_invitation_Inr [OF assms(2)], rule setup_done_new [OF assms(1)]) simp

lemma credentials_done:
  "setup_done d \<Longrightarrow> create_session d j token now expires = Inr (s, d') \<Longrightarrow> setup_done d'"
  "setup_done d \<Longrightarrow> create_api_token d j label token now = Inr (t, d') \<Longrightarrow> setup_done d'"
  "setup_done d \<Longrightarrow> delete_api_token d j tid = Inr d' \<Longrightarrow> setup_done d'"
  "setup_done d \<Longrightarrow> create_invitation d j token expires now = Inr (v, d') \<Longrightarrow> setup_done d'"
  by (erule setup_done_frame, erule credential_results_users)+

lemma free_done:
  assumes "setup_done d"
  shows "setup_done (touch_session d j now)" "setup_done (delete_session d token)"
    "setup_done (delete_all_sessions d j)" "setup_done (touch_api_token d j now)"
  by (rule setup_done_frame [OF assms], rule credential_ops_users)+

lemma setup_done_op: "any_op op \<Longrightarrow> setup_done d \<Longrightarrow> setup_done (store_exec q d op)"
proof (cases op)
  case (Account a)
  assume "any_op op" "setup_done d"
  then show ?thesis
    unfolding Account
    by (cases a) (auto simp: any_op_def open_op_def touch_op_def entry_op_def user_op_def admin_op_def
        intro!: keep_done free_done dest: account_done new_account_done invited_done credentials_done)
qed (auto intro: setup_done_frame simp: reading_exec_accounts crawl_exec_accounts
    reading_exec_accounts [unfolded same_accounts_def] crawl_exec_accounts [unfolded same_accounts_def])


lemma sample_claimed: "setup_done sample_api_db"
proof -
  have "is_setup_pending sample_api_db 1 = Inr False" by code_simp
  then show ?thesis by (simp add: setup_done_def)
qed


section \<open>Who a request is from\<close>

lemma get_api_token_row:
  assumes "get_api_token d token = Inr (t, u)"
  shows "t \<in> set (api_tokens d) \<and> u \<in> set (users d) \<and> tok_user t = usr_id u \<and> tok_hash t = token \<and> \<not> usr_disabled u"
proof -
  have "(t, u) \<in> set [(t, u). t \<leftarrow> api_tokens d, u \<leftarrow> users d,
              usr_id u = tok_user t \<and> tok_hash t = token \<and> \<not> usr_disabled u]"
    using assms unfolding get_api_token_def by (rule first_of_list)
  then show ?thesis unfolding concat_if_filter by auto
qed

definition holds_token :: "'u api_world \<Rightarrow> request \<Rightarrow> db \<Rightarrow> int \<Rightarrow> bool" where
  \<comment> \<open>the request carries an API token of the account\<close>
  "holds_token W rq d i \<longleftrightarrow>
     (\<exists>raw t. bearer_token rq = Some raw \<and> t \<in> set (api_tokens d)
        \<and> tok_hash t = hash_token (aw_sha W) raw \<and> tok_user t = i)"

definition holds_session :: "'u api_world \<Rightarrow> request \<Rightarrow> db \<Rightarrow> int \<Rightarrow> bool" where
  \<comment> \<open>the request carries the cookie of a session of the account, neither expired nor idle for 30 days\<close>
  "holds_session W rq d i \<longleftrightarrow>
     (\<exists>raw x. session_cookie rq = Some raw \<and> x \<in> set (sessions d)
        \<and> ses_token x = hash_token (aw_sha W) raw \<and> ses_user x = i
        \<and> aw_now W \<le> ses_expires x * ns_sec \<and> aw_now W - ses_seen x * ns_sec \<le> session_idle)"

text \<open>
  C5. A request is only ever from an account that exists, is not disabled, and whose API token or
  live session it carries; disabling an account therefore ends its access with the next request.
\<close>

theorem only_live_credentials_authenticate:
  assumes "authenticate W rq s = Some (u, s')"
  shows "u \<in> set (users (db_of s)) \<and> \<not> usr_disabled u
    \<and> (holds_token W rq (db_of s) (usr_id u) \<or> holds_session W rq (db_of s) (usr_id u))"
proof (cases "authenticate_token W rq s")
  case (Some r)
  then obtain raw t where "bearer_token rq = Some raw" "get_api_token (db_of s) (hash_token (aw_sha W) raw) = Inr (t, u)"
    using assms by (auto simp: authenticate_def authenticate_token_def Let_def split: option.splits sum.splits)
  then show ?thesis using get_api_token_row by (fastforce simp: holds_token_def)
next
  case None
  then obtain raw x where "session_cookie rq = Some raw" "get_session (db_of s) (hash_token (aw_sha W) raw) = Inr (x, u)"
    "aw_now W \<le> ses_expires x * ns_sec" "aw_now W - ses_seen x * ns_sec \<le> session_idle"
    using assms by (auto simp: authenticate_def authenticate_session_def Let_def not_less
        split: option.splits sum.splits if_splits)
  then show ?thesis using get_session_Inr by (fastforce simp: holds_session_def)
qed

theorem only_live_credentials_authenticate_witness:
  "\<exists>u s'. authenticate sample_api (from_bob (sample_request ''GET'' [])) sample_server = Some (u, s') \<and>
     u \<in> set (users (db_of sample_server))"
  using bob_authenticated [of "''GET''" "[]"] only_live_credentials_authenticate by blast

section \<open>Requests from other sites\<close>

lemma session_touches:
  assumes "authenticate_session W rq s = Some (u, s')"
  shows "\<exists>d. s' = set_db s d \<and> (d = db_of s \<or> (\<exists>i. d = touch_session (db_of s) i (now_unix W)))"
proof -
  have "s' = set_db s (db_of s) \<or> (\<exists>i. s' = set_db s (touch_session (db_of s) i (now_unix W)))"
    using assms by (auto simp: authenticate_session_def split: option.splits sum.splits prod.splits if_splits)
  then show ?thesis by blast
qed

text \<open>
  C6. A page of another site cannot act through a reader's cookie: a request that is not public, has no
  API token, may write, and lacks an Origin that is the server's own, is refused with 401 or 403; no
  handler runs, and the server differs at most in when the session was last seen.
\<close>

theorem cross_site_writes_are_refused:
  assumes "\<not> is_public W rq" "authenticate_token W rq s = None"
    "\<not> is_safe_method (rq_method rq)" "\<not> check_origin W rq"
  shows "ap_status (fst (serve W rq s)) \<in> {401, 403} \<and>
    (\<exists>d. snd (serve W rq s) = set_db s d \<and> (d = db_of s \<or> (\<exists>i. d = touch_session (db_of s) i (now_unix W))))"
proof (cases "authenticate_session W rq s")
  case None
  then have "serve W rq s = reply (write_error 401 ''unauthorized'') s"
    using assms by (auto simp: serve_def auth_middleware_def is_public_def)
  then show ?thesis by (auto simp: reply_def write_error_def write_json_def intro: exI [of _ "db_of s"])
next
  case (Some r)
  obtain u s' where r: "r = (u, s')" by (cases r) auto
  with Some have "serve W rq s = reply (write_error 403 ''cross-origin request rejected'') s'"
    using assms by (auto simp: serve_def auth_middleware_def is_public_def)
  then show ?thesis using session_touches Some unfolding r by (auto simp: reply_def write_error_def write_json_def)
qed

theorem cross_site_writes_are_refused_witness:
  "ap_status (fst (serve sample_api ((sample_request ''DELETE'' [''api'', ''v1'', ''pins'', ''1''])
     \<lparr>rq_cookies := [(''session'', ''sb'')], rq_origin := ''evil''\<rparr>) sample_server)) \<in> {401, 403}"
  using cross_site_writes_are_refused [of sample_api "(sample_request ''DELETE'' [''api'', ''v1'', ''pins'', ''1''])
     \<lparr>rq_cookies := [(''session'', ''sb'')], rq_origin := ''evil''\<rparr>" sample_server]
  by (simp add: is_public_def public_paths_def metrics_allowed_def sample_request_def is_safe_method_def check_origin_def
      parse_origin_def sample_api_def sample_config_def authenticate_token_def bearer_token_def form_value_def
      first_value_def cut_prefix_def nocase_def lower_def ascii_lower_def)

section \<open>What a plain account cannot do\<close>

definition role :: "user \<Rightarrow> int \<times> string \<times> bool \<times> bool" where
  "role u = (usr_id u, usr_name u, usr_admin u, usr_disabled u)"

definition core_session :: "session \<Rightarrow> session" where
  "core_session x = x\<lparr>ses_seen := 0\<rparr>"

definition core_token :: "api_token \<Rightarrow> api_token" where
  "core_token t = t\<lparr>tok_used := None\<rparr>"

definition not_administered :: "int \<Rightarrow> string \<Rightarrow> db \<Rightarrow> db \<Rightarrow> bool" where
  \<comment> \<open>roles and invitations are as before, and of the accounts other than u the rows, the API tokens
    up to their last use, and the sessions up to when they were seen, those with this token apart\<close>
  "not_administered u token d d' \<longleftrightarrow>
     map role (users d') = map role (users d) \<and> invitations d' = invitations d
     \<and> filter (\<lambda>x. usr_id x \<noteq> u) (users d') = filter (\<lambda>x. usr_id x \<noteq> u) (users d)
     \<and> map core_token (filter (\<lambda>t. tok_user t \<noteq> u) (api_tokens d')) = map core_token (filter (\<lambda>t. tok_user t \<noteq> u) (api_tokens d))
     \<and> map core_session (filter (\<lambda>x. ses_user x \<noteq> u \<and> ses_token x \<noteq> token) (sessions d'))
        = map core_session (filter (\<lambda>x. ses_user x \<noteq> u \<and> ses_token x \<noteq> token) (sessions d))"

lemma not_administered_refl: "not_administered u token d d"
  by (simp add: not_administered_def)

lemma not_administered_trans:
  "not_administered u token a b \<Longrightarrow> not_administered u token b c \<Longrightarrow> not_administered u token a c"
  by (simp add: not_administered_def)

lemma not_administered_same: "same_accounts d d' \<Longrightarrow> not_administered u token d d'"
  by (simp add: same_accounts_def not_administered_def)

lemma core_filter_upd:
  "(\<And>x. core (g x) = core x) \<Longrightarrow> (\<And>x. Q (g x) = Q x)
    \<Longrightarrow> map core (filter Q (upd_where P g xs)) = map core (filter Q xs)"
  by (induction xs) (auto simp: upd_where_def)

lemma map_role_upd: "(\<And>x. role (g x) = role x) \<Longrightarrow> map role (upd_where P g us) = map role us"
  by (simp add: upd_where_def)

lemma touch_not_administered: "touch_op op \<Longrightarrow> not_administered u token d (store_exec q d op)"
  by (auto simp: touch_op_def not_administered_def touch_session_def touch_api_token_def core_session_def core_token_def
      intro!: core_filter_upd split: store_op.splits account_op.splits)

lemma own_row_not_administered:
  assumes "users d' = upd_where (\<lambda>x. usr_id x = u) g (users d)" "\<And>x. role (g x) = role x"
    "sessions d' = sessions d" "api_tokens d' = api_tokens d" "invitations d' = invitations d"
  shows "not_administered u token d d'"
proof -
  have "usr_id (g x) = usr_id x" for x using arg_cong [OF assms(2) [of x], of fst] by (simp add: role_def)
  then show ?thesis
    using assms by (auto simp: not_administered_def map_role_upd intro!: filter_upd_where_other)
qed

lemma user_account_not_administered:
  "update_user_password d u hash now = Inr d' \<Longrightarrow> not_administered u token d d'"
  "set_user_embeds d u b now = Inr d' \<Longrightarrow> not_administered u token d d'"
  by (rule own_row_not_administered [where g = "\<lambda>u. u\<lparr>usr_hash := hash, usr_updated := now\<rparr>"];
      auto simp: update_user_password_def role_def split: if_splits)
    (rule own_row_not_administered [where g = "\<lambda>u. u\<lparr>usr_embeds := b, usr_updated := now\<rparr>"];
      auto simp: set_user_embeds_def role_def split: if_splits)

lemma filter_del_spared: "(\<And>x. Q x \<Longrightarrow> \<not> P x) \<Longrightarrow> filter Q (del_where P xs) = filter Q xs"
  by (induction xs) (auto simp: del_where_def)

lemma user_credential_not_administered:
  "create_api_token d u label raw now = Inr (t, d') \<Longrightarrow> not_administered u token d d'"
  "delete_api_token d u tid = Inr d' \<Longrightarrow> not_administered u token d d'"
  "not_administered u token d (delete_all_sessions d u)"
  "not_administered u token d (delete_session d token)"
  by (auto simp: create_api_token_def delete_api_token_def delete_all_sessions_def delete_session_def Let_def
      not_administered_def filter_del_spared intro!: arg_cong [where f = "map core_session"] filter_del_spared
      split: if_splits)

lemma user_not_administered:
  assumes "user_op u op"
  shows "not_administered u token d (store_exec q d op)"
proof (cases op)
  case (Account a)
  then show ?thesis
    using assms user_account_not_administered user_credential_not_administered
    by (cases a) (auto simp: user_op_def keep_def keep_snd_def not_administered_refl split: sum.splits)
qed (simp_all add: not_administered_same reading_exec_accounts crawl_exec_accounts)

text \<open>
  C18. Only administrators administer: a request, not public, that comes from an account without the
  admin flag changes no account's name, admin or disabled flag, creates and redeems no invitation,
  touches no other account's row or API token, and ends no other account's session, but one whose own
  cookie the request carries.
\<close>

theorem plain_accounts_administer_nothing:
  assumes "clean_path rq" "\<not> is_public W rq" "authenticate W rq s = Some (u, s')" "\<not> usr_admin u"
  shows "not_administered (usr_id u) (case session_cookie rq of None \<Rightarrow> [] | Some raw \<Rightarrow> hash_token (aw_sha W) raw)
    (db_of s) (db_of (snd (serve W rq s)))"
proof -
  let ?token = "case session_cookie rq of None \<Rightarrow> [] | Some raw \<Rightarrow> hash_token (aw_sha W) raw"
  have "not_administered (usr_id u) ?token d (store_exec q d op)" if "serve_op W rq s op" for q d op
    using that assms(2-4) touch_not_administered user_not_administered user_credential_not_administered(4)
    by (auto simp: serve_op_def closed_op_def cookie_op_def)
  then show ?thesis
    using serve_runs [OF assms(1), of W s] not_administered_refl not_administered_trans
    by (auto simp: stays_def intro: runs_rel [where R = "not_administered (usr_id u) ?token"])
qed

theorem plain_accounts_administer_nothing_witness:
  "\<exists>u s'. authenticate sample_api (from_bob (sample_request ''POST'' [''api'', ''v1'', ''admin'', ''users''])) sample_server = Some (u, s') \<and>
     not_administered (usr_id u) [] (db_of sample_server)
       (db_of (snd (serve sample_api (from_bob (sample_request ''POST'' [''api'', ''v1'', ''admin'', ''users''])) sample_server)))"
proof -
  let ?rq = "from_bob (sample_request ''POST'' [''api'', ''v1'', ''admin'', ''users''])"
  obtain u s' where u: "authenticate sample_api ?rq sample_server = Some (u, s')" "\<not> usr_admin u"
    using bob_authenticated by blast
  have "\<not> is_public sample_api ?rq" "session_cookie ?rq = None"
    by (simp_all add: is_public_def public_paths_def metrics_allowed_def sample_request_def from_bob_def session_cookie_def)
  then show ?thesis using plain_accounts_administer_nothing [OF _ _ u] u(1) by auto
qed

section \<open>Logging in, and new passwords\<close>

lemma hash_verifies:
  assumes "hash_password kdf salt plain = Some h"
    "\<And>salt key. kdf plain salt argon_time argon_memory argon_threads argon_key_len = Some key \<Longrightarrow> length key = argon_key_len"
  shows "verify_password kdf h plain = Inr True"
proof -
  obtain b where b: "salt = Some b" using assms(1) by (cases salt) (simp_all add: hash_password_def)
  obtain key where key: "kdf plain b argon_time argon_memory argon_threads argon_key_len = Some key"
    and "parse_phc h = Some (\<lparr>ph_memory = argon_memory, ph_time = argon_time, ph_threads = argon_threads\<rparr>, b, key)"
    using hash_password_parses assms(1) unfolding b by blast
  then show ?thesis using assms(2) [OF key] by (simp add: verify_password_def)
qed

text \<open>A password hash and a request body, for witnesses.\<close>

definition sample_hash :: string where
  "sample_hash = the (hash_password sample_kdf (Some ''salt'') ''old'')"

definition body_of :: "(string \<times> string) list \<Rightarrow> request" where
  "body_of kvs = (sample_request ''POST'' [])\<lparr>rq_json := Some (J_Object (map (\<lambda>(k, v). (k, J_String v)) kvs))\<rparr>"

lemma sample_key_len: "sample_kdf plain salt t m p n = Some key \<Longrightarrow> length key = argon_key_len"
  by (auto simp: sample_kdf_def argon_key_len_def)

lemma sample_hashed: "\<exists>h. hash_password sample_kdf (Some salt) plain = Some h"
  by (simp add: hash_password_def sample_kdf_def)

lemma sample_verifies: "verify_password sample_kdf sample_hash ''old'' = Inr True"
  using sample_hashed [of "''salt''" "''old''"] hash_verifies sample_key_len unfolding sample_hash_def by (metis option.sel)

lemma sample_fresh: "\<not> needs_rehash sample_hash"
  using sample_hashed [of "''salt''" "''old''"] hash_password_parses [of sample_kdf "''salt''" "''old''"]
  by (fastforce simp: needs_rehash_def sample_hash_def)

lemma sample_bodies:
  "Option.bind (rq_json (body_of [(''current'', ''old''), (''new'', ''twelve bytes'')])) dec_passwords = Some (''old'', ''twelve bytes'')"
  "Option.bind (rq_json (body_of [(''username'', ''bob''), (''password'', ''old'')])) dec_credentials = Some (''bob'', ''old'')"
  by (simp add: body_of_def, code_simp)+

lemma start_session_200:
  assumes "start_session W rq i s = (r, s')" "ap_status r = 200"
  shows "\<exists>raw x. ap_cookie r = Some \<lparr>ck_name = cookie_name (cookie_secure (cf_cookie_secure (aw_cfg W)) rq),
      ck_value = raw, ck_secure = cookie_secure (cf_cookie_secure (aw_cfg W)) rq, ck_max_age = session_max_age\<rparr>
    \<and> x \<in> set (sessions (db_of s')) \<and> ses_user x = i \<and> ses_token x = hash_token (aw_sha W) raw"
  using assms
  by (auto simp: start_session_def with_store_def reply_def create_session_def set_session_cookie_def write_json_def
      write_error_def write_store_error_def store_err_status_def generate_token_def Let_def
      split: option.splits sum.splits if_splits prod.splits store_error.splits)
    (rule exI, rule conjI, rule disjI1, rule refl, simp)

definition login_ok :: "'u api_world \<Rightarrow> request \<Rightarrow> server \<Rightarrow> user \<Rightarrow> bool" where
  \<comment> \<open>the request names an account that is not disabled, with its password\<close>
  "login_ok W rq s u \<longleftrightarrow>
     (\<exists>name password. Option.bind (rq_json rq) dec_credentials = Some (name, password)
        \<and> get_user_by_username (db_of s) name = Inr u \<and> \<not> usr_disabled u
        \<and> verify_password (aw_kdf W) (usr_hash u) password = Inr True
        \<and> fst (login_allow (srv_login s) name (client_ip rq) (aw_now W)))"

lemma login_cases:
  obtains (refused) "db_of (snd (handle_auth_login W c param rq s)) = db_of s"
      "ap_status (fst (handle_auth_login W c param rq s)) \<in> {400, 401, 429}"
  | (accepted) u s1 where "login_ok W rq s u" "handle_auth_login W c param rq s = start_session W rq (usr_id u) s1"
proof (cases "Option.bind (rq_json rq) dec_credentials")
  case None
  then show thesis
    using refused by (simp add: handle_auth_login_def with_json_def reply_def write_error_def write_json_def)
next
  case (Some np)
  obtain name password where np: "np = (name, password)" by (cases np)
  obtain ok l where l: "login_allow (srv_login s) name (client_ip rq) (aw_now W) = (ok, l)"
    by (cases "login_allow (srv_login s) name (client_ip rq) (aw_now W)")
  consider (locked) "\<not> ok" | (unknown) e where "ok" "get_user_by_username (db_of s) name = Inl e"
    | (wrong) u where "ok" "get_user_by_username (db_of s) name = Inr u"
        "verify_password (aw_kdf W) (usr_hash u) password \<noteq> Inr True \<or> usr_disabled u"
    | (right) u where "ok" "get_user_by_username (db_of s) name = Inr u"
        "verify_password (aw_kdf W) (usr_hash u) password = Inr True" "\<not> usr_disabled u"
    by (cases "get_user_by_username (db_of s) name") auto
  then show thesis
  proof cases
    case right
    have "login_ok W rq s u" using right Some np l by (auto simp: login_ok_def)
    moreover have "\<exists>s1. handle_auth_login W c param rq s = start_session W rq (usr_id u) s1"
      using right Some np l by (auto simp: handle_auth_login_def with_json_def Let_def)
    ultimately show thesis using accepted by blast
  qed (use refused Some np l in \<open>auto simp: handle_auth_login_def with_json_def Let_def reply_def write_error_def
      write_json_def login_refused_def\<close>)
qed

text \<open>
  C19. A login needs the password: an answer 200 means that the limiter let the attempt through, that
  the account named exists, is not disabled and the password verifies against its hash, and the cookie
  it sets is that of a session of this account; after 400, 401 or 429 the database is as it was.
\<close>

theorem login_needs_the_password:
  assumes "handle_auth_login W c param rq s = (r, s')"
  shows "(ap_status r = 200 \<longrightarrow> (\<exists>u raw x. login_ok W rq s u \<and>
      map_option ck_value (ap_cookie r) = Some raw \<and>
      x \<in> set (sessions (db_of s')) \<and> ses_user x = usr_id u \<and> ses_token x = hash_token (aw_sha W) raw))
    \<and> (\<not> (\<exists>u. login_ok W rq s u) \<longrightarrow> db_of s' = db_of s \<and> ap_status r \<in> {400, 401, 429})"
proof (cases rule: login_cases [of W c param rq s])
  case refused
  then show ?thesis using assms by auto
next
  case (accepted u s1)
  then show ?thesis using assms start_session_200 [of W rq "usr_id u" s1 r s'] by fastforce
qed

text \<open>
  C27. A new password ends every session: when a change of password is answered 204, the current one had
  been given, the new one has at least twelve bytes and verifies against the stored hash, the account has
  no session left, and no other account's session or row changed.
\<close>

theorem password_change_ends_sessions:
  assumes "handle_auth_change_password W (Some u) param rq s = (r, s')" "ap_status r = 204"
    and key_len: "\<And>plain salt key. aw_kdf W plain salt argon_time argon_memory argon_threads argon_key_len = Some key
        \<Longrightarrow> length key = argon_key_len"
  shows "\<exists>current new. Option.bind (rq_json rq) dec_passwords = Some (current, new)
    \<and> verify_password (aw_kdf W) (usr_hash u) current = Inr True \<and> min_password_len \<le> length new
    \<and> (\<forall>v \<in> set (users (db_of s')). usr_id v = usr_id u \<longrightarrow> verify_password (aw_kdf W) (usr_hash v) new = Inr True)
    \<and> filter (\<lambda>x. ses_user x = usr_id u) (sessions (db_of s')) = []
    \<and> filter (\<lambda>x. ses_user x \<noteq> usr_id u) (sessions (db_of s')) = filter (\<lambda>x. ses_user x \<noteq> usr_id u) (sessions (db_of s))
    \<and> filter (\<lambda>v. usr_id v \<noteq> usr_id u) (users (db_of s')) = filter (\<lambda>v. usr_id v \<noteq> usr_id u) (users (db_of s))"
proof -
  obtain current new hash d where body: "Option.bind (rq_json rq) dec_passwords = Some (current, new)"
    and checks: "verify_password (aw_kdf W) (usr_hash u) current = Inr True" "min_password_len \<le> length new"
    and hash: "hash_password (aw_kdf W) (aw_rand W 0) new = Some hash"
    and d: "update_user_password (db_of s) (usr_id u) hash (now_unix W) = Inr d"
    and s': "db_of s' = delete_all_sessions d (usr_id u)"
    using assms(1,2)
    by (auto simp: handle_auth_change_password_def with_user_def with_json_def with_store_def reply_def write_error_def
        write_store_error_def store_err_status_def write_json_def
        split: option.splits if_splits sum.splits store_error.splits)
  have users: "users (db_of s') = upd_where (\<lambda>v. usr_id v = usr_id u) (\<lambda>v. v\<lparr>usr_hash := hash, usr_updated := now_unix W\<rparr>) (users (db_of s))"
    and sessions: "sessions (db_of s') = del_where (\<lambda>x. ses_user x = usr_id u) (sessions (db_of s))"
    using d by (auto simp: s' update_user_password_def delete_all_sessions_def split: if_splits)
  have verifies: "verify_password (aw_kdf W) hash new = Inr True"
    using hash_verifies [OF hash] key_len by blast
  have "usr_hash v = hash" if "v \<in> set (users (db_of s'))" "usr_id v = usr_id u" for v
    using that by (auto simp: users upd_where_def split: if_splits)
  moreover have "filter (\<lambda>x. ses_user x = usr_id u) (sessions (db_of s')) = []"
    by (auto simp: sessions del_where_def filter_empty_conv)
  moreover have "filter (\<lambda>x. ses_user x \<noteq> usr_id u) (sessions (db_of s')) = filter (\<lambda>x. ses_user x \<noteq> usr_id u) (sessions (db_of s))"
    unfolding sessions by (rule filter_del_spared) simp
  moreover have "filter (\<lambda>v. usr_id v \<noteq> usr_id u) (users (db_of s')) = filter (\<lambda>v. usr_id v \<noteq> usr_id u) (users (db_of s))"
    unfolding users by (rule filter_upd_where_other) simp
  ultimately show ?thesis using body checks verifies by auto
qed

theorem password_change_ends_sessions_witness:
  "filter (\<lambda>x. ses_user x = 2) (sessions (db_of (snd (handle_auth_change_password sample_api
     (Some (zero_user\<lparr>usr_id := 2, usr_hash := sample_hash\<rparr>)) []
     (body_of [(''current'', ''old''), (''new'', ''twelve bytes'')]) sample_server)))) = []"
proof -
  let ?u = "zero_user\<lparr>usr_id := 2, usr_hash := sample_hash\<rparr>"
    and ?rq = "body_of [(''current'', ''old''), (''new'', ''twelve bytes'')]"
  obtain r s' where out: "handle_auth_change_password sample_api (Some ?u) [] ?rq sample_server = (r, s')"
    by (cases "handle_auth_change_password sample_api (Some ?u) [] ?rq sample_server")
  obtain h where h: "hash_password sample_kdf (Some ''0123456789abcdef'') ''twelve bytes'' = Some h" using sample_hashed by blast
  have bob: "count_where (\<lambda>u. usr_id u = 2) (users sample_api_db) \<noteq> 0" by code_simp
  have "ap_status r = 204"
    using out sample_verifies h bob sample_bodies(1)
    by (auto simp: handle_auth_change_password_def with_user_def with_json_def with_store_def sample_api_def
        min_password_len_def update_user_password_def sample_server_def new_server_def reply_def
        clear_session_cookie_def no_content_def write_json_def)
  from password_change_ends_sessions [OF out this] sample_key_len show ?thesis
    using out by (auto simp: sample_api_def)
qed

definition sample_login_db :: db where
  \<comment> \<open>bob's password is \<open>old\<close>\<close>
  "sample_login_db = sample_api_db\<lparr>users := map (\<lambda>u. u\<lparr>usr_hash := sample_hash\<rparr>) (users sample_api_db)\<rparr>"

theorem login_needs_the_password_witness:
  "\<exists>u. login_ok sample_api (body_of [(''username'', ''bob''), (''password'', ''old'')]) (new_server sample_login_db 0 0 0 0) u \<and>
     (\<exists>x \<in> set (sessions (db_of (snd (handle_auth_login sample_api None []
        (body_of [(''username'', ''bob''), (''password'', ''old'')]) (new_server sample_login_db 0 0 0 0))))). ses_user x = usr_id u)"
proof -
  let ?rq = "body_of [(''username'', ''bob''), (''password'', ''old'')]" and ?s = "new_server sample_login_db 0 0 0 0"
  have users: "map (\<lambda>u. (usr_id u, usr_name u, usr_disabled u)) (users sample_api_db) = [(1, ''ann'', False), (2, ''bob'', False)]"
    by code_simp
  then obtain a b where ab: "users sample_api_db = [a, b]" "usr_name a = ''ann''" "usr_name b = ''bob''" "usr_id b = 2" "usr_id a = 1" "\<not> usr_disabled b"
    by (auto simp: map_eq_Cons_conv)
  have free: "b64_encode_with url_alphabet ''0123456789abcdef'' \<notin> ses_token ` set (sessions sample_api_db)" by code_simp
  have names: "\<not> nocase ''ann'' ''bob''" "nocase ''bob'' ''bob''" by code_simp+
  obtain r s' where out: "handle_auth_login sample_api None [] ?rq ?s = (r, s')" by (cases "handle_auth_login sample_api None [] ?rq ?s")
  have "ap_status r = 200"
    using out sample_verifies sample_bodies(2) ab free names sample_fresh
    by (auto simp: handle_auth_login_def with_json_def with_store_def sample_api_def new_server_def login_allow_def
        new_login_limiter_def sample_login_db_def get_user_by_username_def get_user_by_id_def rehash_def start_session_def
        generate_token_def hash_token_def create_session_def set_session_cookie_def reply_def write_json_def Let_def)
  from login_needs_the_password [OF out] this out show ?thesis by fastforce
qed

end
