(* ===== verification/ApiPages.thy ===== *)
theory ApiPages
  imports ApiSample ReadingLaws
begin

text \<open>
  The cursor protocol of the entry lists, end to end: a client that keeps asking with the
  \<open>next_cursor\<close> of the answer sees every entry once and comes to an end.
\<close>

section \<open>The cursor of an answer\<close>

definition int64 :: "int \<Rightarrow> bool" where
  "int64 n \<longleftrightarrow> - (2 ^ 63) \<le> n \<and> n < 2 ^ 63"

lemma takeWhile_comma: "CHR '','' \<notin> set a \<Longrightarrow> takeWhile (\<lambda>c. c \<noteq> CHR '','') (a @ CHR '','' # b) = a"
  by (induction a) auto

lemma no_comma [simp]: "CHR '','' \<notin> set (show_int n)"
  by (rule show_int_notin) (simp_all add: digit_val_def)

lemma parse_format: "int64 p \<Longrightarrow> int64 i \<Longrightarrow> parse_entry_cursor (format_entry_cursor p i) = Some (EntryCursor p i)"
  by (simp add: parse_entry_cursor_def format_entry_cursor_def takeWhile_comma int64_def atoi_show_int Let_def)

lemma parse_empty [simp]: "parse_entry_cursor [] = None"
  by (simp add: parse_entry_cursor_def)

lemma page_limit_bounds: "0 < page_limit rq \<and> page_limit rq \<le> 500"
  by (auto simp: page_limit_def split: option.splits)

section \<open>A client that follows the cursors\<close>

definition with_cursor :: "string \<Rightarrow> request \<Rightarrow> request" where
  "with_cursor cur rq = rq\<lparr>rq_query := (''cursor'', cur) # rq_query rq\<rparr>"

fun walk :: "'u handler \<Rightarrow> 'u api_world \<Rightarrow> user option \<Rightarrow> string \<Rightarrow> request \<Rightarrow> server \<Rightarrow> nat \<Rightarrow> string \<Rightarrow> entry_row list option" where
  \<comment> \<open>the entries of all pages, from a cursor on, None when n requests did not reach the end\<close>
  "walk h W c param rq s 0 cur = None"
| "walk h W c param rq s (Suc n) cur =
     (case ap_body (fst (h W c param (with_cursor cur rq) s)) of
        Entries_Body rows next_cur \<Rightarrow>
          if next_cur = [] then Some rows
          else map_option (\<lambda>more. rows @ more) (walk h W c param rq s n next_cur)
      | _ \<Rightarrow> None)"

lemma query_with_cursor [simp]:
  "key \<noteq> ''cursor'' \<Longrightarrow> query_value (with_cursor cur rq) key = query_value rq key"
  "query_cursor (with_cursor cur rq) = parse_entry_cursor cur"
  "page_limit (with_cursor cur rq) = page_limit rq"
  by (simp_all add: query_value_def query_cursor_def page_limit_def first_value_def with_cursor_def)

definition serves_rows :: "'u handler \<Rightarrow> 'u api_world \<Rightarrow> user option \<Rightarrow> string \<Rightarrow> request \<Rightarrow> server \<Rightarrow> entry_row list \<Rightarrow> bool" where
  \<comment> \<open>the handler answers with pages of these rows\<close>
  "serves_rows h W c param rq s rows \<longleftrightarrow>
     (\<forall>cur. h W c param (with_cursor cur rq) s
        = entries_reply (page_limit rq) (page (page_limit rq) (parse_entry_cursor cur) rows) s)"

lemma next_cursor_parses:
  assumes "next_cursor limit rows \<noteq> []" "int64 (er_pub (last rows))" "int64 (er_id (last rows))"
  shows "rows \<noteq> [] \<and> parse_entry_cursor (next_cursor limit rows) = Some (cursor_of (last rows))"
  using assms by (auto simp: next_cursor_def parse_format cursor_of_def split: if_splits)

lemma format_not_empty [simp]: "format_entry_cursor p i \<noteq> []"
  by (simp add: format_entry_cursor_def)

lemma walk_rest:
  assumes serves: "serves_rows h W c param rq s rows"
    and ids: "distinct (map er_id rows)"
    and bounds: "\<And>x. x \<in> set rows \<Longrightarrow> int64 (er_pub x) \<and> int64 (er_id x)"
  shows "page (- 1) None rows = pre @ rest
    \<Longrightarrow> page (page_limit rq) (parse_entry_cursor cur) rows = take (nat (page_limit rq)) rest
    \<Longrightarrow> length rest div nat (page_limit rq) < n
    \<Longrightarrow> walk h W c param rq s n cur = Some rest"
proof (induction n arbitrary: pre rest cur)
  case (Suc n)
  let ?L = "page_limit rq" and ?l = "nat (page_limit rq)"
  have L: "0 < ?l" "int ?l = ?L" using page_limit_bounds [of rq] by simp_all
  have ans: "ap_body (fst (h W c param (with_cursor cur rq) s))
      = Entries_Body (take ?l rest) (next_cursor ?L (take ?l rest))"
    using serves Suc.prems(2) by (simp add: serves_rows_def entries_reply_def reply_def write_json_def)
  show ?case
  proof (cases "length rest < ?l")
    case True
    then have "next_cursor ?L (take ?l rest) = []" using L by (auto simp: next_cursor_def)
    with ans True show ?thesis by simp
  next
    case False
    let ?rows = "take ?l rest"
    have rows: "?rows \<noteq> []" "length ?rows = ?l" using False L by auto
    have rest: "rest = butlast ?rows @ last ?rows # drop ?l rest"
      using append_butlast_last_id [OF rows(1)] append_take_drop_id [of ?l rest] by (metis append.assoc append_Cons append_Nil)
    have nxt: "next_cursor ?L ?rows \<noteq> []" using rows L by (simp add: next_cursor_def)
    have "last ?rows \<in> set rows"
      using set_page_all [of rows] Suc.prems(1) rest by (metis in_set_conv_decomp Un_iff set_append)
    then have parse: "parse_entry_cursor (next_cursor ?L ?rows) = Some (cursor_of (last ?rows))"
      using next_cursor_parses [OF nxt] bounds by blast
    have all: "page (- 1) None rows = (pre @ butlast ?rows) @ last ?rows # drop ?l rest"
      using Suc.prems(1) rest by simp
    have "walk h W c param rq s n (next_cursor ?L ?rows) = Some (drop ?l rest)"
    proof (rule Suc.IH)
      show "page (- 1) None rows = (pre @ ?rows) @ drop ?l rest" using Suc.prems(1) by simp
      show "page ?L (parse_entry_cursor (next_cursor ?L ?rows)) rows = take ?l (drop ?l rest)"
        unfolding parse using page_resume [OF ids all, of ?L] L by (simp add: sql_limit_def)
      show "length (drop ?l rest) div ?l < n"
        using Suc.prems(3) False L by (simp add: le_div_geq)
    qed
    with ans nxt show ?thesis by simp
  qed
qed simp

lemma walk_all:
  assumes "serves_rows h W c param rq s rows" "distinct (map er_id rows)"
    "\<And>x. x \<in> set rows \<Longrightarrow> int64 (er_pub x) \<and> int64 (er_id x)"
  shows "walk h W c param rq s (Suc (length (page (- 1) None rows))) [] = Some (page (- 1) None rows)"
proof (rule walk_rest [OF assms, where pre = "[]"])
  show "page (page_limit rq) (parse_entry_cursor []) rows = take (nat (page_limit rq)) (page (- 1) None rows)"
    using page_first [of "page_limit rq" rows] page_limit_bounds [of rq] by simp
qed (simp_all add: le_imp_less_Suc)

definition fits_int64 :: "db \<Rightarrow> bool" where
  \<comment> \<open>the columns hold 64-bit integers\<close>
  "fits_int64 d \<longleftrightarrow> list_all (\<lambda>e. int64 (ent_pub e) \<and> int64 (ent_id e)) (entries d)"

lemma rows_fit:
  "fits_int64 d \<Longrightarrow> x \<in> set (list_rows d u f b) \<Longrightarrow> int64 (er_pub x) \<and> int64 (er_id x)"
  "fits_int64 d \<Longrightarrow> x \<in> set (group_rows d u w b) \<Longrightarrow> int64 (er_pub x) \<and> int64 (er_id x)"
  by (auto simp: fits_int64_def list_all_iff list_rows_def group_rows_def entries_join_def row_of_def
      split: if_splits)

text \<open>
  C26. Following the cursors terminates and is complete. A client that starts without a cursor and
  asks again with the \<open>next_cursor\<close> of every answer gets, after at most one request more than there
  are entries, an answer without one; and what it has then collected is exactly the list of the feed,
  of today or of the search, newest first, nothing lost and nothing twice, whatever limit it asks for.
\<close>

theorem cursors_reach_every_entry:
  fixes W :: "'u api_world"
  assumes ok: "db_ok (db_of s)" and fits: "fits_int64 (db_of s)"
  shows "let u = ctx_id c; d = db_of s; query = trim_space (query_value rq ''q'') in
    (\<forall>i. atoi param = Some i \<longrightarrow>
      (let all = list_entries d u i (query_value rq ''unread'' = ''1'') (- 1) None
       in walk handle_list_entries W c param rq s (Suc (length all)) [] = Some all)) \<and>
    (let all = list_today_entries d u (today_since W) (- 1) None
     in walk handle_list_today_entries W c param rq s (Suc (length all)) [] = Some all) \<and>
    (query \<noteq> [] \<longrightarrow>
      (let all = search_entries (aw_fts W) d u query (- 1) None
       in walk handle_search W c param rq s (Suc (length all)) [] = Some all))"
proof -
  let ?u = "ctx_id c" and ?d = "db_of s"
  have feed: "serves_rows handle_list_entries W c param rq s (list_rows ?d ?u i (query_value rq ''unread'' = ''1''))"
    if "atoi param = Some i" for i
    using that by (simp add: serves_rows_def handle_list_entries_def with_id_def Let_def list_entries_page)
  have today: "serves_rows handle_list_today_entries W c param rq s
      (group_rows ?d ?u (\<lambda>s e. today_since W \<le> ent_created e) True)"
    by (simp add: serves_rows_def handle_list_today_entries_def Let_def list_today_entries_def list_group_entries_page)
  have found: "serves_rows handle_search W c param rq s (group_rows ?d ?u (\<lambda>s e.
      if rune_count (trim_space (query_value rq ''q'')) < 3
      then contains_word (ent_title e) (trim_space (query_value rq ''q''))
        \<or> contains_word (ent_body e) (trim_space (query_value rq ''q''))
      else aw_fts W (trim_space (query_value rq ''q'')) (ent_title e) (ent_body e)) False)"
    if "trim_space (query_value rq ''q'') \<noteq> []"
    using that by (simp add: serves_rows_def handle_search_def Let_def search_entries_def list_group_entries_page)
  note lists = list_entries_page list_today_entries_def search_entries_def list_group_entries_page
  show ?thesis
    unfolding Let_def lists
    by (intro conjI allI impI; rule walk_all)
      (erule feed found rows_fit [OF fits] | rule today list_rows_distinct [OF ok] group_rows_distinct [OF ok])+
qed

theorem cursors_reach_every_entry_witness:
  "let all = list_entries (db_of sample_server) 2 1 False (- 1) None
   in walk handle_list_entries sample_api (Some (zero_user\<lparr>usr_id := 2\<rparr>)) ''1''
     (sample_request ''GET'' []) sample_server (Suc (length all)) [] = Some all"
proof -
  have fits: "fits_int64 sample_api_db" unfolding fits_int64_def int64_def sample_api_db_def by code_simp
  have one: "atoi ''1'' = Some 1" by code_simp
  have unread: "query_value (sample_request ''GET'' []) ''unread'' \<noteq> ''1''"
    by (simp add: query_value_def first_value_def sample_request_def)
  have db: "db_of sample_server = sample_api_db" by (simp add: sample_server_def new_server_def)
  show ?thesis
    using cursors_reach_every_entry [of sample_server "Some (zero_user\<lparr>usr_id := 2\<rparr>)" "sample_request ''GET'' []" "''1''" sample_api]
      sample_api_ok fits one unread
    by (simp add: db Let_def del: walk.simps)
qed

end
