(* ===== verification/ApiAnswers.thy ===== *)
theory ApiAnswers
  imports ApiHandlers
begin

text \<open>
  The type of every answer of the API: \<open>contract\<close> lists for each route of NewHandler the status and the
  shape of body it answers when it succeeds, and \<open>serve\<close> keeps to it.
\<close>

section \<open>Shapes\<close>

definition body_shape :: "payload \<Rightarrow> string" where
  "body_shape b =
     (case b of
        No_Body \<Rightarrow> ''none'' | Plain_Text _ \<Rightarrow> ''text'' | Error_Msg _ \<Rightarrow> ''error'' | Status_Body _ _ \<Rightarrow> ''status''
      | Me_Body _ _ _ _ \<Rightarrow> ''me'' | User_Body _ \<Rightarrow> ''user view'' | Token_Made _ _ \<Rightarrow> ''new token''
      | Tokens_Body _ \<Rightarrow> ''tokens'' | User_Row _ \<Rightarrow> ''user'' | Users_Body _ \<Rightarrow> ''users''
      | Invitation_Made _ _ \<Rightarrow> ''new invitation'' | Invitations_Body _ \<Rightarrow> ''invitations'' | Valid_Body \<Rightarrow> ''valid''
      | Backups_Body _ _ _ _ _ \<Rightarrow> ''backups'' | Subs_Body _ _ \<Rightarrow> ''subscriptions'' | Candidates_Body _ \<Rightarrow> ''candidates''
      | Subscribed_Body _ \<Rightarrow> ''subscribed'' | Sub_Body _ \<Rightarrow> ''subscription'' | Entries_Body _ _ \<Rightarrow> ''page of entries''
      | Entry_List _ \<Rightarrow> ''entries'' | Sub_List _ \<Rightarrow> ''subscription list'' | Marked_Body _ \<Rightarrow> ''marked''
      | Refreshed_Body _ _ \<Rightarrow> ''refreshed'' | Folders_Body _ \<Rightarrow> ''folders'' | Folder_Body _ _ \<Rightarrow> ''folder''
      | Pins_Body _ \<Rightarrow> ''pins'' | Pin_Body _ \<Rightarrow> ''pin'' | Words_Body _ \<Rightarrow> ''words'' | Word_Body _ \<Rightarrow> ''word''
      | Scrapes_Body _ \<Rightarrow> ''sources'' | Scrape_Body _ \<Rightarrow> ''source'' | Blocks_Body _ \<Rightarrow> ''blocks''
      | Items_Body _ _ \<Rightarrow> ''items'' | Inspect_Body _ _ _ \<Rightarrow> ''inspection'' | Page_Body _ \<Rightarrow> ''page''
      | Stats_Body _ _ \<Rightarrow> ''stats'' | Metrics_Body _ _ \<Rightarrow> ''metrics'' | Opml_Body _ \<Rightarrow> ''opml''
      | Imported_Body _ \<Rightarrow> ''imported'' | Subscribe_Id _ \<Rightarrow> ''subscribe id'' | Ok_Body \<Rightarrow> ''ok'')"

definition error_answer :: "response \<Rightarrow> bool" where
  "error_answer r \<longleftrightarrow>
     (case ap_body r of
        Error_Msg _ \<Rightarrow> ap_status r \<in> {400, 401, 403, 404, 409, 415, 429, 500, 501, 502}
      | Plain_Text _ \<Rightarrow> ap_status r \<in> {404, 405}
      | _ \<Rightarrow> False)"

type_synonym answer_type = "(int \<times> string) list"

definition contract :: "(string \<times> string \<times> answer_type) list" where
  "contract =
     [(''GET'', ''/healthz'', [(200, ''status'')]),
      (''GET'', ''/metrics'', [(200, ''metrics'')]),
      (''GET'', ''/api/v1/auth/me'', [(200, ''me'')]),
      (''PATCH'', ''/api/v1/auth/me'', [(200, ''user view'')]),
      (''POST'', ''/api/v1/auth/setup'', [(200, ''me'')]),
      (''POST'', ''/api/v1/auth/restore'', [(202, ''status'')]),
      (''POST'', ''/api/v1/auth/login'', [(200, ''me'')]),
      (''POST'', ''/api/v1/auth/logout'', [(204, ''none'')]),
      (''POST'', ''/api/v1/auth/password'', [(204, ''none'')]),
      (''GET'', ''/api/v1/auth/tokens'', [(200, ''tokens'')]),
      (''POST'', ''/api/v1/auth/tokens'', [(201, ''new token'')]),
      (''DELETE'', ''/api/v1/auth/tokens/{id}'', [(204, ''none'')]),
      (''GET'', ''/api/v1/subscriptions'', [(200, ''subscriptions'')]),
      (''POST'', ''/api/v1/subscriptions'', [(201, ''subscribed''), (202, ''candidates'')]),
      (''PATCH'', ''/api/v1/subscriptions/{id}'', [(200, ''subscription'')]),
      (''DELETE'', ''/api/v1/subscriptions/{id}'', [(204, ''none'')]),
      (''GET'', ''/api/v1/subscriptions/{id}/entries'', [(200, ''page of entries'')]),
      (''POST'', ''/api/v1/subscriptions/{id}/read_all'', [(200, ''marked'')]),
      (''POST'', ''/api/v1/subscriptions/{id}/refresh'', [(200, ''refreshed'')]),
      (''POST'', ''/api/v1/subscriptions/{id}/fulltext'', [(200, ''subscription'')]),
      (''DELETE'', ''/api/v1/subscriptions/{id}/fulltext'', [(200, ''subscription'')]),
      (''POST'', ''/api/v1/entries/read'', [(200, ''marked'')]),
      (''POST'', ''/api/v1/entries/read_all'', [(200, ''marked'')]),
      (''GET'', ''/api/v1/entries'', [(200, ''page of entries'')]),
      (''GET'', ''/api/v1/entries/today'', [(200, ''page of entries'')]),
      (''GET'', ''/api/v1/folders'', [(200, ''folders'')]),
      (''POST'', ''/api/v1/folders'', [(201, ''folder'')]),
      (''GET'', ''/api/v1/search'', [(200, ''page of entries'')]),
      (''GET'', ''/api/v1/pins'', [(200, ''pins'')]),
      (''POST'', ''/api/v1/pins'', [(201, ''pin'')]),
      (''DELETE'', ''/api/v1/pins/{id}'', [(204, ''none'')]),
      (''POST'', ''/api/v1/scrape_sources'', [(201, ''subscribed'')]),
      (''GET'', ''/api/v1/scrape_sources'', [(200, ''sources'')]),
      (''GET'', ''/api/v1/scrape_sources/{id}'', [(200, ''source'')]),
      (''PATCH'', ''/api/v1/scrape_sources/{id}'', [(200, ''source'')]),
      (''POST'', ''/api/v1/scrape_sources/{id}/preview'', [(200, ''blocks''), (200, ''items'')]),
      (''POST'', ''/api/v1/scrape_sources/preview'', [(200, ''blocks''), (200, ''items'')]),
      (''POST'', ''/api/v1/scrape_sources/inspect'', [(200, ''inspection'')]),
      (''GET'', ''/api/v1/scrape_sources/inspect/view'', [(200, ''page'')]),
      (''GET'', ''/api/v1/opml'', [(200, ''opml'')]),
      (''POST'', ''/api/v1/opml'', [(200, ''imported'')]),
      (''GET'', ''/api/v1/stats'', [(200, ''stats'')]),
      (''GET'', ''/api/v1/ignore_words'', [(200, ''words'')]),
      (''POST'', ''/api/v1/ignore_words'', [(201, ''word'')]),
      (''DELETE'', ''/api/v1/ignore_words/{id}'', [(204, ''none'')]),
      (''GET'', ''/api/v1/admin/users'', [(200, ''users'')]),
      (''POST'', ''/api/v1/admin/users'', [(201, ''user'')]),
      (''PATCH'', ''/api/v1/admin/users/{id}'', [(200, ''user'')]),
      (''GET'', ''/api/v1/admin/invitations'', [(200, ''invitations'')]),
      (''POST'', ''/api/v1/admin/invitations'', [(201, ''new invitation'')]),
      (''GET'', ''/api/v1/admin/backups'', [(200, ''backups'')]),
      (''POST'', ''/api/v1/invitations/status'', [(200, ''valid'')]),
      (''POST'', ''/api/v1/invitations/accept'', [(200, ''me'')]),
      (''POST'', ''/api/subs'', [(200, ''subscription list'')]),
      (''POST'', ''/api/unread'', [(200, ''entries'')]),
      (''POST'', ''/api/touch_all'', [(200, ''marked'')]),
      (''POST'', ''/api/subscribe'', [(200, ''subscribe id'')]),
      (''POST'', ''/api/unsubscribe'', [(200, ''ok'')]),
      (''POST'', ''/api/folders'', [(200, ''folders'')]),
      (''POST'', ''/api/pin/add'', [(200, ''ok'')]),
      (''POST'', ''/api/pin/remove'', [(200, ''ok'')]),
      (''POST'', ''/api/pin/all'', [(200, ''pins'')])]"

section \<open>Typing the steps\<close>

definition typed :: "answer_type \<Rightarrow> response \<times> server \<Rightarrow> bool" where
  "typed T out \<longleftrightarrow> error_answer (fst out) \<or> (ap_status (fst out), body_shape (ap_body (fst out))) \<in> set T"

definition typed_handler :: "answer_type \<Rightarrow> 'u handler \<Rightarrow> bool" where
  "typed_handler T h \<longleftrightarrow> (\<forall>W c param rq s. typed T (h W c param rq s))"

named_theorems typing "introduction rules of the answer types, one per step of a handler"

lemma typed_reply [simp]: "typed T (reply r s) \<longleftrightarrow> error_answer r \<or> (ap_status r, body_shape (ap_body r)) \<in> set T"
  by (simp add: typed_def reply_def)

lemma error_write [simp]:
  "error_answer (write_error n m) \<longleftrightarrow> n \<in> {400, 401, 403, 404, 409, 415, 429, 500, 501, 502}"
  by (simp add: error_answer_def write_error_def write_json_def)

lemma write_json_parts [simp]: "ap_status (write_json n b) = n" "ap_body (write_json n b) = b"
  by (simp_all add: write_json_def)

lemma error_store [simp]: "error_answer (write_store_error e)"
  by (cases e) (simp_all add: write_store_error_def store_err_status_def)

lemma typed_with_json [typing]: "(\<And>x. typed T (k x)) \<Longrightarrow> typed T (with_json dec rq s k)"
  and typed_with_store [typing]: "(\<And>x. typed T (k' x)) \<Longrightarrow> typed T (with_store r s k')"
  and typed_with_id [typing]: "(\<And>i. typed T (l i)) \<Longrightarrow> typed T (with_id param s l)"
  and typed_with_user [typing]: "(\<And>u. typed T (m u)) \<Longrightarrow> typed T (with_user c s m)"
  by (auto simp: with_json_def with_store_def with_id_def with_user_def split: option.splits sum.splits)

lemma typed_with_admin [typing]: "(\<And>u. typed T (k u)) \<Longrightarrow> typed T (with_admin c s k)"
  by (auto simp: with_admin_def intro!: typing)

lemma typed_with_count [typing]: "typed T k \<Longrightarrow> typed T (with_count n limit what s k)"
  and typed_with_folder [typing]: "typed T k \<Longrightarrow> typed T (with_folder u folder s k)"
  and typed_with_subscribed [typing]: "typed T k \<Longrightarrow> typed T (with_subscribed u i s k)"
  and typed_with_config [typing]: "typed T k \<Longrightarrow> typed T (with_config W kind raw s k)"
  and typed_with_own_source [typing]: "typed T k \<Longrightarrow> typed T (with_own_source c x s k)"
  by (auto simp: with_count_def with_folder_def with_subscribed_def with_config_def with_own_source_def
      intro!: typing split: option.splits)

lemma typed_with_subscribe_id [typing]: "(\<And>i. typed T (k i)) \<Longrightarrow> typed T (with_subscribe_id rq s k)"
  and typed_with_linked_entry [typing]: "(\<And>i. typed T (k i)) \<Longrightarrow> typed T (with_linked_entry rq s k)"
  by (auto simp: with_subscribe_id_def with_linked_entry_def Let_def intro!: typing split: option.splits)

lemma typed_with_page [typing]: "(\<And>b. typed T (k b)) \<Longrightarrow> typed T (with_page W url s k)"
  by (auto simp: with_page_def split: sum.splits)

lemma typed_limited [typing]:
  "(\<And>s. typed T (k s)) \<Longrightarrow> typed T (with_add W u s k)"
  "(\<And>s. typed T (k s)) \<Longrightarrow> typed T (with_refresh W u s k)"
  "(\<And>s. typed T (k s)) \<Longrightarrow> typed T (with_preview W u what s k)"
  by (auto simp: with_add_def with_refresh_def with_preview_def action_refused_def split: prod.splits)

lemma typed_entries [typing]: "(200, ''page of entries'') \<in> set T \<Longrightarrow> typed T (entries_reply limit rows s)"
  by (simp add: entries_reply_def body_shape_def)

lemma typed_subscribed [typing]:
  "(\<And>v. (ap_status (answer v), body_shape (ap_body (answer v))) \<in> set T) \<Longrightarrow> typed T (subscribed_reply u i answer s)"
  by (simp add: subscribed_reply_def typing)

lemma typed_session [typing]: "(200, ''me'') \<in> set T \<Longrightarrow> typed T (start_session W rq i s)"
  by (auto simp: start_session_def set_session_cookie_def body_shape_def intro!: typing split: option.splits)

lemma typed_confirmed [typing]: "(201, ''subscribed'') \<in> set T \<Longrightarrow> typed T (subscribe_confirmed W u q s)"
  by (auto simp: subscribe_confirmed_def Let_def body_shape_def intro!: typing split: prod.splits)

lemma typed_add_scrape [typing]: "(201, ''subscribed'') \<in> set T \<Longrightarrow> typed T (add_scrape_source W u kind q s)"
  by (auto simp: add_scrape_source_def Let_def body_shape_def intro!: typing split: prod.splits)

lemmas answer_simps = typed_handler_def Let_def body_shape_def set_session_cookie_def clear_session_cookie_def
  no_content_def preview_pagewatch_def preview_selector_def login_refused_def inspect_gone_def

section \<open>Typing the handlers\<close>

lemma typed_account_handlers:
  "typed_handler [(200, ''user view'')] handle_auth_update_me"
  "typed_handler [(204, ''none'')] handle_auth_logout"
  "typed_handler [(204, ''none'')] handle_auth_change_password"
  "typed_handler [(200, ''tokens'')] handle_list_api_tokens"
  "typed_handler [(201, ''new token'')] handle_create_api_token"
  "typed_handler [(204, ''none'')] handle_delete_api_token"
  by (auto simp: account_handlers answer_simps intro!: typing split: option.splits sum.splits prod.splits)+

lemma typed_admin_handlers:
  "typed_handler [(200, ''users'')] handle_admin_list_users"
  "typed_handler [(201, ''user'')] handle_admin_create_user"
  "typed_handler [(200, ''user'')] handle_admin_patch_user"
  "typed_handler [(200, ''invitations'')] handle_admin_list_invitations"
  "typed_handler [(201, ''new invitation'')] handle_admin_create_invitation"
  "typed_handler [(200, ''backups'')] handle_admin_backup_status"
  by (auto simp: admin_handlers answer_simps intro!: typing split: option.splits sum.splits prod.splits)+

lemma typed_listing_handlers:
  "typed_handler [(200, ''metrics'')] handle_metrics"
  "typed_handler [(200, ''subscriptions'')] handle_list_subscriptions"
  "typed_handler [(200, ''page of entries'')] handle_list_entries"
  "typed_handler [(200, ''page of entries'')] handle_list_group_entries"
  "typed_handler [(200, ''page of entries'')] handle_list_today_entries"
  "typed_handler [(200, ''folders'')] handle_list_folders"
  "typed_handler [(200, ''page of entries'')] handle_search"
  "typed_handler [(200, ''pins'')] handle_list_pins"
  "typed_handler [(200, ''sources'')] handle_list_scrape_sources"
  "typed_handler [(200, ''source'')] handle_get_scrape_source"
  "typed_handler [(200, ''opml'')] handle_export_opml"
  "typed_handler [(200, ''stats'')] handle_stats"
  "typed_handler [(200, ''words'')] handle_list_ignore_words"
  "typed_handler [(200, ''subscription list'')] handle_ldr_subs"
  "typed_handler [(200, ''entries'')] handle_ldr_unread"
  "typed_handler [(200, ''folders'')] handle_ldr_folders"
  "typed_handler [(200, ''pins'')] handle_ldr_pin_all"
  by (auto simp: listing_handlers answer_simps intro!: typing split: option.splits sum.splits prod.splits)+

lemma typed_reader_handlers:
  "typed_handler [(200, ''subscription'')] handle_patch_subscription"
  "typed_handler [(204, ''none'')] handle_delete_subscription"
  "typed_handler [(200, ''marked'')] handle_read_all"
  "typed_handler [(200, ''subscription'')] handle_enable_fulltext"
  "typed_handler [(200, ''subscription'')] handle_disable_fulltext"
  "typed_handler [(200, ''marked'')] handle_mark_entries_read"
  "typed_handler [(200, ''marked'')] handle_mark_all_entries_read"
  "typed_handler [(201, ''folder'')] handle_create_folder"
  "typed_handler [(201, ''pin'')] handle_add_pin"
  "typed_handler [(204, ''none'')] handle_remove_pin"
  "typed_handler [(201, ''word'')] handle_add_ignore_word"
  "typed_handler [(204, ''none'')] handle_remove_ignore_word"
  "typed_handler [(200, ''marked'')] handle_ldr_touch_all"
  "typed_handler [(200, ''ok'')] handle_ldr_unsubscribe"
  "typed_handler [(200, ''ok'')] handle_ldr_pin_add"
  "typed_handler [(200, ''ok'')] handle_ldr_pin_remove"
  by (auto simp: reader_handlers answer_simps intro!: typing split: option.splits sum.splits prod.splits)+

lemma typed_page_handlers:
  "typed_handler [(200, ''source'')] handle_patch_scrape_source"
  "typed_handler [(200, ''blocks''), (200, ''items'')] handle_preview_scrape_source"
  "typed_handler [(200, ''blocks''), (200, ''items'')] handle_preview_unsaved"
  "typed_handler [(200, ''inspection'')] handle_inspect_scrape_source"
  by (auto simp: page_handlers answer_simps intro!: typing split: option.splits sum.splits prod.splits)+

lemma typed_crawling_handlers:
  "typed_handler [(201, ''subscribed''), (202, ''candidates'')] handle_create_subscription"
  "typed_handler [(200, ''refreshed'')] handle_refresh"
  "typed_handler [(201, ''subscribed'')] handle_create_scrape_source"
  "typed_handler [(200, ''subscribe id'')] handle_ldr_subscribe"
  by (auto simp: crawling_handlers answer_simps intro!: typing split: option.splits sum.splits prod.splits)+

lemmas entry_handlers = handle_accept_invitation_def handle_auth_login_def handle_auth_me_def handle_auth_restore_def handle_auth_setup_def handle_healthz_def handle_import_opml_def handle_inspect_view_def handle_invitation_status_def

lemma typed_entry_handlers:
  "typed_handler [(200, ''status'')] handle_healthz"
  "typed_handler [(200, ''me'')] handle_auth_me"
  "typed_handler [(200, ''me'')] handle_auth_setup"
  "typed_handler [(202, ''status'')] handle_auth_restore"
  "typed_handler [(200, ''me'')] handle_auth_login"
  "typed_handler [(200, ''page'')] handle_inspect_view"
  "typed_handler [(200, ''imported'')] handle_import_opml"
  "typed_handler [(200, ''valid'')] handle_invitation_status"
  "typed_handler [(200, ''me'')] handle_accept_invitation"
  by (auto simp: entry_handlers answer_simps intro!: typing split: option.splits sum.splits prod.splits)+

section \<open>Typing the requests\<close>

lemmas typed_handlers = typed_account_handlers typed_admin_handlers typed_listing_handlers typed_reader_handlers
  typed_page_handlers typed_crawling_handlers typed_entry_handlers

lemma routes_typed: "list_all2 (\<lambda>(m, p, h) (m', p', T). m = m' \<and> p = p' \<and> typed_handler T h) routes contract"
  by (simp add: routes_def contract_def typed_handlers)

lemma list_all2_in: "list_all2 P xs ys \<Longrightarrow> x \<in> set xs \<Longrightarrow> \<exists>y \<in> set ys. P x y"
  by (induction rule: list_all2_induct) auto

definition keeps_contract :: "request \<Rightarrow> response \<Rightarrow> bool" where
  "keeps_contract rq r \<longleftrightarrow>
     list_ex (\<lambda>(m, p, T). method_matches m (rq_method rq) \<and> path_matches p rq
       \<and> (ap_status r, body_shape (ap_body r)) \<in> set T) contract"

lemma typed_mux: "error_answer (fst (mux W rq c s)) \<or> keeps_contract rq (fst (mux W rq c s))"
proof (cases "route_of rq :: ('a handler \<times> string) option")
  case None
  then show ?thesis by (simp add: mux_def mux_missing_def reply_def error_answer_def)
next
  case (Some hp)
  obtain h param where hp: "hp = (h, param)" by (cases hp)
  obtain m p where route: "(m, p, h) \<in> set routes" "method_matches m (rq_method rq)"
      "match_segments (split_segments p) (rq_segs rq) = Some param"
    by (rule route_of_cases [OF Some [unfolded hp]])
  obtain T where "(m, p, T) \<in> set contract" "typed_handler T h"
    using list_all2_in [OF routes_typed route(1)] by auto
  then have "typed T (h W c param rq s)" "mux W rq c s = h W c param rq s"
    using Some by (simp_all add: typed_handler_def mux_def hp)
  then show ?thesis
    using route \<open>(m, p, T) \<in> set contract\<close>
    by (auto simp: typed_def keeps_contract_def list_ex_iff path_matches_def intro!: bexI [of _ "(m, p, T)"])
qed

definition refused_or_routed :: "(string \<Rightarrow> string) \<Rightarrow> 'u api_world \<Rightarrow> request \<Rightarrow> server \<Rightarrow> response \<times> server \<Rightarrow> bool" where
  \<comment> \<open>a middleware answers with an error, or the mux answers on a server a touch or a limiter apart\<close>
  "refused_or_routed q W rq s out \<longleftrightarrow>
     error_answer (fst out) \<or> (\<exists>c s'. out = mux W rq c s' \<and> runs touch_op q (db_of s) (db_of s'))"

lemma limited_cases:
  assumes "runs touch_op q (db_of s) (db_of s1)"
  shows "refused_or_routed q W rq s (rate_limit_middleware (mux W rq) W c s1)"
proof (cases c)
  case None
  then show ?thesis using assms by (auto simp: refused_or_routed_def rate_limit_middleware_def)
next
  case (Some u)
  obtain ok l where l: "action_allow (srv_api s1) (show_int (usr_id u)) (aw_now W) = (ok, l)" by (rule prod.exhaust)
  have "db_of (s1\<lparr>srv_api := l\<rparr>) = db_of s1" by simp
  then show ?thesis
    using assms Some l
    by (cases ok)
      (simp_all add: refused_or_routed_def rate_limit_middleware_def reply_def,
        rule disjI2, rule exI [of _ "Some u"], rule exI [of _ "s1\<lparr>srv_api := l\<rparr>"], simp)
qed

lemma serve_cases: "refused_or_routed q W rq s (serve W rq s)"
proof -
  have refused: "refused_or_routed q W rq s (reply (write_error n m) s')" if "n \<in> {401, 403, 415}" for n m s'
    using that by (auto simp: refused_or_routed_def reply_def)
  show ?thesis
    unfolding serve_def auth_middleware_def
    by (auto intro!: limited_cases refused intro: token_run session_run split: option.splits)
qed

text \<open>
  C10. Every answer has the type of its route. Whatever is asked of the server, in whatever state it is, the answer is an
  error with a message and one of ten statuses, or a plain 404 or 405 of the router, or it has the
  status and the shape of body that the contract has for a route the request matches.
\<close>

theorem answers_keep_the_contract:
  "error_answer (fst (serve W rq s)) \<or> keeps_contract rq (fst (serve W rq s))"
  using serve_cases [of no_quote W rq s] typed_mux [of W rq] unfolding refused_or_routed_def by (elim disjE exE conjE) simp_all

end
