(* ===== verification/Backups.thy ===== *)
theory Backups
  imports Opml Numbers
begin

text \<open>
  Snapshots of the database: \<open>internal/store/backup.go\<close>, \<open>internal/remotebackup\<close>,
  \<open>internal/restore\<close> and the pruning of \<open>internal/maintenance\<close>. Files are a table from paths to
  contents, the bucket one from keys to contents; every call into the operating system or the bucket
  may fail, which a set of faults decides. A call that fails halfway leaves the worst behind: a file
  it was writing is torn. Directory names are clean and hold no characters that are special to Glob.
\<close>

section \<open>Files and faults\<close>

datatype blob = Db_Image db | Text_File string | Torn | Not_Regular

type_synonym files = "(string \<times> blob) list"

definition put_file :: "string \<Rightarrow> blob \<Rightarrow> files \<Rightarrow> files" where
  "put_file p b fs = (p, b) # filter (\<lambda>(q, _). q \<noteq> p) fs"

definition drop_file :: "string \<Rightarrow> files \<Rightarrow> files" where
  "drop_file p fs = filter (\<lambda>(q, _). q \<noteq> p) fs"

datatype io_call =
    Mkdir_All | Vacuum_Into string | Rename_File string | Remove_File string | Write_File string
  | Read_Dir | Open_File string | Create_File string | Copy_File string | Close_File string
  | Stat_File string | Put_Object string | List_Objects string | Delete_Object string | Get_Object string
  | Db_Call string

type_synonym faults = "io_call \<Rightarrow> bool"

definition in_dir :: "string \<Rightarrow> string \<Rightarrow> string" where
  \<comment> \<open>filepath.Join of a directory and a name\<close>
  "in_dir dir n = dir @ ''/'' @ n"

definition name_in :: "string \<Rightarrow> string \<Rightarrow> string option" where
  "name_in dir p =
     (case cut_prefix (dir @ ''/'') p of
        None \<Rightarrow> None | Some n \<Rightarrow> if n \<noteq> [] \<and> CHR ''/'' \<notin> set n then Some n else None)"

definition dir_names :: "string \<Rightarrow> files \<Rightarrow> string list" where
  "dir_names dir fs = sort (List.map_filter (\<lambda>(p, b). name_in dir p) fs)"

definition base_name :: "string \<Rightarrow> string" where
  \<comment> \<open>path.Base, of a path that does not end in a slash\<close>
  "base_name s = (if s = [] then ''.'' else rev (takeWhile (\<lambda>c. c \<noteq> CHR ''/'') (rev s)))"

definition path_ext :: "string \<Rightarrow> string" where
  \<comment> \<open>path.Ext\<close>
  "path_ext s =
     (let r = takeWhile (\<lambda>c. c \<noteq> CHR ''.'' \<and> c \<noteq> CHR ''/'') (rev s)
      in case drop (length r) (rev s) of
           [] \<Rightarrow> [] | c # _ \<Rightarrow> if c = CHR ''.'' then c # rev r else [])"

section \<open>Snapshots on disk\<close>

definition backup_to :: "faults \<Rightarrow> db \<Rightarrow> string \<Rightarrow> files \<Rightarrow> bool \<times> files" where
  "backup_to bad d dest fs =
     (let tmp = dest @ ''.tmp'' in
      if bad (Remove_File tmp) \<and> map_of fs tmp \<noteq> None then (False, fs)
      else
        let fs = drop_file tmp fs in
        if bad (Vacuum_Into tmp) then (False, put_file tmp Torn fs)
        else if bad (Rename_File tmp) then (False, put_file tmp (Db_Image d) fs)
        else (True, put_file dest (Db_Image d) fs))"

definition prune_targets :: "string list \<Rightarrow> int \<Rightarrow> string list" where
  "prune_targets ks limit =
     (if limit \<le> 0 \<or> int (length ks) \<le> limit then [] else take (length ks - nat limit) (sort ks))"

definition backup_name :: "string \<Rightarrow> (string \<times> string) option" where
  \<comment> \<open>day and extension of a match of ^feedla-(\d{8})(\.db|\.opml|\.db\.tmp)$\<close>
  "backup_name n =
     (case cut_prefix ''feedla-'' n of
        None \<Rightarrow> None
      | Some r \<Rightarrow>
          if 8 \<le> length r \<and> list_all (\<lambda>c. digit_val c \<noteq> None) (take 8 r)
             \<and> drop 8 r \<in> {''.db'', ''.opml'', ''.db.tmp''}
          then Some (take 8 r, drop 8 r) else None)"

definition remove_names :: "faults \<Rightarrow> string \<Rightarrow> string list \<Rightarrow> files \<Rightarrow> bool \<times> files" where
  "remove_names bad dir ns fs =
     (list_all (\<lambda>n. \<not> bad (Remove_File (in_dir dir n))) ns,
      filter (\<lambda>(p, _). \<not> list_ex (\<lambda>n. p = in_dir dir n \<and> \<not> bad (Remove_File p)) ns) fs)"

definition snapshots_of :: "string \<Rightarrow> string \<Rightarrow> files \<Rightarrow> string list" where
  \<comment> \<open>the daily files of a kind, by day\<close>
  "snapshots_of dir ext fs =
     filter (\<lambda>n. map_of fs (in_dir dir n) \<noteq> Some Not_Regular \<and> map_option snd (backup_name n) = Some ext)
       (dir_names dir fs)"

definition pruned_names :: "string \<Rightarrow> int \<Rightarrow> string \<Rightarrow> files \<Rightarrow> string list" where
  "pruned_names dir limit today fs =
     filter (\<lambda>n. map_option fst (backup_name n) \<noteq> Some today) (snapshots_of dir ''.db.tmp'' fs)
     @ prune_targets (snapshots_of dir ''.db'' fs) limit @ prune_targets (snapshots_of dir ''.opml'' fs) limit"

definition prune_local :: "faults \<Rightarrow> string \<Rightarrow> int \<Rightarrow> string \<Rightarrow> files \<Rightarrow> bool \<times> files" where
  "prune_local bad dir limit today fs =
     (if bad Read_Dir then (False, fs) else remove_names bad dir (pruned_names dir limit today fs) fs)"

section \<open>Snapshots in a bucket\<close>

record remote_config =
  rm_prefix :: string
  rm_keep :: int

definition keys_with :: "remote_config \<Rightarrow> string \<Rightarrow> files \<Rightarrow> string list" where
  "keys_with R ext b = filter (\<lambda>k. has_prefix k (rm_prefix R) \<and> has_suffix k ext) (map fst b)"

fun delete_keys :: "faults \<Rightarrow> string list \<Rightarrow> files \<Rightarrow> bool \<times> files" where
  "delete_keys bad [] b = (True, b)"
| "delete_keys bad (k # ks) b =
     (if bad (Delete_Object k) then (False, b) else delete_keys bad ks (drop_file k b))"

definition remote_prune :: "faults \<Rightarrow> remote_config \<Rightarrow> string \<Rightarrow> files \<Rightarrow> bool \<times> files" where
  "remote_prune bad R ext b =
     (if rm_keep R \<le> 0 then (True, b)
      else if bad (List_Objects ext) then (False, b)
      else delete_keys bad (prune_targets (keys_with R ext b) (rm_keep R)) b)"

definition remote_store :: "faults \<Rightarrow> remote_config \<Rightarrow> string \<Rightarrow> string \<Rightarrow> files \<Rightarrow> files \<Rightarrow> bool \<times> files" where
  "remote_store bad R key path fs b =
     (case map_of fs path of
        None \<Rightarrow> (False, b)
      | Some c \<Rightarrow>
          if bad (Open_File path) \<or> bad (Stat_File path) \<or> bad (Put_Object (rm_prefix R @ key)) then (False, b)
          else remote_prune bad R (path_ext key) (put_file (rm_prefix R @ key) c b))"

definition remote_latest :: "faults \<Rightarrow> remote_config \<Rightarrow> string \<Rightarrow> files \<Rightarrow> unit + string option" where
  "remote_latest bad R ext b =
     (if bad (List_Objects ext) then Inl ()
      else case keys_with R ext b of [] \<Rightarrow> Inr None | ks \<Rightarrow> Inr (Some (last (sort ks))))"

definition remote_list :: "faults \<Rightarrow> remote_config \<Rightarrow> files \<Rightarrow> unit + string list" where
  "remote_list bad R b = (if bad (List_Objects []) then Inl () else Inr (sort (keys_with R [] b)))"

section \<open>Restoring\<close>

definition write_via_tmp :: "faults \<Rightarrow> blob \<Rightarrow> string \<Rightarrow> files \<Rightarrow> bool \<times> files" where
  \<comment> \<open>copy into a sibling file, then rename; a directory cannot be copied\<close>
  "write_via_tmp bad c dest fs =
     (let tmp = dest @ ''.tmp'' in
      if bad (Create_File tmp) then (False, fs)
      else if c = Not_Regular \<or> bad (Copy_File tmp) \<or> bad (Close_File tmp) then
        (False, if bad (Remove_File tmp) then put_file tmp Torn fs else drop_file tmp fs)
      else if bad (Rename_File tmp) then (False, put_file tmp c fs)
      else (True, put_file dest c (drop_file tmp fs)))"

definition copy_file :: "faults \<Rightarrow> string \<Rightarrow> string \<Rightarrow> files \<Rightarrow> bool \<times> files" where
  "copy_file bad src dest fs =
     (case map_of fs src of
        None \<Rightarrow> (False, fs)
      | Some c \<Rightarrow> if bad (Open_File src) then (False, fs) else write_via_tmp bad c dest fs)"

definition remote_download :: "faults \<Rightarrow> string \<Rightarrow> string \<Rightarrow> files \<Rightarrow> files \<Rightarrow> bool \<times> files" where
  "remote_download bad key dest b fs =
     (case map_of b key of
        None \<Rightarrow> (False, fs)
      | Some c \<Rightarrow> if bad (Get_Object key) then (False, fs) else write_via_tmp bad c dest fs)"

datatype snapshot = Local_Snapshot string | Remote_Snapshot string

definition snapshot_base :: "snapshot \<Rightarrow> string" where
  "snapshot_base s = (case s of Local_Snapshot p \<Rightarrow> base_name p | Remote_Snapshot k \<Rightarrow> base_name k)"

record restore_config =
  rs_dir :: string
  rs_remote :: "remote_config option"

definition is_snapshot_name :: "string \<Rightarrow> bool" where
  \<comment> \<open>the pattern feedla-*.db\<close>
  "is_snapshot_name n =
     (case cut_prefix ''feedla-'' n of None \<Rightarrow> False | Some r \<Rightarrow> has_suffix r ''.db'')"

definition latest_local :: "string \<Rightarrow> files \<Rightarrow> string option" where
  "latest_local dir fs =
     (case filter is_snapshot_name (dir_names dir fs) of [] \<Rightarrow> None | ns \<Rightarrow> Some (in_dir dir (last ns)))"

definition latest_snapshot :: "faults \<Rightarrow> restore_config \<Rightarrow> files \<Rightarrow> files \<Rightarrow> unit + snapshot option" where
  "latest_snapshot bad cfg fs b =
     (let best = (if rs_dir cfg = [] then None else map_option Local_Snapshot (latest_local (rs_dir cfg) fs))
      in case rs_remote cfg of
           None \<Rightarrow> Inr best
         | Some R \<Rightarrow>
             (case remote_latest bad R ''.db'' b of
                Inl _ \<Rightarrow> (if best = None then Inl () else Inr best)
              | Inr None \<Rightarrow> Inr best
              | Inr (Some k) \<Rightarrow>
                  Inr (case best of
                    None \<Rightarrow> Some (Remote_Snapshot k)
                  | Some s \<Rightarrow>
                      if snapshot_base s < snapshot_base (Remote_Snapshot k) then Some (Remote_Snapshot k) else best)))"

definition fetch_snapshot :: "faults \<Rightarrow> snapshot \<Rightarrow> string \<Rightarrow> files \<Rightarrow> files \<Rightarrow> bool \<times> files" where
  "fetch_snapshot bad s dest b fs =
     (case s of
        Remote_Snapshot k \<Rightarrow> remote_download bad k dest b fs
      | Local_Snapshot p \<Rightarrow> copy_file bad p dest fs)"

definition restore_if_missing :: "faults \<Rightarrow> restore_config \<Rightarrow> string \<Rightarrow> files \<Rightarrow> files \<Rightarrow> bool \<times> files" where
  "restore_if_missing bad cfg path b fs =
     (if bad (Stat_File path) then (False, fs)
      else if map_of fs path \<noteq> None then (True, fs)
      else case latest_snapshot bad cfg fs b of
        Inl _ \<Rightarrow> (False, fs)
      | Inr None \<Rightarrow> (True, fs)
      | Inr (Some s) \<Rightarrow> fetch_snapshot bad s path b fs)"

fun remove_all :: "faults \<Rightarrow> string list \<Rightarrow> files \<Rightarrow> bool \<times> files" where
  \<comment> \<open>one after another, until one fails for another reason than that the file is not there\<close>
  "remove_all bad [] fs = (True, fs)"
| "remove_all bad (p # ps) fs =
     (if bad (Remove_File p) \<and> map_of fs p \<noteq> None then (False, fs) else remove_all bad ps (drop_file p fs))"

definition promote_staged :: "faults \<Rightarrow> string \<Rightarrow> string \<Rightarrow> files \<Rightarrow> bool \<times> files" where
  "promote_staged bad staged path fs =
     (case map_of fs staged of
        None \<Rightarrow> (False, fs)
      | Some c \<Rightarrow>
          if bad (Stat_File staged) then (False, fs)
          else (case remove_all bad [path, path @ ''-wal'', path @ ''-shm''] fs of
            (False, fs') \<Rightarrow> (False, fs')
          | (True, fs') \<Rightarrow>
              if bad (Rename_File staged) then (False, fs') else (True, put_file path c (drop_file staged fs'))))"

section \<open>Laws of files\<close>

lemma map_of_drop [simp]: "map_of (drop_file p fs) = (map_of fs)(p := None)"
  by (induction fs) (auto simp: drop_file_def fun_eq_iff)

lemma map_of_put [simp]: "map_of (put_file p b fs) = (map_of fs)(p \<mapsto> b)"
  using map_of_drop [of p fs] by (simp add: put_file_def drop_file_def fun_eq_iff)

lemma map_of_remove_names:
  "map_of (snd (remove_names bad dir ns fs)) p =
     (if (\<exists>n \<in> set ns. p = in_dir dir n) \<and> \<not> bad (Remove_File p) then None else map_of fs p)"
  by (induction fs) (auto simp: remove_names_def list_ex_iff)

lemma path_suffix_neq [simp]: "p @ (c # s) \<noteq> p" "p \<noteq> p @ (c # s)"
  by auto

lemma in_dir_eq [simp]: "in_dir dir n = in_dir dir m \<longleftrightarrow> n = m"
  by (simp add: in_dir_def)

lemma name_in_dir [simp]: "name_in dir (in_dir dir n) = (if n \<noteq> [] \<and> CHR ''/'' \<notin> set n then Some n else None)"
  using cut_prefix_append [of "dir @ ''/''" n] by (simp add: name_in_def in_dir_def)

lemma name_in_iff: "name_in dir p = Some n \<longleftrightarrow> p = in_dir dir n \<and> n \<noteq> [] \<and> CHR ''/'' \<notin> set n"
proof
  assume "name_in dir p = Some n"
  then show "p = in_dir dir n \<and> n \<noteq> [] \<and> CHR ''/'' \<notin> set n"
    by (auto simp: name_in_def in_dir_def cut_prefix_Some_iff split: option.splits if_splits)
qed auto

lemma set_dir_names:
  "n \<in> set (dir_names dir fs) \<longleftrightarrow> map_of fs (in_dir dir n) \<noteq> None \<and> n \<noteq> [] \<and> CHR ''/'' \<notin> set n"
proof -
  have "n \<in> set (dir_names dir fs) \<longleftrightarrow> (\<exists>p b. (p, b) \<in> set fs \<and> name_in dir p = Some n)"
    by (force simp: dir_names_def List.map_filter_def image_iff)
  also have "\<dots> \<longleftrightarrow> in_dir dir n \<in> fst ` set fs \<and> n \<noteq> [] \<and> CHR ''/'' \<notin> set n"
    by (auto simp: name_in_iff image_iff) force+
  also have "in_dir dir n \<in> fst ` set fs \<longleftrightarrow> map_of fs (in_dir dir n) \<noteq> None"
    by (simp add: map_of_eq_None_iff)
  finally show ?thesis .
qed

lemma sorted_dir_names [simp]: "sorted (dir_names dir fs)"
  by (simp add: dir_names_def)

lemma last_sorted: "sorted ks \<Longrightarrow> ks \<noteq> [] \<Longrightarrow> k \<in> set ks \<Longrightarrow> k \<le> last ks"
  by (induction ks) auto

lemma last_filter_dir_names:
  \<comment> \<open>the last listed name with a property is the largest one\<close>
  assumes "n \<in> set (dir_names dir fs)" "P n" "\<And>m. m \<in> set (dir_names dir fs) \<Longrightarrow> P m \<Longrightarrow> m \<le> n"
  shows "filter P (dir_names dir fs) \<noteq> [] \<and> last (filter P (dir_names dir fs)) = n"
proof -
  let ?ns = "filter P (dir_names dir fs)"
  have n: "n \<in> set ?ns" using assms by simp
  then have ne: "?ns \<noteq> []" by (rule list.set_cases) auto
  moreover have "last ?ns \<le> n" using last_in_set [OF ne] assms(3) by simp
  moreover have "n \<le> last ?ns" using last_sorted [OF _ ne n] by (simp add: sorted_filter [of "\<lambda>x. x", simplified])
  ultimately show ?thesis by simp
qed

lemma distinct_put_file: "distinct (map fst fs) \<Longrightarrow> distinct (map fst (put_file p b fs))"
  and distinct_drop_file: "distinct (map fst fs) \<Longrightarrow> distinct (map fst (drop_file p fs))"
  by (auto simp: put_file_def drop_file_def distinct_map_filter)

section \<open>Pruning\<close>

lemma take_sorted_iff:
  fixes ks :: "'a :: linorder list"
  assumes "sorted_wrt (<) ks" "x \<in> set ks"
  shows "x \<in> set (take (length ks - k) ks) \<longleftrightarrow> (k = 0 \<or> k \<le> length (filter (\<lambda>y. x < y) ks))"
  using assms
proof (induction ks)
  case (Cons z ks)
  have all: "filter (\<lambda>y. z < y) ks = ks" using Cons.prems(1) by (simp add: filter_id_conv)
  show ?case
  proof (cases "x = z")
    case True
    then show ?thesis
      using Cons.prems(1) all by (cases "Suc (length ks) - k") (auto dest: in_set_takeD)
  next
    case False
    then have x: "x \<in> set ks" "\<not> x < z" using Cons.prems by auto
    have "\<not> k \<le> length (filter ((<) x) ks)" if "\<not> k \<le> length ks"
      using that length_filter_le le_trans by blast
    then show ?thesis
      using x Cons.IH Cons.prems(1) False by (cases "k \<le> length ks") (simp_all add: Suc_diff_le)
  qed
qed simp

lemma in_prune_targets:
  assumes "distinct ks"
  shows "k \<in> set (prune_targets ks limit) \<longleftrightarrow>
    k \<in> set ks \<and> 0 < limit \<and> limit \<le> int (length (filter (\<lambda>m. k < m) ks))"
proof -
  have sorted: "sorted_wrt (<) (sort ks)" using assms by (simp add: strict_sorted_iff)
  have len: "length (filter (\<lambda>m. k < m) (sort ks)) = length (filter (\<lambda>m. k < m) ks)"
    by (simp add: filter_sort)
  show ?thesis
  proof (cases "k \<in> set ks \<and> 0 < limit \<and> limit < int (length ks)")
    case True
    then have "k \<in> set (sort ks)" "nat limit \<noteq> 0" by auto
    then show ?thesis
      using take_sorted_iff [OF sorted, of k "nat limit"] True len by (auto simp: prune_targets_def)
  next
    case False
    have "length (filter (\<lambda>m. k < m) ks) < length ks" if "k \<in> set ks"
      using that length_filter_less [of k ks "\<lambda>m. k < m"] by simp
    then show ?thesis using False by (auto simp: prune_targets_def dest: in_set_takeD)
  qed
qed

lemma map_filter_drop: "f p = None \<Longrightarrow> List.map_filter f (p # ps) = List.map_filter f ps"
  by (simp add: List.map_filter_simps)

lemma distinct_dir_names: "distinct (map fst fs) \<Longrightarrow> distinct (dir_names dir fs)"
proof (induction fs)
  case (Cons x fs)
  obtain p b where x: "x = (p, b)" by (cases x)
  have "n \<notin> set (dir_names dir fs)" if "name_in dir p = Some n" for n
    using that Cons.prems by (auto simp: set_dir_names name_in_iff x map_of_eq_None_iff simp del: name_in_dir)
  then show ?case using Cons by (auto simp: dir_names_def x List.map_filter_simps split: option.splits)
qed (simp add: dir_names_def List.map_filter_simps)

lemma snapshots_of_in:
  "n \<in> set (snapshots_of dir ext fs) \<longleftrightarrow>
     n \<in> set (dir_names dir fs) \<and> map_of fs (in_dir dir n) \<noteq> Some Not_Regular \<and>
     map_option snd (backup_name n) = Some ext"
  by (auto simp: snapshots_of_def)

lemma distinct_snapshots: "distinct (map fst fs) \<Longrightarrow> distinct (snapshots_of dir ext fs)"
  using distinct_dir_names by (simp add: snapshots_of_def)

lemma map_of_prune_local:
  "map_of (snd (prune_local bad dir limit today fs)) p =
     (if \<not> bad Read_Dir \<and> (\<exists>n \<in> set (pruned_names dir limit today fs). p = in_dir dir n) \<and> \<not> bad (Remove_File p)
      then None else map_of fs p)"
  by (simp add: prune_local_def map_of_remove_names)

lemma in_pruned_names:
  assumes "distinct (map fst fs)" "ext \<in> {''.db'', ''.opml''}" "n \<in> set (snapshots_of dir ext fs)"
  shows "n \<in> set (pruned_names dir limit today fs) \<longleftrightarrow>
    0 < limit \<and> limit \<le> int (length (filter (\<lambda>m. n < m) (snapshots_of dir ext fs)))"
proof -
  have "n \<notin> set (snapshots_of dir ext' fs)" if "ext' \<noteq> ext" for ext'
    using that assms(3) by (auto simp: snapshots_of_in)
  then show ?thesis
    using assms in_prune_targets [OF distinct_snapshots [OF assms(1)]] by (auto simp: pruned_names_def)
qed

lemma pruned_names_named:
  "distinct (map fst fs) \<Longrightarrow> n \<in> set (pruned_names dir limit today fs) \<Longrightarrow> backup_name n \<noteq> None"
  using in_prune_targets [OF distinct_snapshots] by (auto simp: pruned_names_def snapshots_of_in)

text \<open>
  C15. Pruning keeps the newest. In a directory whose files may or may not be removable, a daily snapshot
  of the database or an export goes exactly when a limit is set, at least that many newer files of
  its own kind are there, and removing it works; files that do not have the name of a
  snapshot stay, whatever they are called.
\<close>

theorem pruning_keeps_the_newest:
  assumes "distinct (map fst fs)" and run: "prune_local bad dir limit today fs = (ok, fs')"
  shows "(\<forall>ext \<in> {''.db'', ''.opml''}. \<forall>n \<in> set (snapshots_of dir ext fs).
      map_of fs' (in_dir dir n) = None \<longleftrightarrow>
        \<not> bad Read_Dir \<and> \<not> bad (Remove_File (in_dir dir n)) \<and> 0 < limit
        \<and> limit \<le> int (length (filter (\<lambda>m. n < m) (snapshots_of dir ext fs)))) \<and>
    (\<forall>p. (\<forall>n. p = in_dir dir n \<longrightarrow> backup_name n = None) \<longrightarrow> map_of fs' p = map_of fs p)"
proof (intro conjI ballI allI impI)
  have fs': "fs' = snd (prune_local bad dir limit today fs)" using run by simp
  fix ext n assume ext: "ext \<in> {''.db'', ''.opml''}" and n: "n \<in> set (snapshots_of dir ext fs)"
  then have "map_of fs (in_dir dir n) \<noteq> None" by (simp add: snapshots_of_in set_dir_names)
  then show "map_of fs' (in_dir dir n) = None \<longleftrightarrow>
      \<not> bad Read_Dir \<and> \<not> bad (Remove_File (in_dir dir n)) \<and> 0 < limit
      \<and> limit \<le> int (length (filter (\<lambda>m. n < m) (snapshots_of dir ext fs)))"
    using in_pruned_names [OF assms(1) ext n, of limit today] by (auto simp: fs' map_of_prune_local)
next
  fix p assume "\<forall>n. p = in_dir dir n \<longrightarrow> backup_name n = None"
  then show "map_of fs' p = map_of fs p"
    using run pruned_names_named [OF assms(1)] map_of_prune_local [of bad dir limit today fs p] by force
qed

definition sample_dir :: files where
  "sample_dir =
     [(''b/feedla-20260102.db'', Text_File ''two''), (''b/feedla-20260103.db'', Text_File ''three''),
      (''b/feedla-20260101.db'', Text_File ''one''), (''b/feedla-manual.db'', Text_File ''manual'')]"

definition no_faults :: faults where
  "no_faults c \<longleftrightarrow> False"

theorem pruning_keeps_the_newest_witness:
  "map_of (snd (prune_local no_faults ''b'' 2 ''20260103'' sample_dir)) ''b/feedla-20260101.db'' = None \<and>
   map_of (snd (prune_local no_faults ''b'' 2 ''20260103'' sample_dir)) ''b/feedla-manual.db'' = Some (Text_File ''manual'')"
proof -
  have d: "distinct (map fst sample_dir)" by (simp add: sample_dir_def)
  note law = pruning_keeps_the_newest [OF d, where bad = no_faults and dir = "''b''" and limit = 2
      and today = "''20260103''", OF prod.collapse [symmetric]]
  have "''feedla-20260101.db'' \<in> set (snapshots_of ''b'' ''.db'' sample_dir)
      \<and> length (filter (\<lambda>m. ''feedla-20260101.db'' < m) (snapshots_of ''b'' ''.db'' sample_dir)) = 2"
    by code_simp
  then have "map_of (snd (prune_local no_faults ''b'' 2 ''20260103'' sample_dir)) (in_dir ''b'' ''feedla-20260101.db'') = None"
    using law by (simp add: no_faults_def)
  moreover have "backup_name ''feedla-manual.db'' = None" by code_simp
  then have "map_of (snd (prune_local no_faults ''b'' 2 ''20260103'' sample_dir)) (in_dir ''b'' ''feedla-manual.db'')
      = map_of sample_dir (in_dir ''b'' ''feedla-manual.db'')"
    using law by simp
  ultimately show ?thesis by (simp add: in_dir_def sample_dir_def)
qed

section \<open>Nothing half-written\<close>

definition content_of :: "files \<Rightarrow> files \<Rightarrow> snapshot \<Rightarrow> blob option" where
  "content_of fs b s = (case s of Local_Snapshot p \<Rightarrow> map_of fs p | Remote_Snapshot k \<Rightarrow> map_of b k)"

lemma backup_to_files:
  "map_of (snd (backup_to bad d dest fs)) p =
     (if p = dest \<and> fst (backup_to bad d dest fs) then Some (Db_Image d)
      else if p = dest @ ''.tmp'' then map_of (snd (backup_to bad d dest fs)) (dest @ ''.tmp'') else map_of fs p)"
  by (simp add: backup_to_def Let_def)

lemma write_via_tmp_files:
  "p \<noteq> dest @ ''.tmp'' \<Longrightarrow> map_of (snd (write_via_tmp bad c dest fs)) p =
     (if p = dest \<and> fst (write_via_tmp bad c dest fs) then Some c else map_of fs p)"
  by (simp add: write_via_tmp_def Let_def)

lemma fetch_snapshot_files:
  "p \<noteq> dest @ ''.tmp'' \<Longrightarrow> map_of (snd (fetch_snapshot bad s dest b fs)) p =
     (if p = dest \<and> fst (fetch_snapshot bad s dest b fs) then content_of fs b s else map_of fs p)"
  by (auto simp: fetch_snapshot_def content_of_def remote_download_def copy_file_def write_via_tmp_files
      split: snapshot.splits option.splits)

text \<open>
  C13. A backup or a restore that fails at any point leaves no torn file under a final name: the
  snapshot of the day is the old one or the whole new one, and the database is the one
  that was there, or none, or the whole of the snapshot found to be the latest.
\<close>

theorem snapshots_are_all_or_nothing:
  "(let (ok, fs') = backup_to bad d dest fs in
      map_of fs' dest = (if ok then Some (Db_Image d) else map_of fs dest)) \<and>
   (let (ok, fs') = restore_if_missing bad cfg path b fs in
      map_of fs' path = map_of fs path \<or>
      map_of fs path = None \<and> ok \<and>
        (\<exists>s. latest_snapshot bad cfg fs b = Inr (Some s) \<and> map_of fs' path = content_of fs b s))"
  by (auto simp: backup_to_files restore_if_missing_def fetch_snapshot_files case_prod_beta
      split: sum.splits option.splits if_splits)

end
