(* ===== verification/Maintenance.thy ===== *)
theory Maintenance
  imports Backups FeedLaws Articles
begin

text \<open>
  \<open>internal/maintenance/maintenance.go\<close>: the daily pass that collects garbage and writes the backup.
  Its state is the database, the files and the bucket. The calendar (the day of a time as YYYYMMDD, in the
  server's zone) and the text of the OPML export are arguments; a call into the store fails when the
  faults say so. The five-minute deadline of a pass shows as such a fault.
\<close>

section \<open>A pass\<close>

record maint_config =
  mc_days :: int
  mc_per_feed :: int
  mc_dir :: string
  mc_keep :: int
  mc_remote :: "remote_config option"

record upkeep =
  uk_db :: db
  uk_files :: files
  uk_bucket :: files

datatype backup_outcome = Backup_Failed | Backup_Skipped | Backup_Done

definition daily_name :: "string \<Rightarrow> string \<Rightarrow> string" where
  "daily_name day ext = ''feedla-'' @ day @ ext"

definition mirror_backup :: "faults \<Rightarrow> maint_config \<Rightarrow> string \<Rightarrow> files \<Rightarrow> files \<Rightarrow> files" where
  \<comment> \<open>both uploads; a failed one is logged\<close>
  "mirror_backup bad cfg day fs b =
     (case mc_remote cfg of
        None \<Rightarrow> b
      | Some R \<Rightarrow>
          let up = (\<lambda>ext b. snd (remote_store bad R (daily_name day ext) (in_dir (mc_dir cfg) (daily_name day ext)) fs b))
          in up ''.opml'' (up ''.db'' b))"

definition write_backup ::
    "faults \<Rightarrow> (outline list \<Rightarrow> string) \<Rightarrow> maint_config \<Rightarrow> string \<Rightarrow> upkeep \<Rightarrow> backup_outcome \<times> upkeep" where
  "write_backup bad enc cfg day s =
     (let d = uk_db s; dir = mc_dir cfg in
      if bad (Db_Call ''setup'') then (Backup_Failed, s)
      else case is_setup_pending d 1 of
        Inl e \<Rightarrow> (Backup_Failed, s)
      | Inr True \<Rightarrow> (Backup_Skipped, s)
      | Inr False \<Rightarrow>
          if bad Mkdir_All then (Backup_Failed, s)
          else case backup_to bad d (in_dir dir (daily_name day ''.db'')) (uk_files s) of
            (False, fs) \<Rightarrow> (Backup_Failed, s\<lparr>uk_files := fs\<rparr>)
          | (True, fs) \<Rightarrow>
              let out = in_dir dir (daily_name day ''.opml'') in
              if bad (Db_Call ''export'') then (Backup_Failed, s\<lparr>uk_files := fs\<rparr>)
              else if bad (Write_File out) then (Backup_Failed, s\<lparr>uk_files := put_file out Torn fs\<rparr>)
              else
                let fs = put_file out (Text_File (export_opml enc d 1)) fs;
                    fs = snd (prune_local bad dir (mc_keep cfg) day fs)
                in (Backup_Done, s\<lparr>uk_files := fs, uk_bucket := mirror_backup bad cfg day fs (uk_bucket s)\<rparr>))"

definition backup_if_missing_today ::
    "faults \<Rightarrow> (outline list \<Rightarrow> string) \<Rightarrow> maint_config \<Rightarrow> string \<Rightarrow> upkeep \<Rightarrow> upkeep" where
  "backup_if_missing_today bad enc cfg day s =
     (let p = in_dir (mc_dir cfg) (daily_name day ''.db'') in
      if bad (Stat_File p) \<or> map_of (uk_files s) p \<noteq> None then s
      else snd (write_backup bad enc cfg day s))"

definition day_ns :: int where "day_ns = 24 * hour_ns"

definition orphan_grace_days :: int where "orphan_grace_days = 7"

definition retention_limit :: "maint_config \<Rightarrow> int \<Rightarrow> time" where
  \<comment> \<open>now.Add(-time.Duration(days) * 24 * time.Hour), an int64 product\<close>
  "retention_limit cfg now = unix (now + wrap64 (- mc_days cfg * day_ns))"

definition collect_garbage :: "faults \<Rightarrow> maint_config \<Rightarrow> int \<Rightarrow> db \<Rightarrow> db" where
  "collect_garbage bad cfg now d =
     (let d = (if 0 < mc_days cfg \<and> \<not> bad (Db_Call ''old entries'')
               then snd (delete_old_read_entries d (retention_limit cfg now)) else d);
          d = (if 0 < mc_per_feed cfg \<and> \<not> bad (Db_Call ''excess entries'')
               then snd (trim_excess_entries d (mc_per_feed cfg)) else d);
          d = (if \<not> bad (Db_Call ''orphan feeds'')
               then snd (delete_orphan_feeds d (unix (now - orphan_grace_days * day_ns))) else d)
      in if \<not> bad (Db_Call ''sessions'') then snd (delete_expired_sessions d (unix now)) else d)"

definition maint_tick ::
    "(int \<Rightarrow> string) \<Rightarrow> (outline list \<Rightarrow> string) \<Rightarrow> maint_config \<Rightarrow> upkeep \<Rightarrow> faults \<times> int \<Rightarrow> upkeep" where
  \<comment> \<open>PRAGMA optimize changes nothing the program sees\<close>
  "maint_tick cal enc cfg s c =
     (case c of (bad, now) \<Rightarrow>
        let s = s\<lparr>uk_db := collect_garbage bad cfg now (uk_db s)\<rparr>
        in if mc_dir cfg = [] then s else snd (write_backup bad enc cfg (cal now) s))"

definition maint_run ::
    "(int \<Rightarrow> string) \<Rightarrow> (outline list \<Rightarrow> string) \<Rightarrow> maint_config \<Rightarrow> faults \<times> int \<Rightarrow> (faults \<times> int) list \<Rightarrow> upkeep \<Rightarrow> upkeep" where
  \<comment> \<open>the backup at the start, then the ticks\<close>
  "maint_run cal enc cfg start ticks s =
     foldl (maint_tick cal enc cfg)
       (if mc_dir cfg = [] then s
        else backup_if_missing_today (fst start) enc cfg (cal (snd start)) s) ticks"

section \<open>Garbage\<close>

definition gc_op :: "store_op \<Rightarrow> bool" where
  "gc_op op \<longleftrightarrow>
     (case op of
        Crawl (DeleteOldReadEntries t) \<Rightarrow> True
      | Crawl (TrimExcessEntries n) \<Rightarrow> True
      | Crawl (DeleteOrphanFeeds t) \<Rightarrow> True
      | Account (DeleteExpiredSessions t) \<Rightarrow> True
      | _ \<Rightarrow> False)"

lemma runs_if:
  "store_exec q d c = snd r \<Longrightarrow> P c \<Longrightarrow> runs P q d (if b then snd r else d)"
  using runs_op [of P c q d] by simp

lemma collect_garbage_runs: "runs gc_op q d (collect_garbage bad cfg now d)"
  unfolding collect_garbage_def Let_def
  by (rule runs_trans [OF runs_trans [OF runs_trans]],
      rule runs_if [where c = "Crawl (DeleteOldReadEntries (retention_limit cfg now))"],
      simp, simp add: gc_op_def,
      rule runs_if [where c = "Crawl (TrimExcessEntries (mc_per_feed cfg))"],
      simp, simp add: gc_op_def,
      rule runs_if [where c = "Crawl (DeleteOrphanFeeds (unix (now - orphan_grace_days * day_ns)))"],
      simp, simp add: gc_op_def,
      rule runs_if [where c = "Account (DeleteExpiredSessions (unix now))"],
      simp, simp add: gc_op_def)

definition needed :: "int \<Rightarrow> db \<Rightarrow> entry \<Rightarrow> bool" where
  \<comment> \<open>an entry a reader still needs: of a subscribed feed, and pinned, or unread by someone and within the cap\<close>
  "needed limit d e \<longleftrightarrow>
     list_ex (\<lambda>x. x = e) (entries d) \<and> list_ex (\<lambda>s. sub_feed s = ent_feed e) (subs d) \<and>
     (pinned d e \<or>
      list_ex (\<lambda>r. ues_entry r = ent_id e \<and> ues_read r = None) (states d)
      \<and> (0 < limit \<longrightarrow> int (row_number d e) \<le> limit))"

definition same_owners :: "db \<Rightarrow> db \<Rightarrow> bool" where
  \<comment> \<open>accounts and what they keep, reading states and pins aside\<close>
  "same_owners d d' \<longleftrightarrow>
     users d' = users d \<and> api_tokens d' = api_tokens d \<and> invitations d' = invitations d \<and>
     folders d' = folders d \<and> ignores d' = ignores d \<and> sub_keys d' = sub_keys d"

lemma sub_feeds_refresh:
  "map sub_feed (subs (fold refresh_unread_count fs d)) = map sub_feed (subs d)"
  by (induction fs arbitrary: d) (simp_all add: refresh_unread_count_def upd_where_def o_def if_distrib cong: if_cong)

lemma list_ex_key: "list_ex (\<lambda>s. key s = k) xs \<longleftrightarrow> k \<in> set (map key xs)"
  by (auto simp: list_ex_iff)

lemma needed_delete:
  assumes ok: "db_ok d" and e: "needed limit d e" "\<not> P e"
  shows "needed limit (snd (delete_entries_and_refresh P d)) e"
proof -
  let ?d = "snd (delete_entries_and_refresh P d)" and ?ids = "set (map ent_id (filter P (entries d)))"
  have "distinct (map ent_id (entries d))" using db_ok_entries [OF ok] by (simp add: entries_ok_def)
  then have id: "ent_id e \<notin> ?ids"
    using e distinct_map_unique [of ent_id "entries d" e] by (auto simp: needed_def list_ex_iff)
  have "subs ?d = subs (fold refresh_unread_count (remdups (map ent_feed (filter P (entries d))))
      (d\<lparr>entries := del_where P (entries d), states := del_where (\<lambda>r. ues_entry r \<in> ?ids) (states d),
         pins := del_where (\<lambda>p. pin_entry p \<in> ?ids) (pins d)\<rparr>))"
    "states ?d = del_where (\<lambda>r. ues_entry r \<in> ?ids) (states d)"
    "pins ?d = del_where (\<lambda>p. pin_entry p \<in> ?ids) (pins d)"
    by (simp_all add: delete_entries_and_refresh_def Let_def)
  note rows = this(2,3) arg_cong [OF this(1), of "map sub_feed", unfolded sub_feeds_refresh]
  have "row_number ?d e \<le> row_number d e"
    using length_filter_le [of "\<lambda>x. \<not> P x" "filter (\<lambda>x. ent_feed x = ent_feed e \<and> entry_key x < entry_key e) (entries d)"]
    unfolding row_number_def delete_entries_entries count_where_def filter_filter by (simp add: conj_ac)
  moreover have keep: "list_ex (\<lambda>x. k x = ent_id e \<and> Q x) (del_where (\<lambda>x. k x \<in> ?ids) xs) = list_ex (\<lambda>x. k x = ent_id e \<and> Q x) xs"
    for k Q and xs :: "'x list"
    using id unfolding list_ex_iff del_where_def by simp metis
  ultimately show ?thesis
    using e rows keep [of ues_entry "\<lambda>r. ues_read r = None" "states d"] keep [of pin_entry "\<lambda>_. True" "pins d"] by (auto simp: needed_def list_ex_key [of sub_feed] pinned_def delete_entries_entries list_ex_iff)
qed

lemma needed_orphan:
  assumes ok: "db_ok d" and e: "needed limit d e"
  shows "needed limit (snd (delete_orphan_feeds d before)) e"
proof -
  let ?d = "snd (delete_orphan_feeds d before)" and ?G = "set (map fd_id (filter (orphan d before) (feeds d)))"
  have f: "ent_feed e \<notin> ?G" using e by (auto simp: needed_def orphan_def list_ex_iff)
  have es: "entries ?d = filter (\<lambda>x. ent_feed x \<notin> ?G) (entries d)"
    by (simp add: delete_orphan_feeds_def Let_def del_where_def)
  have "distinct (map ent_id (entries d))" using db_ok_entries [OF ok] by (simp add: entries_ok_def)
  then have id: "ent_id e \<notin> set (map ent_id (filter (\<lambda>x. ent_feed x \<in> ?G) (entries d)))"
    using e f distinct_map_unique [of ent_id "entries d" e] by (auto simp: needed_def list_ex_iff)
  have "pins ?d = filter (\<lambda>p. pin_entry p \<notin> set (map ent_id (filter (\<lambda>x. ent_feed x \<in> ?G) (entries d)))) (pins d)"
    by (simp add: delete_orphan_feeds_def Let_def del_where_def)
  then have "pinned ?d e = pinned d e"
    using id unfolding pinned_def list_ex_iff by simp metis
  moreover have "row_number ?d e \<le> row_number d e"
    using length_filter_le [of "\<lambda>x. ent_feed x \<notin> ?G" "filter (\<lambda>x. ent_feed x = ent_feed e \<and> entry_key x < entry_key e) (entries d)"]
    unfolding row_number_def es count_where_def filter_filter by (simp add: conj_ac)
  ultimately show ?thesis
    using e f by (auto simp: needed_def orphan_frame [OF ok] es list_ex_iff)
qed

lemma needed_sessions: "needed limit (snd (delete_expired_sessions d now)) e = needed limit d e"
  by (simp add: needed_def delete_expired_sessions_def pinned_def row_number_def)

lemma needed_garbage:
  assumes ok: "db_ok d" and e: "needed (mc_per_feed cfg) d e"
  shows "needed (mc_per_feed cfg) (collect_garbage bad cfg now d) e"
proof -
  let ?n = "mc_per_feed cfg"
  have old: "needed ?n (snd (delete_old_read_entries d t)) e" if "db_ok d" "needed ?n d e" for d t
  proof -
    have "\<not> old_and_read d t e"
      using that(2) by (auto simp: needed_def old_and_read_def pinned_def list_ex_iff)
    then show ?thesis using needed_delete [OF that, of "old_and_read d t"] by (simp add: delete_old_read_entries_def)
  qed
  have trim: "needed ?n (snd (trim_excess_entries d ?n)) e" if "db_ok d" "needed ?n d e" "0 < ?n" for d
  proof -
    let ?P = "\<lambda>e. int (row_number d e) > ?n \<and> \<not> list_ex (\<lambda>p. pin_entry p = ent_id e) (pins d)"
    have "\<not> ?P e" using that(2,3) by (auto simp: needed_def pinned_def)
    then show ?thesis using needed_delete [OF that(1,2)] by (simp add: trim_excess_entries_def)
  qed
  define d1 where "d1 = (if 0 < mc_days cfg \<and> \<not> bad (Db_Call ''old entries'')
               then snd (delete_old_read_entries d (retention_limit cfg now)) else d)"
  define d2 where "d2 = (if 0 < ?n \<and> \<not> bad (Db_Call ''excess entries'') then snd (trim_excess_entries d1 ?n) else d1)"
  define d3 where "d3 = (if \<not> bad (Db_Call ''orphan feeds'')
               then snd (delete_orphan_feeds d2 (unix (now - orphan_grace_days * day_ns))) else d2)"
  have d1: "db_ok d1 \<and> needed ?n d1 e"
    using ok e old delete_old_read_entries_ok [OF ok] by (simp add: d1_def)
  then have d2: "db_ok d2 \<and> needed ?n d2 e"
    using trim trim_excess_entries_ok by (simp add: d2_def)
  then have "needed ?n d3 e" using needed_orphan by (simp add: d3_def)
  then have "needed ?n (if \<not> bad (Db_Call ''sessions'') then snd (delete_expired_sessions d3 (unix now)) else d3) e"
    by (simp add: needed_sessions)
  then show ?thesis
    unfolding collect_garbage_def Let_def by (simp only: flip: d1_def d2_def d3_def)
qed

lemma sub_keys_fold: "sub_keys (fold refresh_unread_count fs d) = sub_keys d"
  by (induction fs arbitrary: d) (simp_all only: fold_simps refresh_sub_keys)

lemma refresh_folders [simp]:
  "folders (fold refresh_unread_count fs d) = folders d"
  by (induction fs arbitrary: d) (simp_all add: refresh_unread_count_def)

lemma same_owners_refl: "same_owners d d"
  and same_owners_trans: "same_owners a b \<Longrightarrow> same_owners b c \<Longrightarrow> same_owners a c"
  by (simp_all add: same_owners_def)

lemma gc_owners: "gc_op op \<Longrightarrow> same_owners d (store_exec q d op)"
  by (cases op; rename_tac x; case_tac x)
    (auto simp: gc_op_def same_owners_def delete_old_read_entries_def trim_excess_entries_def sub_keys_fold
      delete_entries_and_refresh_def Let_def delete_orphan_feeds_def delete_expired_sessions_def orphan_def
      del_where_def list_ex_iff image_iff)

lemma write_backup_db [simp]: "uk_db (snd (write_backup bad enc cfg day s)) = uk_db s"
  by (simp add: write_backup_def Let_def split: sum.splits bool.splits prod.splits)

text \<open>
  C12. Upkeep spares the readers: whatever fails in a pass, and however long or short the
  retention is set, the database stays well formed, no account, token, invitation, folder, ignore word or
  subscription is lost, and neither is an entry of a subscribed feed that someone has pinned, or
  that someone has not read and that is within the limit of entries per feed.
\<close>

theorem upkeep_spares_readers:
  assumes ok: "db_ok (uk_db s)"
  shows "let d = uk_db s; d' = uk_db (maint_tick cal enc cfg s (bad, now)) in
    db_ok d' \<and> same_owners d d' \<and> (\<forall>e. needed (mc_per_feed cfg) d e \<longrightarrow> needed (mc_per_feed cfg) d' e)"
proof -
  let ?d = "collect_garbage bad cfg now (uk_db s)"
  have d: "uk_db (maint_tick cal enc cfg s (bad, now)) = ?d"
    by (simp add: maint_tick_def Let_def)
  have run: "runs gc_op no_quote (uk_db s) ?d" by (rule collect_garbage_runs)
  have "same_owners (uk_db s) ?d"
    by (rule runs_rel [OF run]) (auto intro: gc_owners same_owners_refl same_owners_trans)
  then show ?thesis using runs_ok [OF run ok] needed_garbage [OF ok] by (simp add: d Let_def)
qed

definition sample_maint :: maint_config where
  "sample_maint = \<lparr>mc_days = 30, mc_per_feed = 1000, mc_dir = ''b'', mc_keep = 7,
     mc_remote = Some \<lparr>rm_prefix = ''feedla/'', rm_keep = 5\<rparr>\<rparr>"

definition sample_upkeep :: upkeep where
  "sample_upkeep = \<lparr>uk_db = sample_db, uk_files = sample_dir, uk_bucket = []\<rparr>"

theorem upkeep_spares_readers_witness:
  "list_ex (\<lambda>e. ent_guid e = ''a'' \<and>
     needed 1000 (uk_db (maint_tick (\<lambda>_. ''20260104'') (\<lambda>_. []) sample_maint sample_upkeep (no_faults, 10 ^ 18))) e)
     (entries sample_db)"
proof -
  have "list_ex (\<lambda>e. ent_guid e = ''a'' \<and> needed 1000 sample_db e) (entries sample_db)" by code_simp
  moreover have "db_ok (uk_db sample_upkeep)" by (simp add: sample_upkeep_def sample_ok)
  note upkeep_spares_readers [OF this, of "\<lambda>_. ''20260104''" "\<lambda>_. []" sample_maint no_faults "10 ^ 18"]
  ultimately show ?thesis by (auto simp: list_ex_iff sample_upkeep_def sample_maint_def Let_def)
qed

text \<open>
  A retention of 106752 days or somewhat more is not long but none: the product of days and nanoseconds
  leaves the int64 range, and the limit lies in the future.
\<close>

theorem long_retention_wraps:
  "unix now < retention_limit (cfg\<lparr>mc_days := 106752\<rparr>) now"
proof -
  have "wrap64 (- 106752 * day_ns) = 9223371273709551616"
    by (simp add: wrap64_def day_ns_def hour_ns_def ns_sec_def)
  then show ?thesis by (simp add: retention_limit_def unix_def ns_sec_def)
qed

section \<open>What is backed up comes back\<close>

definition day_ok :: "string \<Rightarrow> bool" where
  \<comment> \<open>a day as the calendar prints it\<close>
  "day_ok day \<longleftrightarrow> length day = 8 \<and> list_all (\<lambda>c. digit_val c \<noteq> None) day"

lemma backup_name_daily:
  "day_ok day \<Longrightarrow> ext \<in> {''.db'', ''.opml'', ''.db.tmp''} \<Longrightarrow> backup_name (daily_name day ext) = Some (day, ext)"
  using cut_prefix_append [of "''feedla-''" "day @ ext"] by (auto simp: backup_name_def daily_name_def day_ok_def)

lemma is_snapshot_daily: "is_snapshot_name (daily_name day ''.db'')"
  using cut_prefix_append [of "''feedla-''" "day @ ''.db''"]
  by (simp add: is_snapshot_name_def daily_name_def has_suffix_iff)

lemma snapshot_named: "backup_name n = Some (x, ''.db'') \<Longrightarrow> is_snapshot_name n"
  by (auto simp: backup_name_def is_snapshot_name_def has_suffix_iff split: option.splits if_splits)
    (metis append_take_drop_id)

lemma daily_no_slash: "day_ok day \<Longrightarrow> CHR ''/'' \<notin> set (daily_name day ''.db'')"
  by (auto simp: daily_name_def day_ok_def list_all_iff digit_val_def)

lemma daily_db_opml [simp]: "daily_name day ''.db'' \<noteq> daily_name day ''.opml''"
  by (simp add: daily_name_def)

lemma write_backup_done:
  assumes "write_backup bad enc cfg day s = (Backup_Done, s')"
  obtains fs where
    "fs = put_file (in_dir (mc_dir cfg) (daily_name day ''.opml'')) (Text_File (export_opml enc (uk_db s) 1))
      (put_file (in_dir (mc_dir cfg) (daily_name day ''.db'')) (Db_Image (uk_db s))
        (drop_file (in_dir (mc_dir cfg) (daily_name day ''.db'') @ ''.tmp'') (uk_files s)))"
    "uk_files s' = snd (prune_local bad (mc_dir cfg) (mc_keep cfg) day fs)"
    "uk_bucket s' = mirror_backup bad cfg day (uk_files s') (uk_bucket s)"
  using assms by (auto simp: write_backup_def Let_def backup_to_def split: sum.splits bool.splits if_splits)

lemma daily_survives:
  assumes run: "write_backup bad enc cfg day s = (Backup_Done, s')" and day: "day_ok day"
    and rep: "distinct (map fst (uk_files s))"
    and newest: "\<forall>n \<in> set (dir_names (mc_dir cfg) (uk_files s)). is_snapshot_name n \<longrightarrow> n \<le> daily_name day ''.db''"
  shows "map_of (uk_files s') (in_dir (mc_dir cfg) (daily_name day ''.db'')) = Some (Db_Image (uk_db s)) \<and>
    (\<forall>n \<in> set (dir_names (mc_dir cfg) (uk_files s')). is_snapshot_name n \<longrightarrow> n \<le> daily_name day ''.db'')"
proof -
  let ?dir = "mc_dir cfg" and ?db = "daily_name day ''.db''"
  obtain fs where
    fs: "fs = put_file (in_dir ?dir (daily_name day ''.opml'')) (Text_File (export_opml enc (uk_db s) 1))
      (put_file (in_dir ?dir ?db) (Db_Image (uk_db s)) (drop_file (in_dir ?dir ?db @ ''.tmp'') (uk_files s)))"
    and fs': "uk_files s' = snd (prune_local bad ?dir (mc_keep cfg) day fs)"
    by (rule write_backup_done [OF run])
  have d: "distinct (map fst fs)" using rep by (simp add: fs distinct_put_file distinct_drop_file)
  have at: "map_of fs (in_dir ?dir ?db) = Some (Db_Image (uk_db s))" by (simp add: fs)
  have opml: "\<not> is_snapshot_name (daily_name day ''.opml'')"
    by (auto simp: is_snapshot_name_def daily_name_def cut_prefix_def has_suffix_iff split: option.splits if_splits)
  have le: "n \<le> ?db" if "n \<in> set (dir_names ?dir fs)" "is_snapshot_name n" for n
  proof (cases "n = ?db")
    case False
    moreover have "n \<noteq> daily_name day ''.opml''" using that(2) opml by auto
    ultimately have "map_of (uk_files s) (in_dir ?dir n) \<noteq> None"
      using that(1) by (auto simp: set_dir_names fs split: if_splits)
    then show ?thesis using newest that by (simp add: set_dir_names)
  qed simp
  have db: "?db \<in> set (snapshots_of ?dir ''.db'' fs)"
    using at day daily_no_slash [OF day] backup_name_daily [OF day, of "''.db''"]
    by (simp add: snapshots_of_in set_dir_names) (simp add: daily_name_def)
  have "\<not> ?db < m" if "m \<in> set (snapshots_of ?dir ''.db'' fs)" for m
    using that le [of m] snapshot_named [of m] by (auto simp: snapshots_of_in)
  then have none: "filter (\<lambda>m. ?db < m) (snapshots_of ?dir ''.db'' fs) = []" by (simp add: filter_empty_conv)
  have "?db \<notin> set (pruned_names ?dir (mc_keep cfg) day fs)"
    using in_pruned_names [OF d _ db] none by simp
  then have "map_of (uk_files s') (in_dir ?dir ?db) = Some (Db_Image (uk_db s))"
    using at by (auto simp: fs' map_of_prune_local)
  moreover have "n \<in> set (dir_names ?dir fs)" if "n \<in> set (dir_names ?dir (uk_files s'))" for n
    using that by (auto simp: set_dir_names fs' map_of_prune_local split: if_splits)
  ultimately show ?thesis using le by auto
qed

lemma base_name_slash: "CHR ''/'' \<notin> set n \<Longrightarrow> base_name (p @ CHR ''/'' # n) = n"
  by (simp add: base_name_def takeWhile_append)

lemma base_name_in_dir: "CHR ''/'' \<notin> set n \<Longrightarrow> base_name (in_dir dir n) = n"
  using base_name_slash [of n dir] by (simp add: in_dir_def)

lemma path_ext_daily: "path_ext (daily_name day ''.db'') = ''.db''" "path_ext (daily_name day ''.opml'') = ''.opml''"
  by (simp_all add: path_ext_def daily_name_def Let_def)

lemma delete_keys_subset: "set (map fst (snd (delete_keys bad ks b))) \<subseteq> set (map fst b)"
proof (induction ks arbitrary: b)
  case (Cons k ks)
  then show ?case using Cons.IH [of "drop_file k b"] by (auto simp: drop_file_def)
qed simp

lemma delete_keys_other: "k \<notin> set ks \<Longrightarrow> map_of (snd (delete_keys bad ks b)) k = map_of b k"
  by (induction ks arbitrary: b) auto

lemma remote_prune_subset: "set (map fst (snd (remote_prune bad R ext b))) \<subseteq> set (map fst b)"
  using delete_keys_subset by (auto simp: remote_prune_def)

lemma put_file_keys: "set (map fst (put_file k c b)) = insert k (set (map fst b))"
  by (force simp: put_file_def)

lemma remote_store_subset:
  "set (map fst (snd (remote_store bad R key path fs b))) \<subseteq> insert (rm_prefix R @ key) (set (map fst b))"
proof (cases "map_of fs path")
  case (Some c)
  have "set (map fst (snd (remote_prune bad R (path_ext key) (put_file (rm_prefix R @ key) c b))))
      \<subseteq> insert (rm_prefix R @ key) (set (map fst b))"
    using remote_prune_subset unfolding put_file_keys [of _ c, symmetric] .
  then show ?thesis using Some by (simp add: remote_store_def) blast
qed (simp add: remote_store_def, blast)

lemma mirror_backup_subset:
  assumes "mc_remote cfg = Some R"
  shows "set (map fst (mirror_backup bad cfg day fs b)) \<subseteq>
     {rm_prefix R @ daily_name day ''.db'', rm_prefix R @ daily_name day ''.opml''} \<union> set (map fst b)"
proof -
  let ?up = "\<lambda>ext b. snd (remote_store bad R (daily_name day ext) (in_dir (mc_dir cfg) (daily_name day ext)) fs b)"
  have "mirror_backup bad cfg day fs b = ?up ''.opml'' (?up ''.db'' b)"
    using assms by (simp add: mirror_backup_def)
  then show ?thesis
    using remote_store_subset [of bad R "daily_name day ''.opml''" _ fs "?up ''.db'' b"]
      remote_store_subset [of bad R "daily_name day ''.db''" _ fs b]
    by (simp only:) blast
qed

lemma opml_not_db: "\<not> has_suffix (p @ daily_name day ''.opml'') ''.db''"
proof
  assume "has_suffix (p @ daily_name day ''.opml'') ''.db''"
  then obtain r where "p @ daily_name day ''.opml'' = r @ ''.db''" by (auto simp: has_suffix_iff)
  then have "last (p @ daily_name day ''.opml'') = last (r @ ''.db'')" by simp
  then show False by (simp add: daily_name_def)
qed

definition clean_prefix :: "string \<Rightarrow> bool" where
  "clean_prefix p \<longleftrightarrow> p = [] \<or> last p = CHR ''/''"

lemma base_name_prefix:
  assumes "clean_prefix p" "CHR ''/'' \<notin> set n" "n \<noteq> []"
  shows "base_name (p @ n) = n"
proof (cases "p = []")
  case True
  have "takeWhile (\<lambda>c. c \<noteq> CHR ''/'') (rev n) = rev n"
    using assms(2) by (subst takeWhile_eq_all_conv) auto
  then show ?thesis unfolding base_name_def True by (simp only: append_Nil if_not_P [OF assms(3)] rev_rev_ident)
next
  case False
  then have "p = butlast p @ [CHR ''/'']" using assms(1) by (metis append_butlast_last_id clean_prefix_def)
  then show ?thesis using base_name_slash [OF assms(2), of "butlast p"] by (metis append.assoc append_Cons append_Nil)
qed

text \<open>
  C11. What was backed up comes back. When a pass reports its backup done and the database file is then
  lost, the next start restores exactly the database of the backup, provided the day's name is the
  newest in the directory and in the bucket, whose prefix is empty or ends in a slash. Uploading may
  have failed, and so may removing old files.
\<close>

theorem backup_restores:
  assumes run: "write_backup bad enc cfg day s = (Backup_Done, s')" and day: "day_ok day"
    and dir: "mc_dir cfg \<noteq> []" and rep: "distinct (map fst (uk_files s))"
    and newest: "\<forall>n \<in> set (dir_names (mc_dir cfg) (uk_files s)). is_snapshot_name n \<longrightarrow> n \<le> daily_name day ''.db''"
    and remote: "\<forall>R \<in> set_option (mc_remote cfg). clean_prefix (rm_prefix R) \<and>
      (\<forall>k \<in> set (keys_with R ''.db'' (uk_bucket s)). base_name k \<le> daily_name day ''.db'')"
    and lost: "map_of (uk_files s') path = None"
  shows "let (ok, fs) = restore_if_missing no_faults \<lparr>rs_dir = mc_dir cfg, rs_remote = mc_remote cfg\<rparr> path
      (uk_bucket s') (uk_files s') in ok \<and> map_of fs path = Some (Db_Image (uk_db s))"
proof -
  let ?dir = "mc_dir cfg" and ?db = "daily_name day ''.db''" and ?fs = "uk_files s'"
  let ?cfg = "\<lparr>rs_dir = mc_dir cfg, rs_remote = mc_remote cfg\<rparr>" and ?b = "uk_bucket s'"
  note survives = daily_survives [OF run day rep newest]
  have slash: "CHR ''/'' \<notin> set ?db" and ne: "?db \<noteq> []" using day by (simp_all add: daily_no_slash) (simp add: daily_name_def)
  have "?db \<in> set (dir_names ?dir ?fs)" using survives slash ne by (simp add: set_dir_names)
  from last_filter_dir_names [OF this, of is_snapshot_name]
  have local: "latest_local ?dir ?fs = Some (in_dir ?dir ?db)"
    using survives is_snapshot_daily by (auto simp: latest_local_def split: list.splits)
  have old: "base_name k \<le> ?db" if R: "mc_remote cfg = Some R" and k: "k \<in> set (keys_with R ''.db'' ?b)" for R k
  proof -
    obtain fs where b: "?b = mirror_backup bad cfg day ?fs (uk_bucket s)" by (rule write_backup_done [OF run])
    have "k = rm_prefix R @ ?db \<or> k \<in> set (keys_with R ''.db'' (uk_bucket s))"
      using k opml_not_db mirror_backup_subset [OF R, of bad day ?fs "uk_bucket s"] by (auto simp: keys_with_def b)
    then show ?thesis using remote R base_name_prefix [OF _ slash ne] by auto
  qed
  have "latest_snapshot no_faults ?cfg ?fs ?b = Inr (Some (Local_Snapshot (in_dir ?dir ?db)))"
  proof (cases "mc_remote cfg")
    case (Some R)
    have "base_name (last (sort (keys_with R ''.db'' ?b))) \<le> ?db" if "keys_with R ''.db'' ?b \<noteq> []"
      using old [OF Some] last_in_set [of "sort (keys_with R ''.db'' ?b)"] that by (metis set_empty set_sort)
    then show ?thesis
      using Some local dir slash
      by (auto simp: latest_snapshot_def remote_latest_def no_faults_def snapshot_base_def base_name_in_dir
          split: list.splits)
  qed (use local dir in \<open>simp add: latest_snapshot_def\<close>)
  then show ?thesis
    using lost survives
    by (simp add: restore_if_missing_def fetch_snapshot_def copy_file_def write_via_tmp_def no_faults_def)
qed

definition sample_claimed :: upkeep where
  \<comment> \<open>the first account has a password\<close>
  "sample_claimed = sample_upkeep\<lparr>uk_db := sample_db\<lparr>users := upd_where (\<lambda>u. True) (\<lambda>u. u\<lparr>usr_hash := ''hash''\<rparr>) (users sample_db)\<rparr>,
     uk_files := [(''b/feedla-20260103.db'', Text_File ''three'')]\<rparr>"

theorem backup_restores_witness:
  "let s' = snd (write_backup no_faults (\<lambda>_. []) sample_maint ''20260104'' sample_claimed) in
    map_of (snd (restore_if_missing no_faults \<lparr>rs_dir = ''b'', rs_remote = mc_remote sample_maint\<rparr> ''feedla.db''
      (uk_bucket s') (uk_files s'))) ''feedla.db'' = Some (Db_Image (uk_db sample_claimed))"
proof -
  let ?r = "write_backup no_faults (\<lambda>_. []) sample_maint ''20260104'' sample_claimed"
  have "is_setup_pending (uk_db sample_claimed) 1 = Inr False" by code_simp
  then have ended: "fst ?r = Backup_Done"
    by (simp add: write_backup_def no_faults_def backup_to_def Let_def)
  moreover have "map_of (uk_files (snd ?r)) ''feedla.db'' = None"
    by (rule write_backup_done [of no_faults "\<lambda>_. []" sample_maint "''20260104''" sample_claimed "snd ?r"])
      (use ended in \<open>simp_all add: prod_eq_iff map_of_prune_local in_dir_def sample_maint_def sample_claimed_def\<close>)
  moreover have "day_ok ''20260104''" "mc_dir sample_maint \<noteq> []" "distinct (map fst (uk_files sample_claimed))"
    by code_simp+
  moreover have "list_all (\<lambda>n. is_snapshot_name n \<longrightarrow> n \<le> daily_name ''20260104'' ''.db'')
      (dir_names (mc_dir sample_maint) (uk_files sample_claimed))" by code_simp
  moreover have "uk_bucket sample_claimed = []" "\<forall>R \<in> set_option (mc_remote sample_maint). clean_prefix (rm_prefix R)"
    by (simp_all add: sample_claimed_def sample_upkeep_def sample_maint_def clean_prefix_def)
  ultimately show ?thesis
    using backup_restores [of no_faults "\<lambda>_. []" sample_maint "''20260104''" sample_claimed "snd ?r" "''feedla.db''"]
    by (simp add: list_all_iff keys_with_def prod_eq_iff case_prod_beta Let_def sample_maint_def)
qed

section \<open>What else may come back\<close>

lemma daily_below_manual:
  assumes "backup_name n = Some (day, ext)"
  shows "n < ''feedla-manual.db''"
proof -
  obtain r where n: "n = ''feedla-'' @ r" and r: "8 \<le> length r" "list_all (\<lambda>c. digit_val c \<noteq> None) (take 8 r)"
    using assms by (auto simp: backup_name_def cut_prefix_Some_iff split: option.splits if_splits)
  then obtain c r' where "r = c # r'" "digit_val c \<noteq> None" by (cases r) auto
  moreover from this(2) have "c < CHR ''m''" by (auto simp: digit_val_def less_char_def Let_def split: if_splits)
  ultimately show ?thesis by (simp add: n)
qed

text \<open>
  A snapshot an operator has put beside the daily ones under a name such as
  feedla-manual.db is taken for the latest, however old it is.
\<close>

theorem manual_snapshot_shadows:
  assumes "''feedla-manual.db'' \<in> set (dir_names dir fs)"
    and "\<And>n. n \<in> set (dir_names dir fs) \<Longrightarrow> n \<noteq> ''feedla-manual.db'' \<Longrightarrow> backup_name n \<noteq> None"
  shows "latest_local dir fs = Some (in_dir dir ''feedla-manual.db'')"
proof -
  have "is_snapshot_name ''feedla-manual.db''" by code_simp
  moreover have "n \<le> ''feedla-manual.db''" if "n \<in> set (dir_names dir fs)" for n
    using assms(2) [OF that] daily_below_manual [of n] by force
  ultimately show ?thesis
    using last_filter_dir_names [OF assms(1), of is_snapshot_name]
    by (auto simp: latest_local_def split: list.splits)
qed

text \<open>
  With a key prefix that does not end in a slash the names compared are not those of the snapshots:
  the old one in the bucket is taken for newer than the one on disk.
\<close>

theorem bucket_prefix_shadows:
  "latest_snapshot no_faults \<lparr>rs_dir = ''b'', rs_remote = Some \<lparr>rm_prefix = ''prod-'', rm_keep = 5\<rparr>\<rparr>
     [(''b/feedla-20260105.db'', Text_File ''new'')] [(''prod-feedla-20260101.db'', Text_File ''old'')]
   = Inr (Some (Remote_Snapshot ''prod-feedla-20260101.db''))"
  by code_simp

end
