(* ===== verification/Config.thy ===== *)
theory Config
  imports Api
begin

text \<open>
  \<open>internal/config\<close>: the FR_ variables of the environment. The environment is an
  argument, as os.LookupEnv gives it; numbers are read by strconv.Atoi and durations by time.ParseDuration,
  whose fractions go through doubles.
\<close>

section \<open>Durations\<close>

fun leading_int :: "int \<Rightarrow> string \<Rightarrow> (int \<times> string) option" where
  "leading_int x [] = Some (x, [])"
| "leading_int x (c # cs) =
     (case digit_val c of
        None \<Rightarrow> Some (x, c # cs)
      | Some n \<Rightarrow>
          if 2 ^ 63 div 10 < x then None
          else if 2 ^ 63 < 10 * x + n then None
          else leading_int (10 * x + n) cs)"

fun leading_fraction :: "int \<Rightarrow> int \<Rightarrow> bool \<Rightarrow> string \<Rightarrow> int \<times> int \<times> string" where
  \<comment> \<open>digits, the power of ten they are over, and the rest; further digits are dropped after an overflow\<close>
  "leading_fraction x scale over [] = (x, scale, [])"
| "leading_fraction x scale over (c # cs) =
     (case digit_val c of
        None \<Rightarrow> (x, scale, c # cs)
      | Some n \<Rightarrow>
          if over \<or> (2 ^ 63 - 1) div 10 < x \<or> 2 ^ 63 < 10 * x + n then leading_fraction x scale True cs
          else leading_fraction (10 * x + n) (10 * scale) False cs)"

definition duration_units :: "(string \<times> int) list" where
  \<comment> \<open>the micro sign and the letter mu stand for u too\<close>
  "duration_units =
     [(''ns'', 1), (''us'', 1000), ([CHR 0xC2, CHR 0xB5, CHR ''s''], 1000), ([CHR 0xCE, CHR 0xBC, CHR ''s''], 1000),
      (''ms'', 1000000), (''s'', 1000000000), (''m'', 60000000000), (''h'', 3600000000000)]"

definition ratio53 :: "int \<Rightarrow> int \<Rightarrow> int" where
  \<comment> \<open>the double nearest to a quotient of positive numbers, times 2 ^ 128\<close>
  "ratio53 a b = round53 (2 * (2 ^ 127 * a div b) + of_bool (\<not> b dvd 2 ^ 127 * a))"

definition fraction_ns :: "int \<Rightarrow> int \<Rightarrow> int \<Rightarrow> int" where
  \<comment> \<open>uint64(float64(f) * (float64(unit) / scale))\<close>
  "fraction_ns f unit scale = round53 (round53 f * ratio53 unit scale) div 2 ^ 128"

definition starts_number :: "char \<Rightarrow> bool" where
  "starts_number c \<longleftrightarrow> c = CHR ''.'' \<or> digit_val c \<noteq> None"

definition duration_group :: "string \<Rightarrow> (int \<times> string) option" where
  \<comment> \<open>one number with its unit, and the rest\<close>
  "duration_group s =
     (if s = [] \<or> \<not> starts_number (hd s) then None
      else case leading_int 0 s of
        None \<Rightarrow> None
      | Some (v, s1) \<Rightarrow>
          let (f, scale, s2) = (if s1 \<noteq> [] \<and> hd s1 = CHR ''.'' then leading_fraction 0 1 False (tl s1) else (0, 1, s1));
              post = (s1 \<noteq> [] \<and> hd s1 = CHR ''.'' \<and> length s2 \<noteq> length (tl s1));
              u = takeWhile (\<lambda>c. \<not> starts_number c) s2
          in if length s1 = length s \<and> \<not> post then None
             else if u = [] then None
             else case map_of duration_units u of
               None \<Rightarrow> None
             | Some unit \<Rightarrow>
                 if 2 ^ 63 div unit < v then None
                 else
                   let w = v * unit + (if 0 < f then fraction_ns f unit scale else 0)
                   in if 2 ^ 63 < w then None else Some (w, dropWhile (\<lambda>c. \<not> starts_number c) s2))"

lemma leading_int_length: "leading_int x s = Some (v, r) \<Longrightarrow> length r \<le> length s"
  by (induction x s rule: leading_int.induct) (auto split: option.splits if_splits)

lemma leading_fraction_length: "leading_fraction x sc ov s = (f, sc', r) \<Longrightarrow> length r \<le> length s"
  by (induction x sc ov s rule: leading_fraction.induct) (auto split: option.splits if_splits)

lemma duration_group_shorter: "duration_group s = Some (w, r) \<Longrightarrow> length r < length s"
proof -
  assume g: "duration_group s = Some (w, r)"
  then obtain v s1 where i: "leading_int 0 s = Some (v, s1)"
    by (auto simp: duration_group_def split: if_splits option.splits)
  obtain f scale s2 where fr: "(if s1 \<noteq> [] \<and> hd s1 = CHR ''.'' then leading_fraction 0 1 False (tl s1) else (0, 1, s1)) = (f, scale, s2)"
    by (metis prod_cases3)
  have "length s2 \<le> length s1"
    using fr leading_fraction_length [of 0 1 False "tl s1" f scale s2] by (auto split: if_splits)
  moreover have "r = dropWhile (\<lambda>c. \<not> starts_number c) s2" "takeWhile (\<lambda>c. \<not> starts_number c) s2 \<noteq> []"
    using g i fr by (auto simp: duration_group_def Let_def split: if_splits option.splits)
  moreover from this(2) have "length (dropWhile (\<lambda>c. \<not> starts_number c) s2) < length s2"
    by (cases s2) (auto simp: less_Suc_eq_le length_dropWhile_le split: if_splits)
  ultimately show ?thesis using leading_int_length [OF i] by simp
qed

function duration_groups :: "int \<Rightarrow> string \<Rightarrow> int option" where
  \<comment> \<open>the sum, an unsigned 64-bit number up to 2 ^ 63\<close>
  "duration_groups d s =
     (if s = [] then Some d
      else case duration_group s of
        None \<Rightarrow> None
      | Some (w, r) \<Rightarrow> if 2 ^ 63 < d + w then None else duration_groups (d + w) r)"
  by pat_completeness auto
termination
  by (relation "measure (\<lambda>(d, s). length s)") (auto dest: duration_group_shorter)

declare duration_groups.simps [simp del]

definition parse_duration :: "string \<Rightarrow> int option" where
  \<comment> \<open>time.ParseDuration\<close>
  "parse_duration s =
     (let neg = (s \<noteq> [] \<and> hd s = CHR ''-'');
          r = (if s \<noteq> [] \<and> (hd s = CHR ''-'' \<or> hd s = CHR ''+'') then tl s else s)
      in if r = ''0'' then Some 0
         else if r = [] then None
         else case duration_groups 0 r of
           None \<Rightarrow> None
         | Some d \<Rightarrow> if neg then Some (- d) else if 2 ^ 63 - 1 < d then None else Some d)"

lemma durations_parsed:
  "map parse_duration [''12h'', ''1h30m'', ''-1.5s'', ''0'', ''1'', ''1h '']
   = [Some 43200000000000, Some 5400000000000, Some (- 1500000000), Some 0, None, None]"
  by code_simp

section \<open>The configuration\<close>

record user_quota = quota +
  qt_add :: int
  qt_refresh :: int
  qt_preview :: int
  qt_api :: int

record backup_remote =
  br_endpoint :: string
  br_region :: string
  br_bucket :: string
  br_access :: string
  br_secret :: string
  br_prefix :: string
  br_generations :: int

record config =
  cg_listen :: string
  cg_db :: string
  cg_concurrency :: int
  cg_min :: int
  cg_max :: int
  cg_days :: int
  cg_per_feed :: int
  cg_backup_dir :: string
  cg_generations :: int
  cg_remote :: backup_remote
  cg_agent :: string
  cg_log :: string
  cg_cookie :: string
  cg_origin :: string
  cg_metrics :: string
  cg_quota :: user_quota

datatype config_error =
  Bad_Cookie string | Bad_Int string string | Bad_Duration string string | Remote_Needs_Dir | Remote_Needs_Keys

type_synonym environ = "string \<Rightarrow> string option"

definition get_env :: "environ \<Rightarrow> string \<Rightarrow> string \<Rightarrow> string" where
  "get_env env key def = (case env key of Some v \<Rightarrow> if v \<noteq> [] then v else def | None \<Rightarrow> def)"

definition get_env_int :: "environ \<Rightarrow> string \<Rightarrow> int \<Rightarrow> config_error + int" where
  "get_env_int env key def =
     (case env key of
        None \<Rightarrow> Inr def
      | Some v \<Rightarrow>
          if v = [] then Inr def
          else case atoi v of None \<Rightarrow> Inl (Bad_Int key v) | Some n \<Rightarrow> Inr n)"

definition get_env_duration :: "environ \<Rightarrow> string \<Rightarrow> int \<Rightarrow> config_error + int" where
  "get_env_duration env key def =
     (case env key of
        None \<Rightarrow> Inr def
      | Some v \<Rightarrow>
          if v = [] then Inr def
          else case parse_duration v of None \<Rightarrow> Inl (Bad_Duration key v) | Some n \<Rightarrow> Inr n)"

definition then_do :: "'e + 'a \<Rightarrow> ('a \<Rightarrow> 'e + 'b) \<Rightarrow> 'e + 'b" where
  \<comment> \<open>if err != nil return err\<close>
  "then_do r k = (case r of Inl e \<Rightarrow> Inl e | Inr x \<Rightarrow> k x)"

definition env_strings :: "environ \<Rightarrow> config" where
  \<comment> \<open>the literal Load starts from: texts and defaults\<close>
  "env_strings env =
     \<lparr>cg_listen = get_env env ''FR_LISTEN'' ''127.0.0.1:8080'',
      cg_db = get_env env ''FR_DB_PATH'' ''feedla.db'',
      cg_concurrency = 32, cg_min = 0, cg_max = 0, cg_days = 30, cg_per_feed = 1000,
      cg_backup_dir = get_env env ''FR_BACKUP_DIR'' [],
      cg_generations = 7,
      cg_remote =
        \<lparr>br_endpoint = get_env env ''FR_BACKUP_REMOTE_ENDPOINT'' [],
         br_region = get_env env ''FR_BACKUP_REMOTE_REGION'' ''jp-north-1'',
         br_bucket = get_env env ''FR_BACKUP_REMOTE_BUCKET'' [],
         br_access = get_env env ''FR_BACKUP_REMOTE_ACCESS_KEY'' [],
         br_secret = get_env env ''FR_BACKUP_REMOTE_SECRET_KEY'' [],
         br_prefix = get_env env ''FR_BACKUP_REMOTE_PREFIX'' ''feedla/'',
         br_generations = 5\<rparr>,
      cg_agent = get_env env ''FR_USER_AGENT'' ''feedla/0.1'',
      cg_log = get_env env ''FR_LOG_LEVEL'' ''info'',
      cg_cookie = get_env env ''FR_COOKIE_SECURE'' ''auto'',
      cg_origin = get_env env ''FR_PUBLIC_ORIGIN'' [],
      cg_metrics = get_env env ''FR_METRICS_TOKEN'' [],
      cg_quota =
        \<lparr>qt_subs = 2000, qt_pins = 10000, qt_scrapes = 50, qt_words = 1000, qt_opml = 2000,
         qt_add = 60, qt_refresh = 30, qt_preview = 30, qt_api = 600\<rparr>\<rparr>"

definition load_retention :: "environ \<Rightarrow> config \<Rightarrow> config_error + config" where
  "load_retention env c =
     then_do (get_env_int env ''FR_FETCH_CONCURRENCY'' (cg_concurrency c)) (\<lambda>concurrency.
     then_do (get_env_int env ''FR_RETENTION_DAYS'' (cg_days c)) (\<lambda>days.
     then_do (get_env_int env ''FR_RETENTION_PER_FEED'' (cg_per_feed c)) (\<lambda>per_feed.
     then_do (get_env_int env ''FR_BACKUP_GENERATIONS'' (cg_generations c)) (\<lambda>generations.
     then_do (get_env_int env ''FR_BACKUP_REMOTE_GENERATIONS'' (br_generations (cg_remote c))) (\<lambda>remote.
       Inr (c\<lparr>cg_concurrency := concurrency, cg_days := days, cg_per_feed := per_feed, cg_generations := generations,
         cg_remote := (cg_remote c)\<lparr>br_generations := remote\<rparr>\<rparr>))))))"

definition check_remote :: "config \<Rightarrow> config_error + config" where
  "check_remote c =
     (let R = cg_remote c in
      if br_endpoint R \<noteq> [] then
        if cg_backup_dir c = [] then Inl Remote_Needs_Dir
        else if br_bucket R = [] \<or> br_access R = [] \<or> br_secret R = [] then Inl Remote_Needs_Keys
        else Inr c
      else Inr c)"

definition load_intervals :: "environ \<Rightarrow> config \<Rightarrow> config_error + config" where
  "load_intervals env c =
     then_do (get_env_duration env ''FR_FETCH_MIN_INTERVAL'' (10 * 60 * ns_sec)) (\<lambda>least.
     then_do (get_env_duration env ''FR_FETCH_MAX_INTERVAL'' (12 * 3600 * ns_sec)) (\<lambda>most.
       Inr (c\<lparr>cg_min := least, cg_max := most\<rparr>)))"

definition load_quota :: "environ \<Rightarrow> user_quota \<Rightarrow> config_error + user_quota" where
  "load_quota env q =
     then_do (get_env_int env ''FR_QUOTA_MAX_SUBSCRIPTIONS'' (qt_subs q)) (\<lambda>subscriptions.
     then_do (get_env_int env ''FR_QUOTA_MAX_SCRAPE_SOURCES'' (qt_scrapes q)) (\<lambda>sources.
     then_do (get_env_int env ''FR_QUOTA_MAX_PINS'' (qt_pins q)) (\<lambda>pins_max.
     then_do (get_env_int env ''FR_QUOTA_MAX_IGNORE_WORDS'' (qt_words q)) (\<lambda>words_max.
     then_do (get_env_int env ''FR_QUOTA_OPML_MAX_FEEDS'' (qt_opml q)) (\<lambda>opml.
     then_do (get_env_int env ''FR_QUOTA_FEED_ADD_PER_HOUR'' (qt_add q)) (\<lambda>adds.
     then_do (get_env_int env ''FR_QUOTA_REFRESH_PER_HOUR'' (qt_refresh q)) (\<lambda>refreshes.
     then_do (get_env_int env ''FR_QUOTA_PREVIEW_PER_HOUR'' (qt_preview q)) (\<lambda>previews.
     then_do (get_env_int env ''FR_QUOTA_API_PER_MINUTE'' (qt_api q)) (\<lambda>api.
       Inr (q\<lparr>qt_subs := subscriptions, qt_scrapes := sources, qt_pins := pins_max, qt_words := words_max,
         qt_opml := opml, qt_add := adds, qt_refresh := refreshes, qt_preview := previews, qt_api := api\<rparr>))))))))))"

definition load_config :: "environ \<Rightarrow> config_error + config" where
  "load_config env =
     (let c = env_strings env in
      if cg_cookie c \<notin> {''auto'', ''true'', ''false''} then Inl (Bad_Cookie (cg_cookie c))
      else
        then_do (load_retention env c) (\<lambda>c.
        then_do (check_remote c) (\<lambda>c.
        then_do (load_intervals env c) (\<lambda>c.
        then_do (load_quota env (cg_quota c)) (\<lambda>q. Inr (c\<lparr>cg_quota := q\<rparr>))))))"

section \<open>What is accepted\<close>

lemma then_do_simps [simp]: "then_do (Inl e) k = Inl e" "then_do (Inr x) k = k x"
  by (simp_all add: then_do_def)

lemma then_do_Inr: "then_do r k = Inr y \<longleftrightarrow> (\<exists>x. r = Inr x \<and> k x = Inr y)"
  by (cases r) auto

definition int_vars :: "string list" where
  "int_vars =
     [''FR_FETCH_CONCURRENCY'', ''FR_RETENTION_DAYS'', ''FR_RETENTION_PER_FEED'', ''FR_BACKUP_GENERATIONS'',
      ''FR_BACKUP_REMOTE_GENERATIONS'', ''FR_QUOTA_MAX_SUBSCRIPTIONS'', ''FR_QUOTA_MAX_SCRAPE_SOURCES'',
      ''FR_QUOTA_MAX_PINS'', ''FR_QUOTA_MAX_IGNORE_WORDS'', ''FR_QUOTA_OPML_MAX_FEEDS'', ''FR_QUOTA_FEED_ADD_PER_HOUR'',
      ''FR_QUOTA_REFRESH_PER_HOUR'', ''FR_QUOTA_PREVIEW_PER_HOUR'', ''FR_QUOTA_API_PER_MINUTE'']"

definition duration_vars :: "string list" where
  "duration_vars = [''FR_FETCH_MIN_INTERVAL'', ''FR_FETCH_MAX_INTERVAL'']"

definition unset_or :: "(string \<Rightarrow> bool) \<Rightarrow> environ \<Rightarrow> string \<Rightarrow> bool" where
  \<comment> \<open>an empty variable counts as unset\<close>
  "unset_or P env k \<longleftrightarrow> get_env env k [] = [] \<or> P (get_env env k [])"

definition remote_complete :: "environ \<Rightarrow> bool" where
  "remote_complete env \<longleftrightarrow>
     get_env env ''FR_BACKUP_REMOTE_ENDPOINT'' [] = [] \<or>
     list_all (\<lambda>k. get_env env k [] \<noteq> [])
       [''FR_BACKUP_DIR'', ''FR_BACKUP_REMOTE_BUCKET'', ''FR_BACKUP_REMOTE_ACCESS_KEY'', ''FR_BACKUP_REMOTE_SECRET_KEY'']"

definition env_ok :: "environ \<Rightarrow> bool" where
  "env_ok env \<longleftrightarrow>
     unset_or (\<lambda>v. v \<in> {''auto'', ''true'', ''false''}) env ''FR_COOKIE_SECURE'' \<and>
     list_all (unset_or (\<lambda>v. atoi v \<noteq> None) env) int_vars \<and>
     list_all (unset_or (\<lambda>v. parse_duration v \<noteq> None) env) duration_vars \<and> remote_complete env"

definition blames :: "environ \<Rightarrow> config_error \<Rightarrow> bool" where
  \<comment> \<open>the error names a variable that is set to something wrong, or what is missing\<close>
  "blames env e \<longleftrightarrow>
     (case e of
        Bad_Cookie v \<Rightarrow> get_env env ''FR_COOKIE_SECURE'' [] = v \<and> v \<notin> {[], ''auto'', ''true'', ''false''}
      | Bad_Int k v \<Rightarrow> k \<in> set int_vars \<and> get_env env k [] = v \<and> v \<noteq> [] \<and> atoi v = None
      | Bad_Duration k v \<Rightarrow> k \<in> set duration_vars \<and> get_env env k [] = v \<and> v \<noteq> [] \<and> parse_duration v = None
      | _ \<Rightarrow> \<not> remote_complete env)"

definition int_of_var :: "environ \<Rightarrow> string \<Rightarrow> int \<Rightarrow> int" where
  "int_of_var env k def = (if get_env env k [] = [] then def else the (atoi (get_env env k [])))"

lemma get_env_int_eq:
  "get_env_int env k def =
     (if unset_or (\<lambda>v. atoi v \<noteq> None) env k then Inr (int_of_var env k def) else Inl (Bad_Int k (get_env env k [])))"
  by (auto simp: get_env_int_def unset_or_def get_env_def int_of_var_def split: option.splits)

lemma get_env_duration_ok:
  "(\<exists>n. get_env_duration env k def = Inr n) \<or> get_env_duration env k def = Inl (Bad_Duration k (get_env env k []))"
  "(\<exists>n. get_env_duration env k def = Inr n) \<longleftrightarrow> unset_or (\<lambda>v. parse_duration v \<noteq> None) env k"
  by (auto simp: get_env_duration_def unset_or_def get_env_def split: option.splits)

lemma cookie_default: "get_env env k (c # cs) = (if get_env env k [] = [] then c # cs else get_env env k [])"
  by (auto simp: get_env_def split: option.splits)

definition int_ok :: "environ \<Rightarrow> string \<Rightarrow> bool" where
  "int_ok env = unset_or (\<lambda>v. atoi v \<noteq> None) env"

lemma get_env_int_if:
  "get_env_int env k def = (if int_ok env k then Inr (int_of_var env k def) else Inl (Bad_Int k (get_env env k [])))"
  by (simp add: get_env_int_eq int_ok_def)

definition checked :: "environ \<Rightarrow> ('a \<Rightarrow> bool) \<Rightarrow> config_error + 'a \<Rightarrow> bool" where
  \<comment> \<open>a justified error, or a result with a property\<close>
  "checked env Q r \<longleftrightarrow> (case r of Inl e \<Rightarrow> \<not> env_ok env \<and> blames env e | Inr x \<Rightarrow> Q x)"

lemma checked_simps [simp]:
  "checked env Q (Inr x) = Q x" "checked env Q (Inl e) \<longleftrightarrow> \<not> env_ok env \<and> blames env e"
  by (simp_all add: checked_def)

lemma checked_then: "checked env R r \<Longrightarrow> (\<And>x. R x \<Longrightarrow> checked env Q (k x)) \<Longrightarrow> checked env Q (then_do r k)"
  by (cases r) auto

lemma checked_mono: "checked env R r \<Longrightarrow> (\<And>x. R x \<Longrightarrow> Q x) \<Longrightarrow> checked env Q r"
  by (cases r) auto

lemma checked_int:
  "k \<in> set int_vars \<Longrightarrow> checked env (\<lambda>n. int_ok env k \<and> n = int_of_var env k def) (get_env_int env k def)"
  by (auto simp: get_env_int_if env_ok_def blames_def int_ok_def unset_or_def list_all_iff)

lemma checked_duration:
  assumes "k \<in> set duration_vars"
  shows "checked env (\<lambda>n. unset_or (\<lambda>v. parse_duration v \<noteq> None) env k \<and> get_env_duration env k def = Inr n)
    (get_env_duration env k def)"
  using get_env_duration_ok [of env k def] assms
  by (cases "get_env_duration env k def") (auto simp: env_ok_def blames_def unset_or_def list_all_iff)

definition read_as :: "environ \<Rightarrow> (string \<times> int \<times> int) list \<Rightarrow> bool" where
  \<comment> \<open>variables with what became of them and their defaults\<close>
  "read_as env = list_all (\<lambda>(k, n, def). int_ok env k \<and> n = int_of_var env k def)"

definition retention_vars :: "config \<Rightarrow> config \<Rightarrow> (string \<times> int \<times> int) list" where
  "retention_vars c def =
     [(''FR_FETCH_CONCURRENCY'', cg_concurrency c, cg_concurrency def), (''FR_RETENTION_DAYS'', cg_days c, cg_days def),
        (''FR_RETENTION_PER_FEED'', cg_per_feed c, cg_per_feed def), (''FR_BACKUP_GENERATIONS'', cg_generations c, cg_generations def),
        (''FR_BACKUP_REMOTE_GENERATIONS'', br_generations (cg_remote c), br_generations (cg_remote def))]"

definition quota_vars :: "user_quota \<Rightarrow> user_quota \<Rightarrow> (string \<times> int \<times> int) list" where
  "quota_vars q def =
     [(''FR_QUOTA_MAX_SUBSCRIPTIONS'', qt_subs q, qt_subs def), (''FR_QUOTA_MAX_SCRAPE_SOURCES'', qt_scrapes q, qt_scrapes def),
        (''FR_QUOTA_MAX_PINS'', qt_pins q, qt_pins def), (''FR_QUOTA_MAX_IGNORE_WORDS'', qt_words q, qt_words def),
        (''FR_QUOTA_OPML_MAX_FEEDS'', qt_opml q, qt_opml def), (''FR_QUOTA_FEED_ADD_PER_HOUR'', qt_add q, qt_add def),
        (''FR_QUOTA_REFRESH_PER_HOUR'', qt_refresh q, qt_refresh def), (''FR_QUOTA_PREVIEW_PER_HOUR'', qt_preview q, qt_preview def),
        (''FR_QUOTA_API_PER_MINUTE'', qt_api q, qt_api def)]"

lemma load_retention_checked:
  "checked env (\<lambda>c'. read_as env
       (retention_vars c' c)
     \<and> c' = c\<lparr>cg_concurrency := cg_concurrency c', cg_days := cg_days c', cg_per_feed := cg_per_feed c',
          cg_generations := cg_generations c', cg_remote := (cg_remote c)\<lparr>br_generations := br_generations (cg_remote c')\<rparr>\<rparr>)
     (load_retention env c)"
  unfolding load_retention_def
  by (rule checked_then [OF checked_int], simp add: int_vars_def)+ (simp add: read_as_def retention_vars_def)

lemma load_quota_checked:
  "checked env (\<lambda>q'. read_as env
       (quota_vars q' q))
     (load_quota env q)"
  unfolding load_quota_def
  by (rule checked_then [OF checked_int], simp add: int_vars_def)+ (simp add: read_as_def quota_vars_def)

lemma load_intervals_checked:
  "checked env (\<lambda>c'. list_all (unset_or (\<lambda>v. parse_duration v \<noteq> None) env) duration_vars
        \<and> get_env_duration env ''FR_FETCH_MIN_INTERVAL'' (600 * ns_sec) = Inr (cg_min c')
        \<and> get_env_duration env ''FR_FETCH_MAX_INTERVAL'' (43200 * ns_sec) = Inr (cg_max c')
        \<and> c' = c\<lparr>cg_min := cg_min c', cg_max := cg_max c'\<rparr>) (load_intervals env c)"
  unfolding load_intervals_def
  by (rule checked_then [OF checked_duration], simp add: duration_vars_def)+ (simp add: duration_vars_def)

lemma check_remote_checked:
  assumes "cg_backup_dir c = get_env env ''FR_BACKUP_DIR'' []" "br_endpoint (cg_remote c) = get_env env ''FR_BACKUP_REMOTE_ENDPOINT'' []"
    "br_bucket (cg_remote c) = get_env env ''FR_BACKUP_REMOTE_BUCKET'' []"
    "br_access (cg_remote c) = get_env env ''FR_BACKUP_REMOTE_ACCESS_KEY'' []"
    "br_secret (cg_remote c) = get_env env ''FR_BACKUP_REMOTE_SECRET_KEY'' []"
  shows "checked env (\<lambda>c'. c' = c \<and> remote_complete env) (check_remote c)"
  using assms by (auto simp: check_remote_def remote_complete_def env_ok_def blames_def Let_def)

definition durations_read :: "environ \<Rightarrow> config \<Rightarrow> bool" where
  "durations_read env c \<longleftrightarrow>
     get_env_duration env ''FR_FETCH_MIN_INTERVAL'' (600 * ns_sec) = Inr (cg_min c) \<and>
     get_env_duration env ''FR_FETCH_MAX_INTERVAL'' (43200 * ns_sec) = Inr (cg_max c)"

definition numbers_read :: "environ \<Rightarrow> config \<Rightarrow> bool" where
  \<comment> \<open>every number is that of its variable, or the default\<close>
  "numbers_read env c \<longleftrightarrow>
     read_as env (retention_vars c (env_strings env)) \<and>
     read_as env (quota_vars (cg_quota c) (cg_quota (env_strings env))) \<and> durations_read env c"

definition load_rest :: "environ \<Rightarrow> config \<Rightarrow> config_error + config" where
  \<comment> \<open>what Load does once the retention is read\<close>
  "load_rest env c =
     then_do (check_remote c) (\<lambda>c.
     then_do (load_intervals env c) (\<lambda>c.
     then_do (load_quota env (cg_quota c)) (\<lambda>q. Inr (c\<lparr>cg_quota := q\<rparr>))))"

lemma load_rest_checked:
  assumes "cg_backup_dir c = get_env env ''FR_BACKUP_DIR'' []" "br_endpoint (cg_remote c) = get_env env ''FR_BACKUP_REMOTE_ENDPOINT'' []"
    "br_bucket (cg_remote c) = get_env env ''FR_BACKUP_REMOTE_BUCKET'' []"
    "br_access (cg_remote c) = get_env env ''FR_BACKUP_REMOTE_ACCESS_KEY'' []"
    "br_secret (cg_remote c) = get_env env ''FR_BACKUP_REMOTE_SECRET_KEY'' []"
  shows "checked env (\<lambda>c'. remote_complete env \<and> list_all (unset_or (\<lambda>v. parse_duration v \<noteq> None) env) duration_vars \<and>
      durations_read env c' \<and> read_as env (quota_vars (cg_quota c') (cg_quota c)) \<and>
      retention_vars c' def = retention_vars c def) (load_rest env c)"
  unfolding load_rest_def
proof (rule checked_then [OF check_remote_checked [OF assms]], elim conjE,
    rule checked_then [OF load_intervals_checked], elim conjE, rule checked_then [OF load_quota_checked])
  fix c2 c3 :: config and q :: user_quota
  assume c2: "c2 = c" "remote_complete env" and q: "read_as env (quota_vars q (cg_quota c3))"
    and durations: "list_all (unset_or (\<lambda>v. parse_duration v \<noteq> None) env) duration_vars"
      "get_env_duration env ''FR_FETCH_MIN_INTERVAL'' (600 * ns_sec) = Inr (cg_min c3)"
      "get_env_duration env ''FR_FETCH_MAX_INTERVAL'' (43200 * ns_sec) = Inr (cg_max c3)"
    and c3: "c3 = c2\<lparr>cg_min := cg_min c3, cg_max := cg_max c3\<rparr>"
  have same: "cg_quota c3 = cg_quota c" "retention_vars (c3\<lparr>cg_quota := q\<rparr>) def = retention_vars c def"
    by (subst c3, simp add: c2 retention_vars_def)+
  then show "checked env (\<lambda>c'. remote_complete env \<and> list_all (unset_or (\<lambda>v. parse_duration v \<noteq> None) env) duration_vars \<and>
      durations_read env c' \<and> read_as env (quota_vars (cg_quota c') (cg_quota c)) \<and>
      retention_vars c' def = retention_vars c def) (Inr (c3\<lparr>cg_quota := q\<rparr>))"
    using c2 q durations by (simp add: durations_read_def)
qed

lemma all_ints_ok:
  "read_as env (retention_vars c def) \<Longrightarrow> read_as env (quota_vars q def') \<Longrightarrow> list_all (unset_or (\<lambda>v. atoi v \<noteq> None) env) int_vars"
  by (simp add: read_as_def retention_vars_def quota_vars_def int_vars_def int_ok_def)

text \<open>
  C16. The environment is accepted exactly when every variable that is set can be read and a
  bucket is given with a directory and keys; then each of the sixteen numbers is the one of its
  own variable or its default. Otherwise the error names a variable at fault.
\<close>

theorem configuration_is_checked:
  "case load_config env of
     Inl e \<Rightarrow> \<not> env_ok env \<and> blames env e
   | Inr c \<Rightarrow> env_ok env \<and> numbers_read env c"
proof (cases "cg_cookie (env_strings env) \<in> {''auto'', ''true'', ''false''}")
  case False
  then show ?thesis
    by (auto simp: load_config_def env_strings_def cookie_default env_ok_def blames_def unset_or_def split: if_splits)
next
  case True
  then have cookie: "unset_or (\<lambda>v. v \<in> {''auto'', ''true'', ''false''}) env ''FR_COOKIE_SECURE''"
    by (auto simp: env_strings_def cookie_default unset_or_def split: if_splits)
  let ?c = "env_strings env"
  have "checked env (\<lambda>c. env_ok env \<and> numbers_read env c) (then_do (load_retention env ?c) (load_rest env))"
  proof (rule checked_then [OF load_retention_checked], elim conjE)
    fix c1 :: config
    assume read: "read_as env (retention_vars c1 ?c)"
      and c1: "c1 = ?c\<lparr>cg_concurrency := cg_concurrency c1, cg_days := cg_days c1, cg_per_feed := cg_per_feed c1,
          cg_generations := cg_generations c1, cg_remote := (cg_remote ?c)\<lparr>br_generations := br_generations (cg_remote c1)\<rparr>\<rparr>"
    have quota: "cg_quota c1 = cg_quota ?c" by (subst c1) simp
    show "checked env (\<lambda>c. env_ok env \<and> numbers_read env c) (load_rest env c1)"
      by (rule checked_mono, rule load_rest_checked [where def = ?c]; (subst c1)?)
        (use read cookie in \<open>auto simp: env_strings_def numbers_read_def env_ok_def quota dest: all_ints_ok\<close>)
  qed
  then show ?thesis using True by (auto simp: load_config_def load_rest_def [abs_def] Let_def checked_def)
qed

end
