(* ===== verification/Migrations.thy ===== *)
theory Migrations
  imports Prelude
begin

text \<open>
  \<open>internal/store/migrate.go\<close>: the scripts under migrations/ that have not been applied yet, in the order of their
  names, each in a transaction of its own. What SQLite makes of a script, its check of foreign keys and the
  embedded files are arguments; any call may fail.
\<close>

datatype migration_call =
    Create_Table | Is_Applied string | Disable_Keys string | Begin_Tx string | Insert_Name string
  | Check_Keys string | Commit_Tx string | Enable_Keys string

record 'd migration_lib =
  ml_dir :: "(string \<times> bool) list option" \<comment> \<open>names, and whether they are directories\<close>
  ml_read :: "string \<Rightarrow> string option"
  ml_exec :: "string \<Rightarrow> 'd \<Rightarrow> 'd option"
  ml_keys_ok :: "'d \<Rightarrow> bool"

record 'd schema =
  sm_applied :: "string list" \<comment> \<open>the rows of schema_migrations\<close>
  sm_data :: 'd

datatype migrate_error = Table_Failed | Dir_Failed | Check_Failed string | Read_Failed string | Apply_Failed string

definition apply_migration ::
    "'d migration_lib \<Rightarrow> (migration_call \<Rightarrow> bool) \<Rightarrow> string \<Rightarrow> string \<Rightarrow> 'd schema \<Rightarrow> bool \<times> 'd schema" where
  \<comment> \<open>an error after the commit does not undo it\<close>
  "apply_migration L bad name script s =
     (if bad (Disable_Keys name) \<or> bad (Begin_Tx name) then (False, s)
      else case ml_exec L script (sm_data s) of
        None \<Rightarrow> (False, s)
      | Some d \<Rightarrow>
          if bad (Insert_Name name) \<or> name \<in> set (sm_applied s) then (False, s)
          else if bad (Check_Keys name) \<or> \<not> ml_keys_ok L d then (False, s)
          else if bad (Commit_Tx name) then (False, s)
          else (\<not> bad (Enable_Keys name), s\<lparr>sm_applied := sm_applied s @ [name], sm_data := d\<rparr>))"

fun migrate_names ::
    "'d migration_lib \<Rightarrow> (migration_call \<Rightarrow> bool) \<Rightarrow> string list \<Rightarrow> 'd schema \<Rightarrow> migrate_error option \<times> 'd schema" where
  "migrate_names L bad [] s = (None, s)"
| "migrate_names L bad (n # ns) s =
     (if bad (Is_Applied n) then (Some (Check_Failed n), s)
      else if n \<in> set (sm_applied s) then migrate_names L bad ns s
      else case ml_read L n of
        None \<Rightarrow> (Some (Read_Failed n), s)
      | Some script \<Rightarrow>
          (case apply_migration L bad n script s of
             (False, s') \<Rightarrow> (Some (Apply_Failed n), s') | (True, s') \<Rightarrow> migrate_names L bad ns s'))"

definition migrate :: "'d migration_lib \<Rightarrow> (migration_call \<Rightarrow> bool) \<Rightarrow> 'd schema \<Rightarrow> migrate_error option \<times> 'd schema" where
  "migrate L bad s =
     (if bad Create_Table then (Some Table_Failed, s)
      else case ml_dir L of
        None \<Rightarrow> (Some Dir_Failed, s)
      | Some es \<Rightarrow> migrate_names L bad (sort (map fst (filter (\<lambda>(n, dir). \<not> dir) es))) s)"

abbreviation undisturbed :: "migration_call \<Rightarrow> bool" where
  "undisturbed \<equiv> \<lambda>_. False"

section \<open>Starting again\<close>

lemma apply_either:
  "apply_migration L bad n script s = (ok, s') \<Longrightarrow>
   \<not> ok \<and> s' = s \<or> apply_migration L undisturbed n script s = (True, s') \<and> sm_applied s' = sm_applied s @ [n]"
  by (auto simp: apply_migration_def split: option.splits if_splits)

lemma apply_cases:
  assumes "apply_migration L bad n script s = (ok, s')"
  obtains (left) "\<not> ok" "s' = s"
  | (applied) "apply_migration L undisturbed n script s = (True, s')" "sm_applied s' = sm_applied s @ [n]"
  using apply_either [OF assms] by blast

lemma migrate_names_keeps: "migrate_names L bad ns s = (e, s') \<Longrightarrow> set (sm_applied s) \<subseteq> set (sm_applied s')"
proof (induction ns arbitrary: s)
  case (Cons n ns)
  show ?case
  proof (cases "bad (Is_Applied n) \<or> n \<in> set (sm_applied s) \<or> ml_read L n = None")
    case True
    then show ?thesis using Cons by (auto split: if_splits)
  next
    case False
    then obtain script where "ml_read L n = Some script" by auto
    moreover obtain ok s1 where "apply_migration L bad n script s = (ok, s1)" by (rule prod.exhaust)
    ultimately have a: "ml_read L n = Some script" "apply_migration L bad n script s = (ok, s1)" by simp_all
    from a(2) show ?thesis
    proof (cases rule: apply_cases)
      case left
      then show ?thesis using Cons.prems False a by simp
    next
      case applied
      then show ?thesis using Cons.prems Cons.IH [of s1] False a by (cases ok) auto
    qed
  qed
qed simp

lemma resume_names:
  "migrate_names L bad ns s = (e, s') \<Longrightarrow> migrate_names L undisturbed ns s' = migrate_names L undisturbed ns s"
proof (induction ns arbitrary: s)
  case (Cons n ns)
  show ?case
  proof (cases "bad (Is_Applied n) \<or> ml_read L n = None \<and> n \<notin> set (sm_applied s)")
    case True
    then show ?thesis using Cons.prems by (auto split: if_splits)
  next
    case False
    show ?thesis
    proof (cases "n \<in> set (sm_applied s)")
      case True
      then have rest: "migrate_names L bad ns s = (e, s')" using Cons.prems False by simp
      then have "n \<in> set (sm_applied s')" using migrate_names_keeps True by blast
      then show ?thesis using True Cons.IH [OF rest] by simp
    next
      case new: False
      with False obtain script where "ml_read L n = Some script" by auto
      moreover obtain ok s1 where "apply_migration L bad n script s = (ok, s1)" by (rule prod.exhaust)
      ultimately have a: "ml_read L n = Some script" "apply_migration L bad n script s = (ok, s1)" by simp_all
      from a(2) show ?thesis
      proof (cases rule: apply_cases)
        case left
        then show ?thesis using Cons.prems False new a by simp
      next
        case applied
        have s': "n \<in> set (sm_applied s') \<and> migrate_names L undisturbed ns s' = migrate_names L undisturbed ns s1"
        proof (cases ok)
          case True
          then have rest: "migrate_names L bad ns s1 = (e, s')" using Cons.prems False new a by simp
          then show ?thesis using migrate_names_keeps [OF rest] Cons.IH [OF rest] applied by auto
        next
          case failed: False
          then show ?thesis using Cons.prems False new a applied by auto
        qed
        then show ?thesis using a applied new by simp
      qed
    qed
  qed
qed simp

lemma migrate_names_done:
  "migrate_names L bad ns s = (None, s') \<Longrightarrow> set ns \<subseteq> set (sm_applied s')"
proof (induction ns arbitrary: s)
  case (Cons n ns)
  show ?case
  proof (cases "n \<in> set (sm_applied s)")
    case True
    then show ?thesis using Cons migrate_names_keeps [of L bad ns s None s'] by (auto split: if_splits)
  next
    case False
    then obtain script s1 where a: "apply_migration L bad n script s = (True, s1)" "migrate_names L bad ns s1 = (None, s')"
      using Cons.prems by (auto split: if_splits option.splits prod.splits bool.splits)
    from a(1) have "n \<in> set (sm_applied s1)" by (cases rule: apply_cases) auto
    then show ?thesis using Cons.IH [OF a(2)] migrate_names_keeps [OF a(2)] by auto
  qed
qed simp

lemma migrate_names_nothing: "set ns \<subseteq> set (sm_applied s) \<Longrightarrow> migrate_names L undisturbed ns s = (None, s)"
  by (induction ns) simp_all

text \<open>
  C36. Migrations can be cut off anywhere. After an attempt that any call made fail, a new
  attempt without failures ends as it would have without the first one, in the same schema and with the same
  result; after a complete attempt it changes nothing.
\<close>

theorem migration_resumes:
  assumes first: "migrate L bad s = (e, s')"
  shows "migrate L undisturbed s' = migrate L undisturbed s \<and>
    (e = None \<longrightarrow> migrate L undisturbed s' = (None, s'))"
proof (cases "ml_dir L")
  case None
  then show ?thesis using first by (auto simp: migrate_def split: if_splits)
next
  case (Some es)
  then show ?thesis
    using first resume_names migrate_names_nothing [OF migrate_names_done]
    by (auto simp: migrate_def split: if_splits)
qed

definition sample_migrations :: "nat migration_lib" where
  \<comment> \<open>two scripts that add up what they hold, and a directory\<close>
  "sample_migrations = \<lparr>ml_dir = Some [(''b'', False), (''a'', False), (''d'', True)], ml_read = Some,
     ml_exec = (\<lambda>s n. Some (n + length s)), ml_keys_ok = (\<lambda>_. True)\<rparr>"

theorem migration_resumes_witness:
  "migrate sample_migrations undisturbed (snd (migrate sample_migrations (\<lambda>c. c = Commit_Tx ''b'') \<lparr>sm_applied = [], sm_data = 0\<rparr>))
   = (None, \<lparr>sm_applied = [''a'', ''b''], sm_data = 2\<rparr>)"
proof -
  have "migrate sample_migrations undisturbed \<lparr>sm_applied = [], sm_data = 0\<rparr> = (None, \<lparr>sm_applied = [''a'', ''b''], sm_data = 2\<rparr>)"
    by code_simp
  then show ?thesis using migration_resumes [of sample_migrations "\<lambda>c. c = Commit_Tx ''b''"] by (metis prod.collapse)
qed

end
