(* ===== verification/Metrics.thy ===== *)
theory Metrics
  imports Numbers Backoff
begin

text \<open>
  \<open>internal/metrics\<close>: the counters of feed fetches and the histogram of their durations, as they are shown at
  /metrics. Durations are nanoseconds; the sum of seconds is a double, whose addition and text are
  arguments, as is strconv.Quote. The comparison of a duration in seconds with a boundary is exact:
  the quotient of a whole number of nanoseconds is a different double on either side of it.
\<close>

definition duration_buckets :: "(string \<times> int) list" where
  \<comment> \<open>fetchDurationBuckets: the text of a boundary, and its nanoseconds\<close>
  "duration_buckets =
     [(''0.1'', 100000000), (''0.25'', 250000000), (''0.5'', 500000000), (''1'', 1000000000), (''2.5'', 2500000000),
      (''5'', 5000000000), (''10'', 10000000000), (''30'', 30000000000), (''60'', 60000000000)]"

record 'f metrics =
  mt_total :: "(string \<times> nat) list"
  mt_buckets :: "nat list"
  mt_sum :: 'f
  mt_count :: nat

definition new_metrics :: "'f \<Rightarrow> 'f metrics" where
  "new_metrics zero = \<lparr>mt_total = [], mt_buckets = replicate (length duration_buckets) 0, mt_sum = zero, mt_count = 0\<rparr>"

definition count_status :: "string \<Rightarrow> (string \<times> nat) list \<Rightarrow> (string \<times> nat) list" where
  \<comment> \<open>m.fetchTotal[status]++\<close>
  "count_status st t =
     (case map_of t st of
        None \<Rightarrow> (st, 1) # t
      | Some n \<Rightarrow> map (\<lambda>(k, m). if k = st then (k, Suc n) else (k, m)) t)"

definition observe_fetch :: "('f \<Rightarrow> int \<Rightarrow> 'f) \<Rightarrow> 'f metrics \<Rightarrow> string \<times> int \<Rightarrow> 'f metrics" where
  "observe_fetch add m x =
     (case x of (st, d) \<Rightarrow>
        m\<lparr>mt_total := count_status st (mt_total m),
          mt_buckets := map2 (\<lambda>(le, ns) n. if d \<le> ns then Suc n else n) duration_buckets (mt_buckets m),
          mt_sum := add (mt_sum m) d,
          mt_count := Suc (mt_count m)\<rparr>)"

definition newline :: string where "newline = [CHR 0x0A]"

definition write_fetch_metrics :: "(string \<Rightarrow> string) \<Rightarrow> ('f \<Rightarrow> string) \<Rightarrow> 'f metrics \<Rightarrow> string" where
  "write_fetch_metrics quote show_sum m =
     ''# HELP fetch_total Total feed fetch attempts by outcome.'' @ newline @ ''# TYPE fetch_total counter'' @ newline
     @ concat (map (\<lambda>st. ''fetch_total{status='' @ quote st @ ''} ''
         @ show_int (int (case map_of (mt_total m) st of None \<Rightarrow> 0 | Some n \<Rightarrow> n)) @ newline) (sort (map fst (mt_total m))))
     @ ''# HELP fetch_duration_seconds Feed fetch+parse+write duration in seconds.'' @ newline
     @ ''# TYPE fetch_duration_seconds histogram'' @ newline
     @ concat (map2 (\<lambda>(le, ns) n. ''fetch_duration_seconds_bucket{le='' @ quote le @ ''} '' @ show_int (int n) @ newline)
         duration_buckets (mt_buckets m))
     @ ''fetch_duration_seconds_bucket{le='' @ [CHR 0x22] @ ''+Inf'' @ [CHR 0x22] @ ''} '' @ show_int (int (mt_count m)) @ newline
     @ ''fetch_duration_seconds_sum '' @ show_sum (mt_sum m) @ newline
     @ ''fetch_duration_seconds_count '' @ show_int (int (mt_count m)) @ newline"

section \<open>What the counters count\<close>

lemma map_of_count_status:
  "map_of (count_status st t) k = (if k = st then Some (Suc (case map_of t st of None \<Rightarrow> 0 | Some n \<Rightarrow> n)) else map_of t k)"
proof (cases "map_of t st")
  case (Some n)
  have "map_of (map (\<lambda>(k, m). if k = st then (k, Suc n) else (k, m)) t) k
      = (if k = st then map_option (\<lambda>_. Suc n) (map_of t k) else map_of t k)"
    by (induction t) auto
  then show ?thesis using Some by (auto simp: count_status_def)
qed (simp add: count_status_def)

lemma counted_buckets:
  "map2 (\<lambda>(le, ns) n. if d \<le> ns then Suc n else n) bs (map (\<lambda>(le, ns). length (filter (\<lambda>(st, d). d \<le> ns) xs)) bs)
   = map (\<lambda>(le, ns). length (filter (\<lambda>(st, d). d \<le> ns) (xs @ [(st', d)]))) bs"
  by (induction bs) auto

text \<open>
  The histogram counts what was observed: after any observations the counter of a status is the number of
  fetches that ended with it, a bucket the number of those that took at most its boundary, so the buckets
  grow towards the total, and the total is the number of observations.
\<close>

theorem histogram_counts:
  "let m = foldl (observe_fetch add) (new_metrics zero) xs in
    (\<forall>st. (case map_of (mt_total m) st of None \<Rightarrow> 0 | Some n \<Rightarrow> n) = length (filter (\<lambda>(s, d). s = st) xs)) \<and>
    mt_buckets m = map (\<lambda>(le, ns). length (filter (\<lambda>(s, d). d \<le> ns) xs)) duration_buckets \<and>
    sorted (mt_buckets m @ [mt_count m]) \<and> mt_count m = length xs"
proof -
  let ?m = "foldl (observe_fetch add) (new_metrics zero) xs"
  have counts: "(\<forall>st. (case map_of (mt_total ?m) st of None \<Rightarrow> 0 | Some n \<Rightarrow> n) = length (filter (\<lambda>(s, d). s = st) xs)) \<and>
    mt_buckets ?m = map (\<lambda>(le, ns). length (filter (\<lambda>(s, d). d \<le> ns) xs)) duration_buckets \<and> mt_count ?m = length xs"
  proof (induction xs rule: rev_induct)
    case Nil
    then show ?case by (simp add: new_metrics_def duration_buckets_def eval_nat_numeral)
  next
    case (snoc x xs)
    obtain st d where x: "x = (st, d)" by (cases x)
    show ?case
      using snoc counted_buckets [of d duration_buckets xs st]
      by (auto simp: x observe_fetch_def map_of_count_status split: option.splits)
  qed
  have le: "length (filter (\<lambda>(s, d). d \<le> ns) xs) \<le> length (filter (\<lambda>(s, d). d \<le> ns') xs)" if "ns \<le> ns'"
    for ns ns' :: int and xs :: "(string \<times> int) list"
    using that by (induction xs) auto
  have "sorted (map (\<lambda>(le, ns). length (filter (\<lambda>(s, d). d \<le> ns) xs)) duration_buckets @ [length xs])"
    using length_filter_le by (simp add: duration_buckets_def le)
  then show ?thesis using counts by (simp add: Let_def)
qed

end
