(* ===== verification/Service.thy ===== *)
theory Service
  imports Maintenance Config ApiAnswers ApiAccounts ApiSample
begin

text \<open>
  \<open>cmd/feedla/main.go\<close> with \<open>internal/crawler/scheduler.go\<close>: the commands, and the server as a whole. A run of
  the server restores a lost database, opens and seeds it, and then takes the steps of its three
  goroutines in any order, one request, crawl or upkeep at a time; the file of the database always
  holds what the store has. A restore asked for at setup ends the run, and the next one starts on the snapshot.
\<close>

section \<open>Wiring\<close>

record service_lib =
  sl_cal :: "int \<Rightarrow> string"
  sl_enc :: "outline list \<Rightarrow> string"
  sl_dec :: "string \<Rightarrow> outline list option"
  sl_seed :: string \<comment> \<open>the embedded OPML\<close>
  sl_version :: string

definition remote_of :: "config \<Rightarrow> remote_config option" where
  "remote_of cfg =
     (let R = cg_remote cfg in
      if br_endpoint R = [] then None else Some \<lparr>rm_prefix = br_prefix R, rm_keep = br_generations R\<rparr>)"

definition restore_of :: "config \<Rightarrow> restore_config" where
  "restore_of cfg = \<lparr>rs_dir = cg_backup_dir cfg, rs_remote = remote_of cfg\<rparr>"

definition maint_of :: "config \<Rightarrow> maint_config" where
  "maint_of cfg = \<lparr>mc_days = cg_days cfg, mc_per_feed = cg_per_feed cfg, mc_dir = cg_backup_dir cfg,
     mc_keep = cg_generations cfg, mc_remote = remote_of cfg\<rparr>"

definition api_options :: "service_lib \<Rightarrow> config \<Rightarrow> api_config" where
  "api_options lib cfg = \<lparr>cf_cookie_secure = cg_cookie cfg, cf_origin = cg_origin cfg, cf_metrics_token = cg_metrics cfg,
     cf_version = sl_version lib, cf_quota = quota.truncate (cg_quota cfg), cf_backup_dir = cg_backup_dir cfg,
     cf_remote = (remote_of cfg \<noteq> None), cf_restore = True\<rparr>"

definition with_intervals :: "config \<Rightarrow> 'u crawl_lib \<Rightarrow> 'u crawl_lib" where
  \<comment> \<open>New falls back to the defaults\<close>
  "with_intervals cfg L = L\<lparr>cl_min := (if cg_min cfg \<le> 0 then default_min_interval else cg_min cfg),
     cl_max := (if cg_max cfg \<le> 0 then default_max_interval else cg_max cfg)\<rparr>"

definition with_options :: "service_lib \<Rightarrow> config \<Rightarrow> 'u api_world \<Rightarrow> 'u api_world" where
  "with_options lib cfg W = W\<lparr>aw_cfg := api_options lib cfg, aw_crawl := with_intervals cfg (aw_crawl W)\<rparr>"

definition start_server :: "config \<Rightarrow> db \<Rightarrow> server" where
  "start_server cfg d =
     (let q = cg_quota cfg in new_server d (qt_api q) (qt_add q) (qt_refresh q) (qt_preview q))"

definition staged_path :: "config \<Rightarrow> string" where
  "staged_path cfg = cg_db cfg @ ''.restore''"

section \<open>Starting\<close>

definition open_store :: "faults \<Rightarrow> string \<Rightarrow> time \<Rightarrow> files \<Rightarrow> db option" where
  \<comment> \<open>an absent file becomes a fresh database; migrations of older ones are apart\<close>
  "open_store bad path now fs =
     (if bad (Open_File path) then None
      else case map_of fs path of
        None \<Rightarrow> Some (init_db now) | Some (Db_Image d) \<Rightarrow> Some d | Some _ \<Rightarrow> None)"

record service =
  sv_server :: server
  sv_files :: files
  sv_bucket :: files
  sv_restore :: bool \<comment> \<open>a restart is asked for\<close>

definition keep_file :: "config \<Rightarrow> service \<Rightarrow> service" where
  "keep_file cfg s = s\<lparr>sv_files := put_file (cg_db cfg) (Db_Image (db_of (sv_server s))) (sv_files s)\<rparr>"

definition boot ::
    "service_lib \<Rightarrow> config \<Rightarrow> faults \<Rightarrow> (string \<Rightarrow> int) \<Rightarrow> int \<Rightarrow> files \<times> files \<Rightarrow> files + service" where
  \<comment> \<open>what runServe does before it serves; on an error the files as it leaves them\<close>
  "boot lib cfg bad jitter now site =
     (case site of (fs, b) \<Rightarrow>
        case restore_if_missing bad (restore_of cfg) (cg_db cfg) b fs of
          (False, fs) \<Rightarrow> Inl fs
        | (True, fs) \<Rightarrow>
            (case open_store bad (cg_db cfg) (unix now) fs of
               None \<Rightarrow> Inl fs
             | Some d \<Rightarrow>
                 (case seed_if_empty (sl_dec lib) jitter (sl_seed lib) (unix now) d of
                    ((n, Some e), d) \<Rightarrow> Inl (put_file (cg_db cfg) (Db_Image d) fs)
                  | ((n, None), d) \<Rightarrow>
                      Inr (keep_file cfg \<lparr>sv_server = start_server cfg d, sv_files = fs, sv_bucket = b, sv_restore = False\<rparr>))))"

section \<open>Serving\<close>

definition stage_restore :: "faults \<Rightarrow> config \<Rightarrow> files \<Rightarrow> files \<Rightarrow> bool \<times> files" where
  \<comment> \<open>the SetupRestore callback\<close>
  "stage_restore bad cfg b fs =
     (case latest_snapshot bad (restore_of cfg) fs b of
        Inr (Some s) \<Rightarrow> fetch_snapshot bad s (staged_path cfg) b fs
      | _ \<Rightarrow> (False, fs))"

definition restore_asked :: "'u api_world \<Rightarrow> request \<Rightarrow> server \<Rightarrow> bool" where
  \<comment> \<open>the request reaches the callback: its success would be the answer\<close>
  "restore_asked W rq s \<longleftrightarrow>
     (let r = fst (serve (W\<lparr>aw_staged := True\<rparr>) rq s) in ap_status r = 202 \<and> body_shape (ap_body r) = ''status'')"

definition serve_request ::
    "service_lib \<Rightarrow> config \<Rightarrow> faults \<Rightarrow> 'u api_world \<Rightarrow> request \<Rightarrow> service \<Rightarrow> response \<times> service" where
  "serve_request lib cfg bad W rq s =
     (let W = with_options lib cfg W in
      if restore_asked W rq (sv_server s) then
        (case stage_restore bad cfg (sv_bucket s) (sv_files s) of
           (ok, fs) \<Rightarrow>
             (case serve (W\<lparr>aw_staged := ok\<rparr>) rq (sv_server s) of
                (r, srv) \<Rightarrow> (r, s\<lparr>sv_server := srv, sv_files := fs, sv_restore := sv_restore s \<or> ok\<rparr>)))
      else (case serve W rq (sv_server s) of (r, srv) \<Rightarrow> (r, s\<lparr>sv_server := srv\<rparr>)))"

definition batch_limit :: "int \<Rightarrow> int" where
  "batch_limit n = (if n \<le> 0 then 200 else n)"

definition scheduler_tick :: "config \<Rightarrow> int \<Rightarrow> (int \<Rightarrow> 'u crawl_lib) \<Rightarrow> int \<Rightarrow> crawler \<Rightarrow> crawler" where
  "scheduler_tick cfg batch W now c = snd (crawl_due (\<lambda>i. with_intervals cfg (W i)) now (batch_limit batch) c)"

definition upkeep_of :: "service \<Rightarrow> upkeep" where
  "upkeep_of s = \<lparr>uk_db = db_of (sv_server s), uk_files = sv_files s, uk_bucket = sv_bucket s\<rparr>"

definition after_upkeep :: "service \<Rightarrow> upkeep \<Rightarrow> service" where
  "after_upkeep s u = s\<lparr>sv_server := set_db (sv_server s) (uk_db u), sv_files := uk_files u, sv_bucket := uk_bucket u\<rparr>"

datatype 'u event =
    Http faults "'u api_world" request
  | Crawl_Tick "int \<Rightarrow> 'u crawl_lib" int
  | First_Backup faults int
  | Maintain faults int

fun service_step :: "service_lib \<Rightarrow> config \<Rightarrow> int \<Rightarrow> service \<Rightarrow> 'u event \<Rightarrow> service" where
  "service_step lib cfg batch s (Http bad W rq) = keep_file cfg (snd (serve_request lib cfg bad W rq s))"
| "service_step lib cfg batch s (Crawl_Tick W now) =
     keep_file cfg (s\<lparr>sv_server := (sv_server s)\<lparr>srv_crawler := scheduler_tick cfg batch W now (srv_crawler (sv_server s))\<rparr>\<rparr>)"
| "service_step lib cfg batch s (First_Backup bad now) =
     keep_file cfg (after_upkeep s
       (if cg_backup_dir cfg = [] then upkeep_of s
        else backup_if_missing_today bad (sl_enc lib) (maint_of cfg) (sl_cal lib now) (upkeep_of s)))"
| "service_step lib cfg batch s (Maintain bad now) =
     keep_file cfg (after_upkeep s (maint_tick (sl_cal lib) (sl_enc lib) (maint_of cfg) (upkeep_of s) (bad, now)))"

record 'u serve_run =
  sr_boot :: faults
  sr_jitter :: "string \<Rightarrow> int"
  sr_now :: int
  sr_events :: "'u event list"
  sr_signal :: bool \<comment> \<open>the select sees a signal, and no restart any more\<close>
  sr_failed :: bool \<comment> \<open>a goroutine reports an error, the listener's for one\<close>
  sr_promote :: faults

definition run_serve :: "service_lib \<Rightarrow> config \<Rightarrow> int \<Rightarrow> 'u serve_run \<Rightarrow> files \<times> files \<Rightarrow> files + service" where
  \<comment> \<open>requests in flight when a restart is asked for are served to their end\<close>
  "run_serve lib cfg batch r site =
     (case boot lib cfg (sr_boot r) (sr_jitter r) (sr_now r) site of
        Inl fs \<Rightarrow> Inl fs | Inr s \<Rightarrow> Inr (foldl (service_step lib cfg batch) s (sr_events r)))"

fun cmd_serve :: "service_lib \<Rightarrow> config \<Rightarrow> int \<Rightarrow> 'u serve_run list \<Rightarrow> files \<times> files \<Rightarrow> bool \<times> files \<times> files" where
  \<comment> \<open>the loop, over the runs that are seen; whether it ended without an error, and the site\<close>
  "cmd_serve lib cfg batch [] site = (True, site)"
| "cmd_serve lib cfg batch (r # rs) site =
     (case run_serve lib cfg batch r site of
        Inl fs \<Rightarrow> (False, fs, snd site)
      | Inr s \<Rightarrow>
          if sr_failed r then (False, sv_files s, sv_bucket s)
          else if \<not> sv_restore s \<or> sr_signal r then (True, sv_files s, sv_bucket s)
          else (case promote_staged (sr_promote r) (staged_path cfg) (cg_db cfg) (sv_files s) of
            (False, fs) \<Rightarrow> (False, fs, sv_bucket s)
          | (True, fs) \<Rightarrow> cmd_serve lib cfg batch rs (fs, sv_bucket s)))"

section \<open>The other commands\<close>

definition on_store :: "faults \<Rightarrow> config \<Rightarrow> int \<Rightarrow> files \<Rightarrow> (db \<Rightarrow> bool \<times> db) \<Rightarrow> bool \<times> files" where
  \<comment> \<open>open the store, act, and close it\<close>
  "on_store bad cfg now fs act =
     (case open_store bad (cg_db cfg) (unix now) fs of
        None \<Rightarrow> (False, fs)
      | Some d \<Rightarrow> (case act d of (ok, d) \<Rightarrow> (ok, put_file (cg_db cfg) (Db_Image d) fs)))"

definition cmd_import_opml ::
    "faults \<Rightarrow> config \<Rightarrow> (string \<Rightarrow> outline list option) \<Rightarrow> (string \<Rightarrow> int) \<Rightarrow> string \<Rightarrow> int \<Rightarrow> files \<Rightarrow> bool \<times> files" where
  \<comment> \<open>for the first account and without a limit\<close>
  "cmd_import_opml bad cfg dec jitter path now fs =
     (case map_of fs path of
        Some (Text_File raw) \<Rightarrow>
          if bad (Open_File path) then (False, fs)
          else on_store bad cfg now fs (\<lambda>d.
            case import_opml dec jitter 1 raw 0 (unix now) d of ((n, e), d) \<Rightarrow> (e = None, d))
      | _ \<Rightarrow> (False, fs))"

definition cmd_crawl :: "faults \<Rightarrow> config \<Rightarrow> bool \<Rightarrow> int \<Rightarrow> (int \<Rightarrow> 'u crawl_lib) \<Rightarrow> int \<Rightarrow> files \<Rightarrow> bool \<times> files" where
  "cmd_crawl bad cfg due_only limit W now fs =
     (let W = (\<lambda>i. with_intervals cfg (W i)) in
      on_store bad cfg now fs (\<lambda>d.
        let c = \<lparr>cw_db = d, cw_robots = Map.empty, cw_errors = []\<rparr> in
        (True, cw_db (snd (if due_only then crawl_due W now limit c else crawl_all W now c)))))"

definition cmd_backup :: "faults \<Rightarrow> config \<Rightarrow> string \<Rightarrow> int \<Rightarrow> files \<Rightarrow> bool \<times> files" where
  "cmd_backup bad cfg dest now fs =
     (case open_store bad (cg_db cfg) (unix now) fs of
        None \<Rightarrow> (False, fs)
      | Some d \<Rightarrow> backup_to bad d dest (put_file (cg_db cfg) (Db_Image d) fs))"

section \<open>What every step respects\<close>

definition images_ok :: "(db \<Rightarrow> bool) \<Rightarrow> files \<Rightarrow> bool" where
  "images_ok P fs \<longleftrightarrow> list_all (\<lambda>(p, c). case c of Db_Image d \<Rightarrow> P d | _ \<Rightarrow> True) fs"

lemma images_put [simp]:
  "images_ok P fs \<Longrightarrow> (case c of Db_Image d \<Rightarrow> P d | _ \<Rightarrow> True) \<Longrightarrow> images_ok P (put_file p c fs)"
  and images_drop [simp]: "images_ok P fs \<Longrightarrow> images_ok P (drop_file p fs)"
  and images_filter: "images_ok P fs \<Longrightarrow> images_ok P (filter Q fs)"
  by (auto simp: images_ok_def put_file_def drop_file_def list_all_iff)

lemma images_of:
  assumes "images_ok P fs" "map_of fs p = Some c"
  shows "case c of Db_Image d \<Rightarrow> P d | _ \<Rightarrow> True"
  using map_of_SomeD [OF assms(2)] assms(1) by (auto simp: images_ok_def list_all_iff)

lemma images_remove: "images_ok P fs \<Longrightarrow> images_ok P (snd (remove_names bad dir ns fs))"
  by (simp add: remove_names_def images_filter)

lemma images_prune_local: "images_ok P fs \<Longrightarrow> images_ok P (snd (prune_local bad dir limit today fs))"
  by (simp add: prune_local_def images_remove)

lemma images_backup_to: "images_ok P fs \<Longrightarrow> P d \<Longrightarrow> images_ok P (snd (backup_to bad d dest fs))"
  by (simp add: backup_to_def Let_def)

lemma images_delete_keys: "images_ok P b \<Longrightarrow> images_ok P (snd (delete_keys bad ks b))"
  by (induction ks arbitrary: b) auto

lemma images_store:
  assumes "images_ok P b" "images_ok P fs"
  shows "images_ok P (snd (remote_store bad R key path fs b))"
  using assms images_of [OF assms(2)]
  by (auto simp: remote_store_def remote_prune_def images_delete_keys split: option.splits)

lemma images_write: "images_ok P fs \<Longrightarrow> (case c of Db_Image d \<Rightarrow> P d | _ \<Rightarrow> True) \<Longrightarrow> images_ok P (snd (write_via_tmp bad c dest fs))"
  by (simp add: write_via_tmp_def Let_def)

lemma images_fetch:
  assumes "images_ok P b" "images_ok P fs"
  shows "images_ok P (snd (fetch_snapshot bad s dest b fs))"
  using assms images_of [OF assms(1)] images_of [OF assms(2)]
  by (auto simp: fetch_snapshot_def copy_file_def remote_download_def intro!: images_write split: snapshot.splits option.splits)

lemma images_restore:
  "images_ok P b \<Longrightarrow> images_ok P fs \<Longrightarrow> images_ok P (snd (restore_if_missing bad cfg path b fs))"
  by (auto simp: restore_if_missing_def intro!: images_fetch split: sum.splits option.splits)

lemma images_stage: "images_ok P b \<Longrightarrow> images_ok P fs \<Longrightarrow> images_ok P (snd (stage_restore bad cfg b fs))"
  by (auto simp: stage_restore_def intro!: images_fetch split: sum.splits option.splits)

lemma images_remove_all: "images_ok P fs \<Longrightarrow> images_ok P (snd (remove_all bad ps fs))"
  by (induction ps arbitrary: fs) auto

lemma images_promote:
  assumes "images_ok P fs"
  shows "images_ok P (snd (promote_staged bad staged path fs))"
proof (cases "map_of fs staged")
  case (Some c)
  obtain ok fs' where r: "remove_all bad [path, path @ ''-wal'', path @ ''-shm''] fs = (ok, fs')" by (rule prod.exhaust)
  have "images_ok P fs'"
    using images_remove_all [OF assms, of bad "[path, path @ ''-wal'', path @ ''-shm'']"] r by simp
  then show ?thesis
    using assms Some images_of [OF assms Some] by (cases ok) (auto simp: promote_staged_def r simp del: remove_all.simps)
qed (simp add: promote_staged_def assms)

definition serving_op :: "store_op \<Rightarrow> bool" where
  \<comment> \<open>the store calls of a server: of requests, of upkeep, of the scheduler and of seeding\<close>
  "serving_op op \<longleftrightarrow> any_op op \<or> gc_op op \<or> reader_op 1 op \<or> (\<exists>now limit. op = Crawl (ClaimDueFeeds now limit))"

locale store_law =
  fixes law :: "db \<Rightarrow> bool"
  assumes law_op: "serving_op op \<Longrightarrow> law d \<Longrightarrow> law (store_exec q d op)"
begin

lemma law_runs: "runs P q d d' \<Longrightarrow> (\<And>op. P op \<Longrightarrow> serving_op op) \<Longrightarrow> law d \<Longrightarrow> law d'"
  by (erule runs_inv) (auto intro: law_op)

lemma law_request: "law (db_of s) \<Longrightarrow> law (db_of (snd (serve W rq s)))"
  using serve_any [of W s rq] by (auto simp: stays_def serving_op_def elim: law_runs)

lemma law_crawl: "law (cw_db c) \<Longrightarrow> crawl_and_report L f now c = (r, c') \<Longrightarrow> law (cw_db c')"
  by (rule law_runs [OF crawl_and_report_run])
    (auto simp: serving_op_def any_op_def dest: own_op_user)

lemma law_crawl_each: "law (cw_db c) \<Longrightarrow> crawl_each W fs now c = (rs, c') \<Longrightarrow> law (cw_db c')"
proof (induction fs arbitrary: c rs)
  case (Cons f fs)
  then show ?case using law_crawl by (fastforce split: prod.splits)
qed simp

lemma law_crawl_due: "law (cw_db c) \<Longrightarrow> law (cw_db (snd (crawl_due W now limit c)))"
proof -
  assume c: "law (cw_db c)"
  obtain fs d where claim: "claim_due_feeds (cw_db c) (unix now) limit = (fs, d)" by (rule prod.exhaust)
  have "law d"
    using law_op [of "Crawl (ClaimDueFeeds (unix now) limit)" "cw_db c" no_quote] c claim by (auto simp: serving_op_def)
  then show ?thesis
    using law_crawl_each [of "c\<lparr>cw_db := d\<rparr>" W fs now] claim
    by (auto simp: crawl_due_def crawl_feeds_def split: prod.splits)
qed

lemma law_garbage: "law d \<Longrightarrow> law (collect_garbage bad cfg now d)"
  by (rule law_runs [OF collect_garbage_runs [of no_quote]]) (simp_all add: serving_op_def)

lemma law_seed:
  assumes "law d"
  shows "law (snd (seed_if_empty dec jitter seed now d))"
proof -
  have "law (snd (import_opml dec jitter 1 seed 0 now d))"
    by (rule law_runs [OF import_opml_run [of 1 no_quote] _ assms]) (simp add: serving_op_def)
  then show ?thesis using assms by (auto simp: seed_if_empty_def split: prod.splits option.splits)
qed

lemma law_tick: "law (cw_db c) \<Longrightarrow> law (cw_db (scheduler_tick cfg batch W now c))"
  by (simp add: scheduler_tick_def law_crawl_due)

lemma law_backup:
  assumes "law (uk_db u)" "images_ok law (uk_files u)" "images_ok law (uk_bucket u)"
  shows "uk_db (snd (write_backup bad enc cfg day u)) = uk_db u
    \<and> images_ok law (uk_files (snd (write_backup bad enc cfg day u)))
    \<and> images_ok law (uk_bucket (snd (write_backup bad enc cfg day u)))"
proof -
  have b: "images_ok law (mirror_backup bad cfg day fs (uk_bucket u))" if "images_ok law fs" for fs
    using that assms(3) by (auto simp: mirror_backup_def Let_def intro!: images_store split: option.splits)
  have "images_ok law (snd (backup_to bad (uk_db u) dest (uk_files u)))" for dest
    by (rule images_backup_to) (use assms in simp_all)
  then have "backup_to bad (uk_db u) dest (uk_files u) = (ok, fs) \<Longrightarrow> images_ok law fs" for dest ok fs
    by (metis snd_conv)
  then show ?thesis
    using assms b
    by (auto simp: write_backup_def Let_def images_prune_local split: sum.splits bool.splits prod.splits)
qed

definition law_service :: "service \<Rightarrow> bool" where
  "law_service s \<longleftrightarrow> law (db_of (sv_server s)) \<and> images_ok law (sv_files s) \<and> images_ok law (sv_bucket s)"

lemma law_step_db: "law (db_of (sv_server s)) \<Longrightarrow> law (db_of (sv_server (service_step lib cfg batch s e)))"
proof (cases e)
  case (Http bad W rq)
  assume s: "law (db_of (sv_server s))"
  have "law (db_of srv)" if "serve W' rq (sv_server s) = (r, srv)" for W' :: "'a api_world" and r srv
    using s law_request [of "sv_server s" W' rq] that by simp
  then show ?thesis by (auto simp: Http serve_request_def Let_def keep_file_def split: prod.splits)
qed (simp_all add: keep_file_def after_upkeep_def backup_if_missing_today_def maint_tick_def upkeep_of_def Let_def
    law_tick law_garbage)

lemma images_step:
  assumes s: "law_service s"
  shows "images_ok law (sv_files (service_step lib cfg batch s e)) \<and> images_ok law (sv_bucket (service_step lib cfg batch s e))"
proof -
  have d: "law (db_of (sv_server (service_step lib cfg batch s e)))"
    by (rule law_step_db) (use s in \<open>simp add: law_service_def\<close>)
  have staged: "images_ok law fs" if "stage_restore bad cfg (sv_bucket s) (sv_files s) = (ok, fs)" for ok fs bad
    using s images_stage [of law "sv_bucket s" "sv_files s" bad cfg] that by (simp add: law_service_def)
  have backup: "images_ok law (uk_files (snd (write_backup bad (sl_enc lib) (maint_of cfg) day (upkeep_of s\<lparr>uk_db := d\<rparr>))))
      \<and> images_ok law (uk_bucket (snd (write_backup bad (sl_enc lib) (maint_of cfg) day (upkeep_of s\<lparr>uk_db := d\<rparr>))))"
    if "law d" for bad day d
    using law_backup [of "upkeep_of s\<lparr>uk_db := d\<rparr>" bad "sl_enc lib" "maint_of cfg" day] s that
    by (simp add: law_service_def upkeep_of_def)
  have same: "upkeep_of s\<lparr>uk_db := db_of (sv_server s)\<rparr> = upkeep_of s" by (simp add: upkeep_of_def)
  show ?thesis
  proof (cases e)
    case (Http bad W rq)
    then show ?thesis
      using s d by (auto simp: serve_request_def Let_def keep_file_def law_service_def split: prod.splits dest: staged)
  next
    case (Crawl_Tick W now)
    then show ?thesis using s d by (simp add: keep_file_def law_service_def)
  next
    case (First_Backup bad now)
    then show ?thesis
      using s d backup [of "db_of (sv_server s)" bad, unfolded same]
      by (auto simp: keep_file_def law_service_def after_upkeep_def backup_if_missing_today_def Let_def upkeep_of_def)
  next
    case (Maintain bad now)
    then show ?thesis
      using s d backup [OF law_garbage, of "db_of (sv_server s)"]
      by (auto simp: keep_file_def law_service_def after_upkeep_def maint_tick_def Let_def upkeep_of_def)
  qed
qed

lemma law_step: "law_service s \<Longrightarrow> law_service (service_step lib cfg batch s e)"
  using images_step [of s lib cfg batch e] law_step_db [of s lib cfg batch e] by (simp add: law_service_def)

lemma law_steps: "law_service s \<Longrightarrow> law_service (foldl (service_step lib cfg batch) s es)"
  by (induction es arbitrary: s) (simp_all add: law_step)

lemma law_steps_db: "law (db_of (sv_server s)) \<Longrightarrow> law (db_of (sv_server (foldl (service_step lib cfg batch) s es)))"
  by (induction es arbitrary: s) (simp_all add: law_step_db)

lemma law_boot_db:
  \<comment> \<open>a database that is there is the one that is served\<close>
  assumes "map_of fs (cg_db cfg) = Some (Db_Image d)" "law d"
  shows "case boot lib cfg bad jitter now (fs, b) of
    Inl fs' \<Rightarrow> (\<exists>d'. map_of fs' (cg_db cfg) = Some (Db_Image d') \<and> law d')
  | Inr s \<Rightarrow> law (db_of (sv_server s)) \<and> \<not> sv_restore s"
proof -
  have "law d'" if "seed_if_empty (sl_dec lib) jitter (sl_seed lib) (unix now) d = (n, d')" for n d'
    using law_seed [OF assms(2)] that by (metis snd_conv)
  then show ?thesis
    using assms
    by (auto simp: boot_def restore_if_missing_def open_store_def keep_file_def start_server_def new_server_def Let_def
        split: prod.splits option.splits)
qed

lemma law_boot:
  assumes fresh: "\<And>now. law (init_db now)" and site: "images_ok law fs" "images_ok law b"
  shows "case boot lib cfg bad jitter now (fs, b) of Inl fs' \<Rightarrow> images_ok law fs' | Inr s \<Rightarrow> law_service s"
proof -
  obtain ok fs1 where r: "restore_if_missing bad (restore_of cfg) (cg_db cfg) b fs = (ok, fs1)" by (rule prod.exhaust)
  have fs1: "images_ok law fs1" using images_restore [OF site(2,1)] r by (metis snd_conv)
  have opened: "law d" if "open_store bad (cg_db cfg) (unix now) fs1 = Some d" for d
    using that fresh images_of [OF fs1, of "cg_db cfg"]
    by (auto simp: open_store_def split: if_splits option.splits blob.splits)
  have "law d'" if "open_store bad (cg_db cfg) (unix now) fs1 = Some d"
      "seed_if_empty (sl_dec lib) jitter (sl_seed lib) (unix now) d = (n, d')" for n d d'
    using law_seed [OF opened [OF that(1)]] that(2) by (metis snd_conv)
  then show ?thesis
    using fs1 site(2)
    by (cases ok) (auto simp: boot_def r keep_file_def law_service_def start_server_def new_server_def Let_def
        split: prod.splits option.splits)
qed

end

section \<open>Laws of the database\<close>

lemma setup_done_quiet: "(\<And>a. op \<noteq> Account a) \<Longrightarrow> setup_done d \<Longrightarrow> setup_done (store_exec q d op)"
  by (cases op) (auto intro: setup_done_frame simp: reading_exec_accounts crawl_exec_accounts
    reading_exec_accounts [unfolded same_accounts_def] crawl_exec_accounts [unfolded same_accounts_def])

lemma setup_done_serving: "serving_op op \<Longrightarrow> setup_done d \<Longrightarrow> setup_done (store_exec q d op)"
proof -
  assume op: "serving_op op" and d: "setup_done d"
  consider "any_op op" | "\<And>a. op \<noteq> Account a" | now where "op = Account (DeleteExpiredSessions now)"
    using op by (auto simp: serving_op_def gc_op_def reader_op_def split: store_op.splits account_op.splits)
  then show ?thesis
  proof cases
    case 3
    then show ?thesis using d by (auto intro: setup_done_frame simp: delete_expired_sessions_def)
  qed (use d setup_done_op setup_done_quiet in auto)
qed

abbreviation user_ids :: "db \<Rightarrow> int set" where
  "user_ids d \<equiv> set (map usr_id (users d))"

lemma ids_upd: "(\<And>u. usr_id (g u) = usr_id u) \<Longrightarrow> map usr_id (upd_where P g us) = map usr_id us"
  by (simp add: upd_where_def o_def if_distrib cong: if_cong)

lemma ids_results:
  "complete_setup d i name hash now = Inr d' \<Longrightarrow> user_ids d \<subseteq> user_ids d'"
  "update_user_password d i hash now = Inr d' \<Longrightarrow> user_ids d \<subseteq> user_ids d'"
  "set_user_embeds d i b now = Inr d' \<Longrightarrow> user_ids d \<subseteq> user_ids d'"
  "set_user_admin d i b now = Inr d' \<Longrightarrow> user_ids d \<subseteq> user_ids d'"
  "set_user_disabled d i b now = Inr d' \<Longrightarrow> user_ids d \<subseteq> user_ids d'"
  "create_user d name hash adm now = Inr (u, d') \<Longrightarrow> user_ids d \<subseteq> user_ids d'"
  "accept_invitation d token name hash now = Inr (u, d') \<Longrightarrow> user_ids d \<subseteq> user_ids d'"
  by (auto simp: complete_setup_def update_user_password_def set_user_embeds_def set_user_admin_def
      set_user_disabled_def create_user_def Let_def ids_upd simp flip: set_map split: if_splits option.splits sum.splits
      elim!: accept_invitation_Inr)

lemma ids_keep:
  "(\<And>d'. r = Inr d' \<Longrightarrow> user_ids d \<subseteq> user_ids d') \<Longrightarrow> user_ids d \<subseteq> user_ids (keep d r)"
  "(\<And>x d'. r' = Inr (x, d') \<Longrightarrow> user_ids d \<subseteq> user_ids d') \<Longrightarrow> user_ids d \<subseteq> user_ids (keep_snd d r')"
  by (auto simp: keep_def keep_snd_def split: sum.splits)

lemma user_ids_kept: "user_ids d \<subseteq> user_ids (store_exec q d op)"
proof (cases op)
  case (Account a)
  show ?thesis
    unfolding Account store_exec.simps
    by (cases a) (simp_all only: account_exec.simps credential_ops_users subset_refl,
        (rule ids_keep, erule ids_results | rule ids_keep, drule credential_results_users, simp)+)
qed (simp_all add: reading_exec_accounts [unfolded same_accounts_def] crawl_exec_accounts [unfolded same_accounts_def])

interpretation well_formed: store_law db_ok
  by unfold_locales (rule store_exec_ok)

interpretation claimed: store_law setup_done
  by unfold_locales (rule setup_done_serving)

interpretation peopled: store_law "\<lambda>d. U \<subseteq> user_ids d" for U
  by unfold_locales (rule subset_trans [OF _ user_ids_kept])

text \<open>
  C2. The whole server keeps its data well formed: over any number of runs of \<open>feedla serve\<close> with restarts
  between them, any interleaving of requests, crawls and upkeep, and any faults of the disk, the bucket
  and the network, every database there is (the live one, the staged one and every snapshot on disk or
  in the bucket) satisfies the invariant of the store, if those there were at the start do.
\<close>

theorem service_keeps_the_data:
  assumes "images_ok db_ok fs" "images_ok db_ok b"
  shows "case cmd_serve lib cfg batch rs (fs, b) of (ok, fs', b') \<Rightarrow> images_ok db_ok fs' \<and> images_ok db_ok b'"
  using assms
proof (induction rs arbitrary: fs b)
  case (Cons r rs)
  have boot: "case boot lib cfg (sr_boot r) (sr_jitter r) (sr_now r) (fs, b) of
      Inl fs' \<Rightarrow> images_ok db_ok fs' | Inr s \<Rightarrow> well_formed.law_service s"
    by (rule well_formed.law_boot [OF init_db_ok Cons.prems])
  show ?case
  proof (cases "boot lib cfg (sr_boot r) (sr_jitter r) (sr_now r) (fs, b)")
    case (Inl fs')
    then show ?thesis using boot Cons.prems by (simp add: run_serve_def)
  next
    case (Inr s0)
    define s where "s = foldl (service_step lib cfg batch) s0 (sr_events r)"
    have s: "images_ok db_ok (sv_files s)" "images_ok db_ok (sv_bucket s)"
      using boot Inr well_formed.law_steps [of s0 lib cfg batch "sr_events r"]
      by (simp_all add: s_def well_formed.law_service_def)
    obtain ok fs' where p: "promote_staged (sr_promote r) (staged_path cfg) (cg_db cfg) (sv_files s) = (ok, fs')"
      by (rule prod.exhaust)
    have "images_ok db_ok fs'" using images_promote [OF s(1)] p by (metis snd_conv)
    then show ?thesis
      using s p Cons.IH [of fs' "sv_bucket s"] Inr by (cases ok) (simp_all add: run_serve_def flip: s_def)
  qed
qed simp

section \<open>A server that is set up is not restored over\<close>

lemma restarting_is_restore:
  "list_all2 (\<lambda>(m, p, h) (m', p', T). typed_handler T h \<and> ((202, ''status'') \<in> set T \<longrightarrow> h = handle_auth_restore)) routes contract"
  by (simp add: routes_def contract_def typed_handlers)

lemma setup_done_touch: "runs touch_op q d d' \<Longrightarrow> setup_done d \<Longrightarrow> setup_done d'"
  by (erule claimed.law_runs) (auto simp: serving_op_def any_op_def open_op_def)

lemma restore_refused:
  assumes "setup_done (db_of s)"
  shows "handle_auth_restore W c param rq s = (write_error 409 ''setup already completed'', s)"
  using assms by (simp add: handle_auth_restore_def setup_pending_def setup_done_def with_store_def reply_def)

lemma mux_not_restarting:
  assumes "setup_done (db_of s)"
  shows "\<not> (ap_status (fst (mux W rq c s)) = 202 \<and> body_shape (ap_body (fst (mux W rq c s))) = ''status'')"
proof (cases "route_of rq :: ('a handler \<times> string) option")
  case None
  then show ?thesis by (simp add: mux_def mux_missing_def reply_def)
next
  case (Some hp)
  obtain h param where hp: "hp = (h, param)" by (cases hp)
  obtain m p where "(m, p, h) \<in> set routes" by (rule route_of_cases [OF Some [unfolded hp]])
  then obtain T where T: "typed_handler T h" "(202, ''status'') \<in> set T \<Longrightarrow> h = handle_auth_restore"
    using list_all2_in [OF restarting_is_restore] by fastforce
  have m: "mux W rq c s = h W c param rq s" using Some by (simp add: mux_def hp)
  show ?thesis
  proof (cases "h = handle_auth_restore")
    case True
    then show ?thesis using assms by (simp add: m restore_refused write_error_def)
  next
    case False
    then have "typed T (mux W rq c s)" "(202, ''status'') \<notin> set T" using T by (auto simp: m typed_handler_def)
    then show ?thesis
      by (auto simp: typed_def error_answer_def body_shape_def split: payload.splits)
  qed
qed

lemma no_restore_asked: "setup_done (db_of s) \<Longrightarrow> \<not> restore_asked W rq s"
proof -
  assume d: "setup_done (db_of s)"
  let ?out = "serve (W\<lparr>aw_staged := True\<rparr>) rq s"
  have "refused_or_routed no_quote (W\<lparr>aw_staged := True\<rparr>) rq s ?out" by (rule serve_cases)
  then show ?thesis
  proof (unfold refused_or_routed_def, elim disjE exE conjE)
    assume "error_answer (fst ?out)"
    then show ?thesis by (auto simp: restore_asked_def Let_def error_answer_def body_shape_def split: payload.splits)
  next
    fix c s' assume "?out = mux (W\<lparr>aw_staged := True\<rparr>) rq c s'" "runs touch_op no_quote (db_of s) (db_of s')"
    then show ?thesis using mux_not_restarting [OF setup_done_touch [OF _ d]] by (simp add: restore_asked_def Let_def)
  qed
qed

definition in_step :: "config \<Rightarrow> service \<Rightarrow> bool" where
  "in_step cfg s \<longleftrightarrow> map_of (sv_files s) (cg_db cfg) = Some (Db_Image (db_of (sv_server s)))"

lemma keep_in_step [simp]: "in_step cfg (keep_file cfg s)"
  by (simp add: in_step_def keep_file_def)

lemma step_in_step: "in_step cfg (service_step lib cfg batch s e)"
  by (cases e) simp_all

lemma step_no_restart:
  "setup_done (db_of (sv_server s)) \<Longrightarrow> sv_restore (service_step lib cfg batch s e) = sv_restore s"
  by (cases e) (simp_all add: keep_file_def after_upkeep_def serve_request_def Let_def no_restore_asked split: prod.split)

lemma steps_claimed:
  "setup_done (db_of (sv_server s)) \<Longrightarrow> in_step cfg s \<Longrightarrow>
   in_step cfg (foldl (service_step lib cfg batch) s es) \<and>
   sv_restore (foldl (service_step lib cfg batch) s es) = sv_restore s"
proof (induction es arbitrary: s)
  case (Cons e es)
  then show ?case
    using Cons.IH [of "service_step lib cfg batch s e"] claimed.law_step_db [of s lib cfg batch e]
    by (simp add: step_in_step step_no_restart)
qed simp

text \<open>
  C3. A server that is set up is not restored over. If the database file holds a database whose first
  account has a password, then whatever requests come (the restore of the setup screen among them), whatever is crawled or
  collected, and whatever fails: no run ends with a restart, and the file holds a database that is still set up and
  has lost no account.
\<close>

theorem claimed_service_is_not_restored:
  assumes d: "map_of fs (cg_db cfg) = Some (Db_Image d)" "setup_done d"
  shows "cmd_serve lib cfg batch (r # rs) (fs, b) = cmd_serve lib cfg batch [r] (fs, b) \<and>
    (case cmd_serve lib cfg batch [r] (fs, b) of (ok, fs', b') \<Rightarrow>
      \<exists>d'. map_of fs' (cg_db cfg) = Some (Db_Image d') \<and> setup_done d' \<and> user_ids d \<subseteq> user_ids d')"
proof -
  note set_up = claimed.law_boot_db [of fs cfg d lib "sr_boot r" "sr_jitter r" "sr_now r" b, OF d]
  note accounts = peopled.law_boot_db [of fs cfg d "user_ids d" lib "sr_boot r" "sr_jitter r" "sr_now r" b, OF d(1) subset_refl]
  show ?thesis
  proof (cases "boot lib cfg (sr_boot r) (sr_jitter r) (sr_now r) (fs, b)")
    case (Inl fs')
    then show ?thesis using set_up accounts by (auto simp: run_serve_def)
  next
    case (Inr s)
    let ?s = "foldl (service_step lib cfg batch) s (sr_events r)"
    have s: "setup_done (db_of (sv_server s))" "\<not> sv_restore s" "user_ids d \<subseteq> user_ids (db_of (sv_server s))"
      using set_up accounts Inr by auto
    have "in_step cfg s" using Inr by (auto simp: boot_def split: prod.splits option.splits bool.splits)
    then have "in_step cfg ?s \<and> \<not> sv_restore ?s" using steps_claimed [OF s(1)] s(2) by metis
    moreover have "setup_done (db_of (sv_server ?s))" by (rule claimed.law_steps_db [OF s(1)])
    moreover have "user_ids d \<subseteq> user_ids (db_of (sv_server ?s))" by (rule peopled.law_steps_db [OF s(3)])
    ultimately show ?thesis using Inr by (simp add: run_serve_def in_step_def)
  qed
qed

section \<open>What setup restores is served next\<close>

lemma promote_staged_files:
  assumes "promote_staged bad staged path fs = (True, fs')" "staged \<notin> {path, path @ ''-wal'', path @ ''-shm''}"
  shows "map_of fs' path = map_of fs staged"
  using assms by (auto simp: promote_staged_def split: option.splits prod.splits bool.splits if_splits)

lemma promote_without_faults: "map_of fs staged \<noteq> None \<Longrightarrow> \<exists>fs'. promote_staged no_faults staged path fs = (True, fs')"
  by (auto simp: promote_staged_def no_faults_def)

lemma restore_step:
  assumes "restore_asked (with_options lib cfg W) rq (sv_server s)"
    "stage_restore bad cfg (sv_bucket s) (sv_files s) = (True, fs)"
  shows "sv_restore (service_step lib cfg batch s (Http bad W rq))"
    "\<exists>d. sv_files (service_step lib cfg batch s (Http bad W rq)) = put_file (cg_db cfg) (Db_Image d) fs"
  using assms by (auto simp: serve_request_def Let_def keep_file_def split: prod.splits)

lemma stage_restore_file:
  assumes "stage_restore bad cfg b fs = (True, fs')" "latest_snapshot bad (restore_of cfg) fs b = Inr (Some snap)"
  shows "map_of fs' (staged_path cfg) = content_of fs b snap"
  using assms fetch_snapshot_files [of "staged_path cfg" "staged_path cfg" bad snap b fs] by (simp add: stage_restore_def)

text \<open>
  C14. What setup restores is served next. A request that reaches the restore of the setup screen and whose
  staging works asks for the restart, and when the staged file is then put in place, the next run serves
  exactly the database of the snapshot that was the latest, provided that has a feed and is not seeded.
\<close>

theorem setup_restore_is_served:
  assumes asked: "restore_asked (with_options lib cfg W) rq (sv_server s)"
    and staged: "stage_restore bad cfg (sv_bucket s) (sv_files s) = (True, fs)"
    and promoted: "promote_staged bad' (staged_path cfg) (cg_db cfg) (sv_files (service_step lib cfg batch s (Http bad W rq))) = (True, fs')"
    and snap: "latest_snapshot bad (restore_of cfg) (sv_files s) (sv_bucket s) = Inr (Some snap)"
      "content_of (sv_files s) (sv_bucket s) snap = Some (Db_Image d)" "list_feeds d \<noteq> []"
  shows "sv_restore (service_step lib cfg batch s (Http bad W rq)) \<and>
    (\<exists>s'. boot lib cfg no_faults jitter now (fs', b) = Inr s' \<and> db_of (sv_server s') = d)"
proof -
  let ?s = "service_step lib cfg batch s (Http bad W rq)"
  have "map_of fs (staged_path cfg) = Some (Db_Image d)"
    using stage_restore_file [OF staged snap(1)] snap(2) by simp
  moreover obtain d' where "sv_files ?s = put_file (cg_db cfg) (Db_Image d') fs"
    using restore_step(2) [OF asked staged] by blast
  moreover have other: "staged_path cfg \<noteq> cg_db cfg" "staged_path cfg \<notin> {cg_db cfg, cg_db cfg @ ''-wal'', cg_db cfg @ ''-shm''}"
    by (simp_all add: staged_path_def)
  ultimately have "map_of fs' (cg_db cfg) = Some (Db_Image d)"
    using promote_staged_files [OF promoted other(2)] by simp
  then have "boot lib cfg no_faults jitter now (fs', b) =
      Inr (keep_file cfg \<lparr>sv_server = start_server cfg d, sv_files = fs', sv_bucket = b, sv_restore = False\<rparr>)"
    using snap(3) by (simp add: boot_def restore_if_missing_def no_faults_def open_store_def seed_if_empty_def)
  then show ?thesis
    using restore_step(1) [OF asked staged] by (simp add: keep_file_def start_server_def new_server_def Let_def)
qed

section \<open>A concrete run, for witnesses\<close>

definition sample_lib :: service_lib where
  "sample_lib = \<lparr>sl_cal = (\<lambda>_. ''20260104''), sl_enc = (\<lambda>_. []), sl_dec = (\<lambda>_. None), sl_seed = [], sl_version = ''v''\<rparr>"

definition sample_settings :: config where
  \<comment> \<open>the defaults, and a directory for backups\<close>
  "sample_settings = (env_strings (\<lambda>_. None))\<lparr>cg_backup_dir := ''b''\<rparr>"

definition restore_request :: request where
  "restore_request = sample_request ''POST'' [''api'', ''v1'', ''auth'', ''restore'']"

definition sample_run :: "string serve_run" where
  "sample_run = \<lparr>sr_boot = no_faults, sr_jitter = (\<lambda>_. 0), sr_now = 20 * ns_sec,
     sr_events = [Http no_faults sample_api restore_request, Crawl_Tick (\<lambda>_. sample_world 200 (\<lambda>_. False)) (30 * ns_sec),
       Maintain no_faults (40 * ns_sec)], sr_signal = False, sr_failed = False, sr_promote = no_faults\<rparr>"

theorem service_keeps_the_data_witness:
  "images_ok db_ok (fst (snd (cmd_serve sample_lib sample_settings 200 [sample_run, sample_run]
     ([(''b/feedla-20260101.db'', Db_Image sample_api_db)], []))))"
  using service_keeps_the_data [of "[(''b/feedla-20260101.db'', Db_Image sample_api_db)]" "[]" sample_lib sample_settings 200
      "[sample_run, sample_run]"]
  by (auto simp: images_ok_def sample_api_ok split: prod.splits)

theorem claimed_service_is_not_restored_witness:
  "\<exists>d'. map_of (fst (snd (cmd_serve sample_lib sample_settings 200 [sample_run] ([(''feedla.db'', Db_Image sample_api_db)], []))))
      ''feedla.db'' = Some (Db_Image d') \<and> setup_done d'"
proof -
  have "cg_db sample_settings = ''feedla.db''" by (simp add: sample_settings_def env_strings_def get_env_def)
  with claimed_service_is_not_restored [of "[(''feedla.db'', Db_Image sample_api_db)]" sample_settings sample_api_db
      sample_lib 200 sample_run "[]" "[]", OF _ sample_claimed]
  show ?thesis by (auto split: prod.splits)
qed

definition sample_fresh :: service where
  \<comment> \<open>a first start: nobody has a password, and a snapshot of another server lies in the directory\<close>
  "sample_fresh = \<lparr>sv_server = new_server (init_db 0) 0 0 0 0,
     sv_files = [(''b/feedla-20260101.db'', Db_Image sample_api_db)], sv_bucket = [], sv_restore = False\<rparr>"

theorem setup_restore_is_served_witness:
  "\<exists>fs' s'. promote_staged no_faults (staged_path sample_settings) (cg_db sample_settings)
        (sv_files (service_step sample_lib sample_settings 200 sample_fresh (Http no_faults sample_api restore_request))) = (True, fs')
    \<and> boot sample_lib sample_settings no_faults (\<lambda>_. 0) 0 (fs', []) = Inr s' \<and> db_of (sv_server s') = sample_api_db"
proof -
  let ?cfg = sample_settings and ?W = "with_options sample_lib sample_settings sample_api"
  have cfg: "cg_db ?cfg = ''feedla.db''" "staged_path ?cfg = ''feedla.db.restore''" "restore_of ?cfg = \<lparr>rs_dir = ''b'', rs_remote = None\<rparr>"
    by (simp_all add: sample_settings_def env_strings_def get_env_def staged_path_def restore_of_def remote_of_def Let_def)
  have asked: "restore_asked ?W restore_request (sv_server sample_fresh)" by code_simp
  have found: "latest_local ''b'' (sv_files sample_fresh) = Some ''b/feedla-20260101.db''"
    by (simp add: sample_fresh_def) code_simp
  have snap: "latest_snapshot no_faults (restore_of ?cfg) (sv_files sample_fresh) (sv_bucket sample_fresh)
      = Inr (Some (Local_Snapshot ''b/feedla-20260101.db''))"
    by (simp add: cfg latest_snapshot_def found)
  have content: "content_of (sv_files sample_fresh) (sv_bucket sample_fresh) (Local_Snapshot ''b/feedla-20260101.db'')
      = Some (Db_Image sample_api_db)"
    by (simp add: content_of_def sample_fresh_def)
  have fed: "list_feeds sample_api_db \<noteq> []" by code_simp
  obtain fs where staged: "stage_restore no_faults ?cfg (sv_bucket sample_fresh) (sv_files sample_fresh) = (True, fs)"
    using content by (auto simp: stage_restore_def snap fetch_snapshot_def copy_file_def write_via_tmp_def no_faults_def
        content_of_def Let_def)
  obtain fs' where "promote_staged no_faults (staged_path ?cfg) (cg_db ?cfg)
        (sv_files (service_step sample_lib ?cfg 200 sample_fresh (Http no_faults sample_api restore_request))) = (True, fs')"
    using promote_without_faults [of _ "staged_path ?cfg"] restore_step [OF asked staged] stage_restore_file [OF staged snap] content
    by (force simp: cfg)
  then show ?thesis using setup_restore_is_served [OF asked staged _ snap content fed] by blast
qed

end
