(* ===== verification/Spec2Isabelle.thy ===== *)
theory Spec2Isabelle
  imports StoreLaws ReadingLaws FeedLaws Limits Robots Backoff Dialer Fetcher HostSem Truncate PagewatchDiff
    Pagewatch Selector Boilerplate Articles Crawler CrawlLaws EnrichLaws Password
    Inspect Discover Opml ApiServe ApiAccounts ApiPages ApiAnswers Backups Maintenance Config Migrations Metrics Service
begin

text \<open>
  feedla, a feed reader for several users, as a library of theories: the SQLite store, the crawler
  with its extractors, the HTTP API on top of both, and the server that runs them beside the upkeep.

  How the parts interact. The database is the shared state: feeds and entries are common to all
  users, subscriptions, folders, pins, ignore words and read marks belong to one. The scheduler
  claims due feeds and crawls them; one crawl fetches a feed or a watched page, may fetch the articles
  behind it, and writes what it found with the fan-out to every subscriber. An API request is
  authenticated, limited, routed to a handler, and the handler makes a few store calls, sometimes a
  crawl or a page fetch. Once a day the upkeep collects garbage and writes a snapshot of the database to a
  directory and a bucket; a server that finds no database, or whose setup screen asks for it, starts on
  the latest snapshot.

  Which theory models what (paths under \<open>src/\<close>):

    \<^item> \<open>Prelude\<close>, \<open>Numbers\<close>, \<open>Html\<close>: Go strings as byte lists, tables as lists of rows, strconv, document trees.
    \<^item> \<open>Db\<close>, \<open>DbInv\<close>, \<open>StoreUsers\<close>, \<open>StoreSubs\<close>, \<open>StoreEntries\<close>, \<open>StoreFeeds\<close> (\<open>internal/store\<close>): the schema as
      records, a function of the database per method, and the invariant \<open>db_ok\<close>. \<open>StoreOps\<close> is the machine
      of all writing methods, \<open>StoreRuns\<close> its runs within a class of calls; \<open>StoreLaws\<close>, \<open>ReadingLaws\<close> and
      \<open>FeedLaws\<close> hold what the store promises over any sequence of calls.
    \<^item> \<open>Limits\<close>, \<open>Password\<close> (\<open>internal/auth\<close>, tokens of \<open>internal/inspect\<close>): limiters, single-use tokens,
      password hashes.
    \<^item> \<open>Robots\<close>, \<open>Backoff\<close>, \<open>Dialer\<close>, \<open>HostSem\<close>, \<open>Fetcher\<close>, \<open>Truncate\<close>, \<open>Articles\<close>, \<open>Scraping\<close>, \<open>Crawler\<close>
      (\<open>internal/crawler\<close>, \<open>internal/fulltext\<close>): robots.txt, intervals, the address filter, the per-host
      semaphore as a step relation, one fetch, and one crawl of a feed; \<open>CrawlLaws\<close> and \<open>EnrichLaws\<close> say
      what a crawl does to the database and to the entries on their way there.
    \<^item> \<open>PagewatchDiff\<close>, \<open>Pagewatch\<close>, \<open>Selector\<close>, \<open>Boilerplate\<close> (\<open>internal/extract\<close>,
      \<open>internal/fulltext/boilerplate\<close>): watched pages, listings, repeated page parts.
    \<^item> \<open>Discover\<close>, \<open>Opml\<close> (\<open>internal/feed\<close>), \<open>Inspect\<close> (\<open>internal/inspect\<close>): finding feeds, import and export,
      the sanitized page of the selector picker.
    \<^item> \<open>Api\<close>, \<open>ApiAuth\<close>, \<open>ApiReading\<close>, \<open>ApiScrape\<close>, \<open>ApiServe\<close> (\<open>internal/api\<close>): the frame, every handler, the
      routing table and the middlewares; \<open>serve\<close> is one request. \<open>ApiRuns\<close> and \<open>ApiHandlers\<close> show that a
      request is a run of store calls of the class its sender allows; \<open>ApiReaders\<close>, \<open>ApiAccounts\<close> and
      \<open>ApiPages\<close> draw the promises to readers, about accounts and about pages of entries from that, with
      the inputs of \<open>ApiSample\<close> for the concrete instances; \<open>ApiAnswers\<close> has the type of every answer.
    \<^item> \<open>Backups\<close>, \<open>Maintenance\<close> (\<open>internal/store/backup.go\<close>, \<open>internal/remotebackup\<close>, \<open>internal/restore\<close>,
      \<open>internal/maintenance\<close>): files and objects as tables, each call of which may fail; snapshots, pruning,
      restoring, the daily pass, and what all of them leave to the readers.
    \<^item> \<open>Config\<close>, \<open>Migrations\<close>, \<open>Metrics\<close> (\<open>internal/config\<close>, \<open>internal/store/migrate.go\<close>, \<open>internal/metrics\<close>): the
      environment, the migration runner over any scripts, the histogram of fetches.
    \<^item> \<open>Service\<close> (\<open>cmd/feedla\<close>, \<open>internal/crawler/scheduler.go\<close>): the commands and the server as a whole.
      \<open>service_step\<close> is one request, crawl tick or pass of the upkeep; \<open>cmd_serve\<close> is the loop of runs with
      restarts between them. A law of the database that every store call keeps is a law of all its runs.

  Correspondence. A method that changes state takes the state and gives it back, errors are values
  of a sum, a transaction that fails leaves the database alone. Lengths and counters are naturals,
  int64 values and times integers; where an overflow can matter (\<open>Backoff\<close>, \<open>Fetcher\<close>, \<open>Numbers\<close>) the
  wrap-around or the range check is written out. Everything outside the repository is an argument: SQLite's
  full-text matching, gofeed, readability, the HTML parser and policy, cascadia, JSON, regular
  expressions, net/url, the network, clocks and random numbers.

  Interfaces are locales, each interpreted on the model's own definitions: a machine that keeps an
  invariant (store, crawler and API), a class of store calls that keeps a relation between databases,
  a law of the database that a running server keeps, a decision that leaves a table alone, and the
  others stated in their theories.

  Bounds and fuel. Recursion that follows redirects carries the ten hops of the code, walks of the client in
  \<open>ApiPages\<close> a fuel that the theorem fixes at one more than the number of entries; every other
  function terminates by its structure or a measure.

  Not modelled: connection strings, pragmas and pools of the SQLite driver, and disk failures in API
  requests (the calls of a crawl, the upkeep, a migration and a start may fail); goroutines outside the
  host semaphore at a grain finer than a request, a feed or a pass; redirects of the ServeMux, compression
  (\<open>gzip_middleware.go\<close>), response headers other than the session cookie, and static files
  (\<open>internal/web\<close>); timing (constant-time comparison, the dummy hash, the two login slots); logging and
  the parsing of command line flags; the picker script, which is JavaScript, and the web client, which is
  TypeScript; the test server and the fixture tool, which are not part of the server.
\<close>

end
